(* ===== verification/Prelude.thy ===== *)
theory Prelude
  imports Main "HOL-Library.Word" "HOL-Library.Multiset" "HOL-Library.Sublist"
begin

text \<open>
  The shared base of the development. It holds the fallible result type, the list
  operations of the Go package \<open>slices\<close> that the components use, the clock constants of
  \<open>internal/sim/simulation.go\<close>, and the generic lemmas that the component proofs share.
\<close>

unbundle bit_operations_syntax

named_theorems podsim_simps \<open>rewrite rules of the model operations\<close>

section \<open>Results\<close>

text \<open>A Go function that returns a value and an error returns a sum: \<open>Inl\<close> is the error.\<close>

type_synonym ('e, 'a) result = "'e + 'a"

abbreviation is_ok :: "('e, 'a) result \<Rightarrow> bool" where
  "is_ok r \<equiv> \<not> isl r"

lemma is_ok_Inr [simp]: "is_ok (Inr x)"
  by simp

lemma is_ok_ex: "is_ok r \<longleftrightarrow> (\<exists>x. r = Inr x)"
  by (cases r) auto

section \<open>Clock and counter constants\<close>

definition TicksPerSecond :: int where
  "TicksPerSecond = 60"

definition boardingTicks :: int where
  "boardingTicks = 3 * TicksPerSecond"

definition unloadingTicks :: int where
  "unloadingTicks = 2 * TicksPerSecond"

definition MaxSharedRideParties :: int where
  "MaxSharedRideParties = 8"

definition MaxCounter :: int where
  "MaxCounter = 2 ^ 53 - 1"

definition MaxInt64 :: int where
  "MaxInt64 = 2 ^ 63 - 1"

lemma TicksPerSecond_pos [simp]: "0 < TicksPerSecond"
  by (simp add: TicksPerSecond_def)

section \<open>Slices\<close>

text \<open>
  \<open>slices.IndexFunc\<close> returns the first index whose element satisfies the test, or -1;
  the model returns \<open>None\<close> for -1. \<open>slices.Delete(xs, i, i+1)\<close> and
  \<open>slices.Insert(xs, i, x)\<close> are \<open>delete_at\<close> and \<open>insert_at\<close>.
\<close>

fun index_func :: "('a \<Rightarrow> bool) \<Rightarrow> 'a list \<Rightarrow> nat option" where
  "index_func p [] = None"
| "index_func p (x # xs) = (if p x then Some 0 else map_option Suc (index_func p xs))"

definition delete_at :: "nat \<Rightarrow> 'a list \<Rightarrow> 'a list" where
  "delete_at i xs = take i xs @ drop (Suc i) xs"

definition insert_at :: "nat \<Rightarrow> 'a \<Rightarrow> 'a list \<Rightarrow> 'a list" where
  "insert_at i x xs = take i xs @ x # drop i xs"

lemma index_func_Some:
  "index_func p xs = Some i \<Longrightarrow> i < length xs \<and> p (xs ! i) \<and> (\<forall>j<i. \<not> p (xs ! j))"
proof (induction xs arbitrary: i)
  case (Cons x xs)
  then show ?case
    by (cases i) (auto split: if_splits simp: nth_Cons split: nat.splits)
qed simp

lemma index_func_None: "index_func p xs = None \<longleftrightarrow> (\<forall>x\<in>set xs. \<not> p x)"
  by (induction xs) auto

lemma index_func_None_nth: "index_func p xs = None \<Longrightarrow> i < length xs \<Longrightarrow> \<not> p (xs ! i)"
  by (auto simp: index_func_None)

lemma length_delete_at [simp]: "i < length xs \<Longrightarrow> length (delete_at i xs) = length xs - 1"
  by (simp add: delete_at_def)

lemma mset_delete_at: "i < length xs \<Longrightarrow> mset (delete_at i xs) + {#xs ! i#} = mset xs"
proof -
  assume i: "i < length xs"
  have "mset xs = mset (take i xs @ xs ! i # drop (Suc i) xs)"
    using i by (simp add: id_take_nth_drop [symmetric])
  then show ?thesis by (simp add: delete_at_def)
qed

lemma set_delete_at: "set (delete_at i xs) \<subseteq> set xs"
  by (auto simp: delete_at_def dest: in_set_takeD in_set_dropD)

lemma delete_at_map: "delete_at i (map f xs) = map f (delete_at i xs)"
  by (simp add: delete_at_def take_map drop_map)

lemma mset_insert_at [simp]: "mset (insert_at i x xs) = add_mset x (mset xs)"
proof -
  have "mset (take i xs) + mset (drop i xs) = mset xs"
    by (metis append_take_drop_id mset_append)
  then show ?thesis by (simp add: insert_at_def)
qed

lemma set_insert_at [simp]: "set (insert_at i x xs) = insert x (set xs)"
proof -
  have "set (take i xs) \<union> set (drop i xs) = set xs"
    by (metis append_take_drop_id set_append)
  then show ?thesis by (auto simp: insert_at_def)
qed

lemma length_insert_at [simp]: "length (insert_at i x xs) = Suc (length xs)"
  by (metis mset_insert_at size_mset size_add_mset)

lemma sum_list_delete_at:
  fixes f :: "'a \<Rightarrow> int"
  assumes "i < length xs"
  shows "sum_list (map f (delete_at i xs)) = sum_list (map f xs) - f (xs ! i)"
proof -
  have "sum_mset (image_mset f (mset (delete_at i xs) + {#xs ! i#})) = sum_mset (image_mset f (mset xs))"
    using mset_delete_at [OF assms] by simp
  then show ?thesis by (simp add: sum_mset_sum_list flip: mset_map)
qed

section \<open>Tallies of a list updated in place\<close>

definition tally :: "('a \<Rightarrow> bool) \<Rightarrow> 'a list \<Rightarrow> int" where
  "tally p xs = int (length (filter p xs))"

lemma tally_Nil [simp]: "tally p [] = 0"
  by (simp add: tally_def)

lemma tally_append [simp]: "tally p (xs @ ys) = tally p xs + tally p ys"
  by (simp add: tally_def)

lemma tally_Cons [simp]: "tally p (x # xs) = (if p x then 1 else 0) + tally p xs"
  by (simp add: tally_def)

lemma tally_nonneg [simp]: "0 \<le> tally p xs"
  by (simp add: tally_def)

lemma tally_pos: "x \<in> set xs \<Longrightarrow> p x \<Longrightarrow> 1 \<le> tally p xs"
  by (induction xs) (auto intro: add_nonneg_nonneg)

lemma tally_le_length: "tally p xs \<le> int (length xs)"
  by (simp add: tally_def)

lemma tally_update:
  assumes "i < length xs"
  shows "tally p (xs[i := y]) = tally p xs - (if p (xs ! i) then 1 else 0) + (if p y then 1 else 0)"
proof -
  have "tally p xs = tally p (take i xs @ xs ! i # drop (Suc i) xs)"
    using assms by (simp add: id_take_nth_drop [symmetric])
  moreover have "xs[i := y] = take i xs @ y # drop (Suc i) xs"
    using assms by (rule upd_conv_take_nth_drop)
  ultimately show ?thesis by simp
qed

lemma tally_cong: "(\<And>x. x \<in> set xs \<Longrightarrow> p x = q x) \<Longrightarrow> tally p xs = tally q xs"
  by (induction xs) auto

lemma tally_split:
  "(\<And>x. x \<in> set xs \<Longrightarrow> p x \<Longrightarrow> \<not> q x) \<Longrightarrow> tally (\<lambda>x. p x \<or> q x) xs = tally p xs + tally q xs"
  by (induction xs) auto

section \<open>Step relations\<close>

text \<open>
  The contract between the steps of a component and its invariant. A client proves once what holds in every run; a
  component gives the contract by an interpretation.
\<close>

locale step_invariant =
  fixes step :: "'s \<Rightarrow> 's \<Rightarrow> bool" and inv :: "'s \<Rightarrow> bool"
  assumes kept: "step s t \<Longrightarrow> inv s \<Longrightarrow> inv t"
begin

lemma run_inv: "step\<^sup>*\<^sup>* s t \<Longrightarrow> inv s \<Longrightarrow> inv t"
  by (induction rule: rtranclp_induct) (blast intro: kept)+

lemma run_from: "step\<^sup>*\<^sup>* s t \<Longrightarrow> init s \<Longrightarrow> (\<And>s. init s \<Longrightarrow> inv s) \<Longrightarrow> (\<And>t. inv t \<Longrightarrow> P t) \<Longrightarrow> P t"
  using run_inv by blast

end

end
