(* ===== verification/ClassSets.thy ===== *)
theory ClassSets
  imports Prelude
begin

text \<open>
  Identifier text and vehicle-class allowlists: \<open>internal/sim/text.go\<close> and
  \<open>internal/sim/class_set.go\<close>. A Go string is a list of bytes (\<open>string\<close>). A \<open>ClassSet\<close> is a
  \<open>uint8\<close>, kept as \<open>8 word\<close> with the bit operations of the source. The JSON decoder of the
  standard library is seen through the tokens that \<open>decodeClassSet\<close> reads from it.
\<close>

section \<open>Identifier text and UTF-8\<close>

definition idCharacter :: "char \<Rightarrow> bool" where
  "idCharacter c =
    (let b = (of_char c :: nat) in
      65 \<le> b \<and> b \<le> 90 \<or> 97 \<le> b \<and> b \<le> 122 \<or> 48 \<le> b \<and> b \<le> 57 \<or>
      b = 46 \<or> b = 43 \<or> b = 45)"

fun ValidIDText :: "string \<Rightarrow> bool" where
  "ValidIDText [] = True"
| "ValidIDText (c # cs) = (if \<not> idCharacter c then False else ValidIDText cs)"

text \<open>
  \<open>utf8.ValidString\<close> of the standard library accepts exactly the byte sequences of the
  Unicode standard: no overlong form, no surrogate, nothing above U+10FFFF.
\<close>

definition utf8_cont :: "nat \<Rightarrow> bool" where
  "utf8_cont b = (128 \<le> b \<and> b \<le> 191)"

fun utf8_bytes :: "nat list \<Rightarrow> bool" where
  "utf8_bytes [] = True"
| "utf8_bytes (a # bs) =
    (if a < 128 then utf8_bytes bs
     else if 194 \<le> a \<and> a \<le> 223 then
       (case bs of b # cs \<Rightarrow> utf8_cont b \<and> utf8_bytes cs | _ \<Rightarrow> False)
     else if 224 \<le> a \<and> a \<le> 239 then
       (case bs of b # c # cs \<Rightarrow>
          utf8_cont b \<and> utf8_cont c \<and> (a = 224 \<longrightarrow> 160 \<le> b) \<and> (a = 237 \<longrightarrow> b \<le> 159) \<and> utf8_bytes cs
        | _ \<Rightarrow> False)
     else if 240 \<le> a \<and> a \<le> 244 then
       (case bs of b # c # d # cs \<Rightarrow>
          utf8_cont b \<and> utf8_cont c \<and> utf8_cont d \<and>
          (a = 240 \<longrightarrow> 144 \<le> b) \<and> (a = 244 \<longrightarrow> b \<le> 143) \<and> utf8_bytes cs
        | _ \<Rightarrow> False)
     else False)"

definition utf8_ValidString :: "string \<Rightarrow> bool" where
  "utf8_ValidString s = utf8_bytes (map of_char s)"

lemma ValidIDText_all: "ValidIDText s \<longleftrightarrow> (\<forall>c\<in>set s. idCharacter c)"
  by (induction s) auto

lemma idCharacter_ascii: "idCharacter c \<Longrightarrow> (of_char c :: nat) < 128"
  by (auto simp: idCharacter_def Let_def)

lemma ValidIDText_utf8: "ValidIDText s \<Longrightarrow> utf8_ValidString s"
  unfolding utf8_ValidString_def by (induction s) (auto dest: idCharacter_ascii split: if_splits)

definition orderIDBytes :: nat where
  "orderIDBytes = 64"

definition validOrderID :: "string \<Rightarrow> bool" where
  "validOrderID ident = (ident \<noteq> [] \<and> length ident \<le> orderIDBytes \<and> ValidIDText ident)"

definition boundedContractID :: "string \<Rightarrow> bool" where
  "boundedContractID ident = (ident \<noteq> [] \<and> length ident \<le> 64 \<and> utf8_ValidString ident)"

lemma validOrderID_bounded: "validOrderID s \<Longrightarrow> boundedContractID s"
  by (simp add: validOrderID_def boundedContractID_def orderIDBytes_def ValidIDText_utf8)

section \<open>Class sets\<close>

type_synonym ClassSet = "8 word"

definition allClassBits :: ClassSet where
  "allClassBits = 15"

definition classSetNames :: "string list" where
  "classSetNames = [''legacy'', ''compact'', ''group'', ''express'']"

fun classBitFrom :: "nat \<Rightarrow> string list \<Rightarrow> string \<Rightarrow> ClassSet" where
  "classBitFrom index [] class = 0"
| "classBitFrom index (name # names) class =
    (if class = name then push_bit index 1 else classBitFrom (Suc index) names class)"

definition classBit :: "string \<Rightarrow> ClassSet" where
  "classBit class = classBitFrom 0 classSetNames class"

datatype class_error =
    EntryCount
  | UnknownClass string
  | DuplicateClass string
  | InvalidBits
  | NotNonemptyArray
  | EntryNotText
  | TooManyEntries
  | UnknownEntry
  | RepeatedEntry
  | TokenError
  | TrailingData

fun newClassSetLoop :: "string list \<Rightarrow> ClassSet \<Rightarrow> (class_error, ClassSet) result" where
  "newClassSetLoop [] acc = Inr acc"
| "newClassSetLoop (class # classes) acc =
    (let bit = classBit class in
      if bit = 0 then Inl (UnknownClass class)
      else if acc AND bit \<noteq> 0 then Inl (DuplicateClass class)
      else newClassSetLoop classes (acc OR bit))"

definition NewClassSet :: "string list \<Rightarrow> (class_error, ClassSet) result" where
  "NewClassSet classes =
    (if length classes < 1 \<or> length classes > length classSetNames then Inl EntryCount
     else newClassSetLoop classes 0)"

definition Allows :: "ClassSet \<Rightarrow> string \<Rightarrow> bool" where
  "Allows cs class =
    (if cs AND NOT allClassBits \<noteq> 0 then False
     else
       let class' = (if class = [] then ''legacy'' else class);
           cs' = (if cs = 0 then 3 else cs)
       in cs' AND classBit class' \<noteq> 0)"

text \<open>\<open>MarshalJSON\<close> encodes the returned list of names as a JSON array of strings.\<close>

definition MarshalNames :: "ClassSet \<Rightarrow> (class_error, string list) result" where
  "MarshalNames cs =
    (if cs AND NOT allClassBits \<noteq> 0 then Inl InvalidBits
     else Inr (filter (Allows cs) classSetNames))"

text \<open>
  The tokens of \<open>jsontext.Decoder\<close>: \<open>BadToken\<close> is a position at which \<open>ReadToken\<close> fails, and the
  empty list is the end of the input (\<open>io.EOF\<close>). \<open>PeekKind\<close> sees the same token.
\<close>

datatype json_token = BeginArray | EndArray | StringToken string | OtherToken | BadToken

fun decodeClassEntries ::
  "json_token list \<Rightarrow> nat \<Rightarrow> ClassSet \<Rightarrow> (class_error, ClassSet \<times> json_token list) result" where
  "decodeClassEntries (EndArray # ts) seen acc =
    (if seen = 0 then Inl NotNonemptyArray else Inr (acc, ts))"
| "decodeClassEntries ts seen acc =
    (if seen = length classSetNames then Inl TooManyEntries
     else case ts of
       [] \<Rightarrow> Inl TokenError
     | BadToken # _ \<Rightarrow> Inl TokenError
     | StringToken text # rest \<Rightarrow>
         (let bit = classBit text in
           if bit = 0 then Inl UnknownEntry
           else if acc AND bit \<noteq> 0 then Inl RepeatedEntry
           else decodeClassEntries rest (Suc seen) (acc OR bit))
     | _ # _ \<Rightarrow> Inl EntryNotText)"

definition decodeClassSet ::
  "json_token list \<Rightarrow> (class_error, ClassSet \<times> json_token list) result" where
  "decodeClassSet ts =
    (case ts of
       [] \<Rightarrow> Inl TokenError
     | BadToken # _ \<Rightarrow> Inl TokenError
     | BeginArray # rest \<Rightarrow> decodeClassEntries rest 0 0
     | _ # _ \<Rightarrow> Inl NotNonemptyArray)"

text \<open>\<open>UnmarshalJSON\<close> returns the new value of the set, and keeps the old value on an error.\<close>

definition UnmarshalJSON :: "ClassSet \<Rightarrow> json_token list \<Rightarrow> class_error option \<times> ClassSet" where
  "UnmarshalJSON cs ts =
    (case decodeClassSet ts of
       Inl e \<Rightarrow> (Some e, cs)
     | Inr (new, rest) \<Rightarrow>
         (case rest of
            [] \<Rightarrow> (None, new)
          | BadToken # _ \<Rightarrow> (Some TokenError, cs)
          | _ # _ \<Rightarrow> (Some TrailingData, cs)))"

section \<open>The set that a word stands for\<close>

definition class_members :: "ClassSet \<Rightarrow> string set" where
  "class_members cs = {c. cs AND classBit c \<noteq> 0}"

lemma classBit_cases:
  "classBit c = (if c = ''legacy'' then 1 else if c = ''compact'' then 2
    else if c = ''group'' then 4 else if c = ''express'' then 8 else 0)"
  by (simp add: classBit_def classSetNames_def)

lemma classBit_0: "classBit c = 0 \<longleftrightarrow> c \<notin> set classSetNames"
  by (simp add: classBit_cases classSetNames_def)

lemma classBit_disjoint: "classBit c AND classBit d \<noteq> 0 \<longleftrightarrow> c = d \<and> c \<in> set classSetNames"
  by (auto simp: classBit_cases classSetNames_def)

lemma class_members_0 [simp]: "class_members 0 = {}"
  by (simp add: class_members_def)

lemma class_members_or:
  "classBit c \<noteq> 0 \<Longrightarrow> class_members (cs OR classBit c) = insert c (class_members cs)"
  by (auto simp: class_members_def bit.conj_disj_distrib2 or_eq_0_iff classBit_disjoint classBit_0)

lemma classBit_valid: "classBit c AND NOT allClassBits = 0"
  by (simp add: classBit_cases allClassBits_def)

lemma class_members_names: "class_members cs \<subseteq> set classSetNames"
  by (auto simp: class_members_def classBit_cases classSetNames_def split: if_splits)


section \<open>Constructing a set\<close>

lemma newClassSetLoop_iff:
  "newClassSetLoop cs acc = Inr r \<longleftrightarrow>
     distinct cs \<and> set cs \<subseteq> set classSetNames \<and> set cs \<inter> class_members acc = {} \<and>
     r = fold (\<lambda>c a. a OR classBit c) cs acc"
proof (induction cs arbitrary: acc)
  case (Cons c cs)
  show ?case
  proof (cases "classBit c = 0 \<or> acc AND classBit c \<noteq> 0")
    case True
    then show ?thesis
      by (auto simp: Let_def classBit_0 class_members_def)
  next
    case False
    then show ?thesis
      using Cons.IH [of "acc OR classBit c"] class_members_or [of c acc]
      by (auto simp: Let_def classBit_0 class_members_def)
  qed
qed auto

lemma class_members_fold:
  "set cs \<subseteq> set classSetNames \<Longrightarrow>
     class_members (fold (\<lambda>c a. a OR classBit c) cs acc) = class_members acc \<union> set cs"
  by (induction cs arbitrary: acc) (auto simp: class_members_or classBit_0)

lemma fold_classBit_valid:
  "acc AND NOT allClassBits = 0 \<Longrightarrow>
     fold (\<lambda>c a. a OR classBit c) cs acc AND NOT allClassBits = 0"
  by (induction cs arbitrary: acc) (auto simp: bit.conj_disj_distrib2 classBit_valid)

lemma distinct_names_length:
  "distinct cs \<Longrightarrow> set cs \<subseteq> set classSetNames \<Longrightarrow> length cs \<le> length classSetNames"
  by (metis card_length card_mono distinct_card finite_set le_trans)

lemma NewClassSet_Inr:
  "NewClassSet cs = Inr r \<longleftrightarrow>
     cs \<noteq> [] \<and> distinct cs \<and> set cs \<subseteq> set classSetNames \<and>
     r = fold (\<lambda>c a. a OR classBit c) cs 0"
  using distinct_names_length [of cs]
  by (cases cs) (auto simp: NewClassSet_def newClassSetLoop_iff simp del: newClassSetLoop.simps)

lemma Allows_members:
  assumes "cs AND NOT allClassBits = 0" and "cs \<noteq> 0"
  shows "Allows cs c \<longleftrightarrow> (if c = [] then ''legacy'' else c) \<in> class_members cs"
  using assms by (simp add: Allows_def class_members_def Let_def)

text \<open>
  C38. \<open>NewClassSet\<close> accepts exactly the lists of one to four distinct known class names, and
  the set that it builds admits exactly the listed classes, where an omitted class (the empty
  name) counts as legacy.
\<close>

theorem NewClassSet_correct:
  "(is_ok (NewClassSet cs) \<longleftrightarrow>
     1 \<le> length cs \<and> length cs \<le> 4 \<and> distinct cs \<and> set cs \<subseteq> set classSetNames) \<and>
   (\<forall>r. NewClassSet cs = Inr r \<longrightarrow>
     (\<forall>c. Allows r c \<longleftrightarrow> (if c = [] then ''legacy'' else c) \<in> set cs))"
proof (intro conjI allI impI)
  show "is_ok (NewClassSet cs) \<longleftrightarrow>
     1 \<le> length cs \<and> length cs \<le> 4 \<and> distinct cs \<and> set cs \<subseteq> set classSetNames"
    using distinct_names_length [of cs]
    by (cases cs) (auto simp: is_ok_ex NewClassSet_Inr, auto simp: classSetNames_def)
next
  fix r c assume r: "NewClassSet cs = Inr r"
  then have m: "class_members r = set cs" and v: "r AND NOT allClassBits = 0" and ne: "cs \<noteq> []"
    using class_members_fold [of cs 0] fold_classBit_valid [of 0 cs]
    by (auto simp: NewClassSet_Inr)
  from m ne have "r \<noteq> 0" by auto
  with v show "Allows r c \<longleftrightarrow> (if c = [] then ''legacy'' else c) \<in> set cs"
    by (simp add: Allows_members m)
qed

theorem NewClassSet_correct_witness:
  "NewClassSet [''compact'', ''express''] = Inr 10 \<and> Allows 10 ''express'' \<and> \<not> Allows 10 []"
proof -
  have r: "NewClassSet [''compact'', ''express''] = Inr 10"
    by (simp add: NewClassSet_def classSetNames_def classBit_def)
  show ?thesis
    using r NewClassSet_correct [of "[''compact'', ''express'']"] by simp
qed

section \<open>Decoding\<close>

lemma decodeClassEntries_array:
  "n \<le> length classSetNames \<Longrightarrow> decodeClassEntries (map StringToken cs @ EndArray # rest) n acc = Inr (r, ts) \<longleftrightarrow>
     (cs \<noteq> [] \<or> n \<noteq> 0) \<and> n + length cs \<le> length classSetNames \<and>
     newClassSetLoop cs acc = Inr r \<and> ts = rest"
  by (induction cs arbitrary: n acc) (auto simp: Let_def)

text \<open>
  Decoding the JSON array of a list of names accepts the same lists as \<open>NewClassSet\<close>,
  gives the same set, and leaves the rest of the input.
\<close>

lemma decodeClassSet_agrees:
  "decodeClassSet (BeginArray # map StringToken cs @ EndArray # rest) = Inr (r, ts) \<longleftrightarrow>
     NewClassSet cs = Inr r \<and> ts = rest"
  by (auto simp: decodeClassSet_def decodeClassEntries_array NewClassSet_def Suc_le_eq)

lemma valid_word_cases:
  fixes cs :: ClassSet
  assumes "cs AND NOT allClassBits = 0"
  shows "cs \<in> {0, 1, 2, 3, 4, 5, 6, 7, 8, 9, 10, 11, 12, 13, 14, 15}"
proof -
  have "cs = (cs AND 15) OR (cs AND NOT 15)"
    by (simp flip: bit.conj_disj_distrib)
  then have "cs = cs AND 15" using assms by (simp add: allClassBits_def)
  then have "cs \<le> 15" by (metis word_and_le1)
  then have "unat cs \<le> 15" by (simp add: word_le_nat_alt)
  then have "unat cs \<in> {0, 1, 2, 3, 4, 5, 6, 7, 8, 9, 10, 11, 12, 13, 14, 15}"
    unfolding insert_iff empty_iff by arith
  then show ?thesis
    by (auto dest: arg_cong [where f = "of_nat :: nat \<Rightarrow> 8 word"])
qed

text \<open>
  C32. A class set survives its JSON form: the names of a valid set decode to a set that
  admits the same classes, and to the same word when the set is not the omitted (zero) one.
\<close>

theorem class_set_roundtrip:
  assumes "cs AND NOT allClassBits = 0"
  shows "\<exists>names r. MarshalNames cs = Inr names \<and>
    UnmarshalJSON old (BeginArray # map StringToken names @ [EndArray]) = (None, r) \<and>
    (\<forall>c. Allows r c = Allows cs c) \<and> (cs \<noteq> 0 \<longrightarrow> r = cs)"
proof -
  let ?names = "filter (Allows cs) classSetNames" and ?r = "if cs = 0 then 3 else cs"
  have "NewClassSet ?names = Inr ?r"
    using valid_word_cases [OF assms]
    by (auto simp: Allows_def classSetNames_def classBit_cases allClassBits_def NewClassSet_def Let_def)
  then have "decodeClassSet (BeginArray # map StringToken ?names @ EndArray # []) = Inr (?r, [])"
    by (simp only: decodeClassSet_agrees)
  then have "UnmarshalJSON old (BeginArray # map StringToken ?names @ [EndArray]) = (None, ?r)"
    by (simp add: UnmarshalJSON_def)
  moreover have "MarshalNames cs = Inr ?names"
    using assms by (simp add: MarshalNames_def)
  moreover have "\<forall>c. Allows ?r c = Allows cs c"
    using assms by (simp add: Allows_def allClassBits_def)
  ultimately show ?thesis by fastforce
qed

theorem class_set_roundtrip_witness:
  "(9 :: ClassSet) AND NOT allClassBits = 0 \<and>
   (\<exists>names r. MarshalNames 9 = Inr names \<and>
     UnmarshalJSON 0 (BeginArray # map StringToken names @ [EndArray]) = (None, r) \<and>
     (\<forall>c. Allows r c = Allows 9 c) \<and> r = 9)"
proof -
  have h: "(9 :: ClassSet) AND NOT allClassBits = 0" by (simp add: allClassBits_def)
  show ?thesis using h class_set_roundtrip [OF h, of 0] by simp
qed

end
