(* ===== verification/Admission.thy ===== *)
theory Admission
  imports ClassSets
begin

text \<open>
  Orders and whole-party admission: \<open>internal/sim/vehicle_class.go\<close>,
  \<open>internal/sim/order_options.go\<close>, the contract markers of \<open>internal/sim/order_contract.go\<close>,
  \<open>incident.go\<close>, \<open>faults.go\<close>, \<open>state_emergencies.go\<close> and \<open>fleet_contracts.go\<close>, and the sharing
  settings of \<open>sharing.go\<close>. Each error return is a constructor, and \<open>wraps\<close> gives the
  sentinel that \<open>errors.Is\<close> finds in it.
\<close>

section \<open>Errors\<close>

datatype sentinel =
    ErrUnknownVehicleClass | ErrUnsupportedVehicleProfile
  | ErrInvalidTripOptions | ErrPartyAdmission
  | ErrUnknownIncidentContract | ErrUnknownFaultContract | ErrUnknownEmergencyContract

datatype order_error =
    Sentinel sentinel
  | UnknownOrderContract
  | UnsupportedProfile string
  | OrderIDsNotUTF8 | EndpointsNotBounded | EndpointsEqual
  | PartySizeOutside int | ConsentMissing | OnDemandNamesService
  | ExpressNeedsShared | UnknownService
  | PartyDoesNotFit string | ExpressNeedsExpressClass | PoolingLimitOutside int
  | ActiveExceedCapacity | SeatsFull
  | NotAllConsent | ActiveSizeInvalid | ActiveParty order_error
  | ActiveDoesNotFit string | DifferentService | DifferentPair
  | FaultNeedsIncident | EmergencyNeedsIncident
  | SharedPartyLimitOutside | SharedModeUnknown | SharedStopsOutside | SharedJoinUnknown

fun wraps :: "order_error \<Rightarrow> sentinel option" where
  "wraps (Sentinel s) = Some s"
| "wraps (UnsupportedProfile _) = Some ErrUnsupportedVehicleProfile"
| "wraps (ActiveParty e) = wraps e"
| "wraps OrderIDsNotUTF8 = Some ErrInvalidTripOptions"
| "wraps EndpointsNotBounded = Some ErrInvalidTripOptions"
| "wraps EndpointsEqual = Some ErrInvalidTripOptions"
| "wraps ConsentMissing = Some ErrInvalidTripOptions"
| "wraps OnDemandNamesService = Some ErrInvalidTripOptions"
| "wraps ExpressNeedsShared = Some ErrInvalidTripOptions"
| "wraps UnknownService = Some ErrInvalidTripOptions"
| "wraps ActiveSizeInvalid = Some ErrInvalidTripOptions"
| "wraps (PartySizeOutside _) = Some ErrInvalidTripOptions"
| "wraps ExpressNeedsExpressClass = Some ErrPartyAdmission"
| "wraps ActiveExceedCapacity = Some ErrPartyAdmission"
| "wraps SeatsFull = Some ErrPartyAdmission"
| "wraps NotAllConsent = Some ErrPartyAdmission"
| "wraps DifferentService = Some ErrPartyAdmission"
| "wraps DifferentPair = Some ErrPartyAdmission"
| "wraps (PartyDoesNotFit _) = Some ErrPartyAdmission"
| "wraps (ActiveDoesNotFit _) = Some ErrPartyAdmission"
| "wraps (PoolingLimitOutside _) = Some ErrPartyAdmission"
| "wraps _ = None"

section \<open>Vehicle classes\<close>

type_synonym VehicleClass = string

definition LegacyClass :: VehicleClass where "LegacyClass = ''legacy''"
definition CompactClass :: VehicleClass where "CompactClass = ''compact''"
definition GroupClass :: VehicleClass where "GroupClass = ''group''"
definition ExpressClass :: VehicleClass where "ExpressClass = ''express''"

record VehicleClassSpec =
  spec_Class :: VehicleClass
  Seats :: int
  MaxNewPartySizeOf :: int
  BodyLengthMeters :: int
  PhysicalSupported :: bool

definition LookupVehicleClass :: "VehicleClass \<Rightarrow> VehicleClassSpec option" where
  "LookupVehicleClass class =
    (if class = [] \<or> class = LegacyClass then
       Some \<lparr>spec_Class = LegacyClass, Seats = 8, MaxNewPartySizeOf = 1, BodyLengthMeters = 4,
             PhysicalSupported = True\<rparr>
     else if class = CompactClass then
       Some \<lparr>spec_Class = CompactClass, Seats = 4, MaxNewPartySizeOf = 4, BodyLengthMeters = 4,
             PhysicalSupported = True\<rparr>
     else if class = GroupClass then
       Some \<lparr>spec_Class = GroupClass, Seats = 8, MaxNewPartySizeOf = 8, BodyLengthMeters = 6,
             PhysicalSupported = True\<rparr>
     else if class = ExpressClass then
       Some \<lparr>spec_Class = ExpressClass, Seats = 20, MaxNewPartySizeOf = 8, BodyLengthMeters = 0,
             PhysicalSupported = False\<rparr>
     else None)"

definition ValidateVehicleClassProfile :: "VehicleClass \<Rightarrow> (order_error, unit) result" where
  "ValidateVehicleClassProfile class =
    (case LookupVehicleClass class of
       None \<Rightarrow> Inl (Sentinel ErrUnknownVehicleClass)
     | Some profile \<Rightarrow>
         if \<not> PhysicalSupported profile then Inl (UnsupportedProfile (spec_Class profile))
         else Inr ())"

section \<open>Contracts\<close>

definition ExpressOrderContract :: string where
  "ExpressOrderContract = ''express-v1''"

definition ValidateOrderContract :: "string \<Rightarrow> (order_error, unit) result" where
  "ValidateOrderContract contract =
    (if contract \<noteq> [] \<and> contract \<noteq> ExpressOrderContract then Inl UnknownOrderContract else Inr ())"

definition MaxExpressParties :: int where "MaxExpressParties = 20"
definition MaxNewPartySize :: int where "MaxNewPartySize = 8"
definition expressMaxPods :: int where "expressMaxPods = 600"

definition expressBaseWaitingTrips :: int where
  "expressBaseWaitingTrips = 200 + expressMaxPods * MaxSharedRideParties"

definition MaxExpressWaitingTrips :: int where
  "MaxExpressWaitingTrips = expressBaseWaitingTrips + expressMaxPods * MaxExpressParties"

definition MaxStoredRidersForOrderContract :: "VehicleClass \<Rightarrow> string \<Rightarrow> int" where
  "MaxStoredRidersForOrderContract class contract =
    (if contract = ExpressOrderContract \<and> class = ExpressClass then MaxExpressParties
     else MaxSharedRideParties)"

definition LookupVehicleClassWithOrderContract ::
  "VehicleClass \<Rightarrow> string \<Rightarrow> VehicleClassSpec option" where
  "LookupVehicleClassWithOrderContract class contract =
    (if isl (ValidateOrderContract contract) then None
     else case LookupVehicleClass class of
       None \<Rightarrow> None
     | Some profile \<Rightarrow>
         if class = ExpressClass \<and> contract = ExpressOrderContract then
           Some (profile\<lparr>MaxNewPartySizeOf := 20, BodyLengthMeters := 10, PhysicalSupported := True\<rparr>)
         else Some profile)"

definition ValidateVehicleClassProfileWithOrderContract ::
  "VehicleClass \<Rightarrow> string \<Rightarrow> (order_error, unit) result" where
  "ValidateVehicleClassProfileWithOrderContract class contract =
    (case ValidateOrderContract contract of
       Inl e \<Rightarrow> Inl e
     | Inr _ \<Rightarrow>
         (case LookupVehicleClassWithOrderContract class contract of
            None \<Rightarrow> Inl (Sentinel ErrUnknownVehicleClass)
          | Some p \<Rightarrow>
              if \<not> PhysicalSupported p then Inl (UnsupportedProfile (spec_Class p)) else Inr ()))"

definition newPartyLimit :: "string \<Rightarrow> int" where
  "newPartyLimit contract = (if contract = ExpressOrderContract then 20 else MaxNewPartySize)"

definition IncidentV1Contract :: string where "IncidentV1Contract = ''incident-v1''"
definition FaultV1Contract :: string where "FaultV1Contract = ''fault-v1''"
definition EmergencyV1Contract :: string where "EmergencyV1Contract = ''emergency-v1''"

definition ValidateIncidentContract :: "string \<Rightarrow> (order_error, unit) result" where
  "ValidateIncidentContract contract =
    (if contract \<noteq> [] \<and> contract \<noteq> IncidentV1Contract
     then Inl (Sentinel ErrUnknownIncidentContract) else Inr ())"

definition ValidateFaultContracts :: "string \<Rightarrow> string \<Rightarrow> (order_error, unit) result" where
  "ValidateFaultContracts fault incident =
    (if fault = [] then Inr ()
     else if fault \<noteq> FaultV1Contract then Inl (Sentinel ErrUnknownFaultContract)
     else if incident = [] then Inl FaultNeedsIncident
     else Inr ())"

definition ValidateEmergencyContracts :: "string \<Rightarrow> string \<Rightarrow> (order_error, unit) result" where
  "ValidateEmergencyContracts emergency incident =
    (if emergency = [] then Inr ()
     else if emergency \<noteq> EmergencyV1Contract then Inl (Sentinel ErrUnknownEmergencyContract)
     else if incident = [] then Inl EmergencyNeedsIncident
     else Inr ())"

record FleetContracts =
  fc_OrderContract :: string
  fc_IncidentContract :: string
  fc_FaultContract :: string
  fc_EmergencyContract :: string

definition validateFleetContracts :: "FleetContracts \<Rightarrow> (order_error, unit) result" where
  "validateFleetContracts contracts =
    (case ValidateOrderContract (fc_OrderContract contracts) of
       Inl e \<Rightarrow> Inl e
     | Inr _ \<Rightarrow>
    (case ValidateIncidentContract (fc_IncidentContract contracts) of
       Inl e \<Rightarrow> Inl e
     | Inr _ \<Rightarrow>
    (case ValidateFaultContracts (fc_FaultContract contracts) (fc_IncidentContract contracts) of
       Inl e \<Rightarrow> Inl e
     | Inr _ \<Rightarrow>
         ValidateEmergencyContracts (fc_EmergencyContract contracts) (fc_IncidentContract contracts))))"

section \<open>Trip options\<close>

definition PrivateConsent :: string where "PrivateConsent = ''private''"
definition SharedConsent :: string where "SharedConsent = ''shared''"
definition OnDemandService :: string where "OnDemandService = ''on-demand''"
definition ExpressServiceChoice :: string where "ExpressServiceChoice = ''express''"

record TripOptions =
  opt_From :: string
  opt_To :: string
  opt_PartySize :: int
  opt_SharingConsent :: string
  opt_Service :: string
  opt_ServiceID :: string

text \<open>The three defaults that the function fills in before it checks the values.\<close>

definition defaultOptions :: "TripOptions \<Rightarrow> TripOptions" where
  "defaultOptions options =
    (let o1 = (if opt_PartySize options = 0 then options\<lparr>opt_PartySize := 1\<rparr> else options);
         o2 = (if opt_SharingConsent o1 = [] then o1\<lparr>opt_SharingConsent := PrivateConsent\<rparr> else o1)
     in if opt_Service o2 = [] then o2\<lparr>opt_Service := OnDemandService\<rparr> else o2)"

definition NormalizeTripOptionsWithOrderContract ::
  "TripOptions \<Rightarrow> string \<Rightarrow> (order_error, TripOptions) result" where
  "NormalizeTripOptionsWithOrderContract given contract =
    (case ValidateOrderContract contract of
       Inl e \<Rightarrow> Inl e
     | Inr _ \<Rightarrow>
    (if contract = ExpressOrderContract \<and>
        (\<not> utf8_ValidString (opt_From given) \<or> \<not> utf8_ValidString (opt_To given) \<or>
         \<not> utf8_ValidString (opt_ServiceID given))
     then Inl OrderIDsNotUTF8
     else
       let options = defaultOptions given in
       if \<not> validOrderID (opt_From options) \<or> \<not> validOrderID (opt_To options)
       then Inl EndpointsNotBounded
       else if opt_From options = opt_To options then Inl EndpointsEqual
       else if opt_PartySize options < 1 \<or> opt_PartySize options > newPartyLimit contract
       then Inl (PartySizeOutside (newPartyLimit contract))
       else if opt_SharingConsent options \<noteq> PrivateConsent \<and> opt_SharingConsent options \<noteq> SharedConsent
       then Inl ConsentMissing
       else if opt_Service options = OnDemandService then
         (if opt_ServiceID options \<noteq> [] then Inl OnDemandNamesService else Inr options)
       else if opt_Service options = ExpressServiceChoice then
         (if opt_SharingConsent options \<noteq> SharedConsent \<or> \<not> validOrderID (opt_ServiceID options)
          then Inl ExpressNeedsShared else Inr options)
       else Inl UnknownService))"

section \<open>Party admission\<close>

record PartyFacts =
  pf_options :: TripOptions
  pf_Completed :: bool

record PartyAdmissionInput =
  pai_Class :: VehicleClass
  pai_Request :: TripOptions
  pai_Active :: "PartyFacts list"
  pai_PartyLimit :: int

definition checkActiveParty ::
  "TripOptions \<Rightarrow> TripOptions \<Rightarrow> VehicleClassSpec \<Rightarrow> string \<Rightarrow> (order_error, unit) result" where
  "checkActiveParty request party profile contract =
    (if opt_SharingConsent request \<noteq> SharedConsent \<or> opt_SharingConsent party \<noteq> SharedConsent
     then Inl NotAllConsent
     else if opt_PartySize party < 1 \<or> opt_PartySize party > newPartyLimit contract
     then Inl ActiveSizeInvalid
     else case NormalizeTripOptionsWithOrderContract party contract of
       Inl e \<Rightarrow> Inl (ActiveParty e)
     | Inr effective \<Rightarrow>
         if opt_PartySize effective > MaxNewPartySizeOf profile
         then Inl (ActiveDoesNotFit (spec_Class profile))
         else if opt_Service effective \<noteq> opt_Service request \<or>
           opt_ServiceID effective \<noteq> opt_ServiceID request
         then Inl DifferentService
         else if opt_Service request = ExpressServiceChoice \<and>
           (opt_From effective \<noteq> opt_From request \<or> opt_To effective \<noteq> opt_To request)
         then Inl DifferentPair
         else Inr ())"

text \<open>The loop over the active parties; it returns the seats that they take.\<close>

fun activeSeats ::
  "TripOptions \<Rightarrow> VehicleClassSpec \<Rightarrow> string \<Rightarrow> int \<Rightarrow> PartyFacts list \<Rightarrow> int \<Rightarrow> int \<Rightarrow>
    (order_error, int) result" where
  "activeSeats request profile contract partyLimit [] parties seats = Inr seats"
| "activeSeats request profile contract partyLimit (party # rest) parties seats =
    (if pf_Completed party then activeSeats request profile contract partyLimit rest parties seats
     else case checkActiveParty request (pf_options party) profile contract of
       Inl e \<Rightarrow> Inl e
     | Inr _ \<Rightarrow>
         if parties + 1 \<ge> partyLimit \<or> opt_PartySize (pf_options party) > Seats profile - seats
         then Inl ActiveExceedCapacity
         else activeSeats request profile contract partyLimit rest (parties + 1)
           (seats + opt_PartySize (pf_options party)))"

definition CheckPartyAdmissionWithOrderContract ::
  "PartyAdmissionInput \<Rightarrow> string \<Rightarrow> (order_error, unit) result" where
  "CheckPartyAdmissionWithOrderContract input contract =
    (case NormalizeTripOptionsWithOrderContract (pai_Request input) contract of
       Inl e \<Rightarrow> Inl e
     | Inr request \<Rightarrow>
    (case LookupVehicleClassWithOrderContract (pai_Class input) contract of
       None \<Rightarrow> Inl (Sentinel ErrUnknownVehicleClass)
     | Some profile \<Rightarrow>
       if opt_PartySize request > MaxNewPartySizeOf profile
       then Inl (PartyDoesNotFit (spec_Class profile))
       else if opt_Service request = ExpressServiceChoice \<and> spec_Class profile \<noteq> ExpressClass
       then Inl ExpressNeedsExpressClass
       else
         let limit = (if opt_Service request = ExpressServiceChoice then MaxExpressParties
                      else MaxSharedRideParties) in
         if pai_PartyLimit input < 1 \<or> pai_PartyLimit input > limit
         then Inl (PoolingLimitOutside limit)
         else case activeSeats request profile contract (pai_PartyLimit input) (pai_Active input) 0 0 of
           Inl e \<Rightarrow> Inl e
         | Inr seats \<Rightarrow>
             if opt_PartySize request > Seats profile - seats then Inl SeatsFull else Inr ()))"

section \<open>What normalisation accepts\<close>

definition knownContract :: "string \<Rightarrow> bool" where
  "knownContract contract = (contract = [] \<or> contract = ExpressOrderContract)"

definition wellFormedOptions :: "string \<Rightarrow> TripOptions \<Rightarrow> bool" where
  "wellFormedOptions contract o1 =
    (validOrderID (opt_From o1) \<and> validOrderID (opt_To o1) \<and> opt_From o1 \<noteq> opt_To o1 \<and>
     1 \<le> opt_PartySize o1 \<and> opt_PartySize o1 \<le> newPartyLimit contract \<and>
     (opt_Service o1 = OnDemandService \<and> opt_ServiceID o1 = [] \<and>
        opt_SharingConsent o1 \<in> {PrivateConsent, SharedConsent} \<or>
      opt_Service o1 = ExpressServiceChoice \<and> opt_SharingConsent o1 = SharedConsent \<and>
        validOrderID (opt_ServiceID o1)))"

lemmas order_names =
  PrivateConsent_def SharedConsent_def OnDemandService_def ExpressServiceChoice_def
  LegacyClass_def CompactClass_def GroupClass_def ExpressClass_def ExpressOrderContract_def

lemma ValidateOrderContract_ok [simp]: "ValidateOrderContract contract = Inr () \<longleftrightarrow> knownContract contract"
  by (simp add: ValidateOrderContract_def knownContract_def)

lemma isl_ValidateOrderContract [simp]: "isl (ValidateOrderContract contract) \<longleftrightarrow> \<not> knownContract contract"
  by (simp add: ValidateOrderContract_def knownContract_def)

lemma defaultOptions_sel [simp]:
  "opt_From (defaultOptions o1) = opt_From o1" "opt_To (defaultOptions o1) = opt_To o1"
  "opt_ServiceID (defaultOptions o1) = opt_ServiceID o1"
  "opt_PartySize (defaultOptions o1) = (if opt_PartySize o1 = 0 then 1 else opt_PartySize o1)"
  "opt_SharingConsent (defaultOptions o1) =
     (if opt_SharingConsent o1 = [] then PrivateConsent else opt_SharingConsent o1)"
  "opt_Service (defaultOptions o1) = (if opt_Service o1 = [] then OnDemandService else opt_Service o1)"
  by (simp_all add: defaultOptions_def Let_def)

lemma defaultOptions_id: "wellFormedOptions contract o1 \<Longrightarrow> defaultOptions o1 = o1"
  by (auto simp: wellFormedOptions_def defaultOptions_def Let_def order_names)

lemma utf8_Nil [simp]: "utf8_ValidString []"
  by (simp add: utf8_ValidString_def)

lemma validOrderID_utf8: "validOrderID s \<Longrightarrow> utf8_ValidString s"
  by (simp add: validOrderID_def ValidIDText_utf8)

lemma wellFormed_utf8:
  "wellFormedOptions contract o1 \<Longrightarrow>
     utf8_ValidString (opt_From o1) \<and> utf8_ValidString (opt_To o1) \<and> utf8_ValidString (opt_ServiceID o1)"
  by (auto simp: wellFormedOptions_def dest: validOrderID_utf8)

lemma normalize_Inr:
  "NormalizeTripOptionsWithOrderContract given contract = Inr o1 \<longleftrightarrow>
     knownContract contract \<and> o1 = defaultOptions given \<and> wellFormedOptions contract o1"
proof (cases "knownContract contract")
  case False
  then show ?thesis
    by (simp add: NormalizeTripOptionsWithOrderContract_def ValidateOrderContract_def knownContract_def)
next
  case True
  then have c: "ValidateOrderContract contract = Inr ()" by simp
  have service: "OnDemandService \<noteq> ExpressServiceChoice" by (simp add: order_names)
  define d where "d = defaultOptions given"
  have ids: "opt_From given = opt_From d" "opt_To given = opt_To d" "opt_ServiceID given = opt_ServiceID d"
    by (simp_all add: d_def)
  show ?thesis
  proof (cases "wellFormedOptions contract d")
    case True
    note utf8 = wellFormed_utf8 [OF True]
    from True show ?thesis
      using \<open>knownContract contract\<close> utf8 service
      unfolding NormalizeTripOptionsWithOrderContract_def c d_def [symmetric] ids Let_def
      by (simp add: wellFormedOptions_def) auto
  next
    case False
    then show ?thesis
      unfolding NormalizeTripOptionsWithOrderContract_def c d_def [symmetric] ids Let_def
      by (auto simp: wellFormedOptions_def not_less split: if_split_asm)
  qed
qed

text \<open>
  C25. Normalisation of an order accepts exactly the orders whose values, after the three
  defaults, have bounded endpoint identifiers that differ, a party size within the bound of
  the contract, a consent, and a service that agrees with its service identifier. The result
  is the order with its defaults filled in, and normalising it again changes nothing.
\<close>

theorem NormalizeTripOptions_correct:
  "(NormalizeTripOptionsWithOrderContract given contract = Inr o1 \<longleftrightarrow>
      knownContract contract \<and> o1 = defaultOptions given \<and> wellFormedOptions contract o1) \<and>
   (NormalizeTripOptionsWithOrderContract given contract = Inr o1 \<longrightarrow>
      NormalizeTripOptionsWithOrderContract o1 contract = Inr o1)"
  by (auto simp: normalize_Inr defaultOptions_id)

theorem NormalizeTripOptions_correct_witness:
  "NormalizeTripOptionsWithOrderContract
     (defaultOptions \<lparr>opt_From = ''a'', opt_To = ''b'', opt_PartySize = 0, opt_SharingConsent = [],
        opt_Service = [], opt_ServiceID = []\<rparr>) [] =
   Inr \<lparr>opt_From = ''a'', opt_To = ''b'', opt_PartySize = 1, opt_SharingConsent = ''private'',
        opt_Service = ''on-demand'', opt_ServiceID = []\<rparr>"
proof -
  let ?g = "\<lparr>opt_From = ''a'', opt_To = ''b'', opt_PartySize = 0, opt_SharingConsent = [],
        opt_Service = [], opt_ServiceID = []\<rparr>"
  let ?o = "\<lparr>opt_From = ''a'', opt_To = ''b'', opt_PartySize = 1, opt_SharingConsent = ''private'',
        opt_Service = ''on-demand'', opt_ServiceID = []\<rparr>"
  have "NormalizeTripOptionsWithOrderContract ?g [] = Inr ?o"
    using NormalizeTripOptions_correct [of ?g "[]" ?o]
    by (simp add: knownContract_def defaultOptions_def wellFormedOptions_def order_names Let_def
        validOrderID_def orderIDBytes_def idCharacter_def newPartyLimit_def MaxNewPartySize_def)
  then have "NormalizeTripOptionsWithOrderContract ?o [] = Inr ?o"
    using NormalizeTripOptions_correct [of ?g "[]" ?o] by blast
  then show ?thesis
    by (simp add: defaultOptions_def Let_def order_names)
qed

section \<open>What admission accepts\<close>

definition activeParties :: "PartyFacts list \<Rightarrow> TripOptions list" where
  "activeParties facts = map pf_options (filter (\<lambda>p. \<not> pf_Completed p) facts)"

definition seatsTaken :: "TripOptions list \<Rightarrow> int" where
  "seatsTaken parties = sum_list (map opt_PartySize parties)"

text \<open>The declarative contract of one active party against the normalised request.\<close>

definition compatibleParty ::
  "TripOptions \<Rightarrow> VehicleClassSpec \<Rightarrow> string \<Rightarrow> TripOptions \<Rightarrow> bool" where
  "compatibleParty request profile contract party =
    (opt_SharingConsent request = SharedConsent \<and> opt_SharingConsent party = SharedConsent \<and>
     1 \<le> opt_PartySize party \<and> opt_PartySize party \<le> MaxNewPartySizeOf profile \<and>
     wellFormedOptions contract (defaultOptions party) \<and>
     opt_Service (defaultOptions party) = opt_Service request \<and>
     opt_ServiceID party = opt_ServiceID request \<and>
     (opt_Service request = ExpressServiceChoice \<longrightarrow>
        opt_From party = opt_From request \<and> opt_To party = opt_To request))"

definition partyLimitBound :: "TripOptions \<Rightarrow> int" where
  "partyLimitBound request =
    (if opt_Service request = ExpressServiceChoice then MaxExpressParties else MaxSharedRideParties)"

definition admissible :: "PartyAdmissionInput \<Rightarrow> string \<Rightarrow> bool" where
  "admissible input contract =
    (let request = defaultOptions (pai_Request input);
         parties = activeParties (pai_Active input)
     in case LookupVehicleClassWithOrderContract (pai_Class input) contract of
          None \<Rightarrow> False
        | Some profile \<Rightarrow>
            knownContract contract \<and> wellFormedOptions contract request \<and>
            opt_PartySize request \<le> MaxNewPartySizeOf profile \<and>
            (opt_Service request = ExpressServiceChoice \<longrightarrow> spec_Class profile = ExpressClass) \<and>
            1 \<le> pai_PartyLimit input \<and> pai_PartyLimit input \<le> partyLimitBound request \<and>
            (\<forall>party\<in>set parties. compatibleParty request profile contract party) \<and>
            int (length parties) + 1 \<le> pai_PartyLimit input \<and>
            seatsTaken parties + opt_PartySize request \<le> Seats profile)"

lemma activeParties_Cons:
  "activeParties (p # ps) = (if pf_Completed p then activeParties ps else pf_options p # activeParties ps)"
  by (simp add: activeParties_def)

lemma activeParties_Nil [simp]: "activeParties [] = []"
  by (simp add: activeParties_def)

lemma seatsTaken_simps [simp]:
  "seatsTaken [] = 0" "seatsTaken (p # ps) = opt_PartySize p + seatsTaken ps"
  by (simp_all add: seatsTaken_def)

lemma seatsTaken_nonneg:
  "\<forall>p\<in>set ps. compatibleParty request profile contract p \<Longrightarrow> 0 \<le> seatsTaken ps"
  by (induction ps) (auto simp: compatibleParty_def)

lemma checkActiveParty_ok:
  assumes "knownContract contract"
  shows "checkActiveParty request party profile contract = Inr () \<longleftrightarrow>
    compatibleParty request profile contract party"
proof (cases "opt_SharingConsent request = SharedConsent \<and> opt_SharingConsent party = SharedConsent \<and>
    1 \<le> opt_PartySize party \<and> opt_PartySize party \<le> newPartyLimit contract")
  case False
  then show ?thesis
    by (auto simp: checkActiveParty_def compatibleParty_def wellFormedOptions_def)
next
  case True
  show ?thesis
  proof (cases "wellFormedOptions contract (defaultOptions party)")
    case wf: True
    then have "NormalizeTripOptionsWithOrderContract party contract = Inr (defaultOptions party)"
      using assms by (simp add: normalize_Inr)
    with True wf show ?thesis
      by (auto simp: checkActiveParty_def compatibleParty_def not_less simp del: defaultOptions_sel(6))
  next
    case False
    then obtain e where "NormalizeTripOptionsWithOrderContract party contract = Inl e"
      using assms normalize_Inr [of party contract]
      by (cases "NormalizeTripOptionsWithOrderContract party contract") auto
    with True False show ?thesis
      by (simp add: checkActiveParty_def compatibleParty_def)
  qed
qed

lemma checkActiveParty_Inl:
  assumes "knownContract contract" and "\<not> compatibleParty request profile contract party"
  obtains e where "checkActiveParty request party profile contract = Inl e"
  using checkActiveParty_ok [OF assms(1)] assms(2)
  by (cases "checkActiveParty request party profile contract") auto

lemma activeSeats_ok:
  assumes "knownContract contract"
  shows "activeSeats request profile contract lim active n s = Inr r \<longleftrightarrow>
    (\<forall>p\<in>set (activeParties active). compatibleParty request profile contract p) \<and>
    (activeParties active = [] \<or>
       n + int (length (activeParties active)) < lim \<and> s + seatsTaken (activeParties active) \<le> Seats profile) \<and>
    r = s + seatsTaken (activeParties active)"
proof (induction active arbitrary: n s)
  case (Cons p ps)
  show ?case
  proof (cases "pf_Completed p")
    case True
    then show ?thesis using Cons.IH by (simp add: activeParties_Cons)
  next
    case False
    show ?thesis
    proof (cases "compatibleParty request profile contract (pf_options p)")
      case True
      then have "checkActiveParty request (pf_options p) profile contract = Inr ()"
        by (simp add: checkActiveParty_ok assms)
      with False True show ?thesis
        using Cons.IH [of "n + 1" "s + opt_PartySize (pf_options p)"]
          seatsTaken_nonneg [of "activeParties ps" request profile contract]
        by (auto simp: activeParties_Cons not_le not_less)
    next
      case incompatible: False
      then obtain e where "checkActiveParty request (pf_options p) profile contract = Inl e"
        using checkActiveParty_Inl [OF assms] by blast
      with False incompatible show ?thesis by (simp add: activeParties_Cons)
    qed
  qed
qed auto

lemma admission_admissible:
  "CheckPartyAdmissionWithOrderContract input contract = Inr () \<longleftrightarrow> admissible input contract"
proof (cases "\<exists>profile. LookupVehicleClassWithOrderContract (pai_Class input) contract = Some profile \<and>
    knownContract contract \<and> wellFormedOptions contract (defaultOptions (pai_Request input))")
  case False
  then show ?thesis
    by (auto simp: CheckPartyAdmissionWithOrderContract_def admissible_def normalize_Inr Let_def
        split: sum.splits option.splits)
next
  case True
  then obtain profile where
    look: "LookupVehicleClassWithOrderContract (pai_Class input) contract = Some profile" and
    known: "knownContract contract" and
    wf: "wellFormedOptions contract (defaultOptions (pai_Request input))" by blast
  define request where "request = defaultOptions (pai_Request input)"
  have norm: "NormalizeTripOptionsWithOrderContract (pai_Request input) contract = Inr request"
    using known wf by (simp add: normalize_Inr request_def)
  define parties where "parties = activeParties (pai_Active input)"
  note loop = activeSeats_ok [OF known, of request profile "pai_PartyLimit input" "pai_Active input" 0 0,
      folded parties_def]
  have pos: "1 \<le> opt_PartySize request"
    using wf by (simp add: request_def wellFormedOptions_def)
  show ?thesis
  proof (cases "activeSeats request profile contract (pai_PartyLimit input) (pai_Active input) 0 0")
    case (Inl e)
    then show ?thesis
      using loop [of "seatsTaken parties"] pos known wf
      unfolding CheckPartyAdmissionWithOrderContract_def admissible_def norm look
      by (auto simp: Let_def request_def [symmetric] parties_def [symmetric])
  next
    case (Inr seats)
    then show ?thesis
      using loop [of seats] known wf
      unfolding CheckPartyAdmissionWithOrderContract_def admissible_def norm look
      by (auto simp: Let_def request_def [symmetric] parties_def [symmetric] partyLimitBound_def not_less)
  qed
qed

text \<open>
  C16. The admission check accepts a party exactly when the declarative contract holds: the
  request is well formed and fits the class, the pooling limit is in range, every party
  aboard consents and uses the same service (and the same pair for express), one more party
  stays within the pooling limit, and all parties together fit the seats of the pod.
\<close>

theorem CheckPartyAdmission_iff_admissible:
  "CheckPartyAdmissionWithOrderContract input contract = Inr () \<longleftrightarrow> admissible input contract"
  by (rule admission_admissible)

text \<open>
  C39. The verdict does not depend on the order of the riders in the pod, and a party that is
  admitted next to some riders is also admitted when any of these riders has left.
\<close>

theorem CheckPartyAdmission_monotone:
  assumes "CheckPartyAdmissionWithOrderContract input contract = Inr ()"
    and "mset (activeParties fewer) \<subseteq># mset (activeParties (pai_Active input))"
  shows "CheckPartyAdmissionWithOrderContract (input\<lparr>pai_Active := fewer\<rparr>) contract = Inr ()"
proof -
  obtain rest where "mset (activeParties (pai_Active input)) = mset (activeParties fewer) + mset rest"
    using assms(2) by (metis ex_mset mset_subset_eq_exists_conv)
  then have m: "mset (activeParties (pai_Active input)) = mset (activeParties fewer @ rest)" by simp
  then have len: "length (activeParties (pai_Active input)) = length (activeParties fewer) + length rest"
    by (metis length_append mset_eq_length)
  from m have sub: "set (activeParties (pai_Active input)) = set (activeParties fewer) \<union> set rest"
    by (metis mset_eq_setD set_append)
  from m have seats:
    "seatsTaken (activeParties (pai_Active input)) = seatsTaken (activeParties fewer) + seatsTaken rest"
    unfolding seatsTaken_def
    by (metis map_append mset_map sum_list.append sum_mset_sum_list)
  have "admissible input contract"
    using assms(1) by (simp add: admission_admissible)
  then have "admissible (input\<lparr>pai_Active := fewer\<rparr>) contract"
    using len sub seats seatsTaken_nonneg [of rest]
    by (fastforce simp: admissible_def Let_def split: option.splits)
  then show ?thesis by (simp add: admission_admissible)
qed

theorem CheckPartyAdmission_monotone_witness:
  "let options = \<lparr>opt_From = ''a'', opt_To = ''b'', opt_PartySize = 2, opt_SharingConsent = ''shared'',
         opt_Service = ''on-demand'', opt_ServiceID = []\<rparr>;
       input = \<lparr>pai_Class = ''compact'', pai_Request = options,
         pai_Active = [\<lparr>pf_options = options, pf_Completed = False\<rparr>], pai_PartyLimit = 2\<rparr>
   in CheckPartyAdmissionWithOrderContract input [] = Inr () \<and>
      CheckPartyAdmissionWithOrderContract (input\<lparr>pai_Active := []\<rparr>) [] = Inr ()"
proof -
  define options where "options = \<lparr>opt_From = ''a'', opt_To = ''b'', opt_PartySize = 2,
    opt_SharingConsent = ''shared'', opt_Service = ''on-demand'', opt_ServiceID = []\<rparr>"
  define input where "input = \<lparr>pai_Class = ''compact'', pai_Request = options,
    pai_Active = [\<lparr>pf_options = options, pf_Completed = False\<rparr>], pai_PartyLimit = 2\<rparr>"
  have wf: "wellFormedOptions [] options" "defaultOptions options = options"
    by (simp_all add: options_def wellFormedOptions_def defaultOptions_def order_names validOrderID_def
        orderIDBytes_def idCharacter_def newPartyLimit_def MaxNewPartySize_def)
  have "admissible input []"
    using wf
    by (simp add: admissible_def input_def activeParties_def compatibleParty_def partyLimitBound_def
        LookupVehicleClassWithOrderContract_def LookupVehicleClass_def knownContract_def order_names
        MaxSharedRideParties_def)
      (simp add: options_def)
  then have h: "CheckPartyAdmissionWithOrderContract input [] = Inr ()"
    by (simp add: admission_admissible)
  have "CheckPartyAdmissionWithOrderContract (input\<lparr>pai_Active := []\<rparr>) [] = Inr ()"
    by (rule CheckPartyAdmission_monotone [OF h]) simp
  with h show ?thesis by (simp add: options_def input_def)
qed

end
