(* ===== verification/GoHeap.thy ===== *)
theory GoHeap
  imports Prelude
begin

text \<open>
  The binary heap of the Go standard library (\<open>container/heap\<close>) on a slice, with the sift-up
  and sift-down loops as the library has them, and the queue contract that the event ledgers
  of the repository (\<open>internal/rail\<close> and \<open>internal/parkride\<close>) rely on. \<open>Less\<close> is the strict
  order of the element type. \<open>Pop\<close> on an empty slice panics in Go; here it is \<open>None\<close>.
\<close>

section \<open>The library's loops\<close>

definition swap :: "'a list \<Rightarrow> nat \<Rightarrow> nat \<Rightarrow> 'a list" where
  "swap xs i j = xs[i := xs ! j, j := xs ! i]"

definition parent :: "nat \<Rightarrow> nat" where
  "parent j = (j - 1) div 2"

lemma parent_less [simp]: "0 < j \<Longrightarrow> parent j < j"
  by (auto simp: parent_def)

lemma parent_eq [simp]: "parent j = j \<longleftrightarrow> j = 0" "j = parent j \<longleftrightarrow> j = 0"
  by (cases j; simp add: parent_def)+

lemma parent_le [simp]: "parent j \<le> j"
  by (simp add: parent_def)

lemma parent_bound [simp]: "j < n \<Longrightarrow> parent j < n"
  by (rule le_less_trans [OF parent_le])

lemma le_parent [simp]: "j \<le> parent j \<longleftrightarrow> j = 0"
  by (metis le_antisym parent_eq(1) parent_le order_refl)

function heap_up :: "'a::linorder list \<Rightarrow> nat \<Rightarrow> 'a list" where
  "heap_up xs j =
    (let i = parent j in
      if i = j \<or> \<not> xs ! j < xs ! i then xs else heap_up (swap xs i j) i)"
  by pat_completeness auto
termination
  by (relation "measure snd") (auto simp: le_less)

function heap_down :: "'a::linorder list \<Rightarrow> nat \<Rightarrow> nat \<Rightarrow> 'a list" where
  "heap_down xs i n =
    (let j1 = 2 * i + 1 in
      if j1 \<ge> n then xs
      else
        let j2 = j1 + 1; j = (if j2 < n \<and> xs ! j2 < xs ! j1 then j2 else j1) in
          if \<not> xs ! j < xs ! i then xs else heap_down (swap xs i j) j n)"
  by pat_completeness auto
termination
  by (relation "measure (\<lambda>(xs, i, n). n - i)") (auto simp: Let_def split: if_splits)

declare heap_up.simps [simp del] heap_down.simps [simp del]

definition heap_push :: "'a::linorder \<Rightarrow> 'a list \<Rightarrow> 'a list" where
  "heap_push x xs = heap_up (xs @ [x]) (length xs)"

definition heap_pop :: "'a::linorder list \<Rightarrow> ('a \<times> 'a list) option" where
  "heap_pop xs =
    (if xs = [] then None
     else
       let n = length xs - 1; ys = heap_down (swap xs 0 n) 0 n in Some (ys ! n, take n ys))"

fun heap_init_from :: "nat \<Rightarrow> 'a::linorder list \<Rightarrow> 'a list" where
  "heap_init_from 0 xs = xs"
| "heap_init_from (Suc i) xs = heap_init_from i (heap_down xs i (length xs))"

definition heap_init :: "'a::linorder list \<Rightarrow> 'a list" where
  "heap_init xs = heap_init_from (length xs div 2) xs"

section \<open>Contents\<close>

lemma length_swap [simp]: "length (swap xs i j) = length xs"
  by (simp add: swap_def)

lemma mset_swap_heap [simp]: "i < length xs \<Longrightarrow> j < length xs \<Longrightarrow> mset (swap xs i j) = mset xs"
  by (simp add: swap_def mset_swap)

lemma nth_swap:
  "i < length xs \<Longrightarrow> j < length xs \<Longrightarrow> k < length xs \<Longrightarrow>
     swap xs i j ! k = (if k = j then xs ! i else if k = i then xs ! j else xs ! k)"
  by (auto simp: swap_def nth_list_update)

lemma mset_heap_up: "j < length xs \<Longrightarrow> mset (heap_up xs j) = mset xs"
proof (induction xs j rule: heap_up.induct)
  case (1 xs j)
  then show ?case
    by (subst heap_up.simps) (auto simp: Let_def)
qed

lemma mset_heap_down: "i < n \<Longrightarrow> n \<le> length xs \<Longrightarrow> mset (heap_down xs i n) = mset xs"
proof (induction xs i n rule: heap_down.induct)
  case (1 xs i n)
  then show ?case
    by (subst heap_down.simps) (auto simp: Let_def)
qed

lemma length_heap_down [simp]: "length (heap_down xs i n) = length xs"
proof (induction xs i n rule: heap_down.induct)
  case (1 xs i n)
  then show ?case
    by (subst heap_down.simps) (auto simp: Let_def)
qed

lemma heap_down_beyond: "n \<le> k \<Longrightarrow> k < length xs \<Longrightarrow> heap_down xs i n ! k = xs ! k"
proof (induction xs i n rule: heap_down.induct)
  case (1 xs i n)
  then show ?case
    by (subst heap_down.simps) (auto simp: Let_def nth_swap)
qed

section \<open>The heap order\<close>

definition heap_ordered :: "nat \<Rightarrow> nat \<Rightarrow> 'a::linorder list \<Rightarrow> bool" where
  "heap_ordered lo n xs = (\<forall>k. 0 < k \<and> k < n \<and> lo \<le> parent k \<longrightarrow> xs ! (parent k) \<le> xs ! k)"

abbreviation heap_inv :: "'a::linorder list \<Rightarrow> bool" where
  "heap_inv xs \<equiv> heap_ordered 0 (length xs) xs"

text \<open>While sifting up from \<open>j\<close> the order can fail only between \<open>j\<close> and its parent.\<close>

definition up_inv :: "nat \<Rightarrow> 'a::linorder list \<Rightarrow> bool" where
  "up_inv j xs =
    ((\<forall>k. 0 < k \<and> k < length xs \<and> k \<noteq> j \<longrightarrow> xs ! (parent k) \<le> xs ! k) \<and>
     (\<forall>k. 0 < k \<and> k < length xs \<and> parent k = j \<and> 0 < j \<longrightarrow> xs ! (parent j) \<le> xs ! k))"

lemma up_inv_swap:
  assumes up: "up_inv j xs" and j: "0 < j" "j < length xs" and less: "xs ! j < xs ! (parent j)"
  shows "up_inv (parent j) (swap xs (parent j) j)"
proof -
  let ?i = "parent j" and ?ys = "swap xs (parent j) j"
  have i: "?i < j" "?i < length xs" using j by auto
  have ys: "\<And>k. k < length xs \<Longrightarrow> ?ys ! k = (if k = j then xs ! ?i else if k = ?i then xs ! j else xs ! k)"
    using j i by (simp add: nth_swap)
  have ord: "xs ! (parent k) \<le> xs ! k" if "0 < k" "k < length xs" "k \<noteq> j" for k
    using up that by (simp add: up_inv_def)
  have child: "xs ! ?i \<le> xs ! k" if "0 < k" "k < length xs" "parent k = j" for k
    using up that j by (simp add: up_inv_def)
  have "?ys ! (parent k) \<le> ?ys ! k" if k: "0 < k" "k < length xs" "k \<noteq> ?i" for k
  proof -
    have p: "parent k < length xs" "parent k \<noteq> k" using k by auto
    consider "k = j" | "k \<noteq> j" "parent k = j" | "k \<noteq> j" "parent k = ?i"
      | "k \<noteq> j" "parent k \<noteq> j" "parent k \<noteq> ?i" by blast
    then show ?thesis
    proof cases
      case 1
      with less i j show ?thesis by (simp add: ys)
    next
      case 2
      with k p child [of k] show ?thesis by (simp add: ys)
    next
      case 3
      with k p i less ord [of k] show ?thesis by (simp add: ys)
    next
      case 4
      with k p ord [of k] show ?thesis by (simp add: ys)
    qed
  qed
  moreover have "?ys ! (parent ?i) \<le> ?ys ! k"
    if k: "0 < k" "k < length xs" "parent k = ?i" "0 < ?i" for k
  proof -
    have g: "parent ?i < ?i" using that by auto
    have up_i: "xs ! (parent ?i) \<le> xs ! ?i" using ord [of ?i] that i by simp
    have "k \<noteq> ?i" using that by auto
    show ?thesis
    proof (cases "k = j")
      case True
      with g i up_i j show ?thesis by (simp add: ys)
    next
      case False
      with k ord [of k] up_i g i \<open>k \<noteq> ?i\<close> show ?thesis by (simp add: ys)
    qed
  qed
  ultimately show ?thesis by (simp add: up_inv_def)
qed

lemma heap_up_inv: "j < length xs \<Longrightarrow> up_inv j xs \<Longrightarrow> heap_inv (heap_up xs j)"
proof (induction xs j rule: heap_up.induct)
  case (1 xs j)
  note step = heap_up.simps [of xs j, unfolded Let_def]
  show ?case
  proof (cases "parent j = j \<or> \<not> xs ! j < xs ! parent j")
    case True
    then have "xs ! parent k \<le> xs ! k" if "0 < k" "k < length xs" for k
      using "1.prems" that by (cases "k = j") (auto simp: up_inv_def)
    with True show ?thesis by (simp add: step heap_ordered_def)
  next
    case False
    then have "0 < j" by simp
    with False "1.prems" have "up_inv (parent j) (swap xs (parent j) j)" by (intro up_inv_swap) auto
    moreover have "parent j < length (swap xs (parent j) j)"
      using "1.prems"(1) \<open>0 < j\<close> by (simp add: less_trans [OF parent_less])
    ultimately have "heap_inv (heap_up (swap xs (parent j) j) (parent j))"
      using "1.IH" [OF refl] False by blast
    with False show ?thesis by (simp add: step)
  qed
qed

text \<open>While sifting down from \<open>i\<close> the order can fail only between \<open>i\<close> and its children.\<close>

definition down_inv :: "nat \<Rightarrow> nat \<Rightarrow> nat \<Rightarrow> 'a::linorder list \<Rightarrow> bool" where
  "down_inv i lo n xs =
    ((\<forall>k. 0 < k \<and> k < n \<and> lo \<le> parent k \<and> parent k \<noteq> i \<longrightarrow> xs ! parent k \<le> xs ! k) \<and>
     (\<forall>k. 0 < k \<and> k < n \<and> parent k = i \<and> 0 < i \<and> lo \<le> parent i \<longrightarrow> xs ! parent i \<le> xs ! k))"

lemma children: "0 < k \<Longrightarrow> parent k = i \<longleftrightarrow> k = 2 * i + 1 \<or> k = 2 * i + 2"
  by (auto simp: parent_def)

definition down_child :: "'a::linorder list \<Rightarrow> nat \<Rightarrow> nat \<Rightarrow> nat" where
  "down_child xs i n =
    (if 2 * i + 2 < n \<and> xs ! (2 * i + 2) < xs ! (2 * i + 1) then 2 * i + 2 else 2 * i + 1)"

lemma heap_down_step:
  "heap_down xs i n =
    (if 2 * i + 1 \<ge> n \<or> \<not> xs ! down_child xs i n < xs ! i then xs
     else heap_down (swap xs i (down_child xs i n)) (down_child xs i n) n)"
  by (subst heap_down.simps) (simp add: Let_def down_child_def)

lemma down_child_child:
  "2 * i + 1 < n \<Longrightarrow>
     parent (down_child xs i n) = i \<and> i < down_child xs i n \<and> down_child xs i n < n"
  by (auto simp: down_child_def parent_def)

lemma down_child_min:
  "0 < k \<Longrightarrow> k < n \<Longrightarrow> parent k = i \<Longrightarrow> xs ! down_child xs i n \<le> xs ! k"
  by (auto simp: down_child_def children not_less)

lemma down_inv_swap:
  assumes inv: "down_inv i lo n xs" and j: "parent j = i" "i < j" "j < n" and n: "n \<le> length xs"
    and lo: "lo \<le> i" and less: "xs ! j < xs ! i"
    and min: "\<And>k. 0 < k \<Longrightarrow> k < n \<Longrightarrow> parent k = i \<Longrightarrow> xs ! j \<le> xs ! k"
  shows "down_inv j lo n (swap xs i j)"
proof -
  let ?ys = "swap xs i j"
  have ys: "\<And>k. k < n \<Longrightarrow> ?ys ! k = (if k = j then xs ! i else if k = i then xs ! j else xs ! k)"
    using j n by (simp add: nth_swap)
  have "?ys ! parent k \<le> ?ys ! k" if k: "0 < k" "k < n" "lo \<le> parent k" "parent k \<noteq> j" for k
  proof -
    consider "k = i" | "k = j" | "k \<noteq> j" "k \<noteq> i" "parent k = i" | "k \<noteq> i" "k \<noteq> j" "parent k \<noteq> i" by blast
    then show ?thesis
    proof cases
      case 1
      then have "xs ! parent i \<le> xs ! j" using inv j k by (auto simp: down_inv_def)
      with 1 k j show ?thesis by (simp add: ys)
    next
      case 2
      with less j k show ?thesis by (simp add: ys)
    next
      case 3
      with min [of k] k j show ?thesis by (simp add: ys)
    next
      case 4
      then have "xs ! parent k \<le> xs ! k" using inv k by (simp add: down_inv_def)
      with 4 k show ?thesis by (simp add: ys)
    qed
  qed
  moreover have "?ys ! parent j \<le> ?ys ! k" if k: "0 < k" "k < n" "parent k = j" for k
  proof -
    have "xs ! j \<le> xs ! k" using inv k j lo by (auto simp: down_inv_def)
    moreover have "k \<noteq> i" "k \<noteq> j" using parent_less [OF k(1)] k j by auto
    ultimately show ?thesis using k j by (simp add: ys)
  qed
  ultimately show ?thesis by (simp add: down_inv_def)
qed

lemma heap_down_inv:
  "down_inv i lo n xs \<Longrightarrow> n \<le> length xs \<Longrightarrow> lo \<le> i \<Longrightarrow> heap_ordered lo n (heap_down xs i n)"
proof (induction "n - i" arbitrary: xs i rule: less_induct)
  case less
  let ?j = "down_child xs i n"
  show ?case
  proof (cases "2 * i + 1 \<ge> n \<or> \<not> xs ! ?j < xs ! i")
    case True
    have "xs ! parent k \<le> xs ! k" if k: "0 < k" "k < n" "lo \<le> parent k" for k
    proof (cases "parent k = i")
      case pk: True
      then have "2 * i + 1 < n" using k children by auto
      with True pk down_child_min [OF k(1,2) pk, of xs] show ?thesis by simp
    next
      case False
      then show ?thesis using less.prems(1) k by (simp add: down_inv_def)
    qed
    with True show ?thesis by (auto simp: heap_down_step [of xs i n] heap_ordered_def parent_def)
  next
    case False
    then have j: "parent ?j = i" "i < ?j" "?j < n" using down_child_child [of i n xs] by auto
    have "down_inv ?j lo n (swap xs i ?j)"
      using less.prems False j by (intro down_inv_swap) (auto intro: down_child_min)
    then have "heap_ordered lo n (heap_down (swap xs i ?j) ?j n)"
      using less.prems j by (intro less.hyps) auto
    with False show ?thesis by (simp add: heap_down_step [of xs i n])
  qed
qed

section \<open>Push, pop and init\<close>

lemma heap_ordered_parent:
  "heap_ordered lo n xs \<longleftrightarrow> (\<forall>k. 0 < k \<and> k < n \<and> lo \<le> parent k \<longrightarrow> xs ! parent k \<le> xs ! k)"
  by (simp add: heap_ordered_def parent_def)

lemma mset_heap_push [simp]: "mset (heap_push x xs) = add_mset x (mset xs)"
  by (simp add: heap_push_def mset_heap_up)

lemma heap_push_inv: "heap_inv xs \<Longrightarrow> heap_inv (heap_push x xs)"
  unfolding heap_push_def
proof (rule heap_up_inv)
  assume inv: "heap_inv xs"
  have "\<forall>k. 0 < k \<and> k \<le> length xs \<longrightarrow> parent k < length xs"
    by (metis order.strict_trans2 parent_less)
  with inv show "up_inv (length xs) (xs @ [x])"
    by (fastforce simp: up_inv_def heap_ordered_parent nth_append less_Suc_eq_le)
qed simp

lemma heap_min: "heap_inv xs \<Longrightarrow> k < length xs \<Longrightarrow> xs ! 0 \<le> xs ! k"
proof (induction k rule: less_induct)
  case (less k)
  show ?case
  proof (cases "k = 0")
    case False
    then have "xs ! 0 \<le> xs ! parent k" using less by auto
    also have "\<dots> \<le> xs ! k" using less.prems False by (simp add: heap_ordered_parent)
    finally show ?thesis .
  qed simp
qed

text \<open>The shape of a pop: the root leaves, the other elements stay, in any slice.\<close>

lemma heap_pop_shape:
  assumes "xs \<noteq> []"
  shows "\<exists>ys. heap_pop xs = Some (xs ! 0, ys) \<and> mset xs = add_mset (xs ! 0) (mset ys) \<and>
    (heap_inv xs \<longrightarrow> heap_inv ys)"
proof -
  define n where "n = length xs - 1"
  define zs where "zs = heap_down (swap xs 0 n) 0 n"
  have n: "n < length xs" "length zs = Suc n" using assms by (auto simp: n_def zs_def)
  have "zs ! n = swap xs 0 n ! n" using n by (simp add: zs_def heap_down_beyond)
  then have last: "zs ! n = xs ! 0" using n assms by (simp add: nth_swap)
  have swapped: "swap xs 0 n ! k = xs ! k" if "0 < k" "k < n" for k
    using n that assms by (simp add: nth_swap)
  have inv: "heap_inv (take n zs)" if "heap_inv xs"
  proof -
    have "down_inv 0 0 n (swap xs 0 n)"
      using that n swapped unfolding down_inv_def heap_ordered_parent by auto
    then have "heap_ordered 0 n zs" using n by (simp add: zs_def heap_down_inv)
    then show ?thesis using n by (auto simp: heap_ordered_parent)
  qed
  have "heap_down (swap xs 0 0) 0 0 = swap xs 0 0" by (subst heap_down.simps) simp
  then have "mset zs = mset xs"
    using n by (cases "n = 0") (simp_all add: zs_def mset_heap_down)
  moreover have "zs = take n zs @ [zs ! n]" using n by (metis lessI take_Suc_conv_app_nth take_all_iff order_refl)
  ultimately have "mset xs = add_mset (xs ! 0) (mset (take n zs))"
    using last by (metis mset_append mset.simps union_mset_add_mset_right add.right_neutral)
  moreover have "heap_pop xs = Some (xs ! 0, take n zs)"
    using assms last by (simp add: heap_pop_def Let_def n_def zs_def)
  ultimately show ?thesis using inv by blast
qed

lemma mset_heap_pop: "heap_pop xs = Some (x, ys) \<Longrightarrow> mset xs = add_mset x (mset ys)"
  using heap_pop_shape [of xs] by (cases "xs = []") (auto simp: heap_pop_def)

lemma length_heap_pop: "heap_pop xs = Some (x, ys) \<Longrightarrow> length xs = Suc (length ys)"
  by (metis mset_heap_pop size_add_mset size_mset)

lemma heap_pop_inv: "heap_inv xs \<Longrightarrow> heap_pop xs = Some (x, ys) \<Longrightarrow> heap_inv ys"
  using heap_pop_shape [of xs] by (cases "xs = []") (auto simp: heap_pop_def)

lemma heap_pop_root: "heap_pop xs = Some (x, ys) \<Longrightarrow> xs \<noteq> [] \<and> x = xs ! 0"
  using heap_pop_shape [of xs] by (cases "xs = []") (auto simp: heap_pop_def)

lemma heap_pop_min:
  assumes "heap_inv xs" and "heap_pop xs = Some (x, ys)" and "y \<in> set xs"
  shows "x \<le> y"
  using heap_min [OF assms(1)] heap_pop_root [OF assms(2)] assms(3)
  by (auto simp: in_set_conv_nth)

lemma heap_pop_None [simp]: "heap_pop xs = None \<longleftrightarrow> xs = []"
  by (simp add: heap_pop_def Let_def)

lemma heap_init_from_inv:
  "heap_ordered i (length xs) xs \<Longrightarrow>
     heap_inv (heap_init_from i xs) \<and> mset (heap_init_from i xs) = mset xs"
proof (induction i arbitrary: xs)
  case (Suc i)
  show ?case
  proof (cases "i < length xs")
    case True
    have "down_inv i i (length xs) xs"
      using Suc.prems by (auto simp: down_inv_def heap_ordered_parent)
    then have "heap_ordered i (length xs) (heap_down xs i (length xs))"
      by (simp add: heap_down_inv)
    then show ?thesis using Suc.IH [of "heap_down xs i (length xs)"] True
      by (simp add: mset_heap_down)
  next
    case False
    then have "heap_down xs i (length xs) = xs" by (simp add: heap_down.simps)
    moreover have "\<forall>k. k < length xs \<longrightarrow> \<not> i \<le> parent k"
      using False by (meson le_trans not_le parent_le)
    then have "heap_ordered i (length xs) xs" by (auto simp: heap_ordered_parent)
    ultimately show ?thesis using Suc.IH by simp
  qed
qed auto

lemma heap_init_inv: "heap_inv (heap_init xs) \<and> mset (heap_init xs) = mset xs"
  unfolding heap_init_def
proof (rule heap_init_from_inv)
  have "parent k < length xs div 2" if "0 < k" "k < length xs" for k
    using that by (auto simp: parent_def)
  then show "heap_ordered (length xs div 2) (length xs) xs"
    by (auto simp: heap_ordered_parent simp flip: not_less)
qed

section \<open>The queue contract\<close>

text \<open>
  What a client of the heap relies on: a queue holds a multiset of events, a push adds one,
  and a pop removes a least one. \<open>peek\<close> is the test of the root (\<open>h[0]\<close>) that a loop makes
  before it pops.
\<close>

locale event_queue =
  fixes inv :: "'q \<Rightarrow> bool"
    and elems :: "'q \<Rightarrow> 'a::linorder multiset"
    and push :: "'a \<Rightarrow> 'q \<Rightarrow> 'q"
    and pop :: "'q \<Rightarrow> ('a \<times> 'q) option"
    and peek :: "'q \<Rightarrow> 'a option"
  assumes push_inv: "inv q \<Longrightarrow> inv (push x q)"
    and push_elems: "elems (push x q) = add_mset x (elems q)"
    and pop_None: "pop q = None \<longleftrightarrow> elems q = {#}"
    and pop_peek: "peek q = map_option fst (pop q)"
    and pop_inv: "inv q \<Longrightarrow> pop q = Some (x, q') \<Longrightarrow> inv q'"
    and pop_elems: "pop q = Some (x, q') \<Longrightarrow> elems q = add_mset x (elems q')"
    and pop_least: "inv q \<Longrightarrow> pop q = Some (x, q') \<Longrightarrow> y \<in># elems q \<Longrightarrow> x \<le> y"
begin

lemma peek_None: "peek q = None \<longleftrightarrow> elems q = {#}"
  by (simp add: pop_peek pop_None)

lemma peek_Some: "peek q = Some x \<Longrightarrow> \<exists>q'. pop q = Some (x, q')"
  by (auto simp: pop_peek)

lemma peek_least: "inv q \<Longrightarrow> peek q = Some x \<Longrightarrow> y \<in># elems q \<Longrightarrow> x \<le> y"
  using peek_Some pop_least by blast

lemma pop_size: "pop q = Some (x, q') \<Longrightarrow> size (elems q) = Suc (size (elems q'))"
  by (simp add: pop_elems)

text \<open>A loop that stops at the first event that is not due leaves no due event behind.\<close>

lemma stop_none_due:
  assumes "inv q" and "\<And>x. peek q = Some x \<Longrightarrow> \<not> due x" and "\<And>x y. x \<le> y \<Longrightarrow> due y \<Longrightarrow> due x"
  shows "\<forall>y\<in>#elems q. \<not> due y"
proof (cases "peek q")
  case None
  then show ?thesis by (simp add: peek_None)
next
  case (Some x)
  with assms peek_least show ?thesis by blast
qed

end

definition heap_peek :: "'a list \<Rightarrow> 'a option" where
  "heap_peek xs = (case xs of [] \<Rightarrow> None | x # _ \<Rightarrow> Some x)"

lemma heap_peek_pop: "heap_peek xs = map_option fst (heap_pop xs)"
  using heap_pop_shape [of xs]
  by (cases xs) (auto simp: heap_peek_def)

interpretation go_heap: event_queue heap_inv mset heap_push heap_pop heap_peek
proof (unfold_locales, goal_cases)
  case (7 q x q' y)
  then show ?case using heap_pop_min by auto
qed (simp_all add: heap_push_inv heap_peek_pop mset_heap_pop heap_pop_inv)

end
