(* ===== verification/NetworkModel.thy ===== *)
theory NetworkModel
  imports ClassSets Complex_Main
begin

text \<open>
  The immutable network of \<open>internal/sim/network.go\<close>: its data, its lookups, the geometry of a
  lane, and the field checks of \<open>Network.validate\<close>. A \<open>float64\<close> is a real number or not finite;
  rounding and the overflow of finite arithmetic are not modelled. A nil slice that the code
  tells apart from an empty one (\<open>Station.Banks\<close>) is an option.
\<close>

section \<open>Floating point values\<close>

text \<open>
  \<open>NonFinite\<close> stands for NaN and the infinities. Arithmetic on it gives \<open>NonFinite\<close> again, and
  an ordering test with it is false.
\<close>

datatype float64 = Fin real | NonFinite

primrec fval :: "float64 \<Rightarrow> real" where
  "fval (Fin r) = r"
| "fval NonFinite = 0"

primrec finite64 :: "float64 \<Rightarrow> bool" where
  "finite64 (Fin r) = True"
| "finite64 NonFinite = False"

fun flift2 :: "(real \<Rightarrow> real \<Rightarrow> real) \<Rightarrow> float64 \<Rightarrow> float64 \<Rightarrow> float64" where
  "flift2 f (Fin a) (Fin b) = Fin (f a b)"
| "flift2 f _ _ = NonFinite"

definition fadd :: "float64 \<Rightarrow> float64 \<Rightarrow> float64" where "fadd = flift2 (+)"
definition fsub :: "float64 \<Rightarrow> float64 \<Rightarrow> float64" where "fsub = flift2 (-)"
definition fmul :: "float64 \<Rightarrow> float64 \<Rightarrow> float64" where "fmul = flift2 (*)"
definition fhypot :: "float64 \<Rightarrow> float64 \<Rightarrow> float64" where "fhypot = flift2 (\<lambda>a b. sqrt (a\<^sup>2 + b\<^sup>2))"

fun fle :: "float64 \<Rightarrow> float64 \<Rightarrow> bool" where
  "fle (Fin a) (Fin b) = (a \<le> b)"
| "fle _ _ = False"

fun fless :: "float64 \<Rightarrow> float64 \<Rightarrow> bool" where
  "fless (Fin a) (Fin b) = (a < b)"
| "fless _ _ = False"

lemmas float_ops = fadd_def fsub_def fmul_def fhypot_def

lemma finite64_flift2 [simp]: "finite64 (flift2 f a b) \<longleftrightarrow> finite64 a \<and> finite64 b"
  by (cases a; cases b) auto

lemma fval_flift2: "finite64 a \<Longrightarrow> finite64 b \<Longrightarrow> fval (flift2 f a b) = f (fval a) (fval b)"
  by (cases a; cases b) auto

lemma finite64_ex: "finite64 a \<longleftrightarrow> (\<exists>r. a = Fin r)"
  by (cases a) auto

lemma flift2_NonFinite [simp]: "flift2 f NonFinite b = NonFinite" "flift2 f a NonFinite = NonFinite"
  by (cases a; simp)+

section \<open>Data\<close>

record Point =
  pt_X :: float64
  pt_Y :: float64

definition zeroPoint :: Point where
  "zeroPoint = \<lparr>pt_X = Fin 0, pt_Y = Fin 0\<rparr>"

record Node =
  node_ID :: string
  node_Position :: Point

definition StationApproachRole :: string where "StationApproachRole = ''approach''"
definition StationEntryRole :: string where "StationEntryRole = ''entry''"
definition StationBerthAccessRole :: string where "StationBerthAccessRole = ''berth-access''"
definition StationThroughRole :: string where "StationThroughRole = ''through''"
definition StationDepartureRole :: string where "StationDepartureRole = ''departure''"
definition StationExitRole :: string where "StationExitRole = ''exit''"

lemmas role_names =
  StationApproachRole_def StationEntryRole_def StationBerthAccessRole_def
  StationThroughRole_def StationDepartureRole_def StationExitRole_def

record Lane =
  lane_VehicleClasses :: ClassSet
  lane_ID :: string
  lane_From :: string
  lane_To :: string
  lane_SpeedLimit :: float64
  lane_SeparationGroup :: string
  lane_StationID :: string
  lane_StationRole :: string
  lane_Control :: "Point option"

record Berth =
  berth_VehicleClasses :: ClassSet
  berth_ID :: string
  berth_Node :: string
  berth_SeparationGroup :: string

record StationBank =
  bank_ID :: string
  bank_Entry :: string
  bank_Exit :: string
  bank_BerthIDs :: "string list"

definition MaxStationBanks :: nat where "MaxStationBanks = 8"

record Station =
  st_VehicleClasses :: ClassSet
  st_ID :: string
  st_Name :: string
  st_Entry :: string
  st_Exit :: string
  st_Berths :: "Berth list"
  st_ParkingOnly :: bool
  st_Banks :: "StationBank list option"

definition bank_list :: "Station \<Rightarrow> StationBank list" where
  "bank_list station = (case st_Banks station of None \<Rightarrow> [] | Some banks \<Rightarrow> banks)"

record ManeuverGroup =
  mg_ID :: string
  mg_StationID :: string
  mg_LaneIDs :: "string list"
  mg_BerthIDs :: "string list"
  mg_ReverseLaneIDs :: "string list"

record Depot =
  depot_Station :: string
  depot_Lanes :: "string list list"

definition MaxDepotLanes :: nat where "MaxDepotLanes = 8"

record Network =
  net_Nodes :: "Node list"
  net_Lanes :: "Lane list"
  net_Stations :: "Station list"
  net_ManeuverGroups :: "ManeuverGroup list"
  net_Depots :: "Depot list"

section \<open>Lookups\<close>

text \<open>The Go functions return a value and a flag; \<open>None\<close> is a false flag.\<close>

definition Network_Node :: "Network \<Rightarrow> string \<Rightarrow> Node option" where
  "Network_Node n ident = find (\<lambda>node. node_ID node = ident) (net_Nodes n)"

definition Network_Station :: "Network \<Rightarrow> string \<Rightarrow> Station option" where
  "Network_Station n ident = find (\<lambda>station. st_ID station = ident) (net_Stations n)"

definition Station_berth :: "Station \<Rightarrow> string \<Rightarrow> Berth option" where
  "Station_berth station ident = find (\<lambda>berth. ident = [] \<or> berth_ID berth = ident) (st_Berths station)"

definition bankForBerth :: "Station \<Rightarrow> string \<Rightarrow> StationBank option" where
  "bankForBerth station ident = find (\<lambda>bank. ident \<in> set (bank_BerthIDs bank)) (bank_list station)"

definition isEntry :: "Station \<Rightarrow> string \<Rightarrow> bool" where
  "isEntry station node =
    (case st_Banks station of
       None \<Rightarrow> node = st_Entry station
     | Some banks \<Rightarrow> list_ex (\<lambda>b. bank_Entry b = node) banks)"

definition isExit :: "Station \<Rightarrow> string \<Rightarrow> bool" where
  "isExit station node =
    (case st_Banks station of
       None \<Rightarrow> node = st_Exit station
     | Some banks \<Rightarrow> list_ex (\<lambda>b. bank_Exit b = node) banks)"

definition berthEntry :: "Station \<Rightarrow> Berth \<Rightarrow> string" where
  "berthEntry station berth =
    (case bankForBerth station (berth_ID berth) of Some bank \<Rightarrow> bank_Entry bank | None \<Rightarrow> st_Entry station)"

fun routeEntryScan :: "Station \<Rightarrow> Lane list \<Rightarrow> string option" where
  "routeEntryScan station [] = None"
| "routeEntryScan station (lane # lanes) =
    (if isEntry station (lane_To lane) then Some (lane_To lane)
     else if isEntry station (lane_From lane) then Some (lane_From lane)
     else routeEntryScan station lanes)"

definition routeEntry :: "Station \<Rightarrow> Lane list \<Rightarrow> Berth \<Rightarrow> string" where
  "routeEntry station route berth =
    (case routeEntryScan station (rev route) of
       Some node \<Rightarrow> node
     | None \<Rightarrow> if berth_ID berth \<noteq> [] then berthEntry station berth else st_Entry station)"

definition connected :: "Network \<Rightarrow> string \<Rightarrow> string \<Rightarrow> bool" where
  "connected n from to = list_ex (\<lambda>lane. lane_From lane = from \<and> lane_To lane = to) (net_Lanes n)"

definition hasStationBanks :: "Network \<Rightarrow> bool" where
  "hasStationBanks n = list_ex (\<lambda>s. st_Banks s \<noteq> None) (net_Stations n)"

definition bankLocalRole :: "string \<Rightarrow> bool" where
  "bankLocalRole role =
    (role = StationBerthAccessRole \<or> role = StationDepartureRole \<or> role = StationThroughRole)"

text \<open>The set of node IDs that a path inside a station area may not pass.\<close>

definition stationForbidden :: "Network \<Rightarrow> string set" where
  "stationForbidden n =
    (\<Union>candidate\<in>set (net_Stations n).
       {st_Entry candidate, st_Exit candidate} \<union>
       (\<Union>bank\<in>set (bank_list candidate). {bank_Entry bank, bank_Exit bank}) \<union>
       berth_Node ` set (st_Berths candidate))"

definition depotForbidden :: "Network \<Rightarrow> string set \<Rightarrow> string \<Rightarrow> string set" where
  "depotForbidden n forbidden berthID =
    (case find (\<lambda>(station, lane). berthID \<in> set lane)
        (concat (map (\<lambda>depot. map (Pair (depot_Station depot)) (depot_Lanes depot)) (net_Depots n))) of
       None \<Rightarrow> forbidden
     | Some (stationID, lane) \<Rightarrow>
         (case Network_Station n stationID of
            None \<Rightarrow> forbidden
          | Some station \<Rightarrow>
              forbidden - set (List.map_filter (\<lambda>ident.
                if ident = [] then None else map_option berth_Node (Station_berth station ident)) lane)))"

section \<open>Geometry of a lane\<close>

definition pointDistance :: "Point \<Rightarrow> Point \<Rightarrow> float64" where
  "pointDistance a b = fhypot (fsub (pt_X b) (pt_X a)) (fsub (pt_Y b) (pt_Y a))"

text \<open>The point at step \<open>i\<close> of the 64 steps of a quadratic curve.\<close>

definition curvePoint :: "Point \<Rightarrow> Point \<Rightarrow> Point \<Rightarrow> nat \<Rightarrow> Point" where
  "curvePoint from control to i =
    (let t = real i / 64; u = 1 - t;
         mix = (\<lambda>a c b. fadd (fadd (fmul (Fin (u * u)) a) (fmul (Fin (2 * u * t)) c)) (fmul (Fin (t * t)) b))
     in \<lparr>pt_X = mix (pt_X from) (pt_X control) (pt_X to), pt_Y = mix (pt_Y from) (pt_Y control) (pt_Y to)\<rparr>)"

definition lanePointsBetween :: "Lane \<Rightarrow> Point \<Rightarrow> Point \<Rightarrow> Point list" where
  "lanePointsBetween lane from to =
    (case lane_Control lane of
       None \<Rightarrow> [from, to]
     | Some control \<Rightarrow> map (curvePoint from control to) [0..<65])"

definition nodePosition :: "Network \<Rightarrow> string \<Rightarrow> Point" where
  "nodePosition n ident = (case Network_Node n ident of Some node \<Rightarrow> node_Position node | None \<Rightarrow> zeroPoint)"

definition Polyline :: "Network \<Rightarrow> Lane \<Rightarrow> Point list" where
  "Polyline n lane = lanePointsBetween lane (nodePosition n (lane_From lane)) (nodePosition n (lane_To lane))"

fun pathLength :: "float64 \<Rightarrow> Point list \<Rightarrow> float64" where
  "pathLength acc (a # b # rest) = pathLength (fadd acc (pointDistance a b)) (b # rest)"
| "pathLength acc _ = acc"

definition Length :: "Network \<Rightarrow> Lane \<Rightarrow> float64" where
  "Length n lane = pathLength (Fin 0) (Polyline n lane)"

text \<open>The length that the route graph computes in one pass without a list of points.\<close>

fun curveLoop :: "Point \<Rightarrow> Point \<Rightarrow> Point \<Rightarrow> nat list \<Rightarrow> float64 \<Rightarrow> Point \<Rightarrow> float64" where
  "curveLoop from control to [] acc previous = acc"
| "curveLoop from control to (i # rest) acc previous =
    (let point = curvePoint from control to i
     in curveLoop from control to rest (fadd acc (pointDistance previous point)) point)"

definition indexedLaneLength :: "Lane \<Rightarrow> Point \<Rightarrow> Point \<Rightarrow> float64" where
  "indexedLaneLength lane from to =
    (case lane_Control lane of
       None \<Rightarrow> pointDistance from to
     | Some control \<Rightarrow> curveLoop from control to [1..<65] (Fin 0) from)"

text \<open>\<open>Position\<close> walks the points and stops in the first segment that holds the distance.\<close>

fun positionLoop :: "float64 \<Rightarrow> Point list \<Rightarrow> Point option" where
  "positionLoop distance (a # b # rest) =
    (let length = pointDistance a b in
      if fle distance length \<and> fless (Fin 0) length
      then let t = max 0 (fval distance) / fval length in
        Some \<lparr>pt_X = fadd (pt_X a) (fmul (Fin t) (fsub (pt_X b) (pt_X a))),
              pt_Y = fadd (pt_Y a) (fmul (Fin t) (fsub (pt_Y b) (pt_Y a)))\<rparr>
      else positionLoop (fsub distance length) (b # rest))"
| "positionLoop distance _ = None"

definition Position :: "Network \<Rightarrow> Lane \<Rightarrow> float64 \<Rightarrow> Point" where
  "Position n lane distance =
    (let points = Polyline n lane in
      case positionLoop distance points of Some p \<Rightarrow> p | None \<Rightarrow> last points)"

section \<open>The two lengths agree\<close>

lemma fadd_0 [simp]: "fadd (Fin 0) x = x"
  by (cases x) (auto simp: fadd_def)

lemma pathLength_NonFinite [simp]: "pathLength NonFinite points = NonFinite"
  by (induction "NonFinite" points rule: pathLength.induct) (auto simp: float_ops)

lemma pathLength_curve:
  "pathLength acc (previous # map (curvePoint from control to) is) = curveLoop from control to is acc previous"
  by (induction "is" arbitrary: acc previous) (auto simp: Let_def)

definition finitePoint :: "Point \<Rightarrow> bool" where
  "finitePoint p \<longleftrightarrow> finite64 (pt_X p) \<and> finite64 (pt_Y p)"

lemma curvePoint_0: "finitePoint control \<Longrightarrow> finitePoint to \<Longrightarrow> curvePoint from control to 0 = from"
  by (cases "pt_X from"; cases "pt_Y from")
    (auto simp: curvePoint_def finitePoint_def finite64_ex float_ops)

lemma curvePoint_NonFinite:
  "\<not> (finitePoint control \<and> finitePoint to) \<Longrightarrow>
     pt_X (curvePoint from control to i) = NonFinite \<or> pt_Y (curvePoint from control to i) = NonFinite"
proof -
  assume "\<not> (finitePoint control \<and> finitePoint to)"
  then have "pt_X control = NonFinite \<or> pt_Y control = NonFinite \<or> pt_X to = NonFinite \<or> pt_Y to = NonFinite"
    by (cases "pt_X control"; cases "pt_Y control"; cases "pt_X to"; cases "pt_Y to") (auto simp: finitePoint_def)
  then show ?thesis by (auto simp: curvePoint_def float_ops Let_def)
qed

lemma pointDistance_NonFinite:
  "pt_X b = NonFinite \<or> pt_Y b = NonFinite \<Longrightarrow> pointDistance a b = NonFinite"
  by (auto simp: pointDistance_def float_ops)

lemma upt_65: "[0..<65] = 0 # [1..<65]"
  by (simp add: upt_conv_Cons)

lemma curveLoop_Length:
  "pathLength (Fin 0) (map (curvePoint from control to) [0..<65]) = curveLoop from control to [1..<65] (Fin 0) from"
proof -
  define js where "js = [2..<65::nat]"
  have js: "[Suc 0..<65] = Suc 0 # js" by (simp add: js_def upt_conv_Cons)
  show ?thesis
  proof (cases "finitePoint control \<and> finitePoint to")
    case True
    then have "map (curvePoint from control to) [0..<65] = from # map (curvePoint from control to) [1..<65]"
      by (simp only: upt_65 list.map curvePoint_0)
    then show ?thesis by (simp only: pathLength_curve)
  next
    case False
    have "pointDistance a (curvePoint from control to 1) = NonFinite" for a
      using curvePoint_NonFinite [OF False] by (simp add: pointDistance_NonFinite)
    then show ?thesis
      by (simp add: upt_65 js Let_def float_ops flip: pathLength_curve)
  qed
qed

text \<open>
  The one-pass lane length of the route graph is the length of the polyline that pods
  follow and that the browser draws, for straight and curved lanes.
\<close>

lemma indexedLaneLength_Length:
  "indexedLaneLength lane (nodePosition n (lane_From lane)) (nodePosition n (lane_To lane)) = Length n lane"
  by (simp add: indexedLaneLength_def Length_def Polyline_def lanePointsBetween_def curveLoop_Length
      split: option.split)

end
