(* ===== verification/NetworkChecks.thy ===== *)
theory NetworkChecks
  imports NetworkModel
begin

text \<open>
  The field checks of \<open>Network.validate\<close> in \<open>internal/sim/network.go\<close>: nodes, lanes, stations
  with their berths, and the stations of the lanes. A Go map that a loop fills is a map or a
  set that the loop threads.
\<close>

datatype network_error =
    InvalidNode string
  | InvalidLane string
  | InvalidStationFields string
  | InvalidBerthFields string
  | UnknownLaneStation string string

fun validateNodesLoop ::
  "Node list \<Rightarrow> (string \<rightharpoonup> Point) \<Rightarrow> (network_error, string \<rightharpoonup> Point) result" where
  "validateNodesLoop [] nodes = Inr nodes"
| "validateNodesLoop (node # rest) nodes =
    (if node_ID node = [] \<or> nodes (node_ID node) \<noteq> None \<or>
        \<not> finite64 (pt_X (node_Position node)) \<or> \<not> finite64 (pt_Y (node_Position node))
     then Inl (InvalidNode (node_ID node))
     else validateNodesLoop rest (nodes(node_ID node \<mapsto> node_Position node)))"

definition validateNodes :: "Network \<Rightarrow> (network_error, string \<rightharpoonup> Point) result" where
  "validateNodes n = validateNodesLoop (net_Nodes n) Map.empty"

definition validStationLaneRole :: "string \<Rightarrow> bool" where
  "validStationLaneRole role =
    (role = [] \<or> role = StationApproachRole \<or> role = StationEntryRole \<or> role = StationBerthAccessRole \<or>
     role = StationThroughRole \<or> role = StationDepartureRole \<or> role = StationExitRole)"

definition mapPoint :: "(string \<rightharpoonup> Point) \<Rightarrow> string \<Rightarrow> Point" where
  "mapPoint nodes ident = (case nodes ident of Some p \<Rightarrow> p | None \<Rightarrow> zeroPoint)"

definition invalidLane :: "Lane \<Rightarrow> (string \<rightharpoonup> Point) \<Rightarrow> bool" where
  "invalidLane lane nodes =
    (let length = indexedLaneLength lane (mapPoint nodes (lane_From lane)) (mapPoint nodes (lane_To lane)) in
      lane_VehicleClasses lane AND NOT allClassBits \<noteq> 0 \<or> lane_ID lane = [] \<or>
      nodes (lane_From lane) = None \<or> nodes (lane_To lane) = None \<or>
      \<not> finite64 (lane_SpeedLimit lane) \<or> fle (lane_SpeedLimit lane) (Fin 0) \<or>
      fless (Fin (of_int MaxCounter)) (lane_SpeedLimit lane) \<or>
      fle length (Fin 0) \<or> \<not> finite64 length \<or>
      \<not> validStationLaneRole (lane_StationRole lane) \<or>
      ((lane_StationID lane = []) \<noteq> (lane_StationRole lane = [])))"

fun validateLaneFieldsLoop ::
  "(string \<rightharpoonup> Point) \<Rightarrow> Lane list \<Rightarrow> string set \<Rightarrow> (network_error, unit) result" where
  "validateLaneFieldsLoop nodes [] lanes = Inr ()"
| "validateLaneFieldsLoop nodes (lane # rest) lanes =
    (if lane_ID lane \<in> lanes \<or> invalidLane lane nodes then Inl (InvalidLane (lane_ID lane))
     else validateLaneFieldsLoop nodes rest (insert (lane_ID lane) lanes))"

definition validateLaneFields :: "Network \<Rightarrow> (string \<rightharpoonup> Point) \<Rightarrow> (network_error, unit) result" where
  "validateLaneFields n nodes = validateLaneFieldsLoop nodes (net_Lanes n) {}"

definition invalidStation :: "Station \<Rightarrow> (string \<rightharpoonup> Point) \<Rightarrow> bool" where
  "invalidStation station nodes =
    (st_VehicleClasses station AND NOT allClassBits \<noteq> 0 \<or> st_ID station = [] \<or>
     nodes (st_Entry station) = None \<or> nodes (st_Exit station) = None \<or>
     st_Entry station = st_Exit station \<or> st_Berths station = [])"

definition invalidBerth :: "Berth \<Rightarrow> Station \<Rightarrow> (string \<rightharpoonup> Point) \<Rightarrow> bool" where
  "invalidBerth berth station nodes =
    (berth_VehicleClasses berth AND NOT allClassBits \<noteq> 0 \<or> berth_ID berth = [] \<or>
     nodes (berth_Node berth) = None \<or>
     berth_Node berth = st_Entry station \<or> berth_Node berth = st_Exit station)"

fun validateBerthsLoop ::
  "(string \<rightharpoonup> Point) \<Rightarrow> Station \<Rightarrow> Berth list \<Rightarrow> string set \<Rightarrow> string set \<Rightarrow>
    (network_error, string set \<times> string set) result" where
  "validateBerthsLoop nodes station [] berths berthNodes = Inr (berths, berthNodes)"
| "validateBerthsLoop nodes station (berth # rest) berths berthNodes =
    (if berth_ID berth \<in> berths \<or> berth_Node berth \<in> berthNodes \<or> invalidBerth berth station nodes
     then Inl (InvalidBerthFields (st_ID station))
     else validateBerthsLoop nodes station rest
       (insert (berth_ID berth) berths) (insert (berth_Node berth) berthNodes))"

fun validateStationFieldsLoop ::
  "(string \<rightharpoonup> Point) \<Rightarrow> Station list \<Rightarrow> string set \<Rightarrow> string set \<Rightarrow> string set \<Rightarrow>
    (network_error, string set) result" where
  "validateStationFieldsLoop nodes [] stations berths berthNodes = Inr stations"
| "validateStationFieldsLoop nodes (station # rest) stations berths berthNodes =
    (if st_ID station \<in> stations \<or> invalidStation station nodes
     then Inl (InvalidStationFields (st_ID station))
     else case validateBerthsLoop nodes station (st_Berths station) berths berthNodes of
       Inl e \<Rightarrow> Inl e
     | Inr (berths', berthNodes') \<Rightarrow>
         validateStationFieldsLoop nodes rest (insert (st_ID station) stations) berths' berthNodes')"

definition validateStationFields ::
  "Network \<Rightarrow> (string \<rightharpoonup> Point) \<Rightarrow> (network_error, string set) result" where
  "validateStationFields n nodes = validateStationFieldsLoop nodes (net_Stations n) {} {} {}"

definition validateLaneStations :: "Network \<Rightarrow> string set \<Rightarrow> (network_error, unit) result" where
  "validateLaneStations n stations =
    (case find (\<lambda>lane. lane_StationID lane \<noteq> [] \<and> lane_StationID lane \<notin> stations) (net_Lanes n) of
       Some lane \<Rightarrow> Inl (UnknownLaneStation (lane_ID lane) (lane_StationID lane))
     | None \<Rightarrow> Inr ())"

text \<open>The first four checks of \<open>validate\<close>, in its order.\<close>

definition validateFields :: "Network \<Rightarrow> (network_error, string \<rightharpoonup> Point) result" where
  "validateFields n =
    (case validateNodes n of
       Inl e \<Rightarrow> Inl e
     | Inr nodes \<Rightarrow>
    (case validateLaneFields n nodes of
       Inl e \<Rightarrow> Inl e
     | Inr _ \<Rightarrow>
    (case validateStationFields n nodes of
       Inl e \<Rightarrow> Inl e
     | Inr stations \<Rightarrow>
    (case validateLaneStations n stations of
       Inl e \<Rightarrow> Inl e
     | Inr _ \<Rightarrow> Inr nodes))))"

section \<open>What the checks accept\<close>

definition goodNodes :: "Network \<Rightarrow> bool" where
  "goodNodes n \<longleftrightarrow>
    distinct (map node_ID (net_Nodes n)) \<and>
    (\<forall>node\<in>set (net_Nodes n). node_ID node \<noteq> [] \<and> finitePoint (node_Position node))"

definition nodeMap :: "Network \<Rightarrow> string \<rightharpoonup> Point" where
  "nodeMap n ident = map_option node_Position (Network_Node n ident)"

definition goodLane :: "Network \<Rightarrow> Lane \<Rightarrow> bool" where
  "goodLane n lane \<longleftrightarrow>
    lane_VehicleClasses lane AND NOT allClassBits = 0 \<and> lane_ID lane \<noteq> [] \<and>
    {lane_From lane, lane_To lane} \<subseteq> node_ID ` set (net_Nodes n) \<and>
    (\<exists>v. lane_SpeedLimit lane = Fin v \<and> 0 < v \<and> v \<le> of_int MaxCounter) \<and>
    (\<exists>l. Length n lane = Fin l \<and> 0 < l) \<and>
    validStationLaneRole (lane_StationRole lane) \<and>
    (lane_StationID lane = [] \<longleftrightarrow> lane_StationRole lane = []) \<and>
    (lane_StationID lane \<noteq> [] \<longrightarrow> lane_StationID lane \<in> st_ID ` set (net_Stations n))"

definition goodStation :: "Network \<Rightarrow> Station \<Rightarrow> bool" where
  "goodStation n station \<longleftrightarrow>
    st_VehicleClasses station AND NOT allClassBits = 0 \<and> st_ID station \<noteq> [] \<and>
    {st_Entry station, st_Exit station} \<subseteq> node_ID ` set (net_Nodes n) \<and>
    st_Entry station \<noteq> st_Exit station \<and> st_Berths station \<noteq> [] \<and>
    (\<forall>berth\<in>set (st_Berths station).
       berth_VehicleClasses berth AND NOT allClassBits = 0 \<and> berth_ID berth \<noteq> [] \<and>
       berth_Node berth \<in> node_ID ` set (net_Nodes n) \<and>
       berth_Node berth \<noteq> st_Entry station \<and> berth_Node berth \<noteq> st_Exit station)"

definition allBerths :: "Network \<Rightarrow> Berth list" where
  "allBerths n = concat (map st_Berths (net_Stations n))"

definition goodFields :: "Network \<Rightarrow> bool" where
  "goodFields n \<longleftrightarrow>
    goodNodes n \<and>
    distinct (map lane_ID (net_Lanes n)) \<and> (\<forall>lane\<in>set (net_Lanes n). goodLane n lane) \<and>
    distinct (map st_ID (net_Stations n)) \<and> (\<forall>station\<in>set (net_Stations n). goodStation n station) \<and>
    distinct (map berth_ID (allBerths n)) \<and> distinct (map berth_Node (allBerths n))"

lemma validateNodesLoop_Inr:
  "validateNodesLoop ns nodes = Inr r \<longleftrightarrow>
     distinct (map node_ID ns) \<and> node_ID ` set ns \<inter> dom nodes = {} \<and>
     (\<forall>node\<in>set ns. node_ID node \<noteq> [] \<and> finitePoint (node_Position node)) \<and>
     r = map_of (map (\<lambda>node. (node_ID node, node_Position node)) ns) ++ nodes"
proof (induction ns arbitrary: nodes)
  case Nil
  then show ?case by auto
next
  case (Cons node ns)
  show ?case
  proof (cases "node_ID node = [] \<or> nodes (node_ID node) \<noteq> None \<or> \<not> finitePoint (node_Position node)")
    case True
    then show ?thesis by (auto simp: finitePoint_def)
  next
    case False
    then have free: "node_ID node \<notin> dom nodes" by auto
    let ?m = "map_of (map (\<lambda>node. (node_ID node, node_Position node)) ns)"
    define M where "M = map_of (map (\<lambda>node. (node_ID node, node_Position node)) (node # ns)) ++ nodes"
    have upd: "?m ++ nodes(node_ID node \<mapsto> node_Position node) = M"
      using map_add_upd_left [OF free] by (simp add: map_add_upd M_def)
    from False have "validateNodesLoop (node # ns) nodes =
        validateNodesLoop ns (nodes(node_ID node \<mapsto> node_Position node))"
      by (simp add: finitePoint_def)
    then have "validateNodesLoop (node # ns) nodes = Inr r \<longleftrightarrow>
        distinct (map node_ID ns) \<and> node_ID ` set ns \<inter> insert (node_ID node) (dom nodes) = {} \<and>
        (\<forall>node\<in>set ns. node_ID node \<noteq> [] \<and> finitePoint (node_Position node)) \<and>
        r = M"
      by (simp only: Cons.IH upd dom_fun_upd option.distinct if_False)
    then show ?thesis unfolding M_def [symmetric] using False free by auto
  qed
qed

lemma validateNodes_Inr: "validateNodes n = Inr nodes \<longleftrightarrow> goodNodes n \<and> nodes = nodeMap n"
proof -
  have "map_of (map (\<lambda>node. (node_ID node, node_Position node)) ns) ident =
      map_option node_Position (find (\<lambda>node. node_ID node = ident) ns)" for ns ident
    by (induction ns) auto
  from this [of "net_Nodes n"]
  have "map_of (map (\<lambda>node. (node_ID node, node_Position node)) (net_Nodes n)) = nodeMap n"
    by (simp add: fun_eq_iff nodeMap_def Network_Node_def)
  then show ?thesis
    by (simp add: validateNodes_def validateNodesLoop_Inr goodNodes_def)
qed

lemma find_None_iff_set: "find p xs = None \<longleftrightarrow> (\<forall>x\<in>set xs. \<not> p x)"
  by (auto simp: find_None_iff)

lemma find_SomeD: "find p xs = Some x \<Longrightarrow> x \<in> set xs \<and> p x"
  by (induction xs) (auto split: if_splits)

lemma nodeMap_dom [simp]: "nodeMap n ident \<noteq> None \<longleftrightarrow> ident \<in> node_ID ` set (net_Nodes n)"
  "nodeMap n ident = None \<longleftrightarrow> ident \<notin> node_ID ` set (net_Nodes n)"
  by (auto simp: nodeMap_def Network_Node_def find_None_iff_set)

lemma mapPoint_nodeMap [simp]: "mapPoint (nodeMap n) ident = nodePosition n ident"
  by (simp add: mapPoint_def nodeMap_def nodePosition_def split: option.split)

definition goodLaneFields :: "Network \<Rightarrow> Lane \<Rightarrow> bool" where
  "goodLaneFields n lane \<longleftrightarrow>
    lane_VehicleClasses lane AND NOT allClassBits = 0 \<and> lane_ID lane \<noteq> [] \<and>
    {lane_From lane, lane_To lane} \<subseteq> node_ID ` set (net_Nodes n) \<and>
    (\<exists>v. lane_SpeedLimit lane = Fin v \<and> 0 < v \<and> v \<le> of_int MaxCounter) \<and>
    (\<exists>l. Length n lane = Fin l \<and> 0 < l) \<and>
    validStationLaneRole (lane_StationRole lane) \<and>
    (lane_StationID lane = [] \<longleftrightarrow> lane_StationRole lane = [])"

lemma invalidLane_iff: "invalidLane lane (nodeMap n) \<longleftrightarrow> \<not> goodLaneFields n lane"
proof -
  have speed: "\<not> finite64 v \<or> fle v (Fin 0) \<or> fless (Fin (of_int MaxCounter)) v \<longleftrightarrow>
      \<not> (\<exists>r. v = Fin r \<and> 0 < r \<and> r \<le> of_int MaxCounter)" for v
    by (cases v) auto
  have length: "fle l (Fin 0) \<or> \<not> finite64 l \<longleftrightarrow> \<not> (\<exists>r. l = Fin r \<and> 0 < r)" for l
    by (cases l) auto
  show ?thesis
    unfolding invalidLane_def Let_def mapPoint_nodeMap indexedLaneLength_Length nodeMap_dom
      goodLaneFields_def using speed [of "lane_SpeedLimit lane"] length [of "Length n lane"]
    by (simp only: de_Morgan_conj not_not insert_subset empty_subsetI simp_thms) blast
qed

lemma validateLaneFieldsLoop_ok:
  "validateLaneFieldsLoop (nodeMap n) ls lanes = Inr () \<longleftrightarrow>
     distinct (map lane_ID ls) \<and> lane_ID ` set ls \<inter> lanes = {} \<and> (\<forall>lane\<in>set ls. goodLaneFields n lane)"
  by (induction ls arbitrary: lanes) (auto simp: invalidLane_iff)

lemma validateBerthsLoop_Inr:
  "validateBerthsLoop nodes station bs berths berthNodes = Inr r \<longleftrightarrow>
     distinct (map berth_ID bs) \<and> berth_ID ` set bs \<inter> berths = {} \<and>
     distinct (map berth_Node bs) \<and> berth_Node ` set bs \<inter> berthNodes = {} \<and>
     (\<forall>berth\<in>set bs. \<not> invalidBerth berth station nodes) \<and>
     r = (berths \<union> berth_ID ` set bs, berthNodes \<union> berth_Node ` set bs)"
  by (induction bs arbitrary: berths berthNodes) auto

lemma validateStationFieldsLoop_Inr:
  "validateStationFieldsLoop nodes sts stations berths berthNodes = Inr r \<longleftrightarrow>
     distinct (map st_ID sts) \<and> st_ID ` set sts \<inter> stations = {} \<and>
     (\<forall>station\<in>set sts. \<not> invalidStation station nodes \<and>
        (\<forall>berth\<in>set (st_Berths station). \<not> invalidBerth berth station nodes)) \<and>
     distinct (map berth_ID (concat (map st_Berths sts))) \<and>
     berth_ID ` set (concat (map st_Berths sts)) \<inter> berths = {} \<and>
     distinct (map berth_Node (concat (map st_Berths sts))) \<and>
     berth_Node ` set (concat (map st_Berths sts)) \<inter> berthNodes = {} \<and>
     r = stations \<union> st_ID ` set sts"
proof (induction sts arbitrary: stations berths berthNodes)
  case Nil
  then show ?case by auto
next
  case (Cons station sts)
  show ?case
  proof (cases "validateBerthsLoop nodes station (st_Berths station) berths berthNodes")
    case (Inl e)
    then have "validateBerthsLoop nodes station (st_Berths station) berths berthNodes \<noteq>
        Inr (berths \<union> berth_ID ` set (st_Berths station), berthNodes \<union> berth_Node ` set (st_Berths station))" by simp
    then show ?thesis
      unfolding validateBerthsLoop_Inr using Inl by auto
  next
    case (Inr b)
    then have b: "b = (berths \<union> berth_ID ` set (st_Berths station), berthNodes \<union> berth_Node ` set (st_Berths station))"
      and own: "distinct (map berth_ID (st_Berths station))" "berth_ID ` set (st_Berths station) \<inter> berths = {}"
        "distinct (map berth_Node (st_Berths station))" "berth_Node ` set (st_Berths station) \<inter> berthNodes = {}"
        "\<forall>berth\<in>set (st_Berths station). \<not> invalidBerth berth station nodes"
      by (simp_all add: validateBerthsLoop_Inr)
    have "validateStationFieldsLoop nodes (station # sts) stations berths berthNodes = Inr r \<longleftrightarrow>
        st_ID station \<notin> stations \<and> \<not> invalidStation station nodes \<and>
        validateStationFieldsLoop nodes sts (insert (st_ID station) stations) (fst b) (snd b) = Inr r"
      by (simp add: Inr b)
    moreover have "X \<inter> (Y \<union> Z) = {} \<longleftrightarrow> X \<inter> Y = {} \<and> X \<inter> Z = {}"
      "(Y \<union> Z) \<inter> X = {} \<longleftrightarrow> Y \<inter> X = {} \<and> Z \<inter> X = {}" for X Y Z :: "string set" by blast+
    moreover have "X \<inter> insert x Y = {} \<longleftrightarrow> x \<notin> X \<and> X \<inter> Y = {}" "insert x Y \<inter> X = {} \<longleftrightarrow> x \<notin> X \<and> Y \<inter> X = {}"
      for X Y :: "string set" and x by blast+
    ultimately show ?thesis
      using own by (simp add: Cons.IH b image_Un Int_commute del: map_concat set_concat) argo
  qed
qed

lemma goodLane_fields:
  "goodLane n lane \<longleftrightarrow> goodLaneFields n lane \<and>
     (lane_StationID lane \<noteq> [] \<longrightarrow> lane_StationID lane \<in> st_ID ` set (net_Stations n))"
  unfolding goodLane_def goodLaneFields_def by blast

lemma goodStation_fields:
  "goodStation n station \<longleftrightarrow> \<not> invalidStation station (nodeMap n) \<and>
     (\<forall>berth\<in>set (st_Berths station). \<not> invalidBerth berth station (nodeMap n))"
  unfolding goodStation_def invalidStation_def invalidBerth_def nodeMap_dom by auto

text \<open>
  C22. The node, lane, station and berth checks accept exactly the networks whose IDs are unique,
  whose lanes join known nodes with a positive length and speed, and whose berths have nodes of
  their own; the position map that they build is the lookup of the network.
\<close>

theorem validateFields_iff:
  "validateFields n = Inr nodes \<longleftrightarrow> goodFields n \<and> nodes = nodeMap n"
proof (cases "goodNodes n")
  case False
  then have "validateNodes n \<noteq> Inr (nodeMap n)" by (simp add: validateNodes_Inr)
  moreover have "validateNodes n = Inr m \<Longrightarrow> m = nodeMap n" for m by (simp add: validateNodes_Inr)
  ultimately show ?thesis
    using False by (auto simp: validateFields_def goodFields_def split: sum.split)
next
  case True
  then have nodes: "validateNodes n = Inr (nodeMap n)" by (simp add: validateNodes_Inr)
  let ?stations = "st_ID ` set (net_Stations n)"
  have lanes: "validateLaneFields n (nodeMap n) = Inr () \<longleftrightarrow>
      distinct (map lane_ID (net_Lanes n)) \<and> (\<forall>lane\<in>set (net_Lanes n). goodLaneFields n lane)"
    by (simp add: validateLaneFields_def validateLaneFieldsLoop_ok)
  have stations: "validateStationFields n (nodeMap n) = Inr r \<longleftrightarrow>
      distinct (map st_ID (net_Stations n)) \<and> (\<forall>station\<in>set (net_Stations n). goodStation n station) \<and>
      distinct (map berth_ID (allBerths n)) \<and> distinct (map berth_Node (allBerths n)) \<and> r = ?stations" for r
    unfolding validateStationFields_def validateStationFieldsLoop_Inr goodStation_fields allBerths_def by auto
  have owners: "validateLaneStations n ?stations = Inr () \<longleftrightarrow>
      (\<forall>lane\<in>set (net_Lanes n). lane_StationID lane \<noteq> [] \<longrightarrow> lane_StationID lane \<in> ?stations)"
    unfolding validateLaneStations_def by (auto simp: find_None_iff_set dest: find_SomeD split: option.split)
  have "validateFields n = Inr nodes \<longleftrightarrow>
      validateLaneFields n (nodeMap n) = Inr () \<and> validateStationFields n (nodeMap n) = Inr ?stations \<and>
      validateLaneStations n ?stations = Inr () \<and> nodes = nodeMap n"
  proof -
    have "validateStationFields n (nodeMap n) = Inr r \<Longrightarrow> r = ?stations" for r using stations by blast
    then show ?thesis
      by (cases "validateStationFields n (nodeMap n)")
        (auto simp: validateFields_def nodes split: sum.split)
  qed
  with True show ?thesis
    unfolding lanes stations owners goodFields_def goodLane_fields by blast
qed

end
