(* ===== verification/RouteGraph.thy ===== *)
theory RouteGraph
  imports NetworkChecks
begin

text \<open>
  The route graph that \<open>newRouteGraph\<close> in \<open>internal/sim/network.go\<close> builds from a network, with
  the class masks of \<open>internal/sim/class_routes.go\<close>. Node and lane indexes are natural numbers
  and the index -1 is \<open>None\<close>. \<open>g_blocked\<close> is the empty list where the code has nil. The
  travel time of an edge is a real number; a graph of a network that passed the field checks
  has finite lengths and positive speeds.
\<close>

section \<open>The graph\<close>

record routeEdge =
  edge_from :: nat
  edge_to :: nat
  edge_seconds :: real

definition zeroEdge :: routeEdge where
  "zeroEdge = \<lparr>edge_from = 0, edge_to = 0, edge_seconds = 0\<rparr>"

record bankTopology =
  bt_station :: nat
  bt_bank :: nat
  bt_entry :: nat
  bt_exit :: nat
  bt_arrival :: "nat set"
  bt_departure :: "nat set"
  bt_local :: "nat set"

datatype bank_error =
    BankCount string
  | BankGatesEqual string
  | BankGateInvalid string string
  | BankAlias string
  | BankInvalid string string
  | BankBerthInvalid string string
  | BankPathMissing string string string string
  | BankThroughMissing string string
  | BankMembership string
  | LaneInTwoBanks string
  | NodeInTwoBanks string
  | OrphanLane string string
  | BankInterior string
  | BankEntryLane string
  | BankExitLane string

record bankIndex =
  bi_banks :: "bankTopology list"
  bi_nodes :: "nat option list"
  bi_lanes :: "nat option list"
  bi_err :: "bank_error option"

definition noBanks :: bankIndex where
  "noBanks = \<lparr>bi_banks = [], bi_nodes = [], bi_lanes = [], bi_err = None\<rparr>"

record routeGraph =
  g_banks :: bankIndex
  g_nodes :: "string \<rightharpoonup> nat"
  g_lanes :: "string \<rightharpoonup> nat"
  g_outgoing :: "nat list list"
  g_incoming :: "nat list list"
  g_lengths :: "float64 list"
  g_edges :: "routeEdge list"
  g_berthStations :: "nat option list"
  g_berthNodes :: "string \<rightharpoonup> nat"
  g_nodeClasses :: "ClassSet list"
  g_classRestrictions :: bool
  g_laneClasses :: "ClassSet list"
  g_blocked :: "bool list"

definition laneOpen :: "routeGraph \<Rightarrow> nat \<Rightarrow> bool" where
  "laneOpen g lane = (lane \<ge> length (g_blocked g) \<or> \<not> g_blocked g ! lane)"

definition berthAllowed :: "routeGraph \<Rightarrow> nat \<Rightarrow> nat \<Rightarrow> nat \<Rightarrow> bool" where
  "berthAllowed g node from to =
    (let station = g_berthStations g ! node in
      station = None \<or> station = g_berthStations g ! from \<or> station = g_berthStations g ! to)"

section \<open>Building it\<close>

fun indexNodes :: "nat \<Rightarrow> Node list \<Rightarrow> (string \<rightharpoonup> nat) \<Rightarrow> (string \<rightharpoonup> nat)" where
  "indexNodes index [] nodes = nodes"
| "indexNodes index (node # rest) nodes = indexNodes (Suc index) rest (nodes(node_ID node \<mapsto> index))"

fun indexBerths :: "nat \<Rightarrow> Berth list \<Rightarrow> routeGraph \<Rightarrow> routeGraph" where
  "indexBerths stationIndex [] g = g"
| "indexBerths stationIndex (berth # rest) g =
    (case g_nodes g (berth_Node berth) of
       None \<Rightarrow> indexBerths stationIndex rest g
     | Some node \<Rightarrow> indexBerths stationIndex rest
         (g\<lparr>g_berthStations := (g_berthStations g)[node := Some stationIndex],
            g_berthNodes := (g_berthNodes g)(berth_ID berth \<mapsto> node)\<rparr>))"

fun indexStationBerths :: "nat \<Rightarrow> Station list \<Rightarrow> routeGraph \<Rightarrow> routeGraph" where
  "indexStationBerths stationIndex [] g = g"
| "indexStationBerths stationIndex (station # rest) g =
    indexStationBerths (Suc stationIndex) rest (indexBerths stationIndex (st_Berths station) g)"

definition laneEdge :: "Network \<Rightarrow> Lane \<Rightarrow> nat \<Rightarrow> nat \<Rightarrow> routeEdge" where
  "laneEdge n lane from to =
    \<lparr>edge_from = from, edge_to = to,
     edge_seconds = fval (indexedLaneLength lane (node_Position (net_Nodes n ! from)) (node_Position (net_Nodes n ! to))) /
       fval (lane_SpeedLimit lane)\<rparr>"

fun indexLanes :: "Network \<Rightarrow> nat \<Rightarrow> Lane list \<Rightarrow> routeGraph \<Rightarrow> routeGraph" where
  "indexLanes n index [] g = g"
| "indexLanes n index (lane # rest) g =
    (let g1 = g\<lparr>g_lanes := (g_lanes g)(lane_ID lane \<mapsto> index)\<rparr> in
      case g_nodes g (lane_From lane) of
        None \<Rightarrow> indexLanes n (Suc index) rest g1
      | Some from \<Rightarrow>
     (case g_nodes g (lane_To lane) of
        None \<Rightarrow> indexLanes n (Suc index) rest g1
      | Some to \<Rightarrow>
          indexLanes n (Suc index) rest
            (g1\<lparr>g_outgoing := (g_outgoing g)[from := g_outgoing g ! from @ [index]],
               g_incoming := (g_incoming g)[to := g_incoming g ! to @ [index]],
               g_lengths := (g_lengths g)[index :=
                 indexedLaneLength lane (node_Position (net_Nodes n ! from)) (node_Position (net_Nodes n ! to))],
               g_edges := (g_edges g)[index := laneEdge n lane from to]\<rparr>)))"

definition emptyGraph :: "Network \<Rightarrow> routeGraph" where
  "emptyGraph n =
    \<lparr>g_banks = noBanks, g_nodes = indexNodes 0 (net_Nodes n) Map.empty, g_lanes = Map.empty,
     g_outgoing = replicate (length (net_Nodes n)) [], g_incoming = replicate (length (net_Nodes n)) [],
     g_lengths = replicate (length (net_Lanes n)) (Fin 0), g_edges = replicate (length (net_Lanes n)) zeroEdge,
     g_berthStations = replicate (length (net_Nodes n)) None, g_berthNodes = Map.empty,
     g_nodeClasses = [], g_classRestrictions = False, g_laneClasses = [], g_blocked = []\<rparr>"

section \<open>Class masks\<close>

definition topologyClass :: string where
  "topologyClass = ''*''"

definition effectiveClass :: "string \<Rightarrow> string" where
  "effectiveClass class = (if class = [] then ''legacy'' else class)"

definition routeClass :: "string \<Rightarrow> string" where
  "routeClass class = (if effectiveClass class = ''legacy'' then [] else class)"

definition classMask :: "ClassSet \<Rightarrow> ClassSet" where
  "classMask cs = (if cs = 0 then 3 else if cs AND NOT allClassBits \<noteq> 0 then 0 else cs)"

definition maskNode :: "(string \<rightharpoonup> nat) \<Rightarrow> ClassSet \<Rightarrow> string \<Rightarrow> ClassSet list \<Rightarrow> ClassSet list" where
  "maskNode nodes bits ident classes =
    (case nodes ident of None \<Rightarrow> classes | Some node \<Rightarrow> classes[node := classes ! node AND bits])"

definition stationGates :: "Station \<Rightarrow> string list" where
  "stationGates station =
    [st_Entry station, st_Exit station] @ concat (map (\<lambda>bank. [bank_Entry bank, bank_Exit bank]) (bank_list station))"

definition maskStation :: "(string \<rightharpoonup> nat) \<Rightarrow> Station \<Rightarrow> ClassSet list \<Rightarrow> ClassSet list" where
  "maskStation nodes station classes =
    (let bits = classMask (st_VehicleClasses station) in
      fold (\<lambda>berth. maskNode nodes (bits AND classMask (berth_VehicleClasses berth)) (berth_Node berth))
        (st_Berths station) (fold (maskNode nodes bits) (stationGates station) classes))"

fun stationMasks :: "Station list \<Rightarrow> (string \<rightharpoonup> ClassSet) \<Rightarrow> (string \<rightharpoonup> ClassSet)" where
  "stationMasks [] stations = stations"
| "stationMasks (station # rest) stations =
    stationMasks rest (stations(st_ID station \<mapsto> classMask (st_VehicleClasses station)))"

definition laneMask :: "(string \<rightharpoonup> ClassSet) \<Rightarrow> ClassSet list \<Rightarrow> routeGraph \<Rightarrow> nat \<Rightarrow> Lane \<Rightarrow> ClassSet" where
  "laneMask stations nodeClasses g index lane =
    (if g_nodes g (lane_From lane) = None \<or> g_nodes g (lane_To lane) = None then 0
     else
       let bits = classMask (lane_VehicleClasses lane);
           bits' = (case stations (lane_StationID lane) of Some station \<Rightarrow> bits AND station | None \<Rightarrow> bits);
           edge = g_edges g ! index
       in bits' AND nodeClasses ! edge_from edge AND nodeClasses ! edge_to edge)"

definition indexRouteClasses :: "Network \<Rightarrow> routeGraph \<Rightarrow> routeGraph" where
  "indexRouteClasses n g =
    (let nodeClasses = fold (maskStation (g_nodes g)) (net_Stations n) (replicate (length (net_Nodes n)) 15);
         stations = stationMasks (net_Stations n) Map.empty
     in g\<lparr>g_nodeClasses := nodeClasses,
          g_classRestrictions :=
            (list_ex (\<lambda>station. st_VehicleClasses station \<noteq> 0 \<or>
               list_ex (\<lambda>berth. berth_VehicleClasses berth \<noteq> 0) (st_Berths station)) (net_Stations n) \<or>
             list_ex (\<lambda>lane. lane_VehicleClasses lane \<noteq> 0) (net_Lanes n)),
          g_laneClasses := map (\<lambda>(i, lane). laneMask stations nodeClasses g i lane) (enumerate 0 (net_Lanes n))\<rparr>)"

definition nodeAllows :: "routeGraph \<Rightarrow> nat \<Rightarrow> string \<Rightarrow> bool" where
  "nodeAllows g node class =
    (if class = topologyClass \<or>
        \<not> g_classRestrictions g \<and> (class = [] \<or> class = ''legacy'' \<or> class = ''compact'') then True
     else g_nodeClasses g ! node AND classBit (effectiveClass class) \<noteq> 0)"

definition laneAllows :: "routeGraph \<Rightarrow> nat \<Rightarrow> string \<Rightarrow> bool" where
  "laneAllows g lane class =
    (if class = topologyClass \<or>
        \<not> g_classRestrictions g \<and> (class = [] \<or> class = ''legacy'' \<or> class = ''compact'') then True
     else g_laneClasses g ! lane AND classBit (effectiveClass class) \<noteq> 0)"

definition berthAllows :: "Station \<Rightarrow> Berth \<Rightarrow> string \<Rightarrow> bool" where
  "berthAllows station berth class = (Allows (st_VehicleClasses station) class \<and> Allows (berth_VehicleClasses berth) class)"

text \<open>The graph before the bank index, which \<open>newRouteGraph\<close> adds last.\<close>

definition baseGraph :: "Network \<Rightarrow> routeGraph" where
  "baseGraph n =
    indexRouteClasses n (indexLanes n 0 (net_Lanes n) (indexStationBerths 0 (net_Stations n) (emptyGraph n)))"

section \<open>What the graph holds\<close>

definition graph_wf :: "routeGraph \<Rightarrow> bool" where
  "graph_wf g \<longleftrightarrow>
    (\<forall>ident node. g_nodes g ident = Some node \<longrightarrow> node < length (g_outgoing g)) \<and>
    (\<forall>u<length (g_outgoing g). \<forall>l\<in>set (g_outgoing g ! u).
       l < length (g_edges g) \<and> edge_from (g_edges g ! l) = u \<and> edge_to (g_edges g ! l) < length (g_outgoing g)) \<and>
    (\<forall>u<length (g_incoming g). \<forall>l\<in>set (g_incoming g ! u).
       l < length (g_edges g) \<and> edge_to (g_edges g ! l) = u \<and> edge_from (g_edges g ! l) < length (g_incoming g)) \<and>
    length (g_incoming g) = length (g_outgoing g)"

lemma indexNodes_range:
  "indexNodes k ns nodes ident = Some node \<Longrightarrow> nodes ident = Some node \<or> k \<le> node \<and> node < k + length ns"
proof (induction ns arbitrary: k nodes)
  case (Cons node' ns)
  from Cons.IH [OF Cons.prems [unfolded indexNodes.simps]] show ?case by (auto split: if_splits)
qed auto

lemma indexNodes_nth:
  "indexNodes k ns nodes ident = Some node \<Longrightarrow>
     nodes ident = Some node \<or> k \<le> node \<and> node_ID (ns ! (node - k)) = ident"
proof (induction ns arbitrary: k nodes)
  case (Cons node' ns)
  from Cons.IH [OF Cons.prems [unfolded indexNodes.simps]] show ?case
    by (auto split: if_splits simp: nth_Cons' Suc_le_eq)
qed auto

lemma indexNodes_dom: "dom (indexNodes k ns nodes) = dom nodes \<union> node_ID ` set ns"
proof (induction ns arbitrary: k nodes)
  case (Cons node ns)
  show ?case unfolding indexNodes.simps Cons.IH dom_fun_upd by auto
qed simp

lemma indexBerths_keeps:
  "g_nodes (indexBerths k bs g) = g_nodes g \<and> g_outgoing (indexBerths k bs g) = g_outgoing g \<and>
   g_incoming (indexBerths k bs g) = g_incoming g \<and> g_edges (indexBerths k bs g) = g_edges g \<and>
   g_lengths (indexBerths k bs g) = g_lengths g \<and>
   length (g_berthStations (indexBerths k bs g)) = length (g_berthStations g)"
  by (induction k bs g rule: indexBerths.induct) (simp_all split: option.split)

lemma indexStationBerths_keeps:
  "g_nodes (indexStationBerths k ss g) = g_nodes g \<and> g_outgoing (indexStationBerths k ss g) = g_outgoing g \<and>
   g_incoming (indexStationBerths k ss g) = g_incoming g \<and> g_edges (indexStationBerths k ss g) = g_edges g \<and>
   g_lengths (indexStationBerths k ss g) = g_lengths g \<and>
   length (g_berthStations (indexStationBerths k ss g)) = length (g_berthStations g)"
  by (induction k ss g rule: indexStationBerths.induct) (simp_all add: indexBerths_keeps)

text \<open>The ends of a lane, when both nodes are known.\<close>

definition laneEnds :: "(string \<rightharpoonup> nat) \<Rightarrow> Lane \<Rightarrow> (nat \<times> nat) option" where
  "laneEnds nodes lane =
    (case nodes (lane_From lane) of None \<Rightarrow> None
     | Some from \<Rightarrow> (case nodes (lane_To lane) of None \<Rightarrow> None | Some to \<Rightarrow> Some (from, to)))"

definition lanes_indexed :: "Network \<Rightarrow> nat \<Rightarrow> routeGraph \<Rightarrow> bool" where
  "lanes_indexed n k g \<longleftrightarrow>
    g_nodes g = indexNodes 0 (net_Nodes n) Map.empty \<and>
    length (g_outgoing g) = length (net_Nodes n) \<and> length (g_incoming g) = length (net_Nodes n) \<and>
    length (g_edges g) = length (net_Lanes n) \<and> length (g_lengths g) = length (net_Lanes n) \<and>
    (\<forall>u<length (net_Nodes n).
       g_outgoing g ! u = filter (\<lambda>l. map_option fst (laneEnds (g_nodes g) (net_Lanes n ! l)) = Some u) [0..<k] \<and>
       g_incoming g ! u = filter (\<lambda>l. map_option snd (laneEnds (g_nodes g) (net_Lanes n ! l)) = Some u) [0..<k]) \<and>
    (\<forall>l<k. \<forall>a b. laneEnds (g_nodes g) (net_Lanes n ! l) = Some (a, b) \<longrightarrow>
       g_edges g ! l = laneEdge n (net_Lanes n ! l) a b)"

lemma indexNodes_bound: "indexNodes 0 ns Map.empty ident = Some node \<Longrightarrow> node < length ns"
  using indexNodes_range [of 0 ns Map.empty ident node] by simp

lemma indexLanes_indexed:
  assumes "lanes_indexed n k g" and "drop k (net_Lanes n) = ls" and "k \<le> length (net_Lanes n)"
  shows "lanes_indexed n (length (net_Lanes n)) (indexLanes n k ls g)"
  using assms
proof (induction ls arbitrary: k g)
  case Nil
  then have "k = length (net_Lanes n)" by simp
  with Nil show ?case by simp
next
  case (Cons lane ls)
  from Cons.prems have k: "k < length (net_Lanes n)" by (metis drop_eq_Nil list.distinct(1) not_le_imp_less)
  with Cons.prems have lane: "net_Lanes n ! k = lane" and rest: "drop (Suc k) (net_Lanes n) = ls"
    by (metis Cons_nth_drop_Suc list.inject)+
  note inv = Cons.prems(1) [unfolded lanes_indexed_def]
  let ?g1 = "g\<lparr>g_lanes := (g_lanes g)(lane_ID lane \<mapsto> k)\<rparr>"
  show ?case
  proof (cases "laneEnds (g_nodes g) lane")
    case None
    have "lanes_indexed n (Suc k) ?g1"
      using inv None by (auto simp: lanes_indexed_def lane less_Suc_eq)
    then have "lanes_indexed n (length (net_Lanes n)) (indexLanes n (Suc k) ls ?g1)"
      using rest k by (intro Cons.IH) auto
    moreover have "indexLanes n k (lane # ls) g = indexLanes n (Suc k) ls ?g1"
      using None by (auto simp: Let_def laneEnds_def split: option.splits)
    ultimately show ?thesis by simp
  next
    case (Some ends)
    then obtain a b where ends: "laneEnds (g_nodes g) lane = Some (a, b)" by (cases ends) auto
    then have nodes: "g_nodes g (lane_From lane) = Some a" "g_nodes g (lane_To lane) = Some b"
      by (auto simp: laneEnds_def split: option.splits)
    then have bounds: "a < length (net_Nodes n)" "b < length (net_Nodes n)"
      using inv indexNodes_bound by auto
    let ?g2 = "?g1\<lparr>g_outgoing := (g_outgoing g)[a := g_outgoing g ! a @ [k]],
               g_incoming := (g_incoming g)[b := g_incoming g ! b @ [k]],
               g_lengths := (g_lengths g)[k :=
                 indexedLaneLength lane (node_Position (net_Nodes n ! a)) (node_Position (net_Nodes n ! b))],
               g_edges := (g_edges g)[k := laneEdge n lane a b]\<rparr>"
    have out: "((g_outgoing g)[a := g_outgoing g ! a @ [k]]) ! u =
        filter (\<lambda>l. map_option fst (laneEnds (g_nodes g) (net_Lanes n ! l)) = Some u) [0..<Suc k]"
      if "u < length (net_Nodes n)" for u
      using inv ends that by (simp add: nth_list_update lane)
    have inc: "((g_incoming g)[b := g_incoming g ! b @ [k]]) ! u =
        filter (\<lambda>l. map_option snd (laneEnds (g_nodes g) (net_Lanes n ! l)) = Some u) [0..<Suc k]"
      if "u < length (net_Nodes n)" for u
      using inv ends that by (simp add: nth_list_update lane)
    have edges: "((g_edges g)[k := laneEdge n lane a b]) ! l = laneEdge n (net_Lanes n ! l) c d"
      if "l < Suc k" "laneEnds (g_nodes g) (net_Lanes n ! l) = Some (c, d)" for l c d
      using inv ends that k by (cases "l = k") (auto simp: lane)
    have "lanes_indexed n (Suc k) ?g2"
      unfolding lanes_indexed_def using inv out inc edges by simp
    then have "lanes_indexed n (length (net_Lanes n)) (indexLanes n (Suc k) ls ?g2)"
      using rest k by (intro Cons.IH) auto
    moreover have "indexLanes n k (lane # ls) g = indexLanes n (Suc k) ls ?g2"
      using nodes by (simp add: Let_def)
    ultimately show ?thesis by simp
  qed
qed

lemma baseGraph_indexed: "lanes_indexed n (length (net_Lanes n)) (baseGraph n)"
proof -
  let ?g = "indexStationBerths 0 (net_Stations n) (emptyGraph n)"
  have "lanes_indexed n 0 ?g"
    by (simp add: lanes_indexed_def indexStationBerths_keeps emptyGraph_def)
  then have "lanes_indexed n (length (net_Lanes n)) (indexLanes n 0 (net_Lanes n) ?g)"
    by (rule indexLanes_indexed) simp_all
  then show ?thesis by (simp add: baseGraph_def indexRouteClasses_def Let_def lanes_indexed_def)
qed

text \<open>A lane is in the graph exactly when both of its nodes are known.\<close>

lemma baseGraph_outgoing:
  "u < length (net_Nodes n) \<Longrightarrow> l \<in> set (g_outgoing (baseGraph n) ! u) \<longleftrightarrow>
     l < length (net_Lanes n) \<and>
     (\<exists>to. laneEnds (g_nodes (baseGraph n)) (net_Lanes n ! l) = Some (u, to) \<and>
        g_edges (baseGraph n) ! l = laneEdge n (net_Lanes n ! l) u to)"
  using baseGraph_indexed [of n] by (fastforce simp: lanes_indexed_def)

lemma baseGraph_incoming:
  "u < length (net_Nodes n) \<Longrightarrow> l \<in> set (g_incoming (baseGraph n) ! u) \<longleftrightarrow>
     l < length (net_Lanes n) \<and>
     (\<exists>from. laneEnds (g_nodes (baseGraph n)) (net_Lanes n ! l) = Some (from, u) \<and>
        g_edges (baseGraph n) ! l = laneEdge n (net_Lanes n ! l) from u)"
  using baseGraph_indexed [of n] by (fastforce simp: lanes_indexed_def)

lemma baseGraph_nodes:
  "g_nodes (baseGraph n) = indexNodes 0 (net_Nodes n) Map.empty"
  "length (g_outgoing (baseGraph n)) = length (net_Nodes n)"
  "length (g_incoming (baseGraph n)) = length (net_Nodes n)"
  "length (g_edges (baseGraph n)) = length (net_Lanes n)"
  using baseGraph_indexed [of n] by (simp_all add: lanes_indexed_def)

lemma laneEnds_bound:
  "laneEnds (g_nodes (baseGraph n)) lane = Some (from, to) \<Longrightarrow>
     from < length (net_Nodes n) \<and> to < length (net_Nodes n)"
  using indexNodes_bound by (fastforce simp: laneEnds_def baseGraph_nodes split: option.splits)

lemma laneEdge_sel [simp]: "edge_from (laneEdge n lane a b) = a" "edge_to (laneEdge n lane a b) = b"
  by (simp_all add: laneEdge_def)

lemma baseGraph_wf: "graph_wf (baseGraph n)"
proof -
  have "node < length (net_Nodes n)" if "g_nodes (baseGraph n) ident = Some node" for ident node
    using that indexNodes_bound by (simp add: baseGraph_nodes)
  moreover have "l < length (net_Lanes n) \<and> edge_from (g_edges (baseGraph n) ! l) = u \<and>
      edge_to (g_edges (baseGraph n) ! l) < length (net_Nodes n)"
    if "u < length (net_Nodes n)" "l \<in> set (g_outgoing (baseGraph n) ! u)" for u l
    using that(2) unfolding baseGraph_outgoing [OF that(1)] by (auto dest: laneEnds_bound)
  moreover have "l < length (net_Lanes n) \<and> edge_to (g_edges (baseGraph n) ! l) = u \<and>
      edge_from (g_edges (baseGraph n) ! l) < length (net_Nodes n)"
    if "u < length (net_Nodes n)" "l \<in> set (g_incoming (baseGraph n) ! u)" for u l
    using that(2) unfolding baseGraph_incoming [OF that(1)] by (auto dest: laneEnds_bound)
  ultimately show ?thesis
    unfolding graph_wf_def baseGraph_nodes(2-4) by blast
qed

end
