(* ===== verification/RouteSearch.thy ===== *)
theory RouteSearch
  imports RouteGraph GoHeap
begin

text \<open>
  The route search of \<open>internal/sim/network.go\<close> (\<open>routeIndexedWithWork\<close> on one bank-free
  graph), its queue, the lane costs that the routing policies add to it
  (\<open>internal/sim/routing_policy.go\<close>, \<open>internal/sim/predictive_routing.go\<close>), and the proof that
  it returns an earliest-arrival route. The value +Inf of a distance is \<open>None\<close>, and an
  out-of-range index, which panics in Go, makes the search \<open>None\<close>. The work area is reset at the
  start of each search; the model passes it as a value.
\<close>

section \<open>The queue\<close>

datatype routeQueueItem = Item (it_node: nat) (it_distance: real)

instantiation routeQueueItem :: linorder
begin

definition less_routeQueueItem :: "routeQueueItem \<Rightarrow> routeQueueItem \<Rightarrow> bool" where
  "less_routeQueueItem a b =
    (if it_distance a = it_distance b then it_node a < it_node b else it_distance a < it_distance b)"

definition less_eq_routeQueueItem :: "routeQueueItem \<Rightarrow> routeQueueItem \<Rightarrow> bool" where
  "less_eq_routeQueueItem a b = (a = b \<or> a < b)"

instance
  by standard (auto simp: less_routeQueueItem_def less_eq_routeQueueItem_def routeQueueItem.expand split: if_splits)

end

lemma item_le_distance: "a \<le> b \<Longrightarrow> it_distance a \<le> it_distance b"
  by (auto simp: less_eq_routeQueueItem_def less_routeQueueItem_def split: if_splits)

text \<open>\<open>pop\<close> moves the last item to the root of the shortened slice and sifts it down.\<close>

definition queue_pop :: "routeQueueItem list \<Rightarrow> (routeQueueItem \<times> routeQueueItem list) option" where
  "queue_pop q =
    (if q = [] then None
     else
       let root = q ! 0; end = last q; rest = butlast q in
         if rest = [] then Some (root, [])
         else Some (root, heap_down (rest[0 := end]) 0 (length rest)))"

lemma heap_down_take:
  "n \<le> length xs \<Longrightarrow> i < n \<Longrightarrow> take n (heap_down xs i n) = heap_down (take n xs) i n"
proof (induction xs i n rule: heap_down.induct)
  case (1 xs i n)
  let ?j = "down_child xs i n"
  have child: "down_child (take n xs) i n = ?j" if "2 * i + 1 < n"
    using that by (auto simp: down_child_def)
  show ?case
  proof (cases "2 * i + 1 \<ge> n \<or> \<not> xs ! ?j < xs ! i")
    case True
    then have "2 * i + 1 \<ge> n \<or> \<not> take n xs ! ?j < take n xs ! i"
      using "1.prems" down_child_child [of i n xs] by auto
    with True show ?thesis
      using child by (auto simp: heap_down_step [of xs i n] heap_down_step [of "take n xs" i n])
  next
    case False
    then have j: "i < ?j" "?j < n" using down_child_child [of i n xs] by auto
    have step: "(if 2 * i + 1 + 1 < n \<and> xs ! (2 * i + 1 + 1) < xs ! (2 * i + 1) then 2 * i + 1 + 1 else 2 * i + 1) = ?j"
      by (simp add: down_child_def)
    have "take n (heap_down (swap xs i ?j) ?j n) = heap_down (take n (swap xs i ?j)) ?j n"
      using False "1.prems" j by (intro "1.IH" [OF refl _ refl step [symmetric]]) auto
    moreover have "take n (swap xs i ?j) = swap (take n xs) i ?j"
      using j "1.prems" by (simp add: swap_def take_update_swap)
    ultimately show ?thesis
      using False j child "1.prems"
      by (auto simp: heap_down_step [of xs i n] heap_down_step [of "take n xs" i n])
  qed
qed

lemma queue_pop_heap: "queue_pop q = heap_pop q"
proof (cases q rule: rev_cases)
  case (snoc rest x)
  show ?thesis
  proof (cases "rest = []")
    case True
    have "heap_down [x] 0 0 = [x]" by (subst heap_down.simps) simp
    with True show ?thesis
      by (simp add: snoc queue_pop_def heap_pop_def Let_def swap_def)
  next
    case False
    let ?n = "length rest"
    let ?s = "swap (rest @ [x]) 0 ?n"
    from False have "0 < ?n" by simp
    then have "(rest @ [x])[0 := x] = rest[0 := x] @ [x]" by (simp add: list_update_append)
    then have shape: "?s = rest[0 := x] @ [rest ! 0]"
      using \<open>0 < ?n\<close> by (simp add: swap_def nth_append list_update_append)
    have "take ?n (heap_down ?s 0 ?n) = heap_down (rest[0 := x]) 0 ?n"
      using False by (subst heap_down_take) (simp_all add: shape)
    moreover have "heap_down ?s 0 ?n ! ?n = rest ! 0"
      by (subst heap_down_beyond) (simp_all add: shape nth_append)
    ultimately show ?thesis
      using False by (simp add: snoc queue_pop_def heap_pop_def Let_def nth_append)
  qed
qed (simp add: queue_pop_def heap_pop_def)

interpretation route_queue: event_queue heap_inv mset heap_push queue_pop "heap_peek :: routeQueueItem list \<Rightarrow> _"
  unfolding queue_pop_heap [abs_def] by (rule go_heap.event_queue_axioms)

section \<open>Lane costs of the routing policies\<close>

definition queueHeadwaySeconds :: real where
  "queueHeadwaySeconds = 3"

definition queueDelay :: "real \<Rightarrow> real \<Rightarrow> real" where
  "queueDelay discharge t = max 0 (discharge - t)"

record plannedLaneArrival =
  arrival_at :: real
  arrival_until :: real

record laneForecast =
  fc_initial :: real
  fc_arrivals :: "plannedLaneArrival list"

text \<open>\<open>sort.Search\<close> on arrivals in time order counts those that are not after \<open>t\<close>.\<close>

definition forecastDelay :: "laneForecast \<Rightarrow> real \<Rightarrow> real" where
  "forecastDelay f t =
    (let index = length (takeWhile (\<lambda>a. \<not> arrival_at a > t) (fc_arrivals f));
         until = (if index > 0 then arrival_until (fc_arrivals f ! (index - 1)) else fc_initial f)
     in max 0 (until - t))"

fun finishLoop :: "real \<Rightarrow> plannedLaneArrival list \<Rightarrow> plannedLaneArrival list" where
  "finishLoop until [] = []"
| "finishLoop until (a # rest) =
    (let until' = max until (arrival_at a) + queueHeadwaySeconds
     in a\<lparr>arrival_until := until'\<rparr> # finishLoop until' rest)"

definition forecastFinish :: "laneForecast \<Rightarrow> laneForecast" where
  "forecastFinish f = f\<lparr>fc_arrivals := finishLoop (fc_initial f) (sort_key arrival_at (fc_arrivals f))\<rparr>"

section \<open>The search\<close>

record networkRouteInput =
  in_class :: string
  in_from :: string
  in_to :: string
  in_forbidden :: "string set option"
  in_extraCost :: "real list"
  in_discharge :: "real list"
  in_forecasts :: "laneForecast list"
  in_forecastStart :: real
  in_ownBerthsOnly :: bool
  in_terminalBerthsOnly :: bool
  in_allowedLanes :: "nat set option"
  in_bankRaw :: bool
  in_startCost :: real
  in_bankExternal :: bool

datatype route_error =
    UnknownOrigin string
  | UnknownDestination string
  | UnknownEndpoint string string
  | ErrUnreachable
  | BankError bank_error

definition routeLaneFiltered ::
  "networkRouteInput \<Rightarrow> routeGraph \<Rightarrow> Lane list \<Rightarrow> nat \<Rightarrow> nat \<Rightarrow> nat \<Rightarrow> bool" where
  "routeLaneFiltered input g lanes laneIndex from to =
    (if in_bankExternal input \<and> bi_lanes (g_banks g) ! laneIndex \<noteq> None \<and>
        lane_StationRole (lanes ! laneIndex) \<noteq> StationThroughRole then True
     else if (case in_allowedLanes input of None \<Rightarrow> False | Some allowed \<Rightarrow> laneIndex \<notin> allowed) then True
     else
       let next = edge_to (g_edges g ! laneIndex) in
       if (case in_forbidden input of None \<Rightarrow> False
           | Some forbidden \<Rightarrow> next \<noteq> from \<and> next \<noteq> to \<and> lane_To (lanes ! laneIndex) \<in> forbidden) then True
       else in_ownBerthsOnly input \<and> \<not> berthAllowed g next from to)"

definition routeLaneExtra :: "networkRouteInput \<Rightarrow> nat \<Rightarrow> real \<Rightarrow> real" where
  "routeLaneExtra input laneIndex start =
    (let extra = (if laneIndex < length (in_extraCost input) then in_extraCost input ! laneIndex else 0);
         extra' = (if laneIndex < length (in_discharge input)
                   then extra + queueDelay (in_discharge input ! laneIndex) start else extra)
     in if laneIndex < length (in_forecasts input)
        then extra' + forecastDelay (in_forecasts input ! laneIndex) (in_forecastStart input + start)
        else extra')"

text \<open>What a search reads: the lanes of the network, the input, the graph, and the end nodes.\<close>

record searchCase =
  sc_lanes :: "Lane list"
  sc_input :: networkRouteInput
  sc_graph :: routeGraph
  sc_from :: nat
  sc_to :: nat

record routeSearchWork =
  w_distance :: "real option list"
  w_previous :: "nat option list"
  w_visited :: "bool list"
  w_queue :: "routeQueueItem list"

definition resetWork :: "nat \<Rightarrow> routeSearchWork" where
  "resetWork nodes =
    \<lparr>w_distance = replicate nodes None, w_previous = replicate nodes None,
     w_visited = replicate nodes False, w_queue = []\<rparr>"

definition laneUsable :: "searchCase \<Rightarrow> nat \<Rightarrow> bool" where
  "laneUsable c laneIndex =
    (if \<not> laneAllows (sc_graph c) laneIndex (in_class (sc_input c)) \<or> \<not> laneOpen (sc_graph c) laneIndex then False
     else
       let filtered = (in_bankExternal (sc_input c) \<or> in_allowedLanes (sc_input c) \<noteq> None \<or>
         in_forbidden (sc_input c) \<noteq> None \<or> in_ownBerthsOnly (sc_input c))
       in \<not> (filtered \<and> routeLaneFiltered (sc_input c) (sc_graph c) (sc_lanes c) laneIndex (sc_from c) (sc_to c)))"

definition laneArrive :: "searchCase \<Rightarrow> nat \<Rightarrow> real \<Rightarrow> real" where
  "laneArrive c laneIndex t =
    t + edge_seconds (g_edges (sc_graph c) ! laneIndex) + routeLaneExtra (sc_input c) laneIndex t"

definition relaxLane :: "searchCase \<Rightarrow> routeQueueItem \<Rightarrow> nat \<Rightarrow> routeSearchWork \<Rightarrow> routeSearchWork" where
  "relaxLane c item laneIndex w =
    (if \<not> laneUsable c laneIndex then w
     else
       let next = edge_to (g_edges (sc_graph c) ! laneIndex);
           candidate = laneArrive c laneIndex (it_distance item) in
       if (case w_distance w ! next of None \<Rightarrow> True | Some d \<Rightarrow> candidate < d)
       then w\<lparr>w_distance := (w_distance w)[next := Some candidate],
              w_previous := (w_previous w)[next := Some laneIndex],
              w_queue := heap_push (Item next candidate) (w_queue w)\<rparr>
       else w)"

definition expands :: "searchCase \<Rightarrow> nat \<Rightarrow> bool" where
  "expands c node =
    (\<not> (in_terminalBerthsOnly (sc_input c) \<and> node \<noteq> sc_from c \<and> g_berthStations (sc_graph c) ! node \<noteq> None))"

lemma relaxLane_visited [simp]: "w_visited (relaxLane c item l w) = w_visited w"
  by (simp add: relaxLane_def Let_def)

lemma relaxLanes_visited [simp]: "w_visited (fold (relaxLane c item) ls w) = w_visited w"
  by (induction ls arbitrary: w) simp_all

definition unvisited :: "routeSearchWork \<Rightarrow> nat" where
  "unvisited w = length (filter Not (w_visited w))"

lemma queue_pop_length: "queue_pop q = Some (item, rest) \<Longrightarrow> length rest < length q"
  by (simp add: queue_pop_heap length_heap_pop)

lemma unvisited_mark:
  "node < length (w_visited w) \<Longrightarrow> \<not> w_visited w ! node \<Longrightarrow>
     length (filter Not ((w_visited w)[node := True])) < length (filter Not (w_visited w))"
proof -
  assume h: "node < length (w_visited w)" "\<not> w_visited w ! node"
  then have "tally Not (w_visited w) - 1 = tally Not ((w_visited w)[node := True])"
    by (simp add: tally_update)
  then show ?thesis by (simp add: tally_def)
qed

function searchLoop :: "searchCase \<Rightarrow> routeSearchWork \<Rightarrow> routeSearchWork option" where
  "searchLoop c w =
    (case queue_pop (w_queue w) of
       None \<Rightarrow> Some w
     | Some (item, rest) \<Rightarrow>
         if it_node item \<ge> length (w_visited w) then None
         else if w_visited w ! it_node item \<or> w_distance w ! it_node item \<noteq> Some (it_distance item)
         then searchLoop c (w\<lparr>w_queue := rest\<rparr>)
         else if it_node item = sc_to c then Some (w\<lparr>w_queue := rest\<rparr>)
         else
           let w' = w\<lparr>w_queue := rest, w_visited := (w_visited w)[it_node item := True]\<rparr> in
           if \<not> expands c (it_node item) then searchLoop c w'
           else searchLoop c (fold (relaxLane c item) (g_outgoing (sc_graph c) ! it_node item) w'))"
  by pat_completeness auto
termination
  by (relation "measures [\<lambda>(c, w). unvisited w, \<lambda>(c, w). length (w_queue w)]")
    (auto simp: unvisited_def unvisited_mark queue_pop_length)

declare searchLoop.simps [simp del]

text \<open>
  \<open>routeLanes\<close> follows the last lanes from the destination back to the origin. The code counts
  the lanes on a first walk and fills the slice on a second; the model collects them in one.
  A walk that does not end is \<open>None\<close>.
\<close>

partial_function (option) routeWalk ::
  "routeGraph \<Rightarrow> nat option list \<Rightarrow> nat \<Rightarrow> nat \<Rightarrow> nat list \<Rightarrow> (route_error, nat list) result option" where
  "routeWalk g previous from current route =
    (if current = from then Some (Inr route)
     else case previous ! current of
       None \<Rightarrow> Some (Inl ErrUnreachable)
     | Some laneIndex \<Rightarrow> routeWalk g previous from (edge_from (g_edges g ! laneIndex)) (laneIndex # route))"

definition routeLanes ::
  "routeGraph \<Rightarrow> nat \<Rightarrow> nat \<Rightarrow> routeSearchWork \<Rightarrow> (route_error, nat list) result option" where
  "routeLanes g from to w =
    (case w_distance w ! to of
       None \<Rightarrow> Some (Inl ErrUnreachable)
     | Some _ \<Rightarrow> routeWalk g (w_previous w) from to [])"

text \<open>One search between two nodes: the lane indexes of the route and the final distance.\<close>

definition searchNodes :: "searchCase \<Rightarrow> nat \<Rightarrow> (route_error, nat list \<times> real) result option" where
  "searchNodes c nodes =
    (let w0 = resetWork nodes;
         w1 = w0\<lparr>w_distance := (w_distance w0)[sc_from c := Some (in_startCost (sc_input c))],
                 w_queue := [Item (sc_from c) (in_startCost (sc_input c))]\<rparr>
     in case searchLoop c w1 of
          None \<Rightarrow> None
        | Some w \<Rightarrow>
            (case routeLanes (sc_graph c) (sc_from c) (sc_to c) w of
               None \<Rightarrow> None
             | Some (Inl e) \<Rightarrow> Some (Inl e)
             | Some (Inr route) \<Rightarrow>
                 Some (Inr (route, case w_distance w ! sc_to c of Some d \<Rightarrow> d | None \<Rightarrow> 0))))"

definition rawRoute ::
  "Network \<Rightarrow> networkRouteInput \<Rightarrow> routeGraph \<Rightarrow> (route_error, nat list \<times> real) result option" where
  "rawRoute n input g =
    (case bi_err (g_banks g) of
       Some e \<Rightarrow> Some (Inl (BankError e))
     | None \<Rightarrow>
    (case g_nodes g (in_from input) of
       None \<Rightarrow> Some (Inl (UnknownOrigin (in_from input)))
     | Some from \<Rightarrow>
    (case g_nodes g (in_to input) of
       None \<Rightarrow> Some (Inl (UnknownDestination (in_to input)))
     | Some to \<Rightarrow>
       if \<not> nodeAllows g from (in_class input) \<or> \<not> nodeAllows g to (in_class input)
       then Some (Inl ErrUnreachable)
       else searchNodes \<lparr>sc_lanes = net_Lanes n, sc_input = input, sc_graph = g, sc_from = from, sc_to = to\<rparr>
         (length (net_Nodes n)))))"

end
