(* ===== verification/RouteOptimal.thy ===== *)
theory RouteOptimal
  imports RouteSearch
begin

text \<open>
  The route search of \<open>RouteSearch\<close> returns an earliest-arrival route. The hypothesis is the one
  that the comments of \<open>queueRoute\<close> and \<open>laneForecast.delay\<close> state: leaving a lane later is
  never possible by entering it earlier. Both delays are shown to have it.
\<close>

section \<open>Walks\<close>

fun is_walk :: "searchCase \<Rightarrow> nat \<Rightarrow> nat list \<Rightarrow> nat \<Rightarrow> bool" where
  "is_walk c u [] v = (u = v)"
| "is_walk c u (l # ls) v =
    (u < length (g_outgoing (sc_graph c)) \<and> l \<in> set (g_outgoing (sc_graph c) ! u) \<and>
     laneUsable c l \<and> expands c u \<and> is_walk c (edge_to (g_edges (sc_graph c) ! l)) ls v)"

definition walkTime :: "searchCase \<Rightarrow> real \<Rightarrow> nat list \<Rightarrow> real" where
  "walkTime c t ls = foldl (\<lambda>t l. laneArrive c l t) t ls"

lemma walkTime_simps [simp]:
  "walkTime c t [] = t"
  "walkTime c t (l # ls) = walkTime c (laneArrive c l t) ls"
  "walkTime c t (ls @ [l]) = laneArrive c l (walkTime c t ls)"
  by (simp_all add: walkTime_def)

lemma is_walk_snoc:
  "is_walk c u (ls @ [l]) v \<longleftrightarrow>
     (\<exists>x. is_walk c u ls x \<and> x < length (g_outgoing (sc_graph c)) \<and> l \<in> set (g_outgoing (sc_graph c) ! x) \<and>
        laneUsable c l \<and> expands c x \<and> edge_to (g_edges (sc_graph c) ! l) = v)"
  by (induction ls arbitrary: u) auto

text \<open>The first-in first-out condition, over the lanes of the graph.\<close>

definition fifo :: "searchCase \<Rightarrow> bool" where
  "fifo c \<longleftrightarrow>
    (\<forall>u<length (g_outgoing (sc_graph c)). \<forall>l\<in>set (g_outgoing (sc_graph c) ! u).
       (\<forall>t. t \<le> laneArrive c l t) \<and> (\<forall>t t'. t \<le> t' \<longrightarrow> laneArrive c l t \<le> laneArrive c l t'))"

lemma fifo_ge: "fifo c \<Longrightarrow> u < length (g_outgoing (sc_graph c)) \<Longrightarrow> l \<in> set (g_outgoing (sc_graph c) ! u) \<Longrightarrow>
    t \<le> laneArrive c l t"
  by (simp add: fifo_def)

lemma fifo_mono: "fifo c \<Longrightarrow> u < length (g_outgoing (sc_graph c)) \<Longrightarrow> l \<in> set (g_outgoing (sc_graph c) ! u) \<Longrightarrow>
    t \<le> t' \<Longrightarrow> laneArrive c l t \<le> laneArrive c l t'"
  by (simp add: fifo_def)

section \<open>The invariant of the search\<close>

abbreviation "size_of c \<equiv> length (g_outgoing (sc_graph c))"

abbreviation "start_of c \<equiv> in_startCost (sc_input c)"

abbreviation "head_of c l \<equiv> edge_to (g_edges (sc_graph c) ! l)"

abbreviation "tail_of c l \<equiv> edge_from (g_edges (sc_graph c) ! l)"

text \<open>\<open>traced c w v ls\<close>: the last lanes lead from \<open>v\<close> back to the origin, and \<open>ls\<close> are the lanes
  on the way, the last one first.\<close>

fun traced :: "searchCase \<Rightarrow> routeSearchWork \<Rightarrow> nat \<Rightarrow> nat list \<Rightarrow> bool" where
  "traced c w v [] = (v = sc_from c)"
| "traced c w v (l # ls) =
    (v \<noteq> sc_from c \<and> w_previous w ! v = Some l \<and> head_of c l = v \<and>
     tail_of c l < size_of c \<and> l \<in> set (g_outgoing (sc_graph c) ! tail_of c l) \<and>
     laneUsable c l \<and> expands c (tail_of c l) \<and> w_visited w ! tail_of c l \<and>
     (\<exists>d. w_distance w ! tail_of c l = Some d \<and> w_distance w ! v = Some (laneArrive c l d)) \<and>
     traced c w (tail_of c l) ls)"


definition shaped :: "searchCase \<Rightarrow> routeSearchWork \<Rightarrow> bool" where
  "shaped c w \<longleftrightarrow>
    length (w_distance w) = size_of c \<and> length (w_previous w) = size_of c \<and>
    length (w_visited w) = size_of c \<and> heap_inv (w_queue w) \<and>
    (\<forall>it\<in>set (w_queue w). it_node it < size_of c \<and> start_of c \<le> it_distance it) \<and>
    sc_from c < size_of c \<and> w_distance w ! sc_from c = Some (start_of c) \<and>
    (\<forall>v < size_of c. \<forall>d. w_distance w ! v = Some d \<longrightarrow> start_of c \<le> d \<and> (\<exists>ls. traced c w v ls))"

text \<open>
  \<open>P\<close> holds the lanes of the node in progress that are still to be relaxed. \<open>D\<close> is a bound
  between the visited distances and the queue.
\<close>

definition searching :: "searchCase \<Rightarrow> (nat \<times> nat) set \<Rightarrow> routeSearchWork \<Rightarrow> bool" where
  "searching c P w \<longleftrightarrow>
    shaped c w \<and>
    (\<forall>v < size_of c. \<forall>d. \<not> w_visited w ! v \<longrightarrow> w_distance w ! v = Some d \<longrightarrow> Item v d \<in> set (w_queue w)) \<and>
    (\<forall>u < size_of c. w_visited w ! u \<longrightarrow>
       u \<noteq> sc_to c \<and>
       (\<exists>d. w_distance w ! u = Some d \<and> (\<forall>it\<in>set (w_queue w). d \<le> it_distance it) \<and>
         (expands c u \<longrightarrow> (\<forall>l\<in>set (g_outgoing (sc_graph c) ! u). laneUsable c l \<longrightarrow> (u, l) \<notin> P \<longrightarrow>
            (\<exists>d'. w_distance w ! head_of c l = Some d' \<and> d' \<le> laneArrive c l d)))))"

lemma traced_walk:
  "traced c w v ls \<Longrightarrow> w_distance w ! sc_from c = Some (start_of c) \<Longrightarrow>
     is_walk c (sc_from c) (rev ls) v \<and> w_distance w ! v = Some (walkTime c (start_of c) (rev ls))"
proof (induction ls arbitrary: v)
  case (Cons l ls)
  then have "is_walk c (sc_from c) (rev ls) (tail_of c l)"
    "w_distance w ! tail_of c l = Some (walkTime c (start_of c) (rev ls))" by auto
  with Cons.prems show ?case by (auto simp: is_walk_snoc)
qed simp

text \<open>Changing the entry of a node that is not visited keeps the traces of the other nodes.\<close>

lemma traced_update:
  assumes "traced c w v ls" and "\<not> w_visited w ! x" and "v \<noteq> x" and "x < size_of c"
    and "length (w_distance w) = size_of c" and "length (w_previous w) = size_of c"
  shows "traced c (w\<lparr>w_distance := (w_distance w)[x := d], w_previous := (w_previous w)[x := p], w_queue := q\<rparr>) v ls"
  using assms
proof (induction ls arbitrary: v)
  case (Cons l ls)
  then have "tail_of c l \<noteq> x" by auto
  with Cons show ?case by auto
qed simp

lemma traced_cong:
  "traced c w v ls \<Longrightarrow> w_distance w' = w_distance w \<Longrightarrow> w_previous w' = w_previous w \<Longrightarrow>
     (\<And>u. u < size_of c \<Longrightarrow> w_visited w ! u \<Longrightarrow> w_visited w' ! u) \<Longrightarrow> traced c w' v ls"
  by (induction ls arbitrary: v) auto

section \<open>One relaxation\<close>

lemma set_heap_push: "set (heap_push x q) = insert x (set q)"
  by (metis mset_heap_push set_mset_add_mset_insert set_mset_mset)

lemma relax_step:
  assumes inv: "searching c (insert (u, l) P) w" and fifo: "fifo c" and wf: "graph_wf (sc_graph c)"
    and u: "u < size_of c" "w_visited w ! u" "expands c u" "w_distance w ! u = Some D"
    and l: "l \<in> set (g_outgoing (sc_graph c) ! u)"
    and bound: "\<And>v d. v < size_of c \<Longrightarrow> w_visited w ! v \<Longrightarrow> w_distance w ! v = Some d \<Longrightarrow> d \<le> D"
  shows "searching c P (relaxLane c (Item u D) l w) \<and>
    (\<forall>v < size_of c. w_visited w ! v \<longrightarrow> w_distance (relaxLane c (Item u D) l w) ! v = w_distance w ! v)"
proof -
  let ?x = "head_of c l" and ?t = "laneArrive c l D"
  from wf u l have x: "?x < size_of c" and tail: "tail_of c l = u" by (auto simp: graph_wf_def)
  have ge: "D \<le> ?t" using fifo_ge [OF fifo u(1) l] .
  note shaped = inv [unfolded searching_def, THEN conjunct1]
  from shaped have low: "start_of c \<le> D" using u by (auto simp: shaped_def)
  note len = shaped [unfolded shaped_def]
  show ?thesis
  proof (cases "laneUsable c l \<and> (case w_distance w ! ?x of None \<Rightarrow> True | Some d \<Rightarrow> ?t < d)")
    case False
    then have same: "relaxLane c (Item u D) l w = w" by (auto simp: relaxLane_def Let_def)
    have done': "laneUsable c l \<Longrightarrow> \<exists>d'. w_distance w ! ?x = Some d' \<and> d' \<le> ?t"
      using False by (auto split: option.splits)
    have "searching c P w"
      unfolding searching_def
    proof (intro conjI allI impI)
      show "shaped c w" by (rule shaped)
      show "Item v d \<in> set (w_queue w)"
        if "v < size_of c" "\<not> w_visited w ! v" "w_distance w ! v = Some d" for v d
        using inv that by (auto simp: searching_def)
    next
      fix v assume v: "v < size_of c" "w_visited w ! v"
      show "v \<noteq> sc_to c" using inv v by (auto simp: searching_def)
      from inv v obtain d where d: "w_distance w ! v = Some d" "\<forall>it\<in>set (w_queue w). d \<le> it_distance it"
        and rel: "\<And>k. expands c v \<Longrightarrow> k \<in> set (g_outgoing (sc_graph c) ! v) \<Longrightarrow> laneUsable c k \<Longrightarrow>
          (v, k) \<notin> insert (u, l) P \<Longrightarrow> \<exists>d'. w_distance w ! head_of c k = Some d' \<and> d' \<le> laneArrive c k d"
        by (auto simp: searching_def)
      have "\<exists>d'. w_distance w ! head_of c k = Some d' \<and> d' \<le> laneArrive c k d"
        if "expands c v" "k \<in> set (g_outgoing (sc_graph c) ! v)" "laneUsable c k" "(v, k) \<notin> P" for k
      proof (cases "(v, k) = (u, l)")
        case True
        with done' that d u show ?thesis by auto
      next
        case False
        with rel that show ?thesis by blast
      qed
      with d show "\<exists>d. w_distance w ! v = Some d \<and> (\<forall>it\<in>set (w_queue w). d \<le> it_distance it) \<and>
         (expands c v \<longrightarrow> (\<forall>l\<in>set (g_outgoing (sc_graph c) ! v). laneUsable c l \<longrightarrow> (v, l) \<notin> P \<longrightarrow>
            (\<exists>d'. w_distance w ! head_of c l = Some d' \<and> d' \<le> laneArrive c l d)))" by blast
    qed
    with same show ?thesis by simp
  next
    case True
    let ?w = "w\<lparr>w_distance := (w_distance w)[?x := Some ?t], w_previous := (w_previous w)[?x := Some l],
      w_queue := heap_push (Item ?x ?t) (w_queue w)\<rparr>"
    have new: "relaxLane c (Item u D) l w = ?w" using True by (simp add: relaxLane_def Let_def)
    have fresh: "\<not> w_visited w ! ?x"
    proof
      assume vis: "w_visited w ! ?x"
      then obtain d where "w_distance w ! ?x = Some d" using inv x by (auto simp: searching_def)
      with True bound [OF x vis] ge show False by auto
    qed
    have xs: "?x \<noteq> sc_from c"
    proof
      assume "?x = sc_from c"
      with len True low ge show False by auto
    qed
    have len2: "length (w_distance w) = size_of c" "length (w_previous w) = size_of c" using len by simp_all
    have dist: "w_distance ?w ! v = (if v = ?x then Some ?t else w_distance w ! v)" if "v < size_of c" for v
      using that len by simp
    have trace_u: "\<exists>ls. traced c ?w u ls"
    proof -
      obtain ls where "traced c w u ls" using len u by blast
      moreover have "u \<noteq> ?x" using fresh u by auto
      ultimately have "traced c ?w u ls" by (rule traced_update [OF _ fresh _ x len2])
      then show ?thesis ..
    qed
    have trace: "\<exists>ls. traced c ?w v ls" if v: "v < size_of c" "w_distance ?w ! v = Some d" for v d
    proof (cases "v = ?x")
      case True
      from trace_u obtain ls where ls: "traced c ?w u ls" ..
      have "traced c ?w ?x (l # ls)"
        unfolding traced.simps tail
      proof (intro conjI exI)
        have "u \<noteq> ?x" using fresh u by auto
        then show "w_distance ?w ! u = Some D" using dist [OF u(1)] u by simp
        show "w_distance ?w ! ?x = Some ?t" using dist [OF x] by simp
        show "w_previous ?w ! ?x = Some l" using x len by simp
        show "laneUsable c l" using \<open>laneUsable c l \<and> _\<close> by simp
      qed (use ls u l xs x in simp_all)
      with True show ?thesis by blast
    next
      case False
      with v dist [of v] have "w_distance w ! v = Some d" by simp
      with v len obtain ls where "traced c w v ls" by blast
      from traced_update [OF this fresh False x len2] have "traced c ?w v ls" .
      then show ?thesis ..
    qed
    have mem: "set (w_queue ?w) = insert (Item ?x ?t) (set (w_queue w))"
      using set_heap_push [of "Item ?x ?t" "w_queue w"] by simp
    have "shaped c ?w"
      unfolding shaped_def
    proof (intro conjI allI impI ballI)
      show "heap_inv (w_queue ?w)" using len by (simp add: heap_push_inv)
      show "it_node it < size_of c" "start_of c \<le> it_distance it" if "it \<in> set (w_queue ?w)" for it
        using that len x low ge unfolding mem by auto
      show "start_of c \<le> d" if "v < size_of c" "w_distance ?w ! v = Some d" for v d
        using that dist [of v] len low ge by (auto split: if_splits)
      show "\<exists>ls. traced c ?w v ls" if "v < size_of c" "w_distance ?w ! v = Some d" for v d
        using trace [OF that] .
      show "w_distance ?w ! sc_from c = Some (start_of c)"
        using dist [of "sc_from c"] len xs by simp
    qed (use len in simp_all)
    moreover have "Item v d \<in> set (w_queue ?w)"
      if "v < size_of c" "\<not> w_visited ?w ! v" "w_distance ?w ! v = Some d" for v d
      using that dist [of v] inv unfolding mem by (auto simp: searching_def split: if_splits)
    moreover have "v \<noteq> sc_to c \<and> (\<exists>d. w_distance ?w ! v = Some d \<and> (\<forall>it\<in>set (w_queue ?w). d \<le> it_distance it) \<and>
         (expands c v \<longrightarrow> (\<forall>k\<in>set (g_outgoing (sc_graph c) ! v). laneUsable c k \<longrightarrow> (v, k) \<notin> P \<longrightarrow>
            (\<exists>d'. w_distance ?w ! head_of c k = Some d' \<and> d' \<le> laneArrive c k d))))"
      if v: "v < size_of c" "w_visited ?w ! v" for v
    proof -
      from v have vis: "w_visited w ! v" by simp
      from inv v vis obtain d where to: "v \<noteq> sc_to c" and d: "w_distance w ! v = Some d" "\<forall>it\<in>set (w_queue w). d \<le> it_distance it"
        and rel: "\<And>k. expands c v \<Longrightarrow> k \<in> set (g_outgoing (sc_graph c) ! v) \<Longrightarrow> laneUsable c k \<Longrightarrow>
          (v, k) \<notin> insert (u, l) P \<Longrightarrow> \<exists>d'. w_distance w ! head_of c k = Some d' \<and> d' \<le> laneArrive c k d"
        by (auto simp: searching_def)
      have dD: "d \<le> D" using bound [OF v(1) vis d(1)] .
      have "\<exists>d'. w_distance ?w ! head_of c k = Some d' \<and> d' \<le> laneArrive c k d"
        if k: "expands c v" "k \<in> set (g_outgoing (sc_graph c) ! v)" "laneUsable c k" "(v, k) \<notin> P" for k
      proof -
        from wf v(1) k(2) have hk: "head_of c k < size_of c" by (auto simp: graph_wf_def)
        show ?thesis
        proof (cases "(v, k) = (u, l)")
          case True
          with d u dist [OF hk] show ?thesis by auto
        next
          case False
          then obtain d' where d': "w_distance w ! head_of c k = Some d'" "d' \<le> laneArrive c k d"
            using rel k by blast
          with dist [OF hk] True show ?thesis by (cases "head_of c k = ?x") auto
        qed
      qed
      moreover have "w_distance ?w ! v = Some d" using dist [OF v(1)] d fresh vis by auto
      moreover have "\<forall>it\<in>set (w_queue ?w). d \<le> it_distance it" using d dD ge unfolding mem by auto
      ultimately show ?thesis using to by blast
    qed
    ultimately have "searching c P ?w" unfolding searching_def by blast
    moreover have "\<forall>v < size_of c. w_visited w ! v \<longrightarrow> w_distance ?w ! v = w_distance w ! v"
      using dist fresh by auto
    ultimately show ?thesis unfolding new by blast
  qed
qed

section \<open>One node, and the loop\<close>

lemma relax_node:
  assumes "searching c ({u} \<times> set ls \<union> P) w" and "fifo c" and "graph_wf (sc_graph c)"
    and "u < size_of c" "w_visited w ! u" "expands c u" "w_distance w ! u = Some D"
    and "set ls \<subseteq> set (g_outgoing (sc_graph c) ! u)"
    and "\<And>v d. v < size_of c \<Longrightarrow> w_visited w ! v \<Longrightarrow> w_distance w ! v = Some d \<Longrightarrow> d \<le> D"
  shows "searching c P (fold (relaxLane c (Item u D)) ls w)"
  using assms
proof (induction ls arbitrary: w)
  case (Cons l ls)
  have "{u} \<times> set (l # ls) \<union> P = insert (u, l) ({u} \<times> set ls \<union> P)" by auto
  with Cons.prems(1) have "searching c (insert (u, l) ({u} \<times> set ls \<union> P)) w" by simp
  moreover have "l \<in> set (g_outgoing (sc_graph c) ! u)" using Cons.prems(8) by simp
  ultimately have both: "searching c ({u} \<times> set ls \<union> P) (relaxLane c (Item u D) l w) \<and>
    (\<forall>v < size_of c. w_visited w ! v \<longrightarrow> w_distance (relaxLane c (Item u D) l w) ! v = w_distance w ! v)"
    using Cons.prems(2-7,9) by (intro relax_step)
  then have step: "searching c ({u} \<times> set ls \<union> P) (relaxLane c (Item u D) l w)"
    and same: "\<And>v. v < size_of c \<Longrightarrow> w_visited w ! v \<Longrightarrow>
      w_distance (relaxLane c (Item u D) l w) ! v = w_distance w ! v" by simp_all
  have "searching c P (fold (relaxLane c (Item u D)) ls (relaxLane c (Item u D) l w))"
    using Cons.prems same by (intro Cons.IH [OF step]) auto
  then show ?case by simp
qed simp

text \<open>What the loop leaves when it stops.\<close>

definition settled :: "searchCase \<Rightarrow> routeSearchWork \<Rightarrow> bool" where
  "settled c w \<longleftrightarrow>
    shaped c w \<and>
    (\<forall>u < size_of c. w_visited w ! u \<longrightarrow>
       u \<noteq> sc_to c \<and>
       (\<exists>d. w_distance w ! u = Some d \<and>
         (expands c u \<longrightarrow> (\<forall>l\<in>set (g_outgoing (sc_graph c) ! u). laneUsable c l \<longrightarrow>
            (\<exists>d'. w_distance w ! head_of c l = Some d' \<and> d' \<le> laneArrive c l d))))) \<and>
    (\<forall>v < size_of c. \<forall>d. \<not> w_visited w ! v \<longrightarrow> w_distance w ! v = Some d \<longrightarrow>
       (\<exists>D. w_distance w ! sc_to c = Some D \<and> D \<le> d))"

lemma mark_visited:
  assumes inv: "searching c {} w" and pop: "queue_pop (w_queue w) = Some (Item u D, rest)"
    and u: "\<not> w_visited w ! u" "w_distance w ! u = Some D" "u < size_of c" "u \<noteq> sc_to c"
  shows "searching c ({u} \<times> set (g_outgoing (sc_graph c) ! u))
      (w\<lparr>w_queue := rest, w_visited := (w_visited w)[u := True]\<rparr>) \<and>
    (\<forall>v < size_of c. \<forall>d. w_visited w ! v \<longrightarrow> w_distance w ! v = Some d \<longrightarrow> d \<le> D)"
proof -
  let ?w = "w\<lparr>w_queue := rest, w_visited := (w_visited w)[u := True]\<rparr>"
  note shaped = inv [unfolded searching_def, THEN conjunct1, unfolded shaped_def]
  have heap: "heap_inv (w_queue w)" using shaped by blast
  have mem: "set (w_queue w) = insert (Item u D) (set rest)"
    using route_queue.pop_elems [OF pop] by (metis set_mset_add_mset_insert set_mset_mset)
  have least: "D \<le> it_distance it" if "it \<in> set (w_queue w)" for it
    using item_le_distance [OF route_queue.pop_least [OF heap pop]] that by simp
  have trace: "traced c ?w v ls" if "traced c w v ls" for v ls
    using shaped u by (intro traced_cong [OF that]) (simp_all add: nth_list_update)
  have "shaped c ?w"
    unfolding shaped_def
  proof (intro conjI allI impI ballI)
    show "heap_inv (w_queue ?w)" using route_queue.pop_inv [OF heap pop] by simp
    show "it_node it < size_of c" "start_of c \<le> it_distance it" if "it \<in> set (w_queue ?w)" for it
      using that shaped unfolding mem by auto
    show "start_of c \<le> d" "\<exists>ls. traced c ?w v ls" if "v < size_of c" "w_distance ?w ! v = Some d" for v d
      using that shaped trace [of v] by (simp, force)
  qed (use shaped in simp_all)
  moreover have "Item v d \<in> set rest"
    if "v < size_of c" "\<not> w_visited ?w ! v" "w_distance w ! v = Some d" for v d
  proof -
    from that have "v \<noteq> u" using shaped u by auto
    moreover from that calculation have "Item v d \<in> set (w_queue w)" using inv by (auto simp: searching_def)
    ultimately show ?thesis unfolding mem by auto
  qed
  moreover have "v \<noteq> sc_to c \<and> (\<exists>d. w_distance w ! v = Some d \<and> (\<forall>it\<in>set rest. d \<le> it_distance it) \<and>
       (expands c v \<longrightarrow> (\<forall>l\<in>set (g_outgoing (sc_graph c) ! v). laneUsable c l \<longrightarrow>
          (v, l) \<notin> {u} \<times> set (g_outgoing (sc_graph c) ! u) \<longrightarrow>
          (\<exists>d'. w_distance w ! head_of c l = Some d' \<and> d' \<le> laneArrive c l d))))"
    if v: "v < size_of c" "w_visited ?w ! v" for v
  proof (cases "v = u")
    case True
    with u least show ?thesis by (auto simp: mem)
  next
    case False
    with v have "w_visited w ! v" by simp
    with inv v have "v \<noteq> sc_to c \<and> (\<exists>d. w_distance w ! v = Some d \<and> (\<forall>it\<in>set (w_queue w). d \<le> it_distance it) \<and>
       (expands c v \<longrightarrow> (\<forall>l\<in>set (g_outgoing (sc_graph c) ! v). laneUsable c l \<longrightarrow> (v, l) \<notin> {} \<longrightarrow>
          (\<exists>d'. w_distance w ! head_of c l = Some d' \<and> d' \<le> laneArrive c l d))))"
      unfolding searching_def by blast
    then show ?thesis unfolding mem by blast
  qed
  ultimately have "searching c ({u} \<times> set (g_outgoing (sc_graph c) ! u)) ?w"
    unfolding searching_def by simp
  moreover have "d \<le> D" if "v < size_of c" "w_visited w ! v" "w_distance w ! v = Some d" for v d
  proof -
    have "\<forall>it\<in>set (w_queue w). d \<le> it_distance it" using inv that by (auto simp: searching_def)
    then show ?thesis by (auto simp: mem)
  qed
  ultimately show ?thesis by blast
qed

lemma drop_stale:
  assumes inv: "searching c {} w" and pop: "queue_pop (w_queue w) = Some (Item u D, rest)"
    and stale: "w_visited w ! u \<or> w_distance w ! u \<noteq> Some D"
  shows "searching c {} (w\<lparr>w_queue := rest\<rparr>)"
proof -
  let ?w = "w\<lparr>w_queue := rest\<rparr>"
  note shaped = inv [unfolded searching_def, THEN conjunct1, unfolded shaped_def]
  have heap: "heap_inv (w_queue w)" using shaped by blast
  have mem: "set (w_queue w) = insert (Item u D) (set rest)"
    using route_queue.pop_elems [OF pop] by (metis set_mset_add_mset_insert set_mset_mset)
  have trace: "traced c ?w v ls" if "traced c w v ls" for v ls
    by (rule traced_cong [OF that]) simp_all
  have "shaped c ?w"
    unfolding shaped_def
  proof (intro conjI allI impI ballI)
    show "heap_inv (w_queue ?w)" using route_queue.pop_inv [OF heap pop] by simp
    show "it_node it < size_of c" "start_of c \<le> it_distance it" if "it \<in> set (w_queue ?w)" for it
      using that shaped unfolding mem by auto
    show "start_of c \<le> d" "\<exists>ls. traced c ?w v ls" if "v < size_of c" "w_distance ?w ! v = Some d" for v d
      using that shaped trace [of v] by (simp, force)
  qed (use shaped in simp_all)
  moreover have "Item v d \<in> set rest"
    if "v < size_of c" "\<not> w_visited w ! v" "w_distance w ! v = Some d" for v d
    using inv that stale by (auto simp: searching_def mem)
  ultimately show ?thesis
    using inv unfolding searching_def mem by (simp, blast)
qed

lemma searching_dead:
  assumes inv: "searching c ({u} \<times> S) w" and dead: "\<not> expands c u"
  shows "searching c {} w"
proof -
  have "v \<noteq> sc_to c \<and> (\<exists>d. w_distance w ! v = Some d \<and> (\<forall>it\<in>set (w_queue w). d \<le> it_distance it) \<and>
      (expands c v \<longrightarrow> (\<forall>l\<in>set (g_outgoing (sc_graph c) ! v). laneUsable c l \<longrightarrow> (v, l) \<notin> {} \<longrightarrow>
         (\<exists>d'. w_distance w ! head_of c l = Some d' \<and> d' \<le> laneArrive c l d))))"
    if v: "v < size_of c" "w_visited w ! v" for v
  proof -
    from inv v have "v \<noteq> sc_to c \<and> (\<exists>d. w_distance w ! v = Some d \<and> (\<forall>it\<in>set (w_queue w). d \<le> it_distance it) \<and>
      (expands c v \<longrightarrow> (\<forall>l\<in>set (g_outgoing (sc_graph c) ! v). laneUsable c l \<longrightarrow> (v, l) \<notin> {u} \<times> S \<longrightarrow>
         (\<exists>d'. w_distance w ! head_of c l = Some d' \<and> d' \<le> laneArrive c l d))))"
      unfolding searching_def by blast
    with dead show ?thesis by (cases "v = u") auto
  qed
  with inv show ?thesis unfolding searching_def by blast
qed

lemma searchLoop_settled:
  assumes "searching c {} w" and "fifo c" and "graph_wf (sc_graph c)"
  shows "\<exists>w'. searchLoop c w = Some w' \<and> settled c w'"
  using assms
proof (induction c w rule: searchLoop.induct)
  case (1 c w)
  note inv = "1.prems"(1)
  note shaped = inv [unfolded searching_def, THEN conjunct1, unfolded shaped_def]
  show ?case
  proof (cases "queue_pop (w_queue w)")
    case None
    then have "w_queue w = []" by (simp add: queue_pop_heap)
    then have "settled c w" using inv by (simp add: settled_def searching_def)
    with None show ?thesis by (subst searchLoop.simps) simp
  next
    case (Some p)
    then obtain u D rest where pop: "queue_pop (w_queue w) = Some (Item u D, rest)"
      by (metis routeQueueItem.exhaust surj_pair)
    have mem: "set (w_queue w) = insert (Item u D) (set rest)"
      using route_queue.pop_elems [OF pop] by (metis set_mset_add_mset_insert set_mset_mset)
    then have u: "u < size_of c" using shaped by auto
    then have bound: "\<not> u \<ge> length (w_visited w)" using shaped by simp
    note IH = "1.IH" [OF pop refl, unfolded routeQueueItem.sel, OF bound]
    note step = searchLoop.simps [of c w, unfolded pop option.case prod.case routeQueueItem.sel]
    consider (stale) "w_visited w ! u \<or> w_distance w ! u \<noteq> Some D"
      | (goal) "\<not> w_visited w ! u" "w_distance w ! u = Some D" "u = sc_to c"
      | (visit) "\<not> w_visited w ! u" "w_distance w ! u = Some D" "u \<noteq> sc_to c" by blast
    then show ?thesis
    proof cases
      case stale
      with IH(1) [OF stale drop_stale [OF inv pop stale]] "1.prems" bound step show ?thesis by simp
    next
      case goal
      have heap: "heap_inv (w_queue w)" using shaped by blast
      have least: "D \<le> it_distance it" if "it \<in> set (w_queue w)" for it
        using item_le_distance [OF route_queue.pop_least [OF heap pop]] that by simp
      have "\<exists>E. w_distance w ! sc_to c = Some E \<and> E \<le> d"
        if "v < size_of c" "\<not> w_visited w ! v" "w_distance w ! v = Some d" for v d
      proof -
        have "Item v d \<in> set (w_queue w)" using inv that by (auto simp: searching_def)
        from least [OF this] goal show ?thesis by auto
      qed
      moreover have "shaped c (w\<lparr>w_queue := rest\<rparr>)"
      proof -
        have "traced c (w\<lparr>w_queue := rest\<rparr>) v ls" if "traced c w v ls" for v ls
          by (rule traced_cong [OF that]) simp_all
        then have tr: "v < size_of c \<Longrightarrow> w_distance w ! v = Some d \<Longrightarrow> \<exists>ls. traced c (w\<lparr>w_queue := rest\<rparr>) v ls" for v d
          using shaped by meson
        show ?thesis
          using shaped tr route_queue.pop_inv [OF heap pop] unfolding shaped_def mem by simp
      qed
      moreover have "settled c (w\<lparr>w_queue := rest\<rparr>)"
        using inv calculation unfolding settled_def searching_def by (simp, blast)
      ultimately show ?thesis using goal bound step by simp
    next
      case visit
      let ?w = "w\<lparr>w_queue := rest, w_visited := (w_visited w)[u := True]\<rparr>"
      from visit have open_: "\<not> (w_visited w ! u \<or> w_distance w ! u \<noteq> Some D)" by simp
      have marked: "searching c ({u} \<times> set (g_outgoing (sc_graph c) ! u)) ?w"
        and low: "\<And>v d. v < size_of c \<Longrightarrow> w_visited w ! v \<Longrightarrow> w_distance w ! v = Some d \<Longrightarrow> d \<le> D"
        using mark_visited [OF inv pop visit(1,2) u visit(3)] by auto
      show ?thesis
      proof (cases "expands c u")
        case False
        have "searching c {} ?w"
          by (rule searching_dead [OF marked False])
        with IH(2) [OF open_ visit(3) refl False this] "1.prems" bound step visit False show ?thesis
          by (simp add: Let_def)
      next
        case True
        have "searching c {} (fold (relaxLane c (Item u D)) (g_outgoing (sc_graph c) ! u) ?w)"
        proof (rule relax_node)
          show "searching c ({u} \<times> set (g_outgoing (sc_graph c) ! u) \<union> {}) ?w" using marked by simp
          show "d \<le> D" if "v < size_of c" "w_visited ?w ! v" "w_distance ?w ! v = Some d" for v d
            using that low [of v d] visit by (cases "v = u") auto
        qed (use "1.prems" u visit True bound in simp_all)
        with IH(3) [OF open_ visit(3) refl _ this] "1.prems" bound step visit True show ?thesis
          by (simp add: Let_def)
      qed
    qed
  qed
qed

section \<open>The result of a search\<close>

lemma settled_walk:
  assumes st: "settled c w" and fifo: "fifo c" and wf: "graph_wf (sc_graph c)"
    and walk: "is_walk c (sc_from c) ls v" and v: "v < size_of c"
  shows "(\<exists>d. w_visited w ! v \<and> w_distance w ! v = Some d \<and> d \<le> walkTime c (start_of c) ls) \<or>
    (\<exists>D. w_distance w ! sc_to c = Some D \<and> D \<le> walkTime c (start_of c) ls)"
  using walk v
proof (induction ls arbitrary: v rule: rev_induct)
  case Nil
  then have "w_distance w ! v = Some (start_of c)" using st by (simp add: settled_def shaped_def)
  with st Nil.prems(2) show ?case unfolding settled_def by auto
next
  case (snoc l ls)
  then obtain u where u: "is_walk c (sc_from c) ls u" "u < size_of c" "l \<in> set (g_outgoing (sc_graph c) ! u)"
    "laneUsable c l" "expands c u" "head_of c l = v" by (auto simp: is_walk_snoc)
  from snoc.IH [OF u(1,2)] show ?case
  proof
    assume "\<exists>D. w_distance w ! sc_to c = Some D \<and> D \<le> walkTime c (start_of c) ls"
    moreover have "walkTime c (start_of c) ls \<le> walkTime c (start_of c) (ls @ [l])"
      using fifo_ge [OF fifo u(2,3)] by simp
    ultimately show ?thesis by (meson order_trans)
  next
    assume "\<exists>d. w_visited w ! u \<and> w_distance w ! u = Some d \<and> d \<le> walkTime c (start_of c) ls"
    then obtain d where d: "w_visited w ! u" "w_distance w ! u = Some d" "d \<le> walkTime c (start_of c) ls" by blast
    with st u obtain d' where d': "w_distance w ! v = Some d'" "d' \<le> laneArrive c l d"
      unfolding settled_def by fastforce
    have le: "d' \<le> walkTime c (start_of c) (ls @ [l])"
      using fifo_mono [OF fifo u(2,3) d(3)] d'(2) by simp
    show ?thesis
    proof (cases "w_visited w ! v")
      case True
      with d' le show ?thesis by blast
    next
      case False
      with st snoc.prems(2) d'(1) obtain D where "w_distance w ! sc_to c = Some D" "D \<le> d'"
        unfolding settled_def by blast
      with le show ?thesis by (meson order_trans)
    qed
  qed
qed

lemma routeWalk_traced:
  "traced c w v ls \<Longrightarrow> routeWalk (sc_graph c) (w_previous w) (sc_from c) v acc = Some (Inr (rev ls @ acc))"
proof (induction ls arbitrary: v acc)
  case Nil
  then show ?case by (simp add: routeWalk.simps)
next
  case (Cons l ls)
  then show ?case by (subst routeWalk.simps) auto
qed

lemma first_searching:
  assumes "sc_from c < size_of c"
  shows "searching c {} ((resetWork (size_of c))\<lparr>
    w_distance := (w_distance (resetWork (size_of c)))[sc_from c := Some (start_of c)],
    w_queue := [Item (sc_from c) (start_of c)]\<rparr>)"
proof -
  let ?w = "(resetWork (size_of c))\<lparr>
    w_distance := (w_distance (resetWork (size_of c)))[sc_from c := Some (start_of c)],
    w_queue := [Item (sc_from c) (start_of c)]\<rparr>"
  have dist: "w_distance ?w ! v = (if v = sc_from c then Some (start_of c) else None)" if "v < size_of c" for v
    using that assms by (simp add: resetWork_def)
  have "traced c ?w (sc_from c) []" by simp
  then have "shaped c ?w"
    unfolding shaped_def using assms dist
    by (auto simp: resetWork_def heap_ordered_def nth_list_update split: if_splits simp del: traced.simps intro: exI [of _ "[]"])
  then show ?thesis
    unfolding searching_def using dist by (auto simp: resetWork_def split: if_splits)
qed

lemma searchNodes_cases:
  assumes fifo: "fifo c" and wf: "graph_wf (sc_graph c)" and ends: "sc_from c < size_of c" "sc_to c < size_of c"
  shows "(\<exists>route d. searchNodes c (size_of c) = Some (Inr (route, d)) \<and>
      is_walk c (sc_from c) route (sc_to c) \<and> walkTime c (start_of c) route = d \<and>
      (\<forall>ls. is_walk c (sc_from c) ls (sc_to c) \<longrightarrow> d \<le> walkTime c (start_of c) ls)) \<or>
    (searchNodes c (size_of c) = Some (Inl ErrUnreachable) \<and> (\<nexists>ls. is_walk c (sc_from c) ls (sc_to c)))"
proof -
  obtain w where w: "searchLoop c ((resetWork (size_of c))\<lparr>
    w_distance := (w_distance (resetWork (size_of c)))[sc_from c := Some (start_of c)],
    w_queue := [Item (sc_from c) (start_of c)]\<rparr>) = Some w" and st: "settled c w"
    using searchLoop_settled [OF first_searching [OF ends(1)] fifo wf] by blast
  have walks: "\<exists>D. w_distance w ! sc_to c = Some D \<and> D \<le> walkTime c (start_of c) ls"
    if "is_walk c (sc_from c) ls (sc_to c)" for ls
    using settled_walk [OF st fifo wf that ends(2)] st ends(2) unfolding settled_def by blast
  show ?thesis
  proof (cases "w_distance w ! sc_to c")
    case None
    with walks have "\<nexists>ls. is_walk c (sc_from c) ls (sc_to c)" by fastforce
    moreover have "searchNodes c (size_of c) = Some (Inl ErrUnreachable)"
      by (simp add: searchNodes_def w Let_def routeLanes_def None)
    ultimately show ?thesis by blast
  next
    case (Some d)
    have shaped: "shaped c w" using st by (simp add: settled_def)
    with Some ends(2) obtain ls where ls: "traced c w (sc_to c) ls" unfolding shaped_def by blast
    have start: "w_distance w ! sc_from c = Some (start_of c)" using shaped by (simp add: shaped_def)
    from traced_walk [OF ls start] Some
    have "is_walk c (sc_from c) (rev ls) (sc_to c)" "walkTime c (start_of c) (rev ls) = d" by simp_all
    moreover have "searchNodes c (size_of c) = Some (Inr (rev ls, d))"
      by (simp add: searchNodes_def w Let_def routeLanes_def Some routeWalk_traced [OF ls])
    moreover have "\<forall>ls. is_walk c (sc_from c) ls (sc_to c) \<longrightarrow> d \<le> walkTime c (start_of c) ls"
      using walks Some by fastforce
    ultimately show ?thesis by blast
  qed
qed

end
