(* ===== verification/RouteTheorems.thy ===== *)
theory RouteTheorems
  imports RouteOptimal
begin

text \<open>
  The properties of the route search: the queue and forecast delays of the routing policies
  keep first-in first-out order, and the search on a network that passed the field checks ends,
  stays in bounds, and returns an earliest-arrival route, or reports that there is none.
\<close>

section \<open>Delays that keep the order\<close>

lemma queueDelay_fifo: "t \<le> t' \<Longrightarrow> t + queueDelay d t \<le> t' + queueDelay d t'"
  by (simp add: queueDelay_def)

lemma queueDelay_nonneg: "0 \<le> queueDelay d t"
  by (simp add: queueDelay_def)

fun untils_sorted :: "real \<Rightarrow> plannedLaneArrival list \<Rightarrow> bool" where
  "untils_sorted u [] = True"
| "untils_sorted u (a # rest) = (u \<le> arrival_until a \<and> untils_sorted (arrival_until a) rest)"

text \<open>The time at which the queue of a lane has cleared, seen at time \<open>t\<close>.\<close>

definition clearTime :: "real \<Rightarrow> plannedLaneArrival list \<Rightarrow> real \<Rightarrow> real" where
  "clearTime u as t =
    (let k = length (takeWhile (\<lambda>a. \<not> arrival_at a > t) as) in if k > 0 then arrival_until (as ! (k - 1)) else u)"

lemma clearTime_Cons:
  "clearTime u (a # as) t = (if arrival_at a > t then u else clearTime (arrival_until a) as t)"
  by (auto simp: clearTime_def Let_def nth_Cons')

lemma clearTime_ge: "untils_sorted u as \<Longrightarrow> u \<le> clearTime u as t"
proof (induction as arbitrary: u)
  case Nil
  then show ?case by (simp add: clearTime_def)
next
  case (Cons a as)
  from Cons.prems Cons.IH [of "arrival_until a"] show ?case by (simp add: clearTime_Cons)
qed

lemma clearTime_mono: "untils_sorted u as \<Longrightarrow> t \<le> t' \<Longrightarrow> clearTime u as t \<le> clearTime u as t'"
proof (induction as arbitrary: u)
  case Nil
  then show ?case by (simp add: clearTime_def)
next
  case (Cons a as)
  from Cons.prems Cons.IH [of "arrival_until a"] clearTime_ge [of "arrival_until a" as t'] show ?case
    by (simp add: clearTime_Cons)
qed

lemma finishLoop_sorted: "untils_sorted u (finishLoop u as)"
proof (induction as arbitrary: u)
  case (Cons a as)
  then show ?case by (simp add: Let_def queueHeadwaySeconds_def le_max_iff_disj)
qed simp

lemma forecastDelay_clearTime: "forecastDelay f t = max 0 (clearTime (fc_initial f) (fc_arrivals f) t - t)"
  by (simp add: forecastDelay_def clearTime_def Let_def)

definition finished :: "laneForecast \<Rightarrow> bool" where
  "finished f \<longleftrightarrow> untils_sorted (fc_initial f) (fc_arrivals f)"

lemma finished_fifo: "finished f \<Longrightarrow> t \<le> t' \<Longrightarrow> t + forecastDelay f t \<le> t' + forecastDelay f t'"
  using clearTime_mono [of "fc_initial f" "fc_arrivals f" t t']
  by (simp add: forecastDelay_clearTime finished_def max_def)

lemma forecastDelay_nonneg: "0 \<le> forecastDelay f t"
  by (simp add: forecastDelay_clearTime)

lemma finished_finish: "finished (forecastFinish f)"
  by (simp add: finished_def forecastFinish_def finishLoop_sorted)

text \<open>
  C33. The frozen discharge model of predictive routing is first-in first-out: a pod that enters
  a lane later never leaves its queue earlier, also when planned arrivals coincide, and no
  delay is negative.
\<close>

theorem forecast_keeps_order:
  assumes "t \<le> t'"
  shows "t + forecastDelay (forecastFinish f) t \<le> t' + forecastDelay (forecastFinish f) t' \<and>
    0 \<le> forecastDelay (forecastFinish f) t"
  using finished_fifo [OF finished_finish assms] forecastDelay_nonneg by auto

theorem forecast_keeps_order_witness:
  "let f = forecastFinish \<lparr>fc_initial = 2, fc_arrivals =
      [\<lparr>arrival_at = 4, arrival_until = 0\<rparr>, \<lparr>arrival_at = 1, arrival_until = 0\<rparr>]\<rparr>
   in forecastDelay f 1 = 4 \<and> (1 :: real) + 4 \<le> 5 + forecastDelay f 5"
proof -
  define f where "f = forecastFinish \<lparr>fc_initial = 2, fc_arrivals =
      [\<lparr>arrival_at = 4, arrival_until = 0\<rparr>, \<lparr>arrival_at = 1, arrival_until = 0\<rparr>]\<rparr>"
  have d: "forecastDelay f 1 = 4"
    by (simp add: f_def forecastDelay_def forecastFinish_def queueHeadwaySeconds_def Let_def)
  have "(1 :: real) + forecastDelay f 1 \<le> 5 + forecastDelay f 5"
    using forecast_keeps_order [of 1 5 "\<lparr>fc_initial = 2, fc_arrivals =
      [\<lparr>arrival_at = 4, arrival_until = 0\<rparr>, \<lparr>arrival_at = 1, arrival_until = 0\<rparr>]\<rparr>"]
    by (simp only: f_def)
  with d show ?thesis by (simp add: f_def)
qed

section \<open>The costs of a search\<close>

text \<open>
  What the callers give a search: extra costs are not negative, forecasts are finished, and a
  search has queue discharges or forecasts, never both.
\<close>

definition orderedCosts :: "networkRouteInput \<Rightarrow> bool" where
  "orderedCosts input \<longleftrightarrow>
    (\<forall>x\<in>set (in_extraCost input). 0 \<le> x) \<and> (\<forall>f\<in>set (in_forecasts input). finished f) \<and>
    (in_discharge input = [] \<or> in_forecasts input = [])"

lemma routeLaneExtra_fifo:
  assumes "orderedCosts input"
  shows "0 \<le> routeLaneExtra input l t \<and>
    (t \<le> t' \<longrightarrow> t + routeLaneExtra input l t \<le> t' + routeLaneExtra input l t')"
proof -
  let ?e = "if l < length (in_extraCost input) then in_extraCost input ! l else 0"
  have e: "0 \<le> ?e" using assms by (auto simp: orderedCosts_def)
  from assms consider "in_discharge input = []" | "in_forecasts input = []" by (auto simp: orderedCosts_def)
  then show ?thesis
  proof cases
    case 1
    show ?thesis
    proof (cases "l < length (in_forecasts input)")
      case True
      let ?f = "in_forecasts input ! l" and ?s = "in_forecastStart input"
      have "finished ?f" using assms True by (auto simp: orderedCosts_def)
      then have "t \<le> t' \<Longrightarrow> (?s + t) + forecastDelay ?f (?s + t) \<le> (?s + t') + forecastDelay ?f (?s + t')"
        by (intro finished_fifo) auto
      with 1 True e forecastDelay_nonneg [of ?f "?s + t"] show ?thesis
        by (auto simp: routeLaneExtra_def Let_def)
    next
      case False
      with 1 e show ?thesis by (auto simp: routeLaneExtra_def Let_def)
    qed
  next
    case 2
    have "routeLaneExtra input l t =
        ?e + (if l < length (in_discharge input) then queueDelay (in_discharge input ! l) t else 0)" for t
      using 2 by (simp add: routeLaneExtra_def Let_def)
    then show ?thesis
      using e queueDelay_nonneg [of "in_discharge input ! l" t] queueDelay_fifo [of t t' "in_discharge input ! l"]
      by (cases "l < length (in_discharge input)") auto
  qed
qed

section \<open>Edges of a checked network\<close>

lemma nodes_found:
  assumes good: "goodNodes n" and node: "indexNodes 0 (net_Nodes n) Map.empty ident = Some u"
  shows "u < length (net_Nodes n) \<and> node_ID (net_Nodes n ! u) = ident \<and>
    node_Position (net_Nodes n ! u) = nodePosition n ident"
proof -
  have u: "u < length (net_Nodes n)" "node_ID (net_Nodes n ! u) = ident"
    using indexNodes_bound [OF node] indexNodes_nth [OF node] by auto
  obtain x where x: "Network_Node n ident = Some x"
    using u by (cases "Network_Node n ident") (auto simp: Network_Node_def find_None_iff_set)
  then have "x \<in> set (net_Nodes n)" "node_ID x = ident" by (auto simp: Network_Node_def dest: find_SomeD)
  moreover have "inj_on node_ID (set (net_Nodes n))" using good by (simp add: goodNodes_def distinct_map)
  ultimately have "x = net_Nodes n ! u" using u by (auto dest: inj_onD)
  with u x show ?thesis by (simp add: nodePosition_def)
qed

text \<open>A graph of the network with any bank index and any blocked lanes.\<close>

definition graphOf :: "Network \<Rightarrow> bankIndex \<Rightarrow> bool list \<Rightarrow> routeGraph" where
  "graphOf n banks blocked = (baseGraph n)\<lparr>g_banks := banks, g_blocked := blocked\<rparr>"

lemma graphOf_sel [simp]:
  "g_banks (graphOf n banks blocked) = banks" "g_blocked (graphOf n banks blocked) = blocked"
  "g_nodes (graphOf n banks blocked) = g_nodes (baseGraph n)"
  "g_edges (graphOf n banks blocked) = g_edges (baseGraph n)"
  "g_outgoing (graphOf n banks blocked) = g_outgoing (baseGraph n)"
  "g_incoming (graphOf n banks blocked) = g_incoming (baseGraph n)"
  by (simp_all add: graphOf_def)

lemma graphOf_wf: "graph_wf (graphOf n banks blocked)"
  using baseGraph_wf [of n] unfolding graph_wf_def graphOf_sel .

lemma edge_seconds_pos:
  assumes good: "goodFields n" and l: "u < length (net_Nodes n)" "l \<in> set (g_outgoing (baseGraph n) ! u)"
  shows "0 < edge_seconds (g_edges (baseGraph n) ! l)"
proof -
  let ?lane = "net_Lanes n ! l"
  from l(2) obtain v where ll: "l < length (net_Lanes n)"
    and ends: "laneEnds (g_nodes (baseGraph n)) ?lane = Some (u, v)"
    and edge: "g_edges (baseGraph n) ! l = laneEdge n ?lane u v"
    unfolding baseGraph_outgoing [OF l(1)] by blast
  from good have nodes: "goodNodes n" by (simp add: goodFields_def)
  from ends have "indexNodes 0 (net_Nodes n) Map.empty (lane_From ?lane) = Some u"
    "indexNodes 0 (net_Nodes n) Map.empty (lane_To ?lane) = Some v"
    by (auto simp: laneEnds_def baseGraph_nodes split: option.splits)
  then have pos: "node_Position (net_Nodes n ! u) = nodePosition n (lane_From ?lane)"
    "node_Position (net_Nodes n ! v) = nodePosition n (lane_To ?lane)"
    using nodes_found [OF nodes] by auto
  have "goodLane n ?lane" using good ll by (simp add: goodFields_def)
  then obtain a b where "Length n ?lane = Fin a" "0 < a" "lane_SpeedLimit ?lane = Fin b" "0 < b"
    unfolding goodLane_def by blast
  then show ?thesis
    by (simp add: edge laneEdge_def pos indexedLaneLength_Length)
qed

lemma graphOf_fifo:
  assumes "goodFields n" and "orderedCosts input" and "sc_input c = input" and "sc_graph c = graphOf n banks blocked"
  shows "fifo c"
  unfolding fifo_def
proof (intro allI impI ballI conjI)
  fix u l assume u: "u < length (g_outgoing (sc_graph c))" "l \<in> set (g_outgoing (sc_graph c) ! u)"
  then have pos: "0 < edge_seconds (g_edges (baseGraph n) ! l)"
    using edge_seconds_pos [OF assms(1)] assms(4) by (simp add: baseGraph_nodes)
  show "t \<le> laneArrive c l t" for t
    using pos routeLaneExtra_fifo [OF assms(2), of l t t] by (simp add: laneArrive_def assms)
  show "laneArrive c l t \<le> laneArrive c l t'" if "t \<le> t'" for t t'
    using pos routeLaneExtra_fifo [OF assms(2), of l t t'] that by (simp add: laneArrive_def assms)
qed

section \<open>The search\<close>

definition caseOf :: "Network \<Rightarrow> networkRouteInput \<Rightarrow> routeGraph \<Rightarrow> nat \<Rightarrow> nat \<Rightarrow> searchCase" where
  "caseOf n input g u v = \<lparr>sc_lanes = net_Lanes n, sc_input = input, sc_graph = g, sc_from = u, sc_to = v\<rparr>"

lemma rawRoute_searchNodes:
  assumes "bi_err (g_banks g) = None" and "g_nodes g (in_from input) = Some u" and "g_nodes g (in_to input) = Some v"
    and "nodeAllows g u (in_class input)" and "nodeAllows g v (in_class input)"
  shows "rawRoute n input g = searchNodes (caseOf n input g u v) (length (net_Nodes n))"
  using assms by (simp add: rawRoute_def caseOf_def)

lemma search_optimal:
  assumes "goodFields n" and "orderedCosts input" and "bi_err banks = None"
    and "g_nodes (graphOf n banks blocked) (in_from input) = Some u"
    and "g_nodes (graphOf n banks blocked) (in_to input) = Some v"
    and "nodeAllows (graphOf n banks blocked) u (in_class input)"
    and "nodeAllows (graphOf n banks blocked) v (in_class input)"
  shows "let c = caseOf n input (graphOf n banks blocked) u v in
    (\<exists>route d. rawRoute n input (graphOf n banks blocked) = Some (Inr (route, d)) \<and>
       is_walk c u route v \<and> walkTime c (in_startCost input) route = d \<and>
       (\<forall>ls. is_walk c u ls v \<longrightarrow> d \<le> walkTime c (in_startCost input) ls)) \<or>
    (rawRoute n input (graphOf n banks blocked) = Some (Inl ErrUnreachable) \<and> (\<nexists>ls. is_walk c u ls v))"
proof -
  let ?g = "graphOf n banks blocked"
  let ?c = "caseOf n input ?g u v"
  have sel: "sc_input ?c = input" "sc_graph ?c = ?g" "sc_from ?c = u" "sc_to ?c = v"
    by (simp_all add: caseOf_def)
  have ends: "u < length (net_Nodes n)" "v < length (net_Nodes n)"
    using assms(4,5) indexNodes_bound by (auto simp: baseGraph_nodes)
  have "rawRoute n input ?g = searchNodes ?c (length (net_Nodes n))"
    using assms by (intro rawRoute_searchNodes) simp_all
  moreover have "fifo ?c" using graphOf_fifo [OF assms(1,2) sel(1,2)] .
  moreover have "graph_wf (sc_graph ?c)" by (simp add: sel graphOf_wf)
  ultimately show ?thesis
    using searchNodes_cases [of ?c] ends by (simp add: sel baseGraph_nodes Let_def)
qed

text \<open>
  C7. A route search on a network that passed the field checks always ends without a panic. It
  returns the lanes of a usable walk between the nodes, whose arrival time is the reported
  distance and is the earliest of all usable walks, with the extra, queue or forecast costs of
  every routing policy. It reports an unreachable destination exactly when no usable walk exists.
\<close>

theorem rawRoute_optimal:
  assumes "goodFields n" and "orderedCosts input" and "bi_err banks = None"
    and "g_nodes (graphOf n banks blocked) (in_from input) = Some u"
    and "g_nodes (graphOf n banks blocked) (in_to input) = Some v"
    and "nodeAllows (graphOf n banks blocked) u (in_class input)"
    and "nodeAllows (graphOf n banks blocked) v (in_class input)"
  shows "let c = caseOf n input (graphOf n banks blocked) u v in
    (\<exists>route d. rawRoute n input (graphOf n banks blocked) = Some (Inr (route, d)) \<and>
       is_walk c u route v \<and> walkTime c (in_startCost input) route = d \<and>
       (\<forall>ls. is_walk c u ls v \<longrightarrow> d \<le> walkTime c (in_startCost input) ls)) \<or>
    (rawRoute n input (graphOf n banks blocked) = Some (Inl ErrUnreachable) \<and> (\<nexists>ls. is_walk c u ls v))"
  using assms by (rule search_optimal)

text \<open>A network of two nodes 3 m apart and one lane of 1 m/s.\<close>

definition twoNodes :: Network where
  "twoNodes =
    \<lparr>net_Nodes = [\<lparr>node_ID = ''a'', node_Position = \<lparr>pt_X = Fin 0, pt_Y = Fin 0\<rparr>\<rparr>,
                  \<lparr>node_ID = ''b'', node_Position = \<lparr>pt_X = Fin 3, pt_Y = Fin 0\<rparr>\<rparr>],
     net_Lanes = [\<lparr>lane_VehicleClasses = 0, lane_ID = ''l'', lane_From = ''a'', lane_To = ''b'',
                   lane_SpeedLimit = Fin 1, lane_SeparationGroup = [], lane_StationID = [],
                   lane_StationRole = [], lane_Control = None\<rparr>],
     net_Stations = [], net_ManeuverGroups = [], net_Depots = []\<rparr>"

definition plainInput :: "string \<Rightarrow> string \<Rightarrow> networkRouteInput" where
  "plainInput a b =
    \<lparr>in_class = [], in_from = a, in_to = b, in_forbidden = None, in_extraCost = [], in_discharge = [],
     in_forecasts = [], in_forecastStart = 0, in_ownBerthsOnly = False, in_terminalBerthsOnly = False,
     in_allowedLanes = None, in_bankRaw = False, in_startCost = 0, in_bankExternal = False\<rparr>"

lemma twoNodes_good: "goodFields twoNodes"
  by (simp add: goodFields_def goodNodes_def goodLane_def twoNodes_def finitePoint_def validStationLaneRole_def
      allBerths_def Length_def Polyline_def lanePointsBetween_def nodePosition_def Network_Node_def
      pointDistance_def float_ops MaxCounter_def)

lemma twoNodes_graph:
  "g_nodes (baseGraph twoNodes) ''a'' = Some 0" "g_nodes (baseGraph twoNodes) ''b'' = Some 1"
  "g_outgoing (baseGraph twoNodes) = [[0], []]"
  "edge_to (g_edges (baseGraph twoNodes) ! 0) = 1" "edge_seconds (g_edges (baseGraph twoNodes) ! 0) = 3"
  "g_classRestrictions (baseGraph twoNodes) = False"
  by (simp_all add: baseGraph_def indexRouteClasses_def emptyGraph_def twoNodes_def Let_def laneEdge_def
      indexedLaneLength_def pointDistance_def float_ops)

theorem rawRoute_optimal_witness:
  "\<exists>route d. rawRoute twoNodes (plainInput ''a'' ''b'') (graphOf twoNodes noBanks []) = Some (Inr (route, d)) \<and>
     d \<le> 3"
proof -
  let ?i = "plainInput ''a'' ''b''" and ?g = "graphOf twoNodes noBanks []"
  let ?c = "caseOf twoNodes ?i ?g 0 1"
  have h: "orderedCosts ?i" "bi_err noBanks = None" "g_nodes ?g (in_from ?i) = Some 0" "g_nodes ?g (in_to ?i) = Some 1"
    "nodeAllows ?g 0 (in_class ?i)" "nodeAllows ?g 1 (in_class ?i)"
    by (simp_all add: orderedCosts_def plainInput_def noBanks_def twoNodes_graph nodeAllows_def graphOf_def)
  have walk: "is_walk ?c 0 [0] 1" "walkTime ?c (in_startCost ?i) [0] = 3"
    by (simp_all add: caseOf_def plainInput_def twoNodes_graph laneUsable_def laneAllows_def laneOpen_def
        expands_def laneArrive_def routeLaneExtra_def graphOf_def Let_def)
  from rawRoute_optimal [OF twoNodes_good h, unfolded Let_def] walk show ?thesis by (metis (no_types, lifting))
qed

end
