(* ===== verification/StationBanks.thy ===== *)
theory StationBanks
  imports RouteTheorems
begin

text \<open>
  Station banks: the checks and the ownership index of \<open>internal/sim/station_banks.go\<close>, the
  finished route graph, and the route search through banks of \<open>internal/sim/bank_routes.go\<close>.
  The build stops at its first error and keeps the part of the index that it has built; where
  the code ranges over a map the model takes the lanes in index order, which can change only
  which of several conflicts is named.
\<close>

section \<open>Local paths\<close>

text \<open>Reachability inside a bank: the queue of the code, read from its head.\<close>

fun pushUnseen :: "nat list \<Rightarrow> bool list \<Rightarrow> nat list \<Rightarrow> bool list \<times> nat list" where
  "pushUnseen [] seen queue = (seen, queue)"
| "pushUnseen (next # rest) seen queue =
    (if next < length seen \<and> \<not> seen ! next
     then pushUnseen rest (seen[next := True]) (queue @ [next])
     else pushUnseen rest seen queue)"

definition unseen :: "bool list \<Rightarrow> nat" where
  "unseen seen = length (filter Not seen)"

lemma unseen_mark: "next < length seen \<Longrightarrow> \<not> seen ! next \<Longrightarrow> Suc (unseen (seen[next := True])) = unseen seen"
proof -
  assume h: "next < length seen" "\<not> seen ! next"
  then have "tally Not (seen[next := True]) + 1 = tally Not seen" by (simp add: tally_update)
  then show ?thesis by (simp add: tally_def unseen_def)
qed

lemma pushUnseen_measure:
  "pushUnseen ns seen queue = (seen', queue') \<Longrightarrow>
     2 * unseen seen' + length queue' \<le> 2 * unseen seen + length queue"
proof (induction ns seen queue rule: pushUnseen.induct)
  case (2 v rest seen queue)
  show ?case
  proof (cases "v < length seen \<and> \<not> seen ! v")
    case True
    then have "2 * unseen seen' + length queue' \<le> 2 * unseen (seen[v := True]) + length (queue @ [v])"
      using 2 by simp
    with True unseen_mark [of v seen] show ?thesis by simp
  next
    case False
    with 2 show ?thesis by auto
  qed
qed simp

function reachLoop :: "(nat \<Rightarrow> nat list) \<Rightarrow> bool list \<Rightarrow> nat list \<Rightarrow> bool list" where
  "reachLoop succs seen [] = seen"
| "reachLoop succs seen (node # queue) =
    (let (seen', queue') = pushUnseen (succs node) seen queue in reachLoop succs seen' queue')"
  by pat_completeness auto
termination
  by (relation "measure (\<lambda>(succs, seen, queue). 2 * unseen seen + length queue)")
    (auto simp: le_imp_less_Suc split: prod.split dest: pushUnseen_measure)

definition reachable :: "(nat \<Rightarrow> nat list) \<Rightarrow> nat \<Rightarrow> nat \<Rightarrow> bool list" where
  "reachable succs nodes origin = reachLoop succs ((replicate nodes False)[origin := True]) [origin]"

definition pathLaneAllowed ::
  "Network \<Rightarrow> string \<Rightarrow> string \<Rightarrow> string \<Rightarrow> string \<Rightarrow> (string \<Rightarrow> string) \<Rightarrow> string set \<Rightarrow> nat \<Rightarrow> bool" where
  "pathLaneAllowed n station from to role gates berths lane =
    (let l = net_Lanes n ! lane in
      if lane_StationID l \<noteq> station \<or> lane_StationRole l \<noteq> role then False
      else if list_ex (\<lambda>node. node \<noteq> from \<and> node \<noteq> to \<and> (gates node \<noteq> [] \<or> node \<in> berths)) [lane_From l, lane_To l]
      then False
      else lane_To l \<noteq> from \<and> lane_From l \<noteq> to)"

definition forwardSuccs :: "routeGraph \<Rightarrow> (nat \<Rightarrow> bool) \<Rightarrow> nat \<Rightarrow> nat list" where
  "forwardSuccs g allowed node = map (\<lambda>l. edge_to (g_edges g ! l)) (filter allowed (g_outgoing g ! node))"

definition backwardSuccs :: "routeGraph \<Rightarrow> (nat \<Rightarrow> bool) \<Rightarrow> nat \<Rightarrow> nat list" where
  "backwardSuccs g allowed node = map (\<lambda>l. edge_from (g_edges g ! l)) (filter allowed (g_incoming g ! node))"

definition bankPathLanes ::
  "Network \<Rightarrow> routeGraph \<Rightarrow> string \<Rightarrow> string \<Rightarrow> string \<Rightarrow> string \<Rightarrow> (string \<Rightarrow> string) \<Rightarrow> string set \<Rightarrow>
    (nat set \<times> bool)" where
  "bankPathLanes n g station from to role gates berths =
    (case g_nodes g from of
       None \<Rightarrow> ({}, False)
     | Some start \<Rightarrow>
    (case g_nodes g to of
       None \<Rightarrow> ({}, False)
     | Some end \<Rightarrow>
       let allowed = pathLaneAllowed n station from to role gates berths;
           forward = reachable (forwardSuccs g allowed) (length (net_Nodes n)) start;
           backward = reachable (backwardSuccs g allowed) (length (net_Nodes n)) end
       in (set (filter (\<lambda>l. allowed l \<and> forward ! edge_from (g_edges g ! l) \<and> backward ! edge_to (g_edges g ! l))
             [0..<length (g_edges g)]),
           forward ! end)))"

section \<open>Building the bank index\<close>

record bankBuild =
  bb_net :: Network
  bb_graph :: routeGraph
  bb_gates :: "string \<Rightarrow> string"
  bb_berths :: "string set"

type_synonym bank_step = "bankIndex \<times> bank_error option"

definition andThen :: "bank_step \<Rightarrow> (bankIndex \<Rightarrow> bank_step) \<Rightarrow> bank_step" where
  "andThen s f = (case s of (index, None) \<Rightarrow> f index | (index, Some e) \<Rightarrow> (index, Some e))"

fun bankEach :: "('a \<Rightarrow> bankIndex \<Rightarrow> bank_step) \<Rightarrow> 'a list \<Rightarrow> bankIndex \<Rightarrow> bank_step" where
  "bankEach f [] index = (index, None)"
| "bankEach f (x # xs) index = andThen (f x index) (bankEach f xs)"

fun addGates :: "routeGraph \<Rightarrow> string set \<Rightarrow> Station \<Rightarrow> string list \<Rightarrow> (string \<Rightarrow> string) \<Rightarrow>
    (bank_error, string \<Rightarrow> string) result" where
  "addGates g berths station [] gates = Inr gates"
| "addGates g berths station (gate # rest) gates =
    (if g_nodes g gate = None \<or> gate \<in> berths \<or> gates gate \<noteq> []
     then Inl (BankGateInvalid (st_ID station) gate)
     else addGates g berths station rest (gates(gate := st_ID station)))"

fun addBankGates :: "routeGraph \<Rightarrow> string set \<Rightarrow> Station \<Rightarrow> StationBank list \<Rightarrow> (string \<Rightarrow> string) \<Rightarrow>
    (bank_error, string \<Rightarrow> string) result" where
  "addBankGates g berths station [] gates = Inr gates"
| "addBankGates g berths station (bank # rest) gates =
    (if bank_Entry bank = bank_Exit bank then Inl (BankGatesEqual (st_ID station))
     else case addGates g berths station [bank_Entry bank, bank_Exit bank] gates of
       Inl e \<Rightarrow> Inl e
     | Inr gates' \<Rightarrow> addBankGates g berths station rest gates')"

definition addStationGates :: "routeGraph \<Rightarrow> string set \<Rightarrow> Station \<Rightarrow> (string \<Rightarrow> string) \<Rightarrow>
    (bank_error, string \<Rightarrow> string) result" where
  "addStationGates g berths station gates =
    (if bank_list station = [] \<or> length (bank_list station) > MaxStationBanks
     then Inl (BankCount (st_ID station))
     else addBankGates g berths station (bank_list station) gates)"

fun allStationGates :: "routeGraph \<Rightarrow> string set \<Rightarrow> Station list \<Rightarrow> (string \<Rightarrow> string) \<Rightarrow>
    (bank_error, string \<Rightarrow> string) result" where
  "allStationGates g berths [] gates = Inr gates"
| "allStationGates g berths (station # rest) gates =
    (if st_Banks station = None then allStationGates g berths rest gates
     else case addStationGates g berths station gates of
       Inl e \<Rightarrow> Inl e
     | Inr gates' \<Rightarrow> allStationGates g berths rest gates')"

fun legacyGates :: "Station list \<Rightarrow> (string \<Rightarrow> string) \<Rightarrow> (string \<Rightarrow> string)" where
  "legacyGates [] gates = gates"
| "legacyGates (station # rest) gates =
    (if st_Banks station = None
     then legacyGates rest (gates(st_Entry station := st_ID station, st_Exit station := st_ID station))
     else legacyGates rest gates)"

definition nodeIndex :: "routeGraph \<Rightarrow> string \<Rightarrow> nat" where
  "nodeIndex g ident = (case g_nodes g ident of Some i \<Rightarrow> i | None \<Rightarrow> 0)"

definition addBerthPaths ::
  "bankBuild \<Rightarrow> string \<Rightarrow> StationBank \<Rightarrow> string \<Rightarrow> string \<Rightarrow> bankTopology \<Rightarrow> (bank_error, bankTopology) result" where
  "addBerthPaths b stationID bank berthID berthNode t =
    (let (arrival, ok) = bankPathLanes (bb_net b) (bb_graph b) stationID (bank_Entry bank) berthNode
           StationBerthAccessRole (bb_gates b) (bb_berths b) in
      if \<not> ok then Inl (BankPathMissing stationID (bank_ID bank) StationBerthAccessRole berthID)
      else
        let t1 = t\<lparr>bt_arrival := bt_arrival t \<union> arrival, bt_local := bt_local t \<union> arrival\<rparr>;
            (departure, ok2) = bankPathLanes (bb_net b) (bb_graph b) stationID berthNode (bank_Exit bank)
              StationDepartureRole (bb_gates b) (bb_berths b) in
        if \<not> ok2 then Inl (BankPathMissing stationID (bank_ID bank) StationDepartureRole berthID)
        else Inr (t1\<lparr>bt_departure := bt_departure t1 \<union> departure, bt_local := bt_local t1 \<union> departure\<rparr>))"

fun addBankBerths ::
  "bankBuild \<Rightarrow> Station \<Rightarrow> StationBank \<Rightarrow> string list \<Rightarrow> string set \<Rightarrow> bankTopology \<Rightarrow>
    (bank_error, string set \<times> bankTopology) result" where
  "addBankBerths b station bank [] membership t = Inr (membership, t)"
| "addBankBerths b station bank (ident # rest) membership t =
    (case Station_berth station ident of
       None \<Rightarrow> Inl (BankBerthInvalid (st_ID station) ident)
     | Some berth \<Rightarrow>
         if ident \<in> membership then Inl (BankBerthInvalid (st_ID station) ident)
         else case addBerthPaths b (st_ID station) bank ident (berth_Node berth) t of
           Inl e \<Rightarrow> Inl e
         | Inr t' \<Rightarrow> addBankBerths b station bank rest (insert ident membership) t')"

definition throughLanes :: "bankBuild \<Rightarrow> string \<Rightarrow> StationBank \<Rightarrow> nat list" where
  "throughLanes b stationID bank =
    filter (\<lambda>i. let lane = net_Lanes (bb_net b) ! i in
        lane_StationID lane = stationID \<and> lane_StationRole lane = StationThroughRole \<and>
        lane_From lane = bank_Entry bank \<and> lane_To lane = bank_Exit bank)
      [0..<length (net_Lanes (bb_net b))]"

definition addThroughLanes ::
  "bankBuild \<Rightarrow> string \<Rightarrow> StationBank \<Rightarrow> bankTopology \<Rightarrow> (bank_error, bankTopology) result" where
  "addThroughLanes b stationID bank t =
    (if throughLanes b stationID bank = [] then Inl (BankThroughMissing stationID (bank_ID bank))
     else Inr (t\<lparr>bt_local := bt_local t \<union> set (throughLanes b stationID bank)\<rparr>))"

definition claimNode :: "bankBuild \<Rightarrow> nat \<Rightarrow> nat \<Rightarrow> bankIndex \<Rightarrow> bank_step" where
  "claimNode b owner node index =
    (if bi_nodes index ! node \<noteq> None \<and> bi_nodes index ! node \<noteq> Some owner
     then (index, Some (NodeInTwoBanks (node_ID (net_Nodes (bb_net b) ! node))))
     else (index\<lparr>bi_nodes := (bi_nodes index)[node := Some owner]\<rparr>, None))"

definition claimLane :: "bankBuild \<Rightarrow> nat \<Rightarrow> nat \<Rightarrow> bankIndex \<Rightarrow> bank_step" where
  "claimLane b owner lane index =
    (if bi_lanes index ! lane \<noteq> None
     then (index, Some (LaneInTwoBanks (lane_ID (net_Lanes (bb_net b) ! lane))))
     else
       let edge = g_edges (bb_graph b) ! lane in
       bankEach (claimNode b owner) [edge_from edge, edge_to edge]
         (index\<lparr>bi_lanes := (bi_lanes index)[lane := Some owner]\<rparr>))"

definition claimLocal :: "bankBuild \<Rightarrow> bankTopology \<Rightarrow> bankIndex \<Rightarrow> bank_step" where
  "claimLocal b t index =
    bankEach (claimLane b (length (bi_banks index)))
      (filter (\<lambda>l. l \<in> bt_local t) [0..<length (net_Lanes (bb_net b))]) index"

text \<open>\<open>addBank\<close> also returns the IDs and the memberships that the station has so far.\<close>

definition addBank ::
  "bankBuild \<Rightarrow> nat \<Rightarrow> nat \<Rightarrow> Station \<Rightarrow> StationBank \<Rightarrow> string set \<Rightarrow> string set \<Rightarrow> bankIndex \<Rightarrow>
    bank_step \<times> string set \<times> string set" where
  "addBank b stationIndex bankNumber station bank ids membership index =
    (if bank_ID bank = [] \<or> length (bank_ID bank) > 64 \<or> bank_ID bank \<in> ids \<or>
        bank_BerthIDs bank = [] \<or> length (bank_BerthIDs bank) > 200
     then ((index, Some (BankInvalid (st_ID station) (bank_ID bank))), ids, membership)
     else
       let ids' = insert (bank_ID bank) ids;
           t = \<lparr>bt_station = stationIndex, bt_bank = bankNumber, bt_entry = nodeIndex (bb_graph b) (bank_Entry bank),
                bt_exit = nodeIndex (bb_graph b) (bank_Exit bank), bt_arrival = {}, bt_departure = {}, bt_local = {}\<rparr>
       in case addBankBerths b station bank (bank_BerthIDs bank) membership t of
            Inl e \<Rightarrow> ((index, Some e), ids', membership)
          | Inr (membership', t1) \<Rightarrow>
         (case addThroughLanes b (st_ID station) bank t1 of
            Inl e \<Rightarrow> ((index, Some e), ids', membership')
          | Inr t2 \<Rightarrow>
              (andThen (claimLocal b t2 index)
                 (\<lambda>index'. (index'\<lparr>bi_banks := bi_banks index' @ [t2]\<rparr>, None)), ids', membership')))"

fun addBanks ::
  "bankBuild \<Rightarrow> nat \<Rightarrow> Station \<Rightarrow> nat \<Rightarrow> StationBank list \<Rightarrow> string set \<Rightarrow> string set \<Rightarrow> bankIndex \<Rightarrow>
    bank_step \<times> string set" where
  "addBanks b stationIndex station bankNumber [] ids membership index = ((index, None), membership)"
| "addBanks b stationIndex station bankNumber (bank # rest) ids membership index =
    (case addBank b stationIndex bankNumber station bank ids membership index of
       ((index', Some e), ids', membership') \<Rightarrow> ((index', Some e), membership')
     | ((index', None), ids', membership') \<Rightarrow>
         addBanks b stationIndex station (Suc bankNumber) rest ids' membership' index')"

definition addStation :: "bankBuild \<Rightarrow> nat \<Rightarrow> Station \<Rightarrow> bankIndex \<Rightarrow> bank_step" where
  "addStation b stationIndex station index =
    (let first = hd (bank_list station) in
      if st_Entry station \<noteq> bank_Entry first \<or> st_Exit station \<noteq> bank_Exit first
      then (index, Some (BankAlias (st_ID station)))
      else case addBanks b stationIndex station 0 (bank_list station) {} {} index of
        ((index', Some e), membership) \<Rightarrow> (index', Some e)
      | ((index', None), membership) \<Rightarrow>
          if card membership \<noteq> length (st_Berths station)
          then (index', Some (BankMembership (st_ID station)))
          else (index', None))"

definition checkExternalEnd :: "bankBuild \<Rightarrow> bankIndex \<Rightarrow> nat \<Rightarrow> Lane \<Rightarrow> bank_error option" where
  "checkExternalEnd b index node lane =
    (case bi_nodes index ! node of
       None \<Rightarrow> None
     | Some owner \<Rightarrow>
         let bank = bi_banks index ! owner;
             station = net_Stations (bb_net b) ! bt_station bank;
             ident = node_ID (net_Nodes (bb_net b) ! node) in
         if node \<noteq> bt_entry bank \<and> node \<noteq> bt_exit bank then Some (BankInterior (lane_ID lane))
         else if node = bt_entry bank \<and>
           (lane_To lane \<noteq> ident \<or> lane_StationID lane \<noteq> st_ID station \<or> lane_StationRole lane \<noteq> StationEntryRole)
         then Some (BankEntryLane (lane_ID lane))
         else if node = bt_exit bank \<and>
           (lane_From lane \<noteq> ident \<or> lane_StationID lane \<noteq> st_ID station \<or> lane_StationRole lane \<noteq> StationExitRole)
         then Some (BankExitLane (lane_ID lane))
         else None)"

definition checkLane :: "bankBuild \<Rightarrow> nat \<times> Lane \<Rightarrow> bankIndex \<Rightarrow> bank_step" where
  "checkLane b il index =
    (let (laneIndex, lane) = il; edge = g_edges (bb_graph b) ! laneIndex in
      if (case Network_Station (bb_net b) (lane_StationID lane) of
            None \<Rightarrow> False
          | Some station \<Rightarrow> st_Banks station \<noteq> None \<and> bankLocalRole (lane_StationRole lane) \<and>
              bi_lanes index ! laneIndex = None)
      then (index, Some (OrphanLane (lane_StationID lane) (lane_ID lane)))
      else if bi_lanes index ! laneIndex \<noteq> None then (index, None)
      else case checkExternalEnd b index (edge_from edge) lane of
        Some e \<Rightarrow> (index, Some e)
      | None \<Rightarrow> (index, checkExternalEnd b index (edge_to edge) lane))"

definition buildBanks :: "Network \<Rightarrow> routeGraph \<Rightarrow> bankIndex \<Rightarrow> bank_step" where
  "buildBanks n g index =
    (let berths = berth_Node ` set (allBerths n) in
      case allStationGates g berths (net_Stations n) (legacyGates (net_Stations n) (\<lambda>_. [])) of
        Inl e \<Rightarrow> (index, Some e)
      | Inr gates \<Rightarrow>
          let b = \<lparr>bb_net = n, bb_graph = g, bb_gates = gates, bb_berths = berths\<rparr> in
          andThen
            (bankEach (\<lambda>(i, station) index. if st_Banks station = None then (index, None) else addStation b i station index)
              (enumerate 0 (net_Stations n)) index)
            (bankEach (checkLane b) (enumerate 0 (net_Lanes n))))"

definition indexStationBanks :: "Network \<Rightarrow> routeGraph \<Rightarrow> bankIndex" where
  "indexStationBanks n g =
    (if \<not> hasStationBanks n then noBanks
     else
       let (index, err) = buildBanks n g
         \<lparr>bi_banks = [], bi_nodes = replicate (length (net_Nodes n)) None,
          bi_lanes = replicate (length (net_Lanes n)) None, bi_err = None\<rparr>
       in index\<lparr>bi_err := err\<rparr>)"

definition newRouteGraph :: "Network \<Rightarrow> routeGraph" where
  "newRouteGraph n = (baseGraph n)\<lparr>g_banks := indexStationBanks n (baseGraph n)\<rparr>"

definition ValidateStationBanks :: "Network \<Rightarrow> bank_error option" where
  "ValidateStationBanks n = (if \<not> hasStationBanks n then None else bi_err (g_banks (newRouteGraph n)))"

end
