(* ===== verification/BankTheorems.thy ===== *)
theory BankTheorems
  imports StationBanks
begin

text \<open>
  Properties of the bank index: the local lanes of a bank are exactly the lanes on its legal
  local walks, and an accepted index isolates the banks from each other and from the road
  network except at their gates.
\<close>

section \<open>Reachability\<close>

lemma pushUnseen_spec:
  "pushUnseen ns seen queue = (seen', queue') \<Longrightarrow>
     length seen' = length seen \<and>
     (\<forall>v<length seen. seen' ! v \<longleftrightarrow> seen ! v \<or> v \<in> set ns) \<and>
     set queue' = set queue \<union> {v. v < length seen \<and> v \<in> set ns \<and> \<not> seen ! v}"
proof (induction ns arbitrary: seen queue)
  case (Cons x ns)
  show ?case
  proof (cases "x < length seen \<and> \<not> seen ! x")
    case True
    then have "pushUnseen ns (seen[x := True]) (queue @ [x]) = (seen', queue')" using Cons.prems by simp
    from Cons.IH [OF this] True show ?thesis by (auto simp: nth_list_update)
  next
    case False
    then have "pushUnseen ns seen queue = (seen', queue')" using Cons.prems by auto
    from Cons.IH [OF this] False show ?thesis by auto
  qed
qed simp

definition succ_rel :: "nat \<Rightarrow> (nat \<Rightarrow> nat list) \<Rightarrow> (nat \<times> nat) set" where
  "succ_rel nodes succs = {(x, y). y \<in> set (succs x) \<and> y < nodes}"

lemma reachLoop_spec:
  assumes "\<forall>u\<in>set queue. u < length seen \<and> seen ! u"
    and "\<forall>u<length seen. seen ! u \<longrightarrow> u \<notin> set queue \<longrightarrow> (\<forall>v\<in>set (succs u). v < length seen \<longrightarrow> seen ! v)"
    and "\<forall>u<length seen. seen ! u \<longrightarrow> (x, u) \<in> (succ_rel (length seen) succs)\<^sup>*"
    and "x < length seen" "seen ! x"
  shows "length (reachLoop succs seen queue) = length seen \<and>
    (\<forall>v<length seen. reachLoop succs seen queue ! v \<longleftrightarrow> (x, v) \<in> (succ_rel (length seen) succs)\<^sup>*)"
  using assms
proof (induction succs seen queue rule: reachLoop.induct)
  case (1 succs seen)
  have "v < length seen \<and> seen ! v" if "(x, v) \<in> (succ_rel (length seen) succs)\<^sup>*" for v
    using that
  proof (induction rule: rtrancl_induct)
    case base
    show ?case using 1(4,5) by simp
  next
    case (step y z)
    with 1(2) show ?case by (auto simp: succ_rel_def)
  qed
  with 1(3) have "\<forall>v<length seen. seen ! v \<longleftrightarrow> (x, v) \<in> (succ_rel (length seen) succs)\<^sup>*" by blast
  then show ?case by simp
next
  case (2 succs seen node queue)
  obtain seen' queue' where push: "pushUnseen (succs node) seen queue = (seen', queue')" by (cases "pushUnseen (succs node) seen queue")
  note spec = pushUnseen_spec [OF push]
  from spec have len: "length seen' = length seen" by simp
  have seen': "\<And>v. v < length seen \<Longrightarrow> seen' ! v \<longleftrightarrow> seen ! v \<or> v \<in> set (succs node)" using spec by blast
  have queue': "set queue' = set queue \<union> {v. v < length seen \<and> v \<in> set (succs node) \<and> \<not> seen ! v}" using spec by blast
  have node: "node < length seen" "seen ! node" using "2.prems"(1) by auto
  then have reach: "(x, node) \<in> (succ_rel (length seen) succs)\<^sup>*" using "2.prems"(3) by blast
  have a: "\<forall>u\<in>set queue'. u < length seen' \<and> seen' ! u"
  proof
    fix u assume "u \<in> set queue'"
    then have "u < length seen \<and> (seen ! u \<or> u \<in> set (succs node))" using "2.prems"(1) unfolding queue' by auto
    then show "u < length seen' \<and> seen' ! u" using seen' [of u] len by simp
  qed
  have b: "\<forall>u<length seen'. seen' ! u \<longrightarrow> u \<notin> set queue' \<longrightarrow> (\<forall>v\<in>set (succs u). v < length seen' \<longrightarrow> seen' ! v)"
  proof (intro allI impI ballI)
    fix u v assume u: "u < length seen'" "seen' ! u" "u \<notin> set queue'" "v \<in> set (succs u)" "v < length seen'"
    then have u': "u < length seen" "v < length seen" using len by simp_all
    then have "u = node \<or> seen ! u \<and> u \<notin> set (node # queue)"
      using u(2,3) seen' [of u] unfolding queue' by auto
    then have "seen ! v \<or> v \<in> set (succs node)"
      using "2.prems"(2) u' u(4) by blast
    then show "seen' ! v" using seen' [OF u'(2)] by simp
  qed
  have c: "\<forall>u<length seen'. seen' ! u \<longrightarrow> (x, u) \<in> (succ_rel (length seen') succs)\<^sup>*"
  proof (intro allI impI)
    fix u assume u: "u < length seen'" "seen' ! u"
    show "(x, u) \<in> (succ_rel (length seen') succs)\<^sup>*"
    proof (cases "seen ! u")
      case True
      with u "2.prems"(3) len show ?thesis by simp
    next
      case False
      with u seen' len have "(node, u) \<in> succ_rel (length seen) succs" by (simp add: succ_rel_def)
      with reach len show ?thesis by simp
    qed
  qed
  have d: "x < length seen'" "seen' ! x" using "2.prems"(4,5) seen' len by auto
  from "2.IH" [OF push [symmetric] refl a b c d] push len show ?case by simp
qed

lemma reachable_spec:
  assumes "x < nodes"
  shows "length (reachable succs nodes x) = nodes \<and>
    (\<forall>v<nodes. reachable succs nodes x ! v \<longleftrightarrow> (x, v) \<in> (succ_rel nodes succs)\<^sup>*)"
proof -
  let ?seen = "(replicate nodes False)[x := True]"
  have only: "u < nodes \<Longrightarrow> ?seen ! u \<longleftrightarrow> u = x" for u using assms by (simp add: nth_list_update)
  then show ?thesis
    using reachLoop_spec [of "[x]" ?seen succs x] assms by (simp add: reachable_def)
qed

section \<open>The lanes of a local path\<close>

text \<open>A legal local walk: allowed lanes from the first node to the last.\<close>

fun localWalk :: "routeGraph \<Rightarrow> (nat \<Rightarrow> bool) \<Rightarrow> nat \<Rightarrow> nat list \<Rightarrow> nat \<Rightarrow> bool" where
  "localWalk g allowed u [] v = (u = v)"
| "localWalk g allowed u (l # ls) v =
    (l < length (g_edges g) \<and> allowed l \<and> l \<in> set (g_outgoing g ! u) \<and> localWalk g allowed (edge_to (g_edges g ! l)) ls v)"

lemma localWalk_append:
  "localWalk g allowed u (xs @ ys) w \<longleftrightarrow> (\<exists>v. localWalk g allowed u xs v \<and> localWalk g allowed v ys w)"
  by (induction xs arbitrary: u) auto

lemma base_edge:
  assumes u: "u < length (net_Nodes n)"
  shows "l \<in> set (g_outgoing (baseGraph n) ! u) \<longleftrightarrow>
    l < length (net_Lanes n) \<and> laneEnds (g_nodes (baseGraph n)) (net_Lanes n ! l) \<noteq> None \<and>
    edge_from (g_edges (baseGraph n) ! l) = u"
proof -
  have "g_edges (baseGraph n) ! l = laneEdge n (net_Lanes n ! l) a b"
    if "l < length (net_Lanes n)" "laneEnds (g_nodes (baseGraph n)) (net_Lanes n ! l) = Some (a, b)" for a b
    using baseGraph_indexed [of n] that by (simp add: lanes_indexed_def)
  then show ?thesis unfolding baseGraph_outgoing [OF u] by fastforce
qed

lemma base_edge_in:
  assumes u: "u < length (net_Nodes n)"
  shows "l \<in> set (g_incoming (baseGraph n) ! u) \<longleftrightarrow>
    l < length (net_Lanes n) \<and> laneEnds (g_nodes (baseGraph n)) (net_Lanes n ! l) \<noteq> None \<and>
    edge_to (g_edges (baseGraph n) ! l) = u"
proof -
  have "g_edges (baseGraph n) ! l = laneEdge n (net_Lanes n ! l) a b"
    if "l < length (net_Lanes n)" "laneEnds (g_nodes (baseGraph n)) (net_Lanes n ! l) = Some (a, b)" for a b
    using baseGraph_indexed [of n] that by (simp add: lanes_indexed_def)
  then show ?thesis unfolding baseGraph_incoming [OF u] by fastforce
qed

lemma base_edge_bounds:
  "l < length (net_Lanes n) \<Longrightarrow> laneEnds (g_nodes (baseGraph n)) (net_Lanes n ! l) \<noteq> None \<Longrightarrow>
     edge_from (g_edges (baseGraph n) ! l) < length (net_Nodes n) \<and>
     edge_to (g_edges (baseGraph n) ! l) < length (net_Nodes n)"
  using baseGraph_indexed [of n] laneEnds_bound by (fastforce simp: lanes_indexed_def)

lemma forward_walk:
  assumes "u < length (net_Nodes n)"
  shows "(u, v) \<in> (succ_rel (length (net_Nodes n)) (forwardSuccs (baseGraph n) allowed))\<^sup>* \<longleftrightarrow>
    (\<exists>ls. localWalk (baseGraph n) allowed u ls v)"
proof
  assume "(u, v) \<in> (succ_rel (length (net_Nodes n)) (forwardSuccs (baseGraph n) allowed))\<^sup>*"
  then show "\<exists>ls. localWalk (baseGraph n) allowed u ls v"
  proof (induction rule: rtrancl_induct)
    case base
    have "localWalk (baseGraph n) allowed u [] u" by simp
    then show ?case ..
  next
    case (step y z)
    have y: "y < length (net_Nodes n)"
      using step(1) assms by (induction rule: rtrancl_induct) (auto simp: succ_rel_def)
    from step(2) obtain l where l: "l \<in> set (g_outgoing (baseGraph n) ! y)" "allowed l" "edge_to (g_edges (baseGraph n) ! l) = z"
      by (auto simp: succ_rel_def forwardSuccs_def)
    then have "localWalk (baseGraph n) allowed y [l] z" using base_edge [OF y] by (simp add: baseGraph_nodes)
    with step(3) show ?case using localWalk_append by blast
  qed
next
  assume "\<exists>ls. localWalk (baseGraph n) allowed u ls v"
  then obtain ls where "localWalk (baseGraph n) allowed u ls v" ..
  with assms show "(u, v) \<in> (succ_rel (length (net_Nodes n)) (forwardSuccs (baseGraph n) allowed))\<^sup>*"
  proof (induction ls arbitrary: u)
    case (Cons l ls)
    let ?z = "edge_to (g_edges (baseGraph n) ! l)"
    from Cons.prems have l: "l \<in> set (g_outgoing (baseGraph n) ! u)" "allowed l" "localWalk (baseGraph n) allowed ?z ls v" by auto
    then have z: "?z < length (net_Nodes n)" using base_edge [OF Cons.prems(1)] base_edge_bounds by blast
    with l have "(u, ?z) \<in> succ_rel (length (net_Nodes n)) (forwardSuccs (baseGraph n) allowed)"
      by (auto simp: succ_rel_def forwardSuccs_def)
    with Cons.IH [OF z l(3)] show ?case by (meson converse_rtrancl_into_rtrancl)
  qed simp
qed

lemma backward_walk:
  assumes "v < length (net_Nodes n)" "u < length (net_Nodes n)"
  shows "(v, u) \<in> (succ_rel (length (net_Nodes n)) (backwardSuccs (baseGraph n) allowed))\<^sup>* \<longleftrightarrow>
    (\<exists>ls. localWalk (baseGraph n) allowed u ls v)"
proof
  assume "(v, u) \<in> (succ_rel (length (net_Nodes n)) (backwardSuccs (baseGraph n) allowed))\<^sup>*"
  then show "\<exists>ls. localWalk (baseGraph n) allowed u ls v"
  proof (induction rule: rtrancl_induct)
    case base
    have "localWalk (baseGraph n) allowed v [] v" by simp
    then show ?case ..
  next
    case (step y z)
    have y: "y < length (net_Nodes n)"
      using step(1) assms(1) by (induction rule: rtrancl_induct) (auto simp: succ_rel_def)
    from step(2) obtain l where l: "l \<in> set (g_incoming (baseGraph n) ! y)" "allowed l"
        "edge_from (g_edges (baseGraph n) ! l) = z" and z: "z < length (net_Nodes n)"
      by (auto simp: succ_rel_def backwardSuccs_def)
    from step(3) obtain ls where "localWalk (baseGraph n) allowed y ls v" ..
    moreover have "l \<in> set (g_outgoing (baseGraph n) ! z)" "edge_to (g_edges (baseGraph n) ! l) = y" "l < length (net_Lanes n)"
      using l base_edge [OF z] base_edge_in [OF y] by auto
    ultimately have "localWalk (baseGraph n) allowed z (l # ls) v" using l by (simp add: baseGraph_nodes)
    then show ?case ..
  qed
next
  assume "\<exists>ls. localWalk (baseGraph n) allowed u ls v"
  then obtain ls where "localWalk (baseGraph n) allowed u ls v" ..
  with assms(2) show "(v, u) \<in> (succ_rel (length (net_Nodes n)) (backwardSuccs (baseGraph n) allowed))\<^sup>*"
  proof (induction ls arbitrary: u)
    case (Cons l ls)
    let ?z = "edge_to (g_edges (baseGraph n) ! l)"
    from Cons.prems have l: "l \<in> set (g_outgoing (baseGraph n) ! u)" "allowed l" "localWalk (baseGraph n) allowed ?z ls v" by auto
    then have z: "?z < length (net_Nodes n)" "l \<in> set (g_incoming (baseGraph n) ! ?z)"
      "edge_from (g_edges (baseGraph n) ! l) = u"
      using base_edge [OF Cons.prems(1), of l] base_edge_bounds [of l n] base_edge_in [of ?z n l] by auto
    with l Cons.prems(1) have "(?z, u) \<in> succ_rel (length (net_Nodes n)) (backwardSuccs (baseGraph n) allowed)"
      by (force simp: succ_rel_def backwardSuccs_def)
    with Cons.IH [OF z(1) l(3)] show ?case by (meson rtrancl.rtrancl_into_rtrancl)
  qed simp
qed

text \<open>
  C29. For a lane whose nodes are known, the local paths of a bank hold exactly the lanes that lie
  on some legal local walk between the two nodes, including alternate paths; the flag tells
  whether such a walk exists at all.
\<close>

theorem bankPathLanes_exact:
  assumes "g_nodes (baseGraph n) a = Some u" and "g_nodes (baseGraph n) b = Some v"
    and "bankPathLanes n (baseGraph n) station a b role gates berths = (lanes, ok)"
    and "l < length (net_Lanes n)" and "laneEnds (g_nodes (baseGraph n)) (net_Lanes n ! l) \<noteq> None"
  shows "let allowed = pathLaneAllowed n station a b role gates berths in
    (l \<in> lanes \<longleftrightarrow> (\<exists>xs ys. localWalk (baseGraph n) allowed u (xs @ l # ys) v)) \<and>
    (ok \<longleftrightarrow> (\<exists>ls. localWalk (baseGraph n) allowed u ls v))"
proof -
  let ?allowed = "pathLaneAllowed n station a b role gates berths"
  have u: "u < length (net_Nodes n)" and v: "v < length (net_Nodes n)"
    using assms(1,2) indexNodes_bound by (auto simp: baseGraph_nodes)
  note ends = base_edge_bounds [OF assms(4,5)]
  have fw: "reachable (forwardSuccs (baseGraph n) ?allowed) (length (net_Nodes n)) u ! x \<longleftrightarrow>
      (\<exists>ls. localWalk (baseGraph n) ?allowed u ls x)" if "x < length (net_Nodes n)" for x
    using reachable_spec [OF u] forward_walk [OF u] that by simp
  have bw: "reachable (backwardSuccs (baseGraph n) ?allowed) (length (net_Nodes n)) v ! x \<longleftrightarrow>
      (\<exists>ls. localWalk (baseGraph n) ?allowed x ls v)" if "x < length (net_Nodes n)" for x
    using reachable_spec [OF v] backward_walk [OF v that] that by simp
  have lanes: "l \<in> lanes \<longleftrightarrow> ?allowed l \<and>
      (\<exists>xs. localWalk (baseGraph n) ?allowed u xs (edge_from (g_edges (baseGraph n) ! l))) \<and>
      (\<exists>ys. localWalk (baseGraph n) ?allowed (edge_to (g_edges (baseGraph n) ! l)) ys v)"
    using assms(3,4) ends fw bw by (auto simp: bankPathLanes_def assms(1,2) Let_def baseGraph_nodes(4))
  have "l \<in> set (g_outgoing (baseGraph n) ! x) \<longleftrightarrow> x = edge_from (g_edges (baseGraph n) ! l)"
    if "x < length (net_Nodes n)" for x
    using base_edge [OF that, of l] assms(4,5) by auto
  moreover have "x < length (net_Nodes n)" if "localWalk (baseGraph n) ?allowed u xs x" for xs x
    using that u
  proof (induction xs arbitrary: u)
    case (Cons k ks)
    then show ?case using base_edge [OF Cons.prems(2), of k] base_edge_bounds [of k n] by auto
  qed simp
  ultimately have "(\<exists>xs ys. localWalk (baseGraph n) ?allowed u (xs @ l # ys) v) \<longleftrightarrow> l \<in> lanes"
    unfolding lanes localWalk_append localWalk.simps
    using assms(4) ends by (auto simp: baseGraph_nodes(4))
  moreover have "ok \<longleftrightarrow> (\<exists>ls. localWalk (baseGraph n) ?allowed u ls v)"
    using assms(3) fw [OF v] by (auto simp: bankPathLanes_def assms(1,2) Let_def)
  ultimately show ?thesis by (simp add: Let_def)
qed

lemma twoNodes_lane:
  "length (net_Lanes twoNodes) = 1" "lane_From (net_Lanes twoNodes ! 0) = ''a''"
  "lane_To (net_Lanes twoNodes ! 0) = ''b''" "lane_StationID (net_Lanes twoNodes ! 0) = []"
  "lane_StationRole (net_Lanes twoNodes ! 0) = []"
  by (simp_all add: twoNodes_def)

theorem bankPathLanes_exact_witness:
  "\<exists>lanes ok. bankPathLanes twoNodes (baseGraph twoNodes) [] ''a'' ''b'' [] (\<lambda>_. []) {} = (lanes, ok) \<and>
     0 \<in> lanes \<and> ok"
proof -
  obtain lanes ok where r: "bankPathLanes twoNodes (baseGraph twoNodes) [] ''a'' ''b'' [] (\<lambda>_. []) {} = (lanes, ok)"
    by (cases "bankPathLanes twoNodes (baseGraph twoNodes) [] ''a'' ''b'' [] (\<lambda>_. []) {}")
  let ?allowed = "pathLaneAllowed twoNodes [] ''a'' ''b'' [] (\<lambda>_. []) {}"
  have l: "0 < length (net_Lanes twoNodes)"
    "laneEnds (g_nodes (baseGraph twoNodes)) (net_Lanes twoNodes ! 0) \<noteq> None"
    by (simp_all add: laneEnds_def twoNodes_graph twoNodes_lane)
  have "localWalk (baseGraph twoNodes) ?allowed 0 ([] @ 0 # []) 1"
    by (simp add: twoNodes_graph pathLaneAllowed_def baseGraph_nodes(4) twoNodes_lane)
  with bankPathLanes_exact [OF twoNodes_graph(1,2) r l, unfolded Let_def] r show ?thesis by blast
qed

section \<open>Isolation of the banks\<close>

lemma andThen_None: "andThen s f = (i', None) \<longleftrightarrow> (\<exists>i. s = (i, None) \<and> f i = (i', None))"
  by (auto simp: andThen_def split: prod.splits option.splits)

lemma bankEach_inv:
  assumes "bankEach f xs i = (i', None)" and "P i"
    and "\<And>x i j. x \<in> set xs \<Longrightarrow> P i \<Longrightarrow> f x i = (j, None) \<Longrightarrow> P j"
  shows "P i'"
  using assms
proof (induction xs arbitrary: i)
  case (Cons x xs)
  from Cons.prems(1) obtain j where j: "f x i = (j, None)" "bankEach f xs j = (i', None)"
    by (auto simp: andThen_None)
  from Cons.prems(2,3) j(1) have "P j" by (auto intro: Cons.prems(3) [of x])
  with Cons.IH [OF j(2)] Cons.prems(3) show ?case by auto
qed simp

text \<open>The owners of an index under construction: both ends of an owned lane have its owner.\<close>

definition owners_inv :: "Network \<Rightarrow> nat \<Rightarrow> bankIndex \<Rightarrow> bool" where
  "owners_inv n m i \<longleftrightarrow>
    length (bi_nodes i) = length (net_Nodes n) \<and> length (bi_lanes i) = length (net_Lanes n) \<and>
    (\<forall>l<length (net_Lanes n). \<forall>k. bi_lanes i ! l = Some k \<longrightarrow>
       k < m \<and> bi_nodes i ! edge_from (g_edges (baseGraph n) ! l) = Some k \<and>
       bi_nodes i ! edge_to (g_edges (baseGraph n) ! l) = Some k) \<and>
    (\<forall>x<length (net_Nodes n). \<forall>k. bi_nodes i ! x = Some k \<longrightarrow> k < m)"

lemma good_ends:
  assumes "goodFields n" and "l < length (net_Lanes n)"
  shows "laneEnds (g_nodes (baseGraph n)) (net_Lanes n ! l) \<noteq> None \<and>
    edge_from (g_edges (baseGraph n) ! l) < length (net_Nodes n) \<and>
    edge_to (g_edges (baseGraph n) ! l) < length (net_Nodes n) \<and>
    node_ID (net_Nodes n ! edge_from (g_edges (baseGraph n) ! l)) = lane_From (net_Lanes n ! l) \<and>
    node_ID (net_Nodes n ! edge_to (g_edges (baseGraph n) ! l)) = lane_To (net_Lanes n ! l)"
proof -
  let ?lane = "net_Lanes n ! l"
  have "goodLane n ?lane" and nodes: "goodNodes n" using assms by (simp_all add: goodFields_def)
  then have "lane_From ?lane \<in> dom (g_nodes (baseGraph n))" "lane_To ?lane \<in> dom (g_nodes (baseGraph n))"
    by (simp_all add: goodLane_def baseGraph_nodes(1) indexNodes_dom)
  then obtain a b where ab: "g_nodes (baseGraph n) (lane_From ?lane) = Some a" "g_nodes (baseGraph n) (lane_To ?lane) = Some b"
    by blast
  then have ends: "laneEnds (g_nodes (baseGraph n)) ?lane = Some (a, b)" by (simp add: laneEnds_def)
  then have edge: "g_edges (baseGraph n) ! l = laneEdge n ?lane a b"
    using baseGraph_indexed [of n] assms(2) by (simp add: lanes_indexed_def)
  from ab have "a < length (net_Nodes n) \<and> node_ID (net_Nodes n ! a) = lane_From ?lane"
    "b < length (net_Nodes n) \<and> node_ID (net_Nodes n ! b) = lane_To ?lane"
    using nodes_found [OF nodes] by (simp_all add: baseGraph_nodes(1))
  with ends edge show ?thesis by simp
qed

lemma claimNode_None:
  "claimNode b m x i = (j, None) \<longleftrightarrow>
     (bi_nodes i ! x = None \<or> bi_nodes i ! x = Some m) \<and> j = i\<lparr>bi_nodes := (bi_nodes i)[x := Some m]\<rparr>"
  by (auto simp: claimNode_def)

lemma claimLane_inv:
  assumes good: "goodFields n" and b: "bb_graph b = baseGraph n" and l: "l < length (net_Lanes n)"
    and inv: "owners_inv n m i" and mk: "k < m" and step: "claimLane b k l i = (j, None)"
  shows "owners_inv n m j \<and> bi_banks j = bi_banks i"
proof -
  let ?u = "edge_from (g_edges (baseGraph n) ! l)" and ?v = "edge_to (g_edges (baseGraph n) ! l)"
  have ends: "?u < length (net_Nodes n)" "?v < length (net_Nodes n)" using good_ends [OF good l] by auto
  from step obtain j1 where free: "bi_lanes i ! l = None"
    and j1: "claimNode b k ?u (i\<lparr>bi_lanes := (bi_lanes i)[l := Some k]\<rparr>) = (j1, None)"
    and j: "claimNode b k ?v j1 = (j, None)"
    by (auto simp: claimLane_def b Let_def andThen_None split: if_splits)
  from j1 have u: "bi_nodes i ! ?u = None \<or> bi_nodes i ! ?u = Some k"
    and j1': "j1 = i\<lparr>bi_lanes := (bi_lanes i)[l := Some k], bi_nodes := (bi_nodes i)[?u := Some k]\<rparr>"
    by (auto simp: claimNode_None)
  from j have v: "bi_nodes j1 ! ?v = None \<or> bi_nodes j1 ! ?v = Some k"
    and j': "j = i\<lparr>bi_lanes := (bi_lanes i)[l := Some k], bi_nodes := (bi_nodes i)[?u := Some k, ?v := Some k]\<rparr>"
    by (auto simp: claimNode_None j1')
  from inv have len: "length (bi_nodes i) = length (net_Nodes n)" "length (bi_lanes i) = length (net_Lanes n)"
    by (simp_all add: owners_inv_def)
  from v have v': "bi_nodes i ! ?v = None \<or> bi_nodes i ! ?v = Some k"
    using ends len u by (auto simp: j1' nth_list_update split: if_splits)
  have nodes: "bi_nodes j ! x = (if x = ?u \<or> x = ?v then Some k else bi_nodes i ! x)" if "x < length (net_Nodes n)" for x
    using that len by (cases "x = ?v") (auto simp: j' nth_list_update)
  have lanes: "bi_lanes j ! x = (if x = l then Some k else bi_lanes i ! x)" if "x < length (net_Lanes n)" for x
    using that len by (auto simp: j' nth_list_update)
  have keep: "bi_nodes j ! x = Some q" if "bi_nodes i ! x = Some q" "x < length (net_Nodes n)" for x q
    using that nodes [of x] u v' by auto
  have "q < m \<and> bi_nodes j ! edge_from (g_edges (baseGraph n) ! x) = Some q \<and>
      bi_nodes j ! edge_to (g_edges (baseGraph n) ! x) = Some q"
    if x: "x < length (net_Lanes n)" "bi_lanes j ! x = Some q" for x q
  proof (cases "x = l")
    case True
    with x lanes [OF x(1)] mk nodes [OF ends(1)] nodes [OF ends(2)] show ?thesis by simp
  next
    case False
    with x lanes have "bi_lanes i ! x = Some q" by simp
    with inv x(1) have "q < m" "bi_nodes i ! edge_from (g_edges (baseGraph n) ! x) = Some q"
      "bi_nodes i ! edge_to (g_edges (baseGraph n) ! x) = Some q" by (simp_all add: owners_inv_def)
    with keep good_ends [OF good x(1)] show ?thesis by blast
  qed
  moreover have "q < m" if "x < length (net_Nodes n)" "bi_nodes j ! x = Some q" for x q
    using that nodes [of x] inv mk by (auto simp: owners_inv_def split: if_splits)
  ultimately show ?thesis using len by (simp add: owners_inv_def j')
qed

lemma claimLocal_inv:
  assumes "goodFields n" and "bb_graph b = baseGraph n" and "bb_net b = n"
    and "owners_inv n (length (bi_banks i)) i" and "claimLocal b t i = (j, None)"
  shows "owners_inv n (Suc (length (bi_banks i))) j \<and> bi_banks j = bi_banks i"
proof -
  have start: "owners_inv n (Suc (length (bi_banks i))) i"
    using assms(4) by (auto simp: owners_inv_def less_Suc_eq)
  show ?thesis
    using assms(5) [unfolded claimLocal_def]
  proof (rule bankEach_inv [where P = "\<lambda>x. owners_inv n (Suc (length (bi_banks i))) x \<and> bi_banks x = bi_banks i"])
    show "owners_inv n (Suc (length (bi_banks i))) i \<and> bi_banks i = bi_banks i" using start by simp
  next
    fix l x y
    assume l: "l \<in> set (filter (\<lambda>l. l \<in> bt_local t) [0..<length (net_Lanes (bb_net b))])"
      and x: "owners_inv n (Suc (length (bi_banks i))) x \<and> bi_banks x = bi_banks i"
      and y: "claimLane b (length (bi_banks i)) l x = (y, None)"
    from l have "l < length (net_Lanes n)" by (simp add: assms(3))
    from claimLane_inv [OF assms(1,2) this conjunct1 [OF x] lessI y] x
    show "owners_inv n (Suc (length (bi_banks i))) y \<and> bi_banks y = bi_banks i" by simp
  qed
qed

definition built :: "Network \<Rightarrow> bankIndex \<Rightarrow> bool" where
  "built n i \<longleftrightarrow> owners_inv n (length (bi_banks i)) i"

lemma addBank_built:
  assumes "goodFields n" and "bb_graph b = baseGraph n" and "bb_net b = n" and "built n i"
    and "addBank b si bn station bank ids membership i = ((j, None), r)"
  shows "built n j"
proof -
  from assms(5) obtain t j1 where "claimLocal b t i = (j1, None)" and j: "j = j1\<lparr>bi_banks := bi_banks j1 @ [t]\<rparr>"
    by (auto simp: addBank_def Let_def andThen_None split: if_splits sum.splits)
  with claimLocal_inv [OF assms(1-3) _ this(1)] assms(4)
  have "owners_inv n (Suc (length (bi_banks i))) j1 \<and> bi_banks j1 = bi_banks i" by (simp add: built_def)
  then show ?thesis by (simp add: built_def j owners_inv_def)
qed

lemma addBanks_built:
  assumes "goodFields n" and "bb_graph b = baseGraph n" and "bb_net b = n"
  shows "built n i \<Longrightarrow> addBanks b si station bn banks ids membership i = ((j, None), r) \<Longrightarrow> built n j"
proof (induction banks arbitrary: bn ids membership i)
  case (Cons bank banks)
  then obtain i' ids' membership' where "addBank b si bn station bank ids membership i = ((i', None), ids', membership')"
    and "addBanks b si station (Suc bn) banks ids' membership' i' = ((j, None), r)"
    by (auto split: prod.splits option.splits)
  with Cons.IH Cons.prems(1) addBank_built [OF assms] show ?case by blast
qed simp

lemma addStation_built:
  assumes "goodFields n" and "bb_graph b = baseGraph n" and "bb_net b = n"
  shows "built n i \<Longrightarrow> addStation b si station i = (j, None) \<Longrightarrow> built n j"
  using addBanks_built [OF assms, of i si station 0 "bank_list station" "{}" "{}" j]
  by (auto simp: addStation_def Let_def split: if_splits prod.splits option.splits)

lemma checkLane_None:
  "checkLane b (l, lane) i = (j, None) \<Longrightarrow> j = i \<and>
     (bi_lanes i ! l = None \<longrightarrow>
       checkExternalEnd b i (edge_from (g_edges (bb_graph b) ! l)) lane = None \<and>
       checkExternalEnd b i (edge_to (g_edges (bb_graph b) ! l)) lane = None)"
  by (auto simp: checkLane_def Let_def split: if_splits option.splits)

lemma checkLanes_None:
  "bankEach (checkLane b) xs i = (j, None) \<Longrightarrow> j = i \<and> (\<forall>x\<in>set xs. checkLane b x i = (i, None))"
proof (induction xs arbitrary: i)
  case (Cons x xs)
  then obtain k where k: "checkLane b x i = (k, None)" "bankEach (checkLane b) xs k = (j, None)"
    by (auto simp: andThen_None)
  then have "k = i" using checkLane_None [of b "fst x" "snd x"] by simp
  with Cons.IH [OF k(2)] k(1) show ?case by simp
qed simp

text \<open>The two passes of a build that reported no error.\<close>

lemma index_steps:
  assumes "hasStationBanks n" and "bi_err (indexStationBanks n (baseGraph n)) = None"
  shows "\<exists>b j. bb_graph b = baseGraph n \<and> bb_net b = n \<and>
    bankEach (\<lambda>(i, station) index. if st_Banks station = None then (index, None) else addStation b i station index)
      (enumerate 0 (net_Stations n))
      \<lparr>bi_banks = [], bi_nodes = replicate (length (net_Nodes n)) None,
       bi_lanes = replicate (length (net_Lanes n)) None, bi_err = None\<rparr> = (j, None) \<and>
    (\<forall>x\<in>set (enumerate 0 (net_Lanes n)). checkLane b x j = (j, None)) \<and>
    indexStationBanks n (baseGraph n) = j\<lparr>bi_err := None\<rparr>"
proof -
  let ?i0 = "\<lparr>bi_banks = [], bi_nodes = replicate (length (net_Nodes n)) None,
    bi_lanes = replicate (length (net_Lanes n)) None, bi_err = None\<rparr>"
  obtain j e where build: "buildBanks n (baseGraph n) ?i0 = (j, e)" by fastforce
  with assms have "e = None" and i: "indexStationBanks n (baseGraph n) = j\<lparr>bi_err := None\<rparr>"
    by (auto simp: indexStationBanks_def)
  with build obtain gates i1 where
    b1: "bankEach (\<lambda>(i, station) index. if st_Banks station = None then (index, None)
        else addStation \<lparr>bb_net = n, bb_graph = baseGraph n, bb_gates = gates, bb_berths = berth_Node ` set (allBerths n)\<rparr> i station index)
      (enumerate 0 (net_Stations n)) ?i0 = (i1, None)" and
    b2: "bankEach (checkLane \<lparr>bb_net = n, bb_graph = baseGraph n, bb_gates = gates, bb_berths = berth_Node ` set (allBerths n)\<rparr>)
      (enumerate 0 (net_Lanes n)) i1 = (j, None)"
    by (auto simp: buildBanks_def Let_def andThen_None split: sum.splits)
  from checkLanes_None [OF b2] b1 i show ?thesis
    by (intro exI [of _ "\<lparr>bb_net = n, bb_graph = baseGraph n, bb_gates = gates, bb_berths = berth_Node ` set (allBerths n)\<rparr>"]
        exI [of _ j]) auto
qed

text \<open>
  C18. An accepted bank index isolates the banks: a lane of a bank has both of its ends in that
  bank, and every lane that crosses the boundary of a bank does so at one of its gates and in
  the direction of that gate, as an entry lane into the entry or as an exit lane out of the exit.
\<close>

theorem bank_isolation:
  assumes good: "goodFields n" and banks: "hasStationBanks n"
    and ok: "bi_err (indexStationBanks n (baseGraph n)) = None" and l: "l < length (net_Lanes n)"
  shows "let i = indexStationBanks n (baseGraph n); lane = net_Lanes n ! l;
           u = edge_from (g_edges (baseGraph n) ! l); v = edge_to (g_edges (baseGraph n) ! l) in
    (\<forall>k. bi_lanes i ! l = Some k \<longrightarrow> k < length (bi_banks i) \<and> bi_nodes i ! u = Some k \<and> bi_nodes i ! v = Some k) \<and>
    (\<forall>k. bi_nodes i ! v = Some k \<and> bi_nodes i ! u \<noteq> Some k \<longrightarrow>
       v = bt_entry (bi_banks i ! k) \<and> lane_StationRole lane = StationEntryRole) \<and>
    (\<forall>k. bi_nodes i ! u = Some k \<and> bi_nodes i ! v \<noteq> Some k \<longrightarrow>
       u = bt_exit (bi_banks i ! k) \<and> lane_StationRole lane = StationExitRole)"
proof -
  let ?lane = "net_Lanes n ! l"
  let ?u = "edge_from (g_edges (baseGraph n) ! l)" and ?v = "edge_to (g_edges (baseGraph n) ! l)"
  obtain b j where b: "bb_graph b = baseGraph n" "bb_net b = n"
    and steps: "bankEach (\<lambda>(i, station) index. if st_Banks station = None then (index, None) else addStation b i station index)
      (enumerate 0 (net_Stations n))
      \<lparr>bi_banks = [], bi_nodes = replicate (length (net_Nodes n)) None,
       bi_lanes = replicate (length (net_Lanes n)) None, bi_err = None\<rparr> = (j, None)"
    and checks: "\<forall>x\<in>set (enumerate 0 (net_Lanes n)). checkLane b x j = (j, None)"
    and i: "indexStationBanks n (baseGraph n) = j\<lparr>bi_err := None\<rparr>"
    using index_steps [OF banks ok] by blast
  have built: "built n j"
    by (rule bankEach_inv [OF steps, where P = "built n"])
      (auto simp: built_def [of n "\<lparr>bi_banks = [], bi_nodes = _, bi_lanes = _, bi_err = _\<rparr>"] owners_inv_def
        split: if_splits intro: addStation_built [OF good b])
  have chk: "checkLane b (l, ?lane) j = (j, None)"
    using checks l by (auto simp: in_set_enumerate_eq)
  note ends = good_ends [OF good l]
  have owned: "k < length (bi_banks j) \<and> bi_nodes j ! ?u = Some k \<and> bi_nodes j ! ?v = Some k"
    if "bi_lanes j ! l = Some k" for k
    using built l that by (simp add: built_def owners_inv_def)
  have ext: "checkExternalEnd b j ?u ?lane = None \<and> checkExternalEnd b j ?v ?lane = None" if "bi_lanes j ! l = None"
    using checkLane_None [OF chk] that by (simp add: b)
  have same: "lane_From ?lane = lane_To ?lane \<Longrightarrow> ?u = ?v"
    using ends good_ends [OF good l] nth_eq_iff_index_eq [of "map node_ID (net_Nodes n)" ?u ?v] good
    by (simp add: goodFields_def goodNodes_def)
  have "?v = bt_entry (bi_banks j ! k) \<and> lane_StationRole ?lane = StationEntryRole"
    if "bi_nodes j ! ?v = Some k" "bi_nodes j ! ?u \<noteq> Some k" for k
  proof -
    have "bi_lanes j ! l = None" using that owned by (cases "bi_lanes j ! l") auto
    with ext have "checkExternalEnd b j ?v ?lane = None" by simp
    with that same ends show ?thesis
      by (auto simp: checkExternalEnd_def Let_def b split: if_splits)
  qed
  moreover have "?u = bt_exit (bi_banks j ! k) \<and> lane_StationRole ?lane = StationExitRole"
    if "bi_nodes j ! ?u = Some k" "bi_nodes j ! ?v \<noteq> Some k" for k
  proof -
    have "bi_lanes j ! l = None" using that owned by (cases "bi_lanes j ! l") auto
    with ext have "checkExternalEnd b j ?u ?lane = None" by simp
    with that same ends show ?thesis
      by (auto simp: checkExternalEnd_def Let_def b split: if_splits)
  qed
  ultimately show ?thesis using owned by (simp add: i Let_def)
qed

text \<open>A banked station with one berth, entered from an outside node.\<close>

definition bankNet :: Network where
  "bankNet =
    (let lane = (\<lambda>ident a b role. \<lparr>lane_VehicleClasses = 0, lane_ID = ident, lane_From = a, lane_To = b,
           lane_SpeedLimit = Fin 5, lane_SeparationGroup = [], lane_StationID = ''s'', lane_StationRole = role,
           lane_Control = None\<rparr>);
         node = (\<lambda>ident x. \<lparr>node_ID = ident, node_Position = \<lparr>pt_X = Fin x, pt_Y = Fin 0\<rparr>\<rparr>)
     in \<lparr>net_Nodes = [node ''o'' 0, node ''e'' 10, node ''b'' 20, node ''x'' 30],
         net_Lanes = [lane ''l0'' ''o'' ''e'' StationEntryRole, lane ''l1'' ''e'' ''b'' StationBerthAccessRole,
           lane ''l2'' ''b'' ''x'' StationDepartureRole, lane ''l3'' ''e'' ''x'' StationThroughRole],
         net_Stations = [\<lparr>st_VehicleClasses = 0, st_ID = ''s'', st_Name = ''S'', st_Entry = ''e'', st_Exit = ''x'',
           st_Berths = [\<lparr>berth_VehicleClasses = 0, berth_ID = ''p'', berth_Node = ''b'', berth_SeparationGroup = []\<rparr>],
           st_ParkingOnly = False,
           st_Banks = Some [\<lparr>bank_ID = ''k'', bank_Entry = ''e'', bank_Exit = ''x'', bank_BerthIDs = [''p'']\<rparr>]\<rparr>],
         net_ManeuverGroups = [], net_Depots = []\<rparr>)"

lemmas bankNet_eval = bankNet_def Let_def role_names

lemma bankNet_good: "goodFields bankNet"
  by (simp add: goodFields_def goodNodes_def goodLane_def goodStation_def bankNet_eval finitePoint_def validStationLaneRole_def
      allBerths_def Length_def Polyline_def lanePointsBetween_def nodePosition_def Network_Node_def
      pointDistance_def float_ops MaxCounter_def)

text \<open>Its route graph, evaluated.\<close>

definition bankGraph :: routeGraph where
  "bankGraph =
    \<lparr>g_banks = noBanks, g_nodes = [''o'' \<mapsto> 0, ''e'' \<mapsto> Suc 0, ''b'' \<mapsto> Suc (Suc 0), ''x'' \<mapsto> Suc (Suc (Suc 0))],
     g_lanes = [''l0'' \<mapsto> 0, ''l1'' \<mapsto> Suc 0, ''l2'' \<mapsto> Suc (Suc 0), ''l3'' \<mapsto> Suc (Suc (Suc 0))],
     g_outgoing = [[0], [Suc 0, Suc (Suc (Suc 0))], [Suc (Suc 0)], []],
     g_incoming = [[], [0], [Suc 0], [Suc (Suc 0), Suc (Suc (Suc 0))]],
     g_lengths = [Fin 10, Fin 10, Fin 10, Fin 20],
     g_edges = [\<lparr>edge_from = 0, edge_to = Suc 0, edge_seconds = 2\<rparr>, \<lparr>edge_from = Suc 0, edge_to = Suc (Suc 0), edge_seconds = 2\<rparr>,
       \<lparr>edge_from = Suc (Suc 0), edge_to = Suc (Suc (Suc 0)), edge_seconds = 2\<rparr>, \<lparr>edge_from = Suc 0, edge_to = Suc (Suc (Suc 0)), edge_seconds = 4\<rparr>],
     g_berthStations = [None, None, Some 0, None], g_berthNodes = [''p'' \<mapsto> Suc (Suc 0)],
     g_nodeClasses = [15, 3, 3, 3], g_classRestrictions = False, g_laneClasses = [3, 3, 3, 3], g_blocked = []\<rparr>"

lemma bankGraph: "baseGraph bankNet = bankGraph"
  by (simp add: bankGraph_def baseGraph_def indexRouteClasses_def emptyGraph_def bankNet_eval laneEdge_def zeroEdge_def
    indexedLaneLength_def pointDistance_def float_ops maskStation_def stationGates_def bank_list_def maskNode_def classMask_def laneMask_def)

lemma bankGraph_index:
  "bi_err (indexStationBanks bankNet bankGraph) = None \<and>
   bi_nodes (indexStationBanks bankNet bankGraph) ! 0 = None \<and>
   bi_nodes (indexStationBanks bankNet bankGraph) ! Suc 0 = Some 0"
  by code_simp

theorem bank_isolation_witness:
  "bt_entry (bi_banks (indexStationBanks bankNet (baseGraph bankNet)) ! 0) = 1"
proof -
  have h: "hasStationBanks bankNet" "bi_err (indexStationBanks bankNet (baseGraph bankNet)) = None"
    "0 < length (net_Lanes bankNet)"
    using conjunct1 [OF bankGraph_index] by (simp_all only: bankGraph) (simp_all add: hasStationBanks_def bankNet_eval)
  have e: "edge_from (g_edges (baseGraph bankNet) ! 0) = 0" "edge_to (g_edges (baseGraph bankNet) ! 0) = Suc 0"
    by (simp_all add: bankGraph bankGraph_def)
  show ?thesis
    using bank_isolation [OF bankNet_good h, unfolded Let_def e] bankGraph_index by (simp add: bankGraph)
qed

end
