(* ===== verification/BankRoutes.thy ===== *)
theory BankRoutes
  imports BankTheorems
begin

text \<open>
  Routes through banks (\<open>bankRoute\<close> in \<open>internal/sim/bank_routes.go\<close>) and the dispatch of a route
  search between the bank search and the raw search (\<open>routeIndexedWithWork\<close> in
  \<open>internal/sim/network.go\<close>). A route is a list of lane indexes. The counter of failed local
  attempts is not modelled.
\<close>

section \<open>The search\<close>

text \<open>One part of a bank route. The arrival offset is passed on only with time-dependent costs.\<close>

definition bankPart ::
  "Network \<Rightarrow> networkRouteInput \<Rightarrow> routeGraph \<Rightarrow> real \<Rightarrow> nat \<Rightarrow> nat \<Rightarrow> nat set option \<Rightarrow>
    (route_error, nat list \<times> real) result option" where
  "bankPart n input g offset from to allowed =
    rawRoute n
      (input\<lparr>in_from := node_ID (net_Nodes n ! from), in_to := node_ID (net_Nodes n ! to),
             in_bankRaw := True, in_allowedLanes := allowed,
             in_startCost := (if in_discharge input = [] \<and> in_forecasts input = [] then 0 else offset),
             in_bankExternal := (allowed = None)\<rparr>) g"

definition bankArrivalNode :: "bankTopology \<Rightarrow> routeGraph \<Rightarrow> nat \<Rightarrow> bool" where
  "bankArrivalNode bank g node =
    list_ex (\<lambda>l. l \<in> bt_arrival bank \<and> (edge_from (g_edges g ! l) = node \<or> edge_to (g_edges g ! l) = node))
      [0..<length (g_edges g)]"

text \<open>The lanes that a route inside one bank may use, or \<open>None\<close> when the bank is left.\<close>

definition localLanes :: "Network \<Rightarrow> routeGraph \<Rightarrow> bankTopology \<Rightarrow> nat \<Rightarrow> nat \<Rightarrow> nat set option" where
  "localLanes n g bank from to =
    (if to = bt_exit bank \<or> from = bt_entry bank \<or> g_berthStations g ! from = None \<and> to \<noteq> bt_entry bank
     then Some
       (if to = bt_exit bank then
          (if from = bt_entry bank
           then {l \<in> bt_local bank. lane_StationRole (net_Lanes n ! l) = StationThroughRole}
           else bt_departure bank)
        else bt_arrival bank)
     else None)"

text \<open>The bank whose entry the route must reach first, when the goal is inside a bank.\<close>

definition bankGoal :: "routeGraph \<Rightarrow> nat \<Rightarrow> bankTopology option" where
  "bankGoal g to =
    (case bi_nodes (g_banks g) ! to of
       None \<Rightarrow> None
     | Some k \<Rightarrow>
         let bank = bi_banks (g_banks g) ! k in
         if to \<noteq> bt_entry bank \<and> to \<noteq> bt_exit bank then Some bank else None)"

text \<open>The part of the search after the local attempt: across to the gate, and into the last bank.\<close>

definition bankSuffix ::
  "Network \<Rightarrow> networkRouteInput \<Rightarrow> routeGraph \<Rightarrow> real \<Rightarrow> nat list \<Rightarrow> nat \<Rightarrow> nat \<Rightarrow>
    (route_error, nat list) result option" where
  "bankSuffix n input g offset pre from to =
    (if in_forbidden input \<noteq> None \<and> (pre \<noteq> [] \<or> bankGoal g to \<noteq> None) then Some (Inl ErrUnreachable)
     else case bankPart n input g offset from
         (case bankGoal g to of None \<Rightarrow> to | Some bank \<Rightarrow> bt_entry bank) None of
       None \<Rightarrow> None
     | Some (Inl e) \<Rightarrow> Some (Inl e)
     | Some (Inr (middle, offset2)) \<Rightarrow>
         (case bankGoal g to of
            None \<Rightarrow> Some (Inr (pre @ middle))
          | Some bank \<Rightarrow>
              (case bankPart n input g offset2 (bt_entry bank) to (Some (bt_arrival bank)) of
                 None \<Rightarrow> None
               | Some (Inl e) \<Rightarrow> Some (Inl e)
               | Some (Inr (arrive, _)) \<Rightarrow> Some (Inr (pre @ middle @ arrive)))))"

definition bankAcross ::
  "Network \<Rightarrow> networkRouteInput \<Rightarrow> routeGraph \<Rightarrow> nat \<Rightarrow> nat \<Rightarrow> (route_error, nat list) result option" where
  "bankAcross n input g from to =
    (let offset = in_startCost input in
      case bi_nodes (g_banks g) ! from of
        None \<Rightarrow> bankSuffix n input g offset [] from to
      | Some k \<Rightarrow>
          let bank = bi_banks (g_banks g) ! k in
          if from \<noteq> bt_entry bank \<and> from \<noteq> bt_exit bank then
            (case bankPart n input g offset from (bt_exit bank) (Some (bt_departure bank)) of
               None \<Rightarrow> None
             | Some (Inl e) \<Rightarrow> Some (Inl e)
             | Some (Inr (pre, offset2)) \<Rightarrow> bankSuffix n input g offset2 pre (bt_exit bank) to)
          else bankSuffix n input g offset [] from to)"

definition bankRoute ::
  "Network \<Rightarrow> networkRouteInput \<Rightarrow> routeGraph \<Rightarrow> (route_error, nat list) result option" where
  "bankRoute n input g =
    (case bi_err (g_banks g) of
       Some e \<Rightarrow> Some (Inl (BankError e))
     | None \<Rightarrow>
    (case g_nodes g (in_from input) of
       None \<Rightarrow> Some (Inl (UnknownEndpoint (in_from input) (in_to input)))
     | Some from \<Rightarrow>
    (case g_nodes g (in_to input) of
       None \<Rightarrow> Some (Inl (UnknownEndpoint (in_from input) (in_to input)))
     | Some to \<Rightarrow>
       if from = to then Some (Inr [])
       else
         let source = bi_nodes (g_banks g) ! from in
         if source \<noteq> None \<and> source = bi_nodes (g_banks g) ! to then
           (let bank = bi_banks (g_banks g) ! the source in
             case localLanes n g bank from to of
               None \<Rightarrow> bankAcross n input g from to
             | Some allowed \<Rightarrow>
                 (case bankPart n input g (in_startCost input) from to (Some allowed) of
                    None \<Rightarrow> None
                  | Some (Inr (route, _)) \<Rightarrow> Some (Inr route)
                  | Some (Inl e) \<Rightarrow>
                      if in_forbidden input \<noteq> None \<or> from = bt_entry bank \<or> bankArrivalNode bank g from
                      then Some (Inl ErrUnreachable)
                      else bankAcross n input g from to))
         else bankAcross n input g from to)))"

definition routeIndexed ::
  "Network \<Rightarrow> networkRouteInput \<Rightarrow> routeGraph \<Rightarrow> (route_error, nat list) result option" where
  "routeIndexed n input g =
    (if \<not> in_bankRaw input \<and> bi_banks (g_banks g) \<noteq> [] then bankRoute n input g
     else map_option (map_sum id fst) (rawRoute n input g))"

text \<open>\<open>Route\<close> and \<open>RouteForClass\<close> search the graph of the network itself.\<close>

definition routeForNetwork :: "Network \<Rightarrow> networkRouteInput \<Rightarrow> (route_error, Lane list) result option" where
  "routeForNetwork n input =
    map_option (map_sum id (map (\<lambda>l. net_Lanes n ! l))) (routeIndexed n input (newRouteGraph n))"

section \<open>What a route search returns\<close>

lemma is_walk_local:
  "is_walk c u ls v \<Longrightarrow> graph_wf (sc_graph c) \<Longrightarrow>
     localWalk (sc_graph c)
       (\<lambda>l. laneAllows (sc_graph c) l (in_class (sc_input c)) \<and> laneOpen (sc_graph c) l) u ls v"
proof (induction ls arbitrary: u)
  case (Cons l ls)
  have "laneUsable c l" using Cons.prems by simp
  then have "laneAllows (sc_graph c) l (in_class (sc_input c)) \<and> laneOpen (sc_graph c) l"
    by (simp add: laneUsable_def split: if_splits)
  moreover have "l < length (g_edges (sc_graph c))"
    using Cons.prems unfolding graph_wf_def by auto
  ultimately show ?case using Cons by simp
qed simp

definition openWalk :: "routeGraph \<Rightarrow> string \<Rightarrow> nat \<Rightarrow> nat list \<Rightarrow> nat \<Rightarrow> bool" where
  "openWalk g class u ls v \<longleftrightarrow> localWalk g (\<lambda>l. laneAllows g l class \<and> laneOpen g l) u ls v"

lemma openWalk_append: "openWalk g class u xs v \<Longrightarrow> openWalk g class v ys w \<Longrightarrow> openWalk g class u (xs @ ys) w"
  unfolding openWalk_def localWalk_append by blast

lemma rawRoute_sound:
  assumes good: "goodFields n" and costs: "orderedCosts input"
  shows "\<exists>r. rawRoute n input (graphOf n banks blocked) = Some r \<and>
    (\<forall>route d. r = Inr (route, d) \<longrightarrow>
       (\<exists>u v. g_nodes (baseGraph n) (in_from input) = Some u \<and> g_nodes (baseGraph n) (in_to input) = Some v \<and>
          openWalk (graphOf n banks blocked) (in_class input) u route v))"
proof -
  let ?g = "graphOf n banks blocked"
  show ?thesis
  proof (cases "bi_err banks = None \<and> (\<exists>u v. g_nodes ?g (in_from input) = Some u \<and> g_nodes ?g (in_to input) = Some v \<and>
      nodeAllows ?g u (in_class input) \<and> nodeAllows ?g v (in_class input))")
    case True
    then obtain u v where h: "bi_err banks = None" "g_nodes ?g (in_from input) = Some u" "g_nodes ?g (in_to input) = Some v"
      "nodeAllows ?g u (in_class input)" "nodeAllows ?g v (in_class input)" by blast
    have walk: "openWalk ?g (in_class input) u route v" if "is_walk (caseOf n input ?g u v) u route v" for route
      using is_walk_local [OF that] graphOf_wf by (simp add: caseOf_def openWalk_def)
    from search_optimal [OF good costs h, unfolded Let_def] walk h(2,3) show ?thesis by auto
  next
    case False
    then have "\<exists>e. rawRoute n input ?g = Some (Inl e)"
      by (auto simp: rawRoute_def split: option.splits)
    then show ?thesis by auto
  qed
qed

lemma node_index:
  assumes "goodNodes n" and "u < length (net_Nodes n)"
  shows "g_nodes (baseGraph n) (node_ID (net_Nodes n ! u)) = Some u"
proof -
  have "node_ID (net_Nodes n ! u) \<in> dom (g_nodes (baseGraph n))"
    using assms(2) by (simp add: baseGraph_nodes(1) indexNodes_dom)
  then obtain v where v: "g_nodes (baseGraph n) (node_ID (net_Nodes n ! u)) = Some v" by blast
  then have "v < length (net_Nodes n)" "node_ID (net_Nodes n ! v) = node_ID (net_Nodes n ! u)"
    using nodes_found [OF assms(1)] by (simp_all add: baseGraph_nodes(1))
  with assms have "v = u"
    using nth_eq_iff_index_eq [of "map node_ID (net_Nodes n)" v u] by (simp add: goodNodes_def)
  with v show ?thesis by simp
qed

lemma bankPart_sound:
  assumes good: "goodFields n" and costs: "orderedCosts input"
    and u: "u < length (net_Nodes n)" and v: "v < length (net_Nodes n)"
  shows "\<exists>r. bankPart n input (graphOf n banks blocked) offset u v allowed = Some r \<and>
    (\<forall>route d. r = Inr (route, d) \<longrightarrow> openWalk (graphOf n banks blocked) (in_class input) u route v)"
proof -
  have nodes: "goodNodes n" using good by (simp add: goodFields_def)
  let ?part = "input\<lparr>in_from := node_ID (net_Nodes n ! u), in_to := node_ID (net_Nodes n ! v),
             in_bankRaw := True, in_allowedLanes := allowed,
             in_startCost := (if in_discharge input = [] \<and> in_forecasts input = [] then 0 else offset),
             in_bankExternal := (allowed = None)\<rparr>"
  have "orderedCosts ?part" using costs by (simp add: orderedCosts_def)
  from rawRoute_sound [OF good this, of banks blocked] node_index [OF nodes u] node_index [OF nodes v]
  show ?thesis by (auto simp: bankPart_def)
qed

text \<open>What the search needs of a bank index.\<close>

definition banks_in_range :: "Network \<Rightarrow> bankIndex \<Rightarrow> bool" where
  "banks_in_range n i \<longleftrightarrow>
    (\<forall>bank\<in>set (bi_banks i). bt_entry bank < length (net_Nodes n) \<and> bt_exit bank < length (net_Nodes n)) \<and>
    (\<forall>u<length (net_Nodes n). \<forall>k. bi_nodes i ! u = Some k \<longrightarrow> k < length (bi_banks i))"

definition finishes :: "routeGraph \<Rightarrow> string \<Rightarrow> nat \<Rightarrow> nat \<Rightarrow> (route_error, nat list) result option \<Rightarrow> bool" where
  "finishes g class u v r \<longleftrightarrow> (\<exists>x. r = Some x \<and> (\<forall>route. x = Inr route \<longrightarrow> openWalk g class u route v))"

lemma bankSuffix_finishes:
  assumes good: "goodFields n" and costs: "orderedCosts input" and range: "banks_in_range n banks"
    and g: "g = graphOf n banks blocked" and u: "u < length (net_Nodes n)" and v: "v < length (net_Nodes n)"
    and pre: "openWalk g (in_class input) s pre u"
  shows "finishes g (in_class input) s v (bankSuffix n input g offset pre u v)"
proof -
  let ?target = "case bankGoal g v of None \<Rightarrow> v | Some bank \<Rightarrow> bt_entry bank"
  have goal: "bt_entry bank < length (net_Nodes n)" if "bankGoal g v = Some bank" for bank
    using that range v by (auto simp: bankGoal_def banks_in_range_def Let_def g split: option.splits if_splits)
  then have t: "?target < length (net_Nodes n)" using v by (auto split: option.split)
  obtain r where r: "bankPart n input g offset u ?target None = Some r"
    and rw: "\<And>route d. r = Inr (route, d) \<Longrightarrow> openWalk g (in_class input) u route ?target"
    using bankPart_sound [OF good costs u t] unfolding g by blast
  show ?thesis
  proof (cases "in_forbidden input \<noteq> None \<and> (pre \<noteq> [] \<or> bankGoal g v \<noteq> None)")
    case True
    then show ?thesis unfolding bankSuffix_def finishes_def by simp
  next
    case open_: False
    show ?thesis
    proof (cases r)
      case (Inl e)
      with open_ r show ?thesis unfolding bankSuffix_def finishes_def by simp
    next
      case (Inr p)
      then obtain middle offset2 where p: "r = Inr (middle, offset2)" by (cases p) auto
      have w: "openWalk g (in_class input) s (pre @ middle) ?target"
        using openWalk_append [OF pre rw [OF p]] .
      show ?thesis
      proof (cases "bankGoal g v")
        case None
        with open_ w r p show ?thesis unfolding bankSuffix_def finishes_def by simp
      next
        case (Some bank)
        obtain r2 where r2: "bankPart n input g offset2 (bt_entry bank) v (Some (bt_arrival bank)) = Some r2"
          and rw2: "\<And>route d. r2 = Inr (route, d) \<Longrightarrow> openWalk g (in_class input) (bt_entry bank) route v"
          using bankPart_sound [OF good costs goal [OF Some] v] unfolding g by blast
        have "r2 = Inr (route, d) \<Longrightarrow> openWalk g (in_class input) s (pre @ middle @ route) v" for route d
          using openWalk_append [of g "in_class input" s "pre @ middle"] w rw2 Some by simp
        with open_ r p Some r2 show ?thesis
          unfolding bankSuffix_def finishes_def by (cases r2) auto
      qed
    qed
  qed
qed

lemma openWalk_Nil [simp]: "openWalk g class u [] v \<longleftrightarrow> u = v"
  by (simp add: openWalk_def)

lemma bankAcross_finishes:
  assumes good: "goodFields n" and costs: "orderedCosts input" and range: "banks_in_range n banks"
    and g: "g = graphOf n banks blocked" and u: "u < length (net_Nodes n)" and v: "v < length (net_Nodes n)"
  shows "finishes g (in_class input) u v (bankAcross n input g u v)"
proof (cases "bi_nodes banks ! u")
  case None
  then show ?thesis
    using bankSuffix_finishes [OF good costs range g u v, of u "[]"] by (simp add: bankAcross_def Let_def g)
next
  case (Some k)
  let ?bank = "bi_banks banks ! k"
  show ?thesis
  proof (cases "u \<noteq> bt_entry ?bank \<and> u \<noteq> bt_exit ?bank")
    case True
    have x: "bt_exit ?bank < length (net_Nodes n)"
      using range u Some by (simp add: banks_in_range_def)
    obtain r where r: "bankPart n input g (in_startCost input) u (bt_exit ?bank) (Some (bt_departure ?bank)) = Some r"
      and rw: "\<And>route d. r = Inr (route, d) \<Longrightarrow> openWalk g (in_class input) u route (bt_exit ?bank)"
      using bankPart_sound [OF good costs u x] unfolding g by blast
    show ?thesis
    proof (cases r)
      case (Inl e)
      with True r show ?thesis by (simp add: bankAcross_def Let_def g Some finishes_def)
    next
      case (Inr p)
      then obtain pre offset2 where p: "r = Inr (pre, offset2)" by (cases p) auto
      have "finishes g (in_class input) u v (bankSuffix n input g offset2 pre (bt_exit ?bank) v)"
        by (rule bankSuffix_finishes [OF good costs range g x v rw [OF p]])
      with True r p show ?thesis by (simp add: bankAcross_def Let_def g Some)
    qed
  next
    case False
    then show ?thesis
      using bankSuffix_finishes [OF good costs range g u v, of u "[]"] by (auto simp: bankAcross_def Let_def g Some)
  qed
qed

lemma bankRoute_finishes:
  assumes good: "goodFields n" and costs: "orderedCosts input" and range: "banks_in_range n banks"
    and g: "g = graphOf n banks blocked"
  shows "\<exists>r. bankRoute n input g = Some r \<and>
    (\<forall>route. r = Inr route \<longrightarrow>
       (\<exists>u v. g_nodes (baseGraph n) (in_from input) = Some u \<and> g_nodes (baseGraph n) (in_to input) = Some v \<and>
          openWalk g (in_class input) u route v))"
proof (cases "bi_err banks = None \<and> g_nodes (baseGraph n) (in_from input) \<noteq> None \<and> g_nodes (baseGraph n) (in_to input) \<noteq> None")
  case False
  then show ?thesis by (auto simp: bankRoute_def g split: option.splits)
next
  case True
  then obtain u v where uv: "g_nodes (baseGraph n) (in_from input) = Some u" "g_nodes (baseGraph n) (in_to input) = Some v"
    and err: "bi_err banks = None" by blast
  then have u: "u < length (net_Nodes n)" and v: "v < length (net_Nodes n)"
    using indexNodes_bound by (auto simp: baseGraph_nodes(1))
  have across: "finishes g (in_class input) u v (bankAcross n input g u v)"
    by (rule bankAcross_finishes [OF good costs range g u v])
  have "finishes g (in_class input) u v (bankRoute n input g)"
  proof (cases "u = v")
    case True
    then show ?thesis using uv err by (simp add: bankRoute_def g finishes_def)
  next
    case ne: False
    define local where "local = (if bi_nodes banks ! u \<noteq> None \<and> bi_nodes banks ! u = bi_nodes banks ! v
      then localLanes n g (bi_banks banks ! the (bi_nodes banks ! u)) u v else None)"
    show ?thesis
    proof (cases local)
      case None
      let ?C = "bi_nodes banks ! u \<noteq> None \<and> bi_nodes banks ! u = bi_nodes banks ! v"
      have "bankRoute n input g = bankAcross n input g u v"
      proof (cases ?C)
        case True
        then have "localLanes n g (bi_banks banks ! the (bi_nodes banks ! u)) u v = None"
          using None unfolding local_def by (metis (no_types, lifting))
        with True uv err ne show ?thesis by (auto simp: bankRoute_def g Let_def)
      next
        case False
        then have "(if ?C then a else b) = b" for a b :: "(route_error, nat list) result option" by (rule if_not_P)
        with uv err ne show ?thesis by (simp only: bankRoute_def g graphOf_sel option.case if_False Let_def)
      qed
      with across show ?thesis by simp
    next
      case (Some allowed)
      let ?bank = "bi_banks banks ! the (bi_nodes banks ! u)"
      from Some have same: "bi_nodes banks ! u \<noteq> None" "bi_nodes banks ! u = bi_nodes banks ! v"
        "localLanes n g ?bank u v = Some allowed"
        unfolding local_def by (metis (no_types, lifting) option.distinct(1))+
      obtain r where r: "bankPart n input g (in_startCost input) u v (Some allowed) = Some r"
        and rw: "\<And>route d. r = Inr (route, d) \<Longrightarrow> openWalk g (in_class input) u route v"
        using bankPart_sound [OF good costs u v] unfolding g by blast
      have form: "bankRoute n input g = (case r of
          Inr (route, _) \<Rightarrow> Some (Inr route)
        | Inl e \<Rightarrow> if in_forbidden input \<noteq> None \<or> u = bt_entry ?bank \<or> bankArrivalNode ?bank g u
            then Some (Inl ErrUnreachable) else bankAcross n input g u v)"
        using same r uv err ne by (auto simp: bankRoute_def g Let_def split: sum.split)
      show ?thesis
      proof (cases r)
        case (Inl e)
        with across show ?thesis unfolding form finishes_def by auto
      next
        case (Inr p)
        with rw show ?thesis unfolding form finishes_def by (cases p) auto
      qed
    qed
  qed
  then show ?thesis using uv by (auto simp: finishes_def)
qed

section \<open>The index of a checked network\<close>

definition gates_in_range :: "Network \<Rightarrow> bankIndex \<Rightarrow> bool" where
  "gates_in_range n i \<longleftrightarrow>
    (\<forall>bank\<in>set (bi_banks i). bt_entry bank < length (net_Nodes n) \<and> bt_exit bank < length (net_Nodes n))"

lemma nodeIndex_range:
  assumes "net_Nodes n \<noteq> []"
  shows "nodeIndex (baseGraph n) ident < length (net_Nodes n)"
  using assms indexNodes_bound by (auto simp: nodeIndex_def baseGraph_nodes(1) split: option.split)

lemma addBerthPaths_gates:
  "addBerthPaths b st bank ident node t = Inr t' \<Longrightarrow> bt_entry t' = bt_entry t \<and> bt_exit t' = bt_exit t"
  by (auto simp: addBerthPaths_def Let_def split: prod.splits if_splits)

lemma addBankBerths_gates:
  "addBankBerths b station bank ids membership t = Inr (m, t') \<Longrightarrow> bt_entry t' = bt_entry t \<and> bt_exit t' = bt_exit t"
  by (induction b station bank ids membership t rule: addBankBerths.induct)
    (auto split: option.splits if_splits sum.splits dest!: addBerthPaths_gates)

lemma claimNode_banks: "claimNode b m x i = (j, None) \<Longrightarrow> bi_banks j = bi_banks i"
  by (auto simp: claimNode_None)

lemma claimLane_banks: "claimLane b k l i = (j, None) \<Longrightarrow> bi_banks j = bi_banks i"
  by (auto simp: claimLane_def Let_def andThen_None split: if_splits dest!: claimNode_banks)

lemma claimLocal_banks: "claimLocal b t i = (j, None) \<Longrightarrow> bi_banks j = bi_banks i"
  unfolding claimLocal_def
  by (rule bankEach_inv [where P = "\<lambda>x. bi_banks x = bi_banks i"]) (auto dest: claimLane_banks)

lemma addBank_range:
  assumes ne: "net_Nodes n \<noteq> []" and b: "bb_graph b = baseGraph n"
    and range: "gates_in_range n i" and step: "addBank b si bn station bank ids membership i = ((j, None), r)"
  shows "gates_in_range n j"
proof -
  let ?t0 = "\<lparr>bt_station = si, bt_bank = bn, bt_entry = nodeIndex (bb_graph b) (bank_Entry bank),
    bt_exit = nodeIndex (bb_graph b) (bank_Exit bank), bt_arrival = {}, bt_departure = {}, bt_local = {}\<rparr>"
  from step obtain m t1 t2 j1 where berths: "addBankBerths b station bank (bank_BerthIDs bank) membership ?t0 = Inr (m, t1)"
    and through: "addThroughLanes b (st_ID station) bank t1 = Inr t2"
    and claim: "claimLocal b t2 i = (j1, None)" and j: "j = j1\<lparr>bi_banks := bi_banks j1 @ [t2]\<rparr>"
    by (auto simp: addBank_def Let_def andThen_None split: if_splits sum.splits)
  have "bt_entry t2 = bt_entry t1 \<and> bt_exit t2 = bt_exit t1"
    using through by (auto simp: addThroughLanes_def split: if_splits)
  with addBankBerths_gates [OF berths] nodeIndex_range [OF ne] b
  have "bt_entry t2 < length (net_Nodes n) \<and> bt_exit t2 < length (net_Nodes n)" by simp
  with range claimLocal_banks [OF claim] show ?thesis by (simp add: gates_in_range_def j)
qed

lemma addBanks_range:
  assumes "net_Nodes n \<noteq> []" and "bb_graph b = baseGraph n"
  shows "gates_in_range n i \<Longrightarrow> addBanks b si station bn banks ids membership i = ((j, None), r) \<Longrightarrow> gates_in_range n j"
proof (induction banks arbitrary: bn ids membership i)
  case (Cons bank banks)
  then obtain i' ids' membership' where "addBank b si bn station bank ids membership i = ((i', None), ids', membership')"
    and "addBanks b si station (Suc bn) banks ids' membership' i' = ((j, None), r)"
    by (auto split: prod.splits option.splits)
  with Cons.IH Cons.prems(1) addBank_range [OF assms] show ?case by blast
qed simp

lemma addStation_range:
  assumes "net_Nodes n \<noteq> []" and "bb_graph b = baseGraph n"
  shows "gates_in_range n i \<Longrightarrow> addStation b si station i = (j, None) \<Longrightarrow> gates_in_range n j"
  using addBanks_range [OF assms, of i si station 0 "bank_list station" "{}" "{}" j]
  by (auto simp: addStation_def Let_def split: if_splits prod.splits option.splits)

lemma index_in_range:
  assumes good: "goodFields n" and banks: "hasStationBanks n" and ok: "bi_err (indexStationBanks n (baseGraph n)) = None"
  shows "banks_in_range n (indexStationBanks n (baseGraph n))"
proof -
  from banks obtain s where "s \<in> set (net_Stations n)" by (auto simp: hasStationBanks_def list_ex_iff)
  then have "goodStation n s" using good by (simp add: goodFields_def)
  then have ne: "net_Nodes n \<noteq> []" by (auto simp: goodStation_def)
  obtain b j where b: "bb_graph b = baseGraph n" "bb_net b = n"
    and steps: "bankEach (\<lambda>(i, station) index. if st_Banks station = None then (index, None) else addStation b i station index)
      (enumerate 0 (net_Stations n))
      \<lparr>bi_banks = [], bi_nodes = replicate (length (net_Nodes n)) None,
       bi_lanes = replicate (length (net_Lanes n)) None, bi_err = None\<rparr> = (j, None)"
    and i: "indexStationBanks n (baseGraph n) = j\<lparr>bi_err := None\<rparr>"
    using index_steps [OF banks ok] by blast
  have "gates_in_range n j"
    by (rule bankEach_inv [OF steps, where P = "gates_in_range n"])
      (auto simp: gates_in_range_def [of n "\<lparr>bi_banks = [], bi_nodes = _, bi_lanes = _, bi_err = _\<rparr>"]
        split: if_splits intro: addStation_range [OF ne b(1)])
  moreover have "built n j"
    by (rule bankEach_inv [OF steps, where P = "built n"])
      (auto simp: built_def [of n "\<lparr>bi_banks = [], bi_nodes = _, bi_lanes = _, bi_err = _\<rparr>"] owners_inv_def
        split: if_splits intro: addStation_built [OF good b])
  ultimately show ?thesis by (simp add: banks_in_range_def gates_in_range_def built_def owners_inv_def i)
qed

text \<open>
  C13. Every route search on a network that passed the field checks ends without a panic, with or
  without station banks, for every routing policy and every set of blocked lanes; a returned route
  is a chain of open lanes of the asked class from the origin to the destination, also where it is
  joined from parts at the gates of banks.
\<close>

theorem routeIndexed_sound:
  assumes good: "goodFields n" and costs: "orderedCosts input"
  shows "let g = (newRouteGraph n)\<lparr>g_blocked := blocked\<rparr> in
    \<exists>r. routeIndexed n input g = Some r \<and>
      (\<forall>route. r = Inr route \<longrightarrow>
         (\<exists>u v. g_nodes g (in_from input) = Some u \<and> g_nodes g (in_to input) = Some v \<and>
            openWalk g (in_class input) u route v))"
proof -
  define banks where "banks = indexStationBanks n (baseGraph n)"
  have g: "(newRouteGraph n)\<lparr>g_blocked := blocked\<rparr> = graphOf n banks blocked"
    by (simp add: newRouteGraph_def graphOf_def banks_def)
  show ?thesis
  proof (cases "\<not> in_bankRaw input \<and> bi_banks banks \<noteq> []")
    case True
    then have "banks \<noteq> noBanks" by (auto simp: noBanks_def)
    then have hs: "hasStationBanks n" by (metis banks_def indexStationBanks_def)
    show ?thesis
    proof (cases "bi_err banks")
      case None
      then have "banks_in_range n banks" using index_in_range [OF good hs] by (simp add: banks_def)
      from bankRoute_finishes [OF good costs this refl] True show ?thesis
        by (simp add: g routeIndexed_def Let_def)
    next
      case (Some e)
      with True show ?thesis by (simp add: g routeIndexed_def bankRoute_def Let_def)
    qed
  next
    case False
    then have raw: "routeIndexed n input (graphOf n banks blocked) =
        map_option (map_sum id fst) (rawRoute n input (graphOf n banks blocked))"
      by (auto simp: routeIndexed_def)
    obtain r where r: "rawRoute n input (graphOf n banks blocked) = Some r"
      and walk: "\<And>route d. r = Inr (route, d) \<Longrightarrow>
       (\<exists>u v. g_nodes (baseGraph n) (in_from input) = Some u \<and> g_nodes (baseGraph n) (in_to input) = Some v \<and>
          openWalk (graphOf n banks blocked) (in_class input) u route v)"
      using rawRoute_sound [OF good costs] by blast
    show ?thesis
    proof (cases r)
      case (Inl e)
      then show ?thesis by (simp add: g raw r Let_def)
    next
      case (Inr p)
      with walk [of "fst p" "snd p"] show ?thesis by (simp add: g raw r Let_def)
    qed
  qed
qed

theorem routeIndexed_sound_witness:
  "goodFields bankNet \<and> orderedCosts (plainInput ''o'' ''b'') \<and>
   (\<exists>r. routeIndexed bankNet (plainInput ''o'' ''b'') ((newRouteGraph bankNet)\<lparr>g_blocked := []\<rparr>) = Some r)"
proof -
  have costs: "orderedCosts (plainInput ''o'' ''b'')" by (simp add: orderedCosts_def plainInput_def)
  show ?thesis
    using bankNet_good costs routeIndexed_sound [OF bankNet_good costs, of "[]", unfolded Let_def] by blast
qed

end
