(* ===== verification/RailPlan.thy ===== *)
theory RailPlan
  imports NetworkModel
begin

text \<open>
  The rail plan of a project: the arrivals and departures, their checks, the tick at which a
  passenger is offered, and the schedule (\<open>internal/project/rail_departures.go\<close> and
  \<open>rail_arrivals.go\<close>). A Go map that a check fills is a function or a set. The random stream
  of an event, which the code seeds from a SHA-256 digest of the seed and the event, is a
  parameter \<open>draw event k n\<close>: the k-th value of the stream of the event for the bound \<open>n\<close>.
\<close>

section \<open>Data\<close>

definition MaxRailDeparturePassengers :: int where "MaxRailDeparturePassengers = 3000"
definition MaxRailArrivals :: nat where "MaxRailArrivals = 256"
definition MaxRailPassengers :: int where "MaxRailPassengers = 10000"
definition MaxRailRelease :: int where "MaxRailRelease = 200"
definition MaxRailDestinations :: nat where "MaxRailDestinations = 16"
definition MaxRailWeight :: int where "MaxRailWeight = 1000000"
definition MaxIDLength :: nat where "MaxIDLength = 64"

record RailOrigin =
  origin_Station :: string
  origin_Weight :: int

record RailDeparture =
  dep_ID :: string
  dep_Station :: string
  dep_AtSeconds :: int
  dep_WalkingSeconds :: int
  dep_RequestFromSeconds :: int
  dep_RequestUntilSeconds :: int
  dep_Passengers :: int
  dep_Origins :: "RailOrigin list"

record RailArrival =
  arr_ID :: string
  arr_Station :: string
  arr_AtSeconds :: int
  arr_WalkingSeconds :: int
  arr_Passengers :: int
  arr_Destinations :: "RailOrigin list"

record RailServiceOffer =
  offer_Tick :: int
  offer_Event :: string
  offer_Passenger :: int
  offer_From :: string
  offer_To :: string
  offer_Kind :: string
  offer_DepartureTick :: int
  offer_WalkingTicks :: int

datatype rail_error =
    TooManyArrivals | TooManyEvents
  | ArrivalID | ArrivalHub string | ArrivalTime string | ArrivalCount string
  | ArrivalTotal | ArrivalRelease int
  | DestinationCount string | DestinationStation string string | DestinationWeight string string
  | DepartureID string | DepartureHub string | DepartureTime string | DepartureCount string
  | OriginCount string | OriginStation string string | OriginWeight string string
  | OutboundTotal | CombinedTotal | CombinedRelease int

section \<open>Ticks\<close>

text \<open>
  Go's integer division truncates toward zero. Here the dividend is not negative for a validated
  departure; \<open>quot\<close> has the truncation for every sign.
\<close>

definition quot :: "int \<Rightarrow> int \<Rightarrow> int" where
  "quot a b = sgn a * sgn b * (\<bar>a\<bar> div \<bar>b\<bar>)"

definition DepartureOfferTick :: "RailDeparture \<Rightarrow> int \<Rightarrow> int" where
  "DepartureOfferTick departure ordinal =
    (let start = dep_RequestFromSeconds departure * TicksPerSecond;
         end = dep_RequestUntilSeconds departure * TicksPerSecond;
         start' = (if dep_Passengers departure > 1
           then start + quot ((ordinal - 1) * (end - start)) (dep_Passengers departure - 1) else start)
     in max 1 start')"

definition railReleaseTick :: "RailArrival \<Rightarrow> int" where
  "railReleaseTick arrival = max 1 ((arr_AtSeconds arrival + arr_WalkingSeconds arrival) * TicksPerSecond)"

section \<open>Checks\<close>

definition PassengerStations :: "Network \<Rightarrow> Station list" where
  "PassengerStations n = filter (\<lambda>station. \<not> st_ParkingOnly station) (net_Stations n)"

fun validateStops ::
  "(string \<Rightarrow> rail_error) \<Rightarrow> (string \<Rightarrow> rail_error) \<Rightarrow> string \<Rightarrow> string set \<Rightarrow> RailOrigin list \<Rightarrow> string set \<Rightarrow>
    (rail_error, unit) result" where
  "validateStops badStation badWeight hub passenger [] seen = Inr ()"
| "validateStops badStation badWeight hub passenger (stop # rest) seen =
    (if origin_Station stop \<notin> passenger \<or> origin_Station stop = hub \<or> origin_Station stop \<in> seen
     then Inl (badStation (origin_Station stop))
     else if origin_Weight stop < 1 \<or> origin_Weight stop > MaxRailWeight
     then Inl (badWeight (origin_Station stop))
     else validateStops badStation badWeight hub passenger rest (insert (origin_Station stop) seen))"

definition validateRailDestinations :: "RailArrival \<Rightarrow> string set \<Rightarrow> (rail_error, unit) result" where
  "validateRailDestinations arrival passenger =
    (if length (arr_Destinations arrival) < 1 \<or> length (arr_Destinations arrival) > MaxRailDestinations
     then Inl (DestinationCount (arr_ID arrival))
     else validateStops (DestinationStation (arr_ID arrival)) (DestinationWeight (arr_ID arrival))
       (arr_Station arrival) passenger (arr_Destinations arrival) {})"

definition validateRailOrigins :: "RailDeparture \<Rightarrow> string set \<Rightarrow> (rail_error, unit) result" where
  "validateRailOrigins departure passenger =
    (if length (dep_Origins departure) < 1 \<or> length (dep_Origins departure) > MaxRailDestinations
     then Inl (OriginCount (dep_ID departure))
     else validateStops (OriginStation (dep_ID departure)) (OriginWeight (dep_ID departure))
       (dep_Station departure) passenger (dep_Origins departure) {})"

fun validateArrivalsLoop ::
  "string set \<Rightarrow> RailArrival list \<Rightarrow> string set \<Rightarrow> int \<Rightarrow> (int \<Rightarrow> int) \<Rightarrow> (rail_error, unit) result" where
  "validateArrivalsLoop passenger [] ids acc releases = Inr ()"
| "validateArrivalsLoop passenger (arrival # rest) ids acc releases =
    (if arr_ID arrival = [] \<or> length (arr_ID arrival) > MaxIDLength \<or> arr_ID arrival \<in> ids then Inl ArrivalID
     else if arr_Station arrival \<notin> passenger then Inl (ArrivalHub (arr_ID arrival))
     else if arr_AtSeconds arrival < 0 \<or> arr_AtSeconds arrival > 86400 \<or> arr_WalkingSeconds arrival < 0 \<or>
       arr_WalkingSeconds arrival > 3600 \<or> arr_AtSeconds arrival + arr_WalkingSeconds arrival > 86400
     then Inl (ArrivalTime (arr_ID arrival))
     else if arr_Passengers arrival < 1 \<or> arr_Passengers arrival > MaxRailRelease
     then Inl (ArrivalCount (arr_ID arrival))
     else
       let acc' = acc + arr_Passengers arrival in
       if acc' > MaxRailPassengers then Inl ArrivalTotal
       else
         let tick = railReleaseTick arrival;
             releases' = releases(tick := releases tick + arr_Passengers arrival) in
         if releases' tick > MaxRailRelease then Inl (ArrivalRelease tick)
         else case validateRailDestinations arrival passenger of
           Inl e \<Rightarrow> Inl e
         | Inr _ \<Rightarrow> validateArrivalsLoop passenger rest (insert (arr_ID arrival) ids) acc' releases')"

definition validateRailArrivals :: "RailArrival list \<Rightarrow> Network \<Rightarrow> (rail_error, unit) result" where
  "validateRailArrivals arrivals n =
    (if length arrivals > MaxRailArrivals then Inl TooManyArrivals
     else validateArrivalsLoop (st_ID ` set (PassengerStations n)) arrivals {} 0 (\<lambda>_. 0))"

definition validateRailDeparture ::
  "RailDeparture \<Rightarrow> string set \<Rightarrow> string set \<Rightarrow> (rail_error, unit) result" where
  "validateRailDeparture departure passenger ids =
    (if dep_ID departure = [] \<or> length (dep_ID departure) > MaxIDLength \<or> dep_ID departure \<in> ids
     then Inl (DepartureID (dep_ID departure))
     else if dep_Station departure \<notin> passenger then Inl (DepartureHub (dep_ID departure))
     else if dep_AtSeconds departure < 1 \<or> dep_AtSeconds departure > 86400 \<or>
       dep_WalkingSeconds departure < 0 \<or> dep_WalkingSeconds departure > 3600 \<or>
       dep_RequestFromSeconds departure < 0 \<or>
       dep_RequestUntilSeconds departure < dep_RequestFromSeconds departure \<or>
       dep_RequestUntilSeconds departure \<ge> dep_AtSeconds departure - dep_WalkingSeconds departure
     then Inl (DepartureTime (dep_ID departure))
     else if dep_Passengers departure < 1 \<or> dep_Passengers departure > MaxRailRelease
     then Inl (DepartureCount (dep_ID departure))
     else validateRailOrigins departure passenger)"

text \<open>The releases of one departure: the map of release counts, or the first tick over the bound.\<close>

fun releasePassengers :: "RailDeparture \<Rightarrow> int list \<Rightarrow> (int \<Rightarrow> int) \<Rightarrow> (rail_error, int \<Rightarrow> int) result" where
  "releasePassengers departure [] releases = Inr releases"
| "releasePassengers departure (ordinal # rest) releases =
    (let tick = DepartureOfferTick departure ordinal; releases' = releases(tick := releases tick + 1) in
      if releases' tick > MaxRailRelease then Inl (CombinedRelease tick)
      else releasePassengers departure rest releases')"

fun validateDeparturesLoop ::
  "string set \<Rightarrow> RailDeparture list \<Rightarrow> string set \<Rightarrow> int \<Rightarrow> int \<Rightarrow> (int \<Rightarrow> int) \<Rightarrow> (rail_error, unit) result" where
  "validateDeparturesLoop passenger [] ids acc outbound releases = Inr ()"
| "validateDeparturesLoop passenger (departure # rest) ids acc outbound releases =
    (case validateRailDeparture departure passenger ids of
       Inl e \<Rightarrow> Inl e
     | Inr _ \<Rightarrow>
         let acc' = acc + dep_Passengers departure; outbound' = outbound + dep_Passengers departure in
         if outbound' > MaxRailDeparturePassengers then Inl OutboundTotal
         else if acc' > MaxRailPassengers then Inl CombinedTotal
         else case releasePassengers departure [1..dep_Passengers departure] releases of
           Inl e \<Rightarrow> Inl e
         | Inr releases' \<Rightarrow>
             validateDeparturesLoop passenger rest (insert (dep_ID departure) ids) acc' outbound' releases')"

definition arrivalReleases :: "RailArrival list \<Rightarrow> int \<Rightarrow> int" where
  "arrivalReleases arrivals =
    fold (\<lambda>arrival releases. releases(railReleaseTick arrival := releases (railReleaseTick arrival) + arr_Passengers arrival))
      arrivals (\<lambda>_. 0)"

definition validateRailServices ::
  "RailArrival list \<Rightarrow> RailDeparture list \<Rightarrow> Network \<Rightarrow> (rail_error, unit) result" where
  "validateRailServices arrivals departures n =
    (case validateRailArrivals arrivals n of
       Inl e \<Rightarrow> Inl e
     | Inr _ \<Rightarrow>
         if length arrivals + length departures > MaxRailArrivals then Inl TooManyEvents
         else validateDeparturesLoop (st_ID ` set (PassengerStations n)) departures {}
           (sum_list (map arr_Passengers arrivals)) 0 (arrivalReleases arrivals))"

section \<open>The schedule\<close>

fun pickStop :: "int \<Rightarrow> RailOrigin list \<Rightarrow> RailOrigin option" where
  "pickStop target [] = None"
| "pickStop target (stop # rest) =
    (if target < origin_Weight stop then Some stop else pickStop (target - origin_Weight stop) rest)"

definition totalWeight :: "RailOrigin list \<Rightarrow> int" where
  "totalWeight stops = sum_list (map origin_Weight stops)"

definition arrivalOffers :: "(string \<Rightarrow> nat \<Rightarrow> int \<Rightarrow> int) \<Rightarrow> RailArrival \<Rightarrow> RailServiceOffer list" where
  "arrivalOffers draw arrival =
    List.map_filter (\<lambda>k.
        map_option (\<lambda>stop. \<lparr>offer_Tick = railReleaseTick arrival, offer_Event = arr_ID arrival,
            offer_Passenger = int k + 1, offer_From = arr_Station arrival, offer_To = origin_Station stop,
            offer_Kind = ''arrival'', offer_DepartureTick = 0, offer_WalkingTicks = 0\<rparr>)
          (pickStop (draw (arr_ID arrival) k (totalWeight (arr_Destinations arrival))) (arr_Destinations arrival)))
      [0..<nat (arr_Passengers arrival)]"

definition departureOffers :: "(string \<Rightarrow> nat \<Rightarrow> int \<Rightarrow> int) \<Rightarrow> RailDeparture \<Rightarrow> RailServiceOffer list" where
  "departureOffers draw departure =
    List.map_filter (\<lambda>k.
        map_option (\<lambda>stop. \<lparr>offer_Tick = DepartureOfferTick departure (int k + 1), offer_Event = dep_ID departure,
            offer_Passenger = int k + 1, offer_From = origin_Station stop, offer_To = dep_Station departure,
            offer_Kind = ''departure'', offer_DepartureTick = dep_AtSeconds departure * TicksPerSecond,
            offer_WalkingTicks = dep_WalkingSeconds departure * TicksPerSecond\<rparr>)
          (pickStop (draw (dep_ID departure) k (totalWeight (dep_Origins departure))) (dep_Origins departure)))
      [0..<nat (dep_Passengers departure)]"

text \<open>\<open>slices.SortStableFunc\<close> by tick is \<open>sort_key\<close>; the arrival schedule is sorted first on its own.\<close>

definition RailSchedule :: "(string \<Rightarrow> nat \<Rightarrow> int \<Rightarrow> int) \<Rightarrow> RailArrival list \<Rightarrow> RailServiceOffer list" where
  "RailSchedule draw arrivals = sort_key offer_Tick (concat (map (arrivalOffers draw) arrivals))"

definition RailServicesSchedule ::
  "(string \<Rightarrow> nat \<Rightarrow> int \<Rightarrow> int) \<Rightarrow> (string \<Rightarrow> nat \<Rightarrow> int \<Rightarrow> int) \<Rightarrow> RailArrival list \<Rightarrow> RailDeparture list \<Rightarrow>
    RailServiceOffer list" where
  "RailServicesSchedule arrivalDraw departureDraw arrivals departures =
    (if sum_list (map arr_Passengers arrivals) + sum_list (map dep_Passengers departures) = 0 then []
     else sort_key offer_Tick
       (RailSchedule arrivalDraw arrivals @ concat (map (departureOffers departureDraw) departures)))"

end
