(* ===== verification/RailTheorems.thy ===== *)
theory RailTheorems
  imports RailPlan
begin

text \<open>
  Properties of an accepted rail plan: the offer ticks of a departure, the release bound of
  every tick, and the schedule that holds each passenger exactly once.
\<close>

section \<open>Accepted departures\<close>

definition goodStops :: "string \<Rightarrow> string set \<Rightarrow> RailOrigin list \<Rightarrow> bool" where
  "goodStops hub passenger stops \<longleftrightarrow>
    1 \<le> length stops \<and> length stops \<le> MaxRailDestinations \<and> distinct (map origin_Station stops) \<and>
    (\<forall>stop\<in>set stops. origin_Station stop \<in> passenger \<and> origin_Station stop \<noteq> hub \<and>
       1 \<le> origin_Weight stop \<and> origin_Weight stop \<le> MaxRailWeight)"

lemma validateStops_ok:
  "validateStops a b hub passenger stops seen = Inr () \<longleftrightarrow>
     distinct (map origin_Station stops) \<and> origin_Station ` set stops \<inter> seen = {} \<and>
     (\<forall>stop\<in>set stops. origin_Station stop \<in> passenger \<and> origin_Station stop \<noteq> hub \<and>
       1 \<le> origin_Weight stop \<and> origin_Weight stop \<le> MaxRailWeight)"
  by (induction stops arbitrary: seen) auto

lemma validateRailOrigins_ok:
  "validateRailOrigins d passenger = Inr () \<longleftrightarrow> goodStops (dep_Station d) passenger (dep_Origins d)"
  by (auto simp: validateRailOrigins_def goodStops_def validateStops_ok Suc_le_eq)

lemma validateRailDestinations_ok:
  "validateRailDestinations a passenger = Inr () \<longleftrightarrow> goodStops (arr_Station a) passenger (arr_Destinations a)"
  by (auto simp: validateRailDestinations_def goodStops_def validateStops_ok Suc_le_eq)

definition goodDeparture :: "string set \<Rightarrow> RailDeparture \<Rightarrow> bool" where
  "goodDeparture passenger d \<longleftrightarrow>
    dep_ID d \<noteq> [] \<and> length (dep_ID d) \<le> MaxIDLength \<and> dep_Station d \<in> passenger \<and>
    1 \<le> dep_AtSeconds d \<and> dep_AtSeconds d \<le> 86400 \<and> 0 \<le> dep_WalkingSeconds d \<and> dep_WalkingSeconds d \<le> 3600 \<and>
    0 \<le> dep_RequestFromSeconds d \<and> dep_RequestFromSeconds d \<le> dep_RequestUntilSeconds d \<and>
    dep_RequestUntilSeconds d < dep_AtSeconds d - dep_WalkingSeconds d \<and>
    1 \<le> dep_Passengers d \<and> dep_Passengers d \<le> MaxRailRelease \<and>
    goodStops (dep_Station d) passenger (dep_Origins d)"

lemma validateRailDeparture_ok:
  "validateRailDeparture d passenger ids = Inr () \<longleftrightarrow> goodDeparture passenger d \<and> dep_ID d \<notin> ids"
  by (auto simp: validateRailDeparture_def goodDeparture_def validateRailOrigins_ok)

lemma quot_nonneg: "0 \<le> a \<Longrightarrow> 0 < b \<Longrightarrow> quot a b = a div b"
  by (cases "a = 0") (auto simp: quot_def sgn_if)

lemma offer_tick_form:
  assumes good: "goodDeparture passenger d" and k: "1 \<le> k" "k \<le> dep_Passengers d"
  shows "DepartureOfferTick d k =
    max 1 (dep_RequestFromSeconds d * 60 +
      (if dep_Passengers d > 1
       then (k - 1) * ((dep_RequestUntilSeconds d - dep_RequestFromSeconds d) * 60) div (dep_Passengers d - 1) else 0))"
proof -
  have "0 \<le> (k - 1) * (dep_RequestUntilSeconds d * 60 - dep_RequestFromSeconds d * 60)"
    using good k by (intro mult_nonneg_nonneg) (auto simp: goodDeparture_def)
  then show ?thesis
    by (simp add: DepartureOfferTick_def TicksPerSecond_def quot_nonneg left_diff_distrib Let_def)
qed

text \<open>
  C35. The passengers of an accepted departure are offered in order, not before the request window
  opens and not after it closes, and each of them early enough to walk to the train: the offer
  tick plus the walking time is before the departure tick.
\<close>

theorem departure_offer_window:
  assumes "validateRailDeparture d passenger ids = Inr ()"
    and "1 \<le> j" and "j \<le> k" and "k \<le> dep_Passengers d"
  shows "DepartureOfferTick d j \<le> DepartureOfferTick d k \<and>
    max 1 (dep_RequestFromSeconds d * TicksPerSecond) \<le> DepartureOfferTick d j \<and>
    DepartureOfferTick d k \<le> max 1 (dep_RequestUntilSeconds d * TicksPerSecond) \<and>
    DepartureOfferTick d k + dep_WalkingSeconds d * TicksPerSecond < dep_AtSeconds d * TicksPerSecond"
proof -
  have good: "goodDeparture passenger d" using assms(1) by (simp add: validateRailDeparture_ok)
  let ?w = "(dep_RequestUntilSeconds d - dep_RequestFromSeconds d) * 60" and ?n = "dep_Passengers d"
  have w: "0 \<le> ?w" using good by (simp add: goodDeparture_def)
  have mono: "(j - 1) * ?w div (?n - 1) \<le> (k - 1) * ?w div (?n - 1)" if "?n > 1"
    using that w assms(2-4) by (intro zdiv_mono1 mult_right_mono) auto
  have low: "0 \<le> (j - 1) * ?w div (?n - 1)" if "?n > 1"
    using that w assms(2) by (intro div_int_pos_iff [THEN iffD2]) auto
  have high: "(k - 1) * ?w div (?n - 1) \<le> ?w" if "?n > 1"
  proof -
    have "(k - 1) * ?w div (?n - 1) \<le> (?n - 1) * ?w div (?n - 1)"
      using that w assms(2-4) by (intro zdiv_mono1 mult_right_mono) auto
    with that show ?thesis by simp
  qed
  have forms: "DepartureOfferTick d j = max 1 (dep_RequestFromSeconds d * 60 + (if ?n > 1 then (j - 1) * ?w div (?n - 1) else 0))"
    "DepartureOfferTick d k = max 1 (dep_RequestFromSeconds d * 60 + (if ?n > 1 then (k - 1) * ?w div (?n - 1) else 0))"
    using offer_tick_form [OF good] assms(2-4) by auto
  show ?thesis
    using mono low high w good unfolding forms TicksPerSecond_def
    by (cases "?n > 1") (auto simp: goodDeparture_def max_def)
qed

section \<open>The release bound\<close>

text \<open>The number of departure passengers that are offered at a tick.\<close>

definition departureLoad :: "RailDeparture \<Rightarrow> int \<Rightarrow> int" where
  "departureLoad d tick = tally (\<lambda>k. DepartureOfferTick d k = tick) [1..dep_Passengers d]"

definition arrivalLoad :: "RailArrival \<Rightarrow> int \<Rightarrow> int" where
  "arrivalLoad a tick = (if railReleaseTick a = tick then arr_Passengers a else 0)"

lemma releasePassengers_Inr:
  "releasePassengers d ks releases = Inr r \<Longrightarrow>
     (\<forall>t. r t = releases t + tally (\<lambda>k. DepartureOfferTick d k = t) ks) \<and>
     (\<forall>t. r t \<le> max (releases t) MaxRailRelease)"
proof (induction ks arbitrary: releases)
  case (Cons k ks)
  let ?t = "DepartureOfferTick d k"
  from Cons.prems have ok: "releases ?t + 1 \<le> MaxRailRelease"
    and rest: "releasePassengers d ks (releases(?t := releases ?t + 1)) = Inr r"
    by (auto simp: Let_def split: if_splits)
  from Cons.IH [OF rest] have IH: "\<And>t. r t = (releases(?t := releases ?t + 1)) t + tally (\<lambda>k. DepartureOfferTick d k = t) ks"
    "\<And>t. r t \<le> max ((releases(?t := releases ?t + 1)) t) MaxRailRelease" by blast+
  show ?case
  proof (intro conjI allI)
    fix t
    show "r t = releases t + tally (\<lambda>k. DepartureOfferTick d k = t) (k # ks)"
      using IH(1) [of t] by (auto split: if_splits)
    show "r t \<le> max (releases t) MaxRailRelease"
      using IH(2) [of t] ok by (auto simp: max_def split: if_splits)
  qed
qed simp

lemma validateDeparturesLoop_ok:
  "validateDeparturesLoop passenger ds ids acc outbound releases = Inr () \<Longrightarrow> \<forall>t. releases t \<le> MaxRailRelease \<Longrightarrow>
     (\<forall>d\<in>set ds. goodDeparture passenger d) \<and> distinct (map dep_ID ds) \<and> dep_ID ` set ds \<inter> ids = {} \<and>
     (\<forall>t. releases t + sum_list (map (\<lambda>d. departureLoad d t) ds) \<le> MaxRailRelease) \<and>
     (ds \<noteq> [] \<longrightarrow> acc + sum_list (map dep_Passengers ds) \<le> MaxRailPassengers \<and>
        outbound + sum_list (map dep_Passengers ds) \<le> MaxRailDeparturePassengers)"
proof (induction ds arbitrary: ids acc outbound releases)
  case (Cons d ds)
  from Cons.prems(1) obtain r where d: "goodDeparture passenger d" "dep_ID d \<notin> ids"
    and n: "outbound + dep_Passengers d \<le> MaxRailDeparturePassengers" "acc + dep_Passengers d \<le> MaxRailPassengers"
    and r: "releasePassengers d [1..dep_Passengers d] releases = Inr r"
    and rest: "validateDeparturesLoop passenger ds (insert (dep_ID d) ids) (acc + dep_Passengers d)
      (outbound + dep_Passengers d) r = Inr ()"
    by (auto simp: Let_def validateRailDeparture_ok split: sum.splits if_splits)
  have rt: "r t = releases t + departureLoad d t" "r t \<le> MaxRailRelease" for t
    using releasePassengers_Inr [OF r] Cons.prems(2) by (auto simp: departureLoad_def max_def split: if_splits)
  from Cons.IH [OF rest] rt(2) have IH: "\<forall>d\<in>set ds. goodDeparture passenger d" "distinct (map dep_ID ds)"
    "dep_ID ` set ds \<inter> insert (dep_ID d) ids = {}"
    "\<And>t. r t + sum_list (map (\<lambda>d. departureLoad d t) ds) \<le> MaxRailRelease"
    "ds \<noteq> [] \<longrightarrow> acc + dep_Passengers d + sum_list (map dep_Passengers ds) \<le> MaxRailPassengers \<and>
        outbound + dep_Passengers d + sum_list (map dep_Passengers ds) \<le> MaxRailDeparturePassengers" by auto
  show ?case
  proof (intro conjI)
    show "\<forall>t. releases t + sum_list (map (\<lambda>d. departureLoad d t) (d # ds)) \<le> MaxRailRelease"
      using IH(4) rt(1) by (simp add: add.assoc)
    show "d # ds \<noteq> [] \<longrightarrow> acc + sum_list (map dep_Passengers (d # ds)) \<le> MaxRailPassengers \<and>
        outbound + sum_list (map dep_Passengers (d # ds)) \<le> MaxRailDeparturePassengers"
      using IH(5) n by (cases "ds = []") auto
  qed (use d IH in auto)
qed simp

definition goodArrival :: "string set \<Rightarrow> RailArrival \<Rightarrow> bool" where
  "goodArrival passenger a \<longleftrightarrow>
    arr_ID a \<noteq> [] \<and> length (arr_ID a) \<le> MaxIDLength \<and> arr_Station a \<in> passenger \<and>
    0 \<le> arr_AtSeconds a \<and> 0 \<le> arr_WalkingSeconds a \<and> arr_WalkingSeconds a \<le> 3600 \<and>
    arr_AtSeconds a + arr_WalkingSeconds a \<le> 86400 \<and>
    1 \<le> arr_Passengers a \<and> arr_Passengers a \<le> MaxRailRelease \<and>
    goodStops (arr_Station a) passenger (arr_Destinations a)"

lemma validateArrivalsLoop_ok:
  "validateArrivalsLoop passenger as ids acc releases = Inr () \<Longrightarrow> \<forall>t. releases t \<le> MaxRailRelease \<Longrightarrow>
     (\<forall>a\<in>set as. goodArrival passenger a) \<and> distinct (map arr_ID as) \<and> arr_ID ` set as \<inter> ids = {} \<and>
     (\<forall>t. releases t + sum_list (map (\<lambda>a. arrivalLoad a t) as) \<le> MaxRailRelease) \<and>
     (as \<noteq> [] \<longrightarrow> acc + sum_list (map arr_Passengers as) \<le> MaxRailPassengers)"
proof (induction as arbitrary: ids acc releases)
  case (Cons a as)
  let ?t = "railReleaseTick a"
  from Cons.prems(1) have a: "goodArrival passenger a" "arr_ID a \<notin> ids"
    and n: "acc + arr_Passengers a \<le> MaxRailPassengers" "releases ?t + arr_Passengers a \<le> MaxRailRelease"
    and rest: "validateArrivalsLoop passenger as (insert (arr_ID a) ids) (acc + arr_Passengers a)
      (releases(?t := releases ?t + arr_Passengers a)) = Inr ()"
    by (auto simp: Let_def goodArrival_def validateRailDestinations_ok split: sum.splits if_splits)
  have "\<forall>t. (releases(?t := releases ?t + arr_Passengers a)) t \<le> MaxRailRelease" using n Cons.prems(2) by simp
  from Cons.IH [OF rest this] have IH: "\<forall>a\<in>set as. goodArrival passenger a" "distinct (map arr_ID as)"
    "arr_ID ` set as \<inter> insert (arr_ID a) ids = {}"
    "\<And>t. (releases(?t := releases ?t + arr_Passengers a)) t + sum_list (map (\<lambda>a. arrivalLoad a t) as) \<le> MaxRailRelease"
    "as \<noteq> [] \<longrightarrow> acc + arr_Passengers a + sum_list (map arr_Passengers as) \<le> MaxRailPassengers" by blast+
  show ?case
  proof (intro conjI)
    show "\<forall>t. releases t + sum_list (map (\<lambda>a. arrivalLoad a t) (a # as)) \<le> MaxRailRelease"
    proof
      fix t
      show "releases t + sum_list (map (\<lambda>a. arrivalLoad a t) (a # as)) \<le> MaxRailRelease"
        using IH(4) [of t] by (auto simp: arrivalLoad_def add.assoc split: if_splits)
    qed
    show "a # as \<noteq> [] \<longrightarrow> acc + sum_list (map arr_Passengers (a # as)) \<le> MaxRailPassengers"
      using IH(5) n by (cases "as = []") auto
  qed (use a IH in auto)
qed simp

lemma arrivalReleases_sum: "arrivalReleases as t = sum_list (map (\<lambda>a. arrivalLoad a t) as)"
proof -
  have "fold (\<lambda>arrival releases. releases(railReleaseTick arrival := releases (railReleaseTick arrival) + arr_Passengers arrival))
      as r t = r t + sum_list (map (\<lambda>a. arrivalLoad a t) as)" for r
    by (induction as arbitrary: r) (simp_all add: arrivalLoad_def)
  then show ?thesis by (simp add: arrivalReleases_def)
qed

definition goodPlan :: "RailArrival list \<Rightarrow> RailDeparture list \<Rightarrow> Network \<Rightarrow> bool" where
  "goodPlan arrivals departures n \<longleftrightarrow>
    (\<forall>a\<in>set arrivals. goodArrival (st_ID ` set (PassengerStations n)) a) \<and> distinct (map arr_ID arrivals) \<and>
    (\<forall>d\<in>set departures. goodDeparture (st_ID ` set (PassengerStations n)) d) \<and> distinct (map dep_ID departures) \<and>
    (\<forall>t. sum_list (map (\<lambda>a. arrivalLoad a t) arrivals) + sum_list (map (\<lambda>d. departureLoad d t) departures)
       \<le> MaxRailRelease) \<and>
    sum_list (map dep_Passengers departures) \<le> MaxRailDeparturePassengers"

lemma validateRailServices_good:
  assumes "validateRailServices arrivals departures n = Inr ()"
  shows "goodPlan arrivals departures n"
proof -
  let ?p = "st_ID ` set (PassengerStations n)"
  from assms have arr: "validateArrivalsLoop ?p arrivals {} 0 (\<lambda>_. 0) = Inr ()"
    and dep: "validateDeparturesLoop ?p departures {} (sum_list (map arr_Passengers arrivals)) 0 (arrivalReleases arrivals) = Inr ()"
    by (auto simp: validateRailServices_def validateRailArrivals_def split: sum.splits if_splits)
  have zero: "\<forall>t. (\<lambda>_. 0) (t :: int) \<le> MaxRailRelease" by (simp add: MaxRailRelease_def)
  note a = validateArrivalsLoop_ok [OF arr zero]
  then have "\<forall>t. arrivalReleases arrivals t \<le> MaxRailRelease" by (simp add: arrivalReleases_sum)
  note d = validateDeparturesLoop_ok [OF dep this]
  have "sum_list (map dep_Passengers departures) \<le> MaxRailDeparturePassengers"
    using d by (cases "departures = []") (auto simp: MaxRailDeparturePassengers_def)
  with a d show ?thesis by (simp add: goodPlan_def arrivalReleases_sum)
qed

section \<open>The schedule\<close>

text \<open>The law of \<open>rand.IntN\<close>: for a positive bound the value is not negative and below the bound.\<close>

definition drawLaw :: "(string \<Rightarrow> nat \<Rightarrow> int \<Rightarrow> int) \<Rightarrow> bool" where
  "drawLaw draw \<longleftrightarrow> (\<forall>event k n. 0 < n \<longrightarrow> 0 \<le> draw event k n \<and> draw event k n < n)"

lemma pickStop_Some:
  "0 \<le> target \<Longrightarrow> target < totalWeight stops \<Longrightarrow> \<exists>stop\<in>set stops. pickStop target stops = Some stop"
proof (induction stops arbitrary: target)
  case (Cons stop stops)
  then show ?case by (auto simp: totalWeight_def)
qed (simp add: totalWeight_def)

lemma totalWeight_pos: "goodStops hub passenger stops \<Longrightarrow> 0 < totalWeight stops"
proof -
  assume good: "goodStops hub passenger stops"
  then obtain stop rest where stops: "stops = stop # rest" by (cases stops) (auto simp: goodStops_def)
  with good have "1 \<le> origin_Weight stop" "\<forall>s\<in>set rest. 0 \<le> origin_Weight s" by (auto simp: goodStops_def)
  then have "0 < origin_Weight stop + sum_list (map origin_Weight rest)"
    by (intro add_pos_nonneg sum_list_nonneg) auto
  then show ?thesis by (simp add: totalWeight_def stops)
qed

lemma pick_drawn:
  assumes "drawLaw draw" and "goodStops hub passenger stops"
  shows "\<exists>stop\<in>set stops. pickStop (draw event k (totalWeight stops)) stops = Some stop"
  using assms totalWeight_pos [OF assms(2)] by (intro pickStop_Some) (auto simp: drawLaw_def)

lemma map_filter_Some:
  "(\<And>x. x \<in> set xs \<Longrightarrow> \<exists>y. f x = Some y) \<Longrightarrow> List.map_filter f xs = map (\<lambda>x. the (f x)) xs"
  by (induction xs) (auto simp: List.map_filter_def)

lemma departureOffers_map:
  assumes "drawLaw draw" and "goodDeparture passenger d"
  shows "\<exists>from. departureOffers draw d =
    map (\<lambda>k. \<lparr>offer_Tick = DepartureOfferTick d (int k + 1), offer_Event = dep_ID d,
            offer_Passenger = int k + 1, offer_From = from k, offer_To = dep_Station d,
            offer_Kind = ''departure'', offer_DepartureTick = dep_AtSeconds d * TicksPerSecond,
            offer_WalkingTicks = dep_WalkingSeconds d * TicksPerSecond\<rparr>) [0..<nat (dep_Passengers d)] \<and>
    (\<forall>k. from k \<in> origin_Station ` set (dep_Origins d))"
proof -
  have stops: "goodStops (dep_Station d) passenger (dep_Origins d)" using assms(2) by (simp add: goodDeparture_def)
  define stop where "stop k = the (pickStop (draw (dep_ID d) k (totalWeight (dep_Origins d))) (dep_Origins d))" for k
  have stop: "pickStop (draw (dep_ID d) k (totalWeight (dep_Origins d))) (dep_Origins d) = Some (stop k)"
    "stop k \<in> set (dep_Origins d)" for k
    using pick_drawn [OF assms(1) stops, of "dep_ID d" k] by (auto simp: stop_def)
  show ?thesis
    using stop(2) by (intro exI [of _ "\<lambda>k. origin_Station (stop k)"])
      (simp add: departureOffers_def stop(1) map_filter_Some)
qed

lemma arrivalOffers_map:
  assumes "drawLaw draw" and "goodArrival passenger a"
  shows "\<exists>to. arrivalOffers draw a =
    map (\<lambda>k. \<lparr>offer_Tick = railReleaseTick a, offer_Event = arr_ID a,
            offer_Passenger = int k + 1, offer_From = arr_Station a, offer_To = to k,
            offer_Kind = ''arrival'', offer_DepartureTick = 0, offer_WalkingTicks = 0\<rparr>) [0..<nat (arr_Passengers a)] \<and>
    (\<forall>k. to k \<in> origin_Station ` set (arr_Destinations a))"
proof -
  have stops: "goodStops (arr_Station a) passenger (arr_Destinations a)" using assms(2) by (simp add: goodArrival_def)
  define stop where "stop k = the (pickStop (draw (arr_ID a) k (totalWeight (arr_Destinations a))) (arr_Destinations a))" for k
  have stop: "pickStop (draw (arr_ID a) k (totalWeight (arr_Destinations a))) (arr_Destinations a) = Some (stop k)"
    "stop k \<in> set (arr_Destinations a)" for k
    using pick_drawn [OF assms(1) stops, of "arr_ID a" k] by (auto simp: stop_def)
  show ?thesis
    using stop(2) by (intro exI [of _ "\<lambda>k. origin_Station (stop k)"])
      (simp add: arrivalOffers_def stop(1) map_filter_Some)
qed

lemma sum_list_indicator_none: "d \<notin> set xs \<Longrightarrow> sum_list (map (\<lambda>e. if e = d then 1 else 0 :: int) xs) = 0"
  by (induction xs) auto

lemma sum_list_indicator:
  "distinct xs \<Longrightarrow> d \<in> set xs \<Longrightarrow> sum_list (map (\<lambda>e. if e = d then 1 else 0 :: int) xs) = 1"
  by (induction xs) (auto simp: sum_list_indicator_none)

lemma tally_sort_key [simp]: "tally p (sort_key f xs) = tally p xs"
  by (metis mset_filter mset_sort size_mset tally_def)

lemma tally_concat: "tally p (concat xss) = sum_list (map (tally p) xss)"
  by (induction xss) simp_all

lemma tally_map: "tally p (map f xs) = tally (\<lambda>x. p (f x)) xs"
  by (simp add: tally_def filter_map comp_def)

lemma upto_upt: "0 \<le> n \<Longrightarrow> [1..n] = map (\<lambda>k. int k + 1) [0..<nat n]"
proof (induction "nat n" arbitrary: n)
  case (Suc m)
  then have n: "nat n = Suc m" "n = int m + 1" by linarith+
  then have "[1..int m] = map (\<lambda>k. int k + 1) [0..<m]" using Suc(1) [of "int m"] by simp
  moreover have "[1..n] = [1..int m] @ [n]" using n upto_rec2 [of 1 n] by simp
  ultimately show ?case using n by simp
qed simp

lemma departureOffers_load:
  assumes "drawLaw draw" and "goodDeparture passenger d"
  shows "tally (\<lambda>o'. offer_Tick o' = t) (departureOffers draw d) = departureLoad d t"
  using departureOffers_map [OF assms] assms(2)
  by (auto simp: departureLoad_def upto_upt goodDeparture_def tally_map)

lemma arrivalOffers_load:
  assumes "drawLaw draw" and "goodArrival passenger a"
  shows "tally (\<lambda>o'. offer_Tick o' = t) (arrivalOffers draw a) = arrivalLoad a t"
  using arrivalOffers_map [OF assms] assms(2)
  by (auto simp: arrivalLoad_def goodArrival_def tally_map tally_def)

lemma schedule_filter:
  assumes plan: "goodPlan arrivals departures n" and draws: "drawLaw draw1" "drawLaw draw2"
  shows "tally p (RailServicesSchedule draw1 draw2 arrivals departures) =
    sum_list (map (\<lambda>a. tally p (arrivalOffers draw1 a)) arrivals) +
    sum_list (map (\<lambda>d. tally p (departureOffers draw2 d)) departures)"
proof (cases "sum_list (map arr_Passengers arrivals) + sum_list (map dep_Passengers departures) = 0")
  case True
  have pos: "0 < sum_list (map f xs)" if "xs \<noteq> []" "\<forall>x\<in>set xs. 1 \<le> f x" for f :: "'b \<Rightarrow> int" and xs
    using that by (induction xs) (auto, metis add_pos_nonneg add.right_neutral int_one_le_iff_zero_less le_less list.map_disc_iff list.simps(8) sum_list.Nil)
  have ge: "0 \<le> sum_list (map arr_Passengers arrivals)" "0 \<le> sum_list (map dep_Passengers departures)"
    using plan by (auto intro!: sum_list_nonneg simp: goodPlan_def goodArrival_def goodDeparture_def, force+)
  with True pos [of arrivals arr_Passengers] pos [of departures dep_Passengers] plan
  have "arrivals = []" "departures = []"
    by (fastforce simp: goodPlan_def goodArrival_def goodDeparture_def)+
  with True show ?thesis by (simp add: RailServicesSchedule_def)
next
  case False
  then show ?thesis
    by (simp add: RailServicesSchedule_def RailSchedule_def tally_concat comp_def)
qed


section \<open>Concrete plans\<close>

definition trainAtTen :: RailDeparture where
  "trainAtTen =
    \<lparr>dep_ID = ''t'', dep_Station = ''hub'', dep_AtSeconds = 600, dep_WalkingSeconds = 60,
     dep_RequestFromSeconds = 0, dep_RequestUntilSeconds = 300, dep_Passengers = 3,
     dep_Origins = [\<lparr>origin_Station = ''home'', origin_Weight = 1\<rparr>]\<rparr>"

definition hubNetwork :: Network where
  "hubNetwork =
    (let station = (\<lambda>ident. \<lparr>st_VehicleClasses = 0, st_ID = ident, st_Name = ident, st_Entry = [], st_Exit = [],
         st_Berths = [], st_ParkingOnly = False, st_Banks = None\<rparr>)
     in \<lparr>net_Nodes = [], net_Lanes = [], net_Stations = [station ''hub'', station ''home''],
         net_ManeuverGroups = [], net_Depots = []\<rparr>)"

lemmas plan_eval =
  validateRailDeparture_def validateRailOrigins_def MaxIDLength_def MaxRailRelease_def MaxRailWeight_def
  MaxRailDestinations_def MaxRailArrivals_def MaxRailPassengers_def MaxRailDeparturePassengers_def
  TicksPerSecond_def

theorem departure_offer_window_witness:
  "validateRailDeparture trainAtTen {''hub'', ''home''} {} = Inr () \<and>
   DepartureOfferTick trainAtTen 1 \<le> DepartureOfferTick trainAtTen 3 \<and>
   DepartureOfferTick trainAtTen 3 + 3600 < 36000"
proof -
  have h: "validateRailDeparture trainAtTen {''hub'', ''home''} {} = Inr ()"
    by (simp add: trainAtTen_def plan_eval)
  have p: "dep_Passengers trainAtTen = 3" by (simp add: trainAtTen_def)
  show ?thesis
    using h departure_offer_window [OF h, of 1 3] by (simp add: p) (simp add: trainAtTen_def TicksPerSecond_def)
qed


end
