(* ===== verification/Rail.thy ===== *)
theory Rail
  imports RailTheorems GoHeap
begin

text \<open>
  The connection ledger of \<open>internal/rail/connections.go\<close>: outbound offers, the deadlines of their
  trains in a binary heap, the outcomes and their counts, and the restore of a saved ledger. Of a
  saved state and a saved request the ledger reads the fields of \<open>SavedState\<close> and
  \<open>SavedRequest\<close> below. A Go map is a map; the heap is the slice of \<open>GoHeap\<close>.
\<close>

section \<open>Data\<close>

record Counts =
  cn_Made :: int
  cn_Missed :: int
  cn_Unserved :: int
  cn_Unresolved :: int

record Connection =
  rc_Event :: string
  rc_Passenger :: int
  rc_RequestedTick :: int
  rc_From :: string
  rc_To :: string
  rc_RequestID :: int
  rc_AlightedTick :: int
  rc_Outcome :: string
  rc_Reason :: string

datatype deadline = Deadline (dl_tick: int) (dl_index: nat)

instantiation deadline :: linorder
begin

definition less_deadline :: "deadline \<Rightarrow> deadline \<Rightarrow> bool" where
  "less_deadline a b = (dl_tick a < dl_tick b \<or> dl_tick a = dl_tick b \<and> dl_index a < dl_index b)"

definition less_eq_deadline :: "deadline \<Rightarrow> deadline \<Rightarrow> bool" where
  "less_eq_deadline a b = (a = b \<or> a < b)"

instance
proof
  fix a b :: deadline
  show "a \<le> b \<or> b \<le> a"
    by (cases a; cases b) (auto simp: less_deadline_def less_eq_deadline_def)
qed (auto simp: less_deadline_def less_eq_deadline_def)

end

record Connections =
  cs_departures :: "string \<rightharpoonup> RailDeparture"
  cs_records :: "Connection list"
  cs_issued :: "string \<times> int \<rightharpoonup> nat"
  cs_requests :: "int \<rightharpoonup> nat"
  cs_deadlines :: "deadline list"
  cs_counts :: Counts

record StepCompletion =
  sc_RequestID :: int
  sc_AlightedTick :: int

record SavedRequest =
  sr_ID :: int
  sr_From :: string
  sr_To :: string
  sr_RequestedTick :: int
  sr_Completed :: bool

record SavedState =
  ss_Tick :: int
  ss_RequestID :: int
  ss_Waiting :: "SavedRequest list"
  ss_PodRiders :: "SavedRequest list list"

record RestoreResult =
  rr_Dropped :: "int list"
  rr_LogicalCompleted :: "int list"
  rr_Interrupted :: "int list"

datatype ledger_error =
    InvalidOffer string int
  | LedgerBound string int
  | InvalidReceipt string
  | DuplicateRequest int
  | RestoreBound
  | DuplicateBinding int
  | InvalidSaved string int
  | InvalidTimes string
  | InvalidOutcome string
  | BindingMismatch string
  | NoActiveRequest string
  | DuplicateSavedRequest int
  | CountMismatch

section \<open>Building and adding\<close>

definition zeroCounts :: Counts where
  "zeroCounts = \<lparr>cn_Made = 0, cn_Missed = 0, cn_Unserved = 0, cn_Unresolved = 0\<rparr>"

definition NewConnections :: "RailDeparture list \<Rightarrow> Connections" where
  "NewConnections departures =
    \<lparr>cs_departures = fold (\<lambda>d m. m(dep_ID d \<mapsto> d)) departures Map.empty, cs_records = [],
     cs_issued = Map.empty, cs_requests = Map.empty, cs_deadlines = [], cs_counts = zeroCounts\<rparr>"

definition Issued :: "Connections \<Rightarrow> string \<Rightarrow> int \<Rightarrow> bool" where
  "Issued c event passenger = (cs_issued c (event, passenger) \<noteq> None)"

definition departureTick :: "RailDeparture \<Rightarrow> int" where
  "departureTick d = dep_AtSeconds d * TicksPerSecond"

definition validOffer :: "RailDeparture \<Rightarrow> int \<Rightarrow> int \<Rightarrow> string \<Rightarrow> string \<Rightarrow> bool" where
  "validOffer departure tick passenger from to =
    (passenger \<ge> 1 \<and> passenger \<le> dep_Passengers departure \<and>
     tick = DepartureOfferTick departure passenger \<and> to = dep_Station departure \<and>
     list_ex (\<lambda>origin. origin_Station origin = from) (dep_Origins departure))"

definition countOutcome :: "string \<Rightarrow> Counts \<Rightarrow> Counts" where
  "countOutcome outcome counts =
    (if outcome = ''pending'' then counts\<lparr>cn_Unresolved := cn_Unresolved counts + 1\<rparr>
     else if outcome = ''made'' then counts\<lparr>cn_Made := cn_Made counts + 1\<rparr>
     else if outcome = ''missed'' then counts\<lparr>cn_Missed := cn_Missed counts + 1\<rparr>
     else if outcome = ''unserved'' then counts\<lparr>cn_Unserved := cn_Unserved counts + 1\<rparr>
     else counts)"

definition append_record :: "Connection \<Rightarrow> RailDeparture \<Rightarrow> Connections \<Rightarrow> Connections" where
  "append_record record departure c =
    (let index = length (cs_records c);
         c1 = c\<lparr>cs_records := cs_records c @ [record],
                cs_issued := (cs_issued c)((rc_Event record, rc_Passenger record) \<mapsto> index),
                cs_requests := (if rc_RequestID record > 0
                  then (cs_requests c)(rc_RequestID record \<mapsto> index) else cs_requests c),
                cs_counts := countOutcome (rc_Outcome record) (cs_counts c)\<rparr>
     in if rc_Outcome record = ''pending''
        then c1\<lparr>cs_deadlines := heap_push (Deadline (departureTick departure) index) (cs_deadlines c)\<rparr>
        else c1)"

definition Add :: "RailServiceOffer \<Rightarrow> int \<Rightarrow> string \<Rightarrow> Connections \<Rightarrow> (ledger_error, Connections) result" where
  "Add offer requestID reason c =
    (case cs_departures c (offer_Event offer) of
       None \<Rightarrow> Inl (InvalidOffer (offer_Event offer) (offer_Passenger offer))
     | Some departure \<Rightarrow>
         if offer_Kind offer \<noteq> ''departure'' \<or>
           \<not> validOffer departure (offer_Tick offer) (offer_Passenger offer) (offer_From offer) (offer_To offer) \<or>
           offer_DepartureTick offer \<noteq> departureTick departure \<or>
           offer_WalkingTicks offer \<noteq> dep_WalkingSeconds departure * TicksPerSecond
         then Inl (InvalidOffer (offer_Event offer) (offer_Passenger offer))
         else if int (length (cs_records c)) \<ge> MaxRailDeparturePassengers \<or>
           Issued c (offer_Event offer) (offer_Passenger offer)
         then Inl (LedgerBound (offer_Event offer) (offer_Passenger offer))
         else if requestID < 0 \<or> requestID = 0 \<and> reason \<noteq> ''queue-limit'' \<and> reason \<noteq> ''request-error'' \<or>
           requestID > 0 \<and> reason \<noteq> []
         then Inl (InvalidReceipt (offer_Event offer))
         else if requestID > 0 \<and> cs_requests c requestID \<noteq> None then Inl (DuplicateRequest requestID)
         else
           Inr (append_record
             \<lparr>rc_Event = offer_Event offer, rc_Passenger = offer_Passenger offer, rc_RequestedTick = offer_Tick offer,
              rc_From = offer_From offer, rc_To = offer_To offer, rc_RequestID = requestID, rc_AlightedTick = - 1,
              rc_Outcome = (if requestID = 0 then ''unserved'' else ''pending''), rc_Reason = reason\<rparr>
             departure c))"

section \<open>Time\<close>

definition updateRecord :: "nat \<Rightarrow> (Connection \<Rightarrow> Connection) \<Rightarrow> Connections \<Rightarrow> Connections" where
  "updateRecord index f c = c\<lparr>cs_records := (cs_records c)[index := f (cs_records c ! index)]\<rparr>"

definition completeRecord :: "StepCompletion \<Rightarrow> Connections \<Rightarrow> Connections" where
  "completeRecord completion c =
    (case cs_requests c (sc_RequestID completion) of
       None \<Rightarrow> c
     | Some index \<Rightarrow>
         let record = cs_records c ! index in
         if rc_AlightedTick record = - 1 \<and> (rc_Outcome record = ''pending'' \<or> rc_Outcome record = ''missed'')
         then updateRecord index (rc_AlightedTick_update (\<lambda>_. sc_AlightedTick completion)) c
         else c)"

text \<open>The zero departure stands for a missing key, as a Go map returns it.\<close>

definition zeroDeparture :: RailDeparture where
  "zeroDeparture =
    \<lparr>dep_ID = [], dep_Station = [], dep_AtSeconds = 0, dep_WalkingSeconds = 0, dep_RequestFromSeconds = 0,
     dep_RequestUntilSeconds = 0, dep_Passengers = 0, dep_Origins = []\<rparr>"

definition departureOf :: "Connections \<Rightarrow> string \<Rightarrow> RailDeparture" where
  "departureOf c event = (case cs_departures c event of Some d \<Rightarrow> d | None \<Rightarrow> zeroDeparture)"

definition scoreDeadline :: "deadline \<Rightarrow> Connections \<Rightarrow> Connections" where
  "scoreDeadline entry c =
    (let record = cs_records c ! dl_index entry in
      if rc_Outcome record \<noteq> ''pending'' then c
      else
        let departure = departureOf c (rc_Event record);
            ready = rc_AlightedTick record + dep_WalkingSeconds departure * TicksPerSecond;
            counts = (cs_counts c)\<lparr>cn_Unresolved := cn_Unresolved (cs_counts c) - 1\<rparr> in
        if rc_AlightedTick record \<ge> 0 \<and> ready \<le> dl_tick entry
        then (updateRecord (dl_index entry) (rc_Outcome_update (\<lambda>_. ''made'')) c)
          \<lparr>cs_counts := counts\<lparr>cn_Made := cn_Made counts + 1\<rparr>\<rparr>
        else (updateRecord (dl_index entry) (rc_Outcome_update (\<lambda>_. ''missed'')) c)
          \<lparr>cs_counts := counts\<lparr>cn_Missed := cn_Missed counts + 1\<rparr>\<rparr>)"

lemma scoreDeadline_deadlines [simp]: "cs_deadlines (scoreDeadline entry c) = cs_deadlines c"
  by (simp add: scoreDeadline_def updateRecord_def Let_def)

function scoreDeadlines :: "int \<Rightarrow> Connections \<Rightarrow> Connections" where
  "scoreDeadlines tick c =
    (case heap_peek (cs_deadlines c) of
       None \<Rightarrow> c
     | Some first \<Rightarrow>
         if dl_tick first > tick then c
         else case heap_pop (cs_deadlines c) of
           None \<Rightarrow> c
         | Some (entry, rest) \<Rightarrow> scoreDeadlines tick (scoreDeadline entry (c\<lparr>cs_deadlines := rest\<rparr>)))"
  by pat_completeness auto
termination
  by (relation "measure (\<lambda>(tick, c). length (cs_deadlines c))") (auto dest: length_heap_pop)

declare scoreDeadlines.simps [simp del]

definition Advance :: "int \<Rightarrow> StepCompletion list \<Rightarrow> Connections \<Rightarrow> Connections" where
  "Advance tick completions c = scoreDeadlines tick (fold completeRecord completions c)"

definition interruptOrder :: "int \<Rightarrow> int \<Rightarrow> Connections \<Rightarrow> Connections" where
  "interruptOrder tick order c =
    (case cs_requests c order of
       None \<Rightarrow> c
     | Some index \<Rightarrow>
         let record = cs_records c ! index in
         if rc_Outcome record \<noteq> ''pending'' \<or> rc_RequestedTick record > tick then c
         else (updateRecord index (\<lambda>r. r\<lparr>rc_Outcome := ''unserved'', rc_Reason := ''interrupted''\<rparr>) c)
           \<lparr>cs_counts := (cs_counts c)\<lparr>cn_Unresolved := cn_Unresolved (cs_counts c) - 1,
              cn_Unserved := cn_Unserved (cs_counts c) + 1\<rparr>\<rparr>)"

definition Interrupt :: "int \<Rightarrow> int list \<Rightarrow> Connections \<Rightarrow> Connections" where
  "Interrupt tick orders c = fold (interruptOrder tick) orders c"

section \<open>Restore\<close>

definition unservedRecordValid :: "Connection \<Rightarrow> bool" where
  "unservedRecordValid record =
    (rc_AlightedTick record = - 1 \<and>
     (rc_RequestID record = 0 \<and> (rc_Reason record = ''queue-limit'' \<or> rc_Reason record = ''request-error'') \<or>
      rc_RequestID record > 0 \<and>
        (rc_Reason record = ''restore-drop'' \<or> rc_Reason record = ''restore-degraded'' \<or> rc_Reason record = ''interrupted'')))"

definition recordTimesValid :: "Connection \<Rightarrow> int \<Rightarrow> int \<Rightarrow> bool" where
  "recordTimesValid record tick submitted =
    (rc_RequestedTick record \<le> tick \<and> rc_RequestID record \<ge> 0 \<and> rc_RequestID record \<le> submitted \<and>
     rc_AlightedTick record \<ge> - 1 \<and>
     (rc_AlightedTick record < 0 \<or>
      rc_AlightedTick record \<ge> rc_RequestedTick record \<and> rc_AlightedTick record \<le> tick))"

definition recordOutcomeValid :: "Connection \<Rightarrow> RailDeparture \<Rightarrow> int \<Rightarrow> bool" where
  "recordOutcomeValid record departure tick =
    (let ready = rc_AlightedTick record + dep_WalkingSeconds departure * TicksPerSecond;
         accepted = (rc_RequestID record > 0 \<and> rc_Reason record = []) in
      if rc_Outcome record = ''pending'' then accepted \<and> tick < departureTick departure
      else if rc_Outcome record = ''made''
      then accepted \<and> tick \<ge> departureTick departure \<and> rc_AlightedTick record \<ge> 0 \<and> ready \<le> departureTick departure
      else if rc_Outcome record = ''missed''
      then accepted \<and> tick \<ge> departureTick departure \<and> (rc_AlightedTick record = - 1 \<or> ready > departureTick departure)
      else if rc_Outcome record = ''unserved'' then unservedRecordValid record
      else False)"

record requestBinding =
  rb_request :: SavedRequest
  rb_active :: bool

definition recordMatchesBinding :: "Connection \<Rightarrow> requestBinding \<Rightarrow> bool" where
  "recordMatchesBinding record binding =
    (let request = rb_request binding in
      sr_From request = rc_From record \<and> sr_To request = rc_To record \<and>
      sr_RequestedTick request = rc_RequestedTick record \<and>
      (\<not> rb_active binding \<or> rc_AlightedTick record < 0 \<and> rc_Outcome record \<noteq> ''unserved''))"

fun addBindings ::
  "(SavedRequest \<times> bool) list \<Rightarrow> (int \<rightharpoonup> requestBinding) \<Rightarrow> (ledger_error, int \<rightharpoonup> requestBinding) result" where
  "addBindings [] bindings = Inr bindings"
| "addBindings ((request, active) # rest) bindings =
    (if bindings (sr_ID request) \<noteq> None then Inl (DuplicateBinding (sr_ID request))
     else addBindings rest (bindings(sr_ID request \<mapsto> \<lparr>rb_request = request, rb_active = active\<rparr>)))"

definition savedBindings :: "SavedState \<Rightarrow> (ledger_error, int \<rightharpoonup> requestBinding) result" where
  "savedBindings state =
    addBindings (map (\<lambda>r. (r, True)) (ss_Waiting state) @
      map (\<lambda>r. (r, \<not> sr_Completed r)) (concat (ss_PodRiders state))) Map.empty"

definition validateRecord ::
  "Connection \<Rightarrow> RailDeparture \<Rightarrow> int \<Rightarrow> int \<Rightarrow> (int \<rightharpoonup> requestBinding) \<Rightarrow> (ledger_error, unit) result" where
  "validateRecord record departure tick submitted bindings =
    (if \<not> recordTimesValid record tick submitted then Inl (InvalidTimes (rc_Event record))
     else if \<not> recordOutcomeValid record departure tick then Inl (InvalidOutcome (rc_Event record))
     else if rc_RequestID record > 0 \<and>
       (case bindings (rc_RequestID record) of None \<Rightarrow> False | Some b \<Rightarrow> \<not> recordMatchesBinding record b)
     then Inl (BindingMismatch (rc_Event record))
     else if rc_Outcome record = ''pending'' \<and> rc_AlightedTick record = - 1 \<and>
       (case bindings (rc_RequestID record) of None \<Rightarrow> True | Some b \<Rightarrow> \<not> rb_active b)
     then Inl (NoActiveRequest (rc_Event record))
     else Inr ())"

fun restoreLoop ::
  "SavedState \<Rightarrow> (int \<rightharpoonup> requestBinding) \<Rightarrow> Connection list \<Rightarrow> Connections \<Rightarrow> (ledger_error, Connections) result" where
  "restoreLoop state bindings [] c = Inr c"
| "restoreLoop state bindings (record # rest) c =
    (case cs_departures c (rc_Event record) of
       None \<Rightarrow> Inl (InvalidSaved (rc_Event record) (rc_Passenger record))
     | Some departure \<Rightarrow>
         if Issued c (rc_Event record) (rc_Passenger record) \<or>
           \<not> validOffer departure (rc_RequestedTick record) (rc_Passenger record) (rc_From record) (rc_To record)
         then Inl (InvalidSaved (rc_Event record) (rc_Passenger record))
         else case validateRecord record departure (ss_Tick state) (ss_RequestID state) bindings of
           Inl e \<Rightarrow> Inl e
         | Inr _ \<Rightarrow>
             if rc_RequestID record > 0 \<and> cs_requests c (rc_RequestID record) \<noteq> None
             then Inl (DuplicateSavedRequest (rc_RequestID record))
             else restoreLoop state bindings rest (append_record record departure c))"

definition RestoreConnections ::
  "RailDeparture list \<Rightarrow> Connection list \<Rightarrow> SavedState \<Rightarrow> Counts \<Rightarrow> (ledger_error, Connections) result" where
  "RestoreConnections departures records state counts =
    (if int (length records) > MaxRailDeparturePassengers \<or> records \<noteq> [] \<and> departures = [] then Inl RestoreBound
     else case savedBindings state of
       Inl e \<Rightarrow> Inl e
     | Inr bindings \<Rightarrow>
    (case restoreLoop state bindings records (NewConnections departures) of
       Inl e \<Rightarrow> Inl e
     | Inr c \<Rightarrow> if cs_counts c \<noteq> counts then Inl CountMismatch else Inr c))"

text \<open>The change that a restore receipt makes to each record, by index.\<close>

fun reconcileChanges ::
  "SavedState \<Rightarrow> RestoreResult \<Rightarrow> (int \<rightharpoonup> requestBinding) \<Rightarrow> Connections \<Rightarrow> Connection list \<Rightarrow>
    (ledger_error, string option list) result" where
  "reconcileChanges state result bindings c [] = Inr []"
| "reconcileChanges state result bindings c (record # rest) =
    (let here = (if rc_Outcome record \<noteq> ''pending'' \<or> rc_AlightedTick record \<ge> 0 then Inr None
         else if rc_RequestID record \<in> set (rr_Dropped result) then Inr (Some ''restore-drop'')
         else if rc_RequestID record \<in> set (rr_LogicalCompleted result) then Inr (Some ''restore-degraded'')
         else if rc_RequestID record \<in> set (rr_Interrupted result) then Inr (Some ''interrupted'')
         else map_sum id (\<lambda>_. None)
           (validateRecord record (departureOf c (rc_Event record)) (ss_Tick state) (ss_RequestID state) bindings))
     in case here of
          Inl e \<Rightarrow> Inl e
        | Inr change \<Rightarrow> map_sum id (Cons change) (reconcileChanges state result bindings c rest))"

definition applyChange :: "Connection \<Rightarrow> string option \<Rightarrow> Connection" where
  "applyChange record change =
    (case change of None \<Rightarrow> record | Some reason \<Rightarrow> record\<lparr>rc_Outcome := ''unserved'', rc_Reason := reason\<rparr>)"

definition ReconcileRestore ::
  "SavedState \<Rightarrow> RestoreResult \<Rightarrow> Connections \<Rightarrow> (ledger_error, Connections) result" where
  "ReconcileRestore state result c =
    (case savedBindings state of
       Inl e \<Rightarrow> Inl e
     | Inr bindings \<Rightarrow>
    (case reconcileChanges state result bindings c (cs_records c) of
       Inl e \<Rightarrow> Inl e
     | Inr changes \<Rightarrow>
         let n = tally (\<lambda>change. change \<noteq> None) changes in
         Inr (c\<lparr>cs_records := map2 applyChange (cs_records c) changes,
                cs_counts := (cs_counts c)\<lparr>cn_Unresolved := cn_Unresolved (cs_counts c) - n,
                  cn_Unserved := cn_Unserved (cs_counts c) + n\<rparr>\<rparr>)))"

end
