(* ===== verification/RailLedger.thy ===== *)
theory RailLedger
  imports Rail
begin

text \<open>
  Properties of the connection ledger. The heap, the two indexes and the counts refine a plain
  list of records that move on their own: \<open>completeOne\<close>, \<open>interruptOne\<close> and \<open>scoreOne\<close> are the
  moves of one record, and the operations of the ledger are their maps. The history of a ledger is
  the step relation \<open>ledgerStep\<close>.
\<close>

section \<open>The moves of one record\<close>

definition completeOne :: "StepCompletion \<Rightarrow> Connection \<Rightarrow> Connection" where
  "completeOne completion r =
    (if rc_RequestID r > 0 \<and> rc_RequestID r = sc_RequestID completion \<and> rc_AlightedTick r = - 1 \<and>
       (rc_Outcome r = ''pending'' \<or> rc_Outcome r = ''missed'')
     then r\<lparr>rc_AlightedTick := sc_AlightedTick completion\<rparr> else r)"

definition interruptOne :: "int \<Rightarrow> int \<Rightarrow> Connection \<Rightarrow> Connection" where
  "interruptOne tick order r =
    (if rc_RequestID r > 0 \<and> rc_RequestID r = order \<and> rc_Outcome r = ''pending'' \<and> rc_RequestedTick r \<le> tick
     then r\<lparr>rc_Outcome := ''unserved'', rc_Reason := ''interrupted''\<rparr> else r)"

definition scoreOne :: "(string \<Rightarrow> RailDeparture) \<Rightarrow> int \<Rightarrow> Connection \<Rightarrow> Connection" where
  "scoreOne plan tick r =
    (let d = plan (rc_Event r) in
      if rc_Outcome r = ''pending'' \<and> departureTick d \<le> tick
      then r\<lparr>rc_Outcome :=
        if rc_AlightedTick r \<ge> 0 \<and> rc_AlightedTick r + dep_WalkingSeconds d * TicksPerSecond \<le> departureTick d
        then ''made'' else ''missed''\<rparr>
      else r)"

definition tallies :: "Connection list \<Rightarrow> Counts" where
  "tallies rs =
    \<lparr>cn_Made = tally (\<lambda>r. rc_Outcome r = ''made'') rs, cn_Missed = tally (\<lambda>r. rc_Outcome r = ''missed'') rs,
     cn_Unserved = tally (\<lambda>r. rc_Outcome r = ''unserved'') rs,
     cn_Unresolved = tally (\<lambda>r. rc_Outcome r = ''pending'') rs\<rparr>"

section \<open>The data invariant\<close>

text \<open>\<open>X\<close> holds the pending records whose deadline has just left the heap.\<close>

definition wired_off :: "nat set \<Rightarrow> Connections \<Rightarrow> bool" where
  "wired_off X c \<longleftrightarrow>
    heap_inv (cs_deadlines c) \<and>
    (\<forall>e p i. cs_issued c (e, p) = Some i \<longleftrightarrow>
       i < length (cs_records c) \<and> rc_Event (cs_records c ! i) = e \<and> rc_Passenger (cs_records c ! i) = p) \<and>
    (\<forall>r i. cs_requests c r = Some i \<longleftrightarrow>
       i < length (cs_records c) \<and> rc_RequestID (cs_records c ! i) = r \<and> r > 0) \<and>
    (\<forall>i<length (cs_records c). cs_departures c (rc_Event (cs_records c ! i)) \<noteq> None) \<and>
    (\<forall>x\<in>#mset (cs_deadlines c). dl_index x < length (cs_records c) \<and>
       dl_tick x = departureTick (departureOf c (rc_Event (cs_records c ! dl_index x)))) \<and>
    (\<forall>i<length (cs_records c). rc_Outcome (cs_records c ! i) = ''pending'' \<longrightarrow>
       i \<in> X \<or> (\<exists>x\<in>#mset (cs_deadlines c). dl_index x = i)) \<and>
    cs_counts c = tallies (cs_records c)"

abbreviation wired :: "Connections \<Rightarrow> bool" where
  "wired \<equiv> wired_off {}"

definition keeps_key :: "(Connection \<Rightarrow> Connection) \<Rightarrow> Connection \<Rightarrow> bool" where
  "keeps_key f r \<longleftrightarrow> rc_Event (f r) = rc_Event r \<and> rc_Passenger (f r) = rc_Passenger r \<and>
    rc_RequestID (f r) = rc_RequestID r \<and> (rc_Outcome (f r) = ''pending'' \<longrightarrow> rc_Outcome r = ''pending'')"

lemma departureOf_simps [simp]:
  "departureOf (updateRecord i f c) = departureOf c"
  "departureOf (c\<lparr>cs_counts := n\<rparr>) = departureOf c"
  "departureOf (c\<lparr>cs_deadlines := h\<rparr>) = departureOf c"
  "departureOf (c\<lparr>cs_records := rs\<rparr>) = departureOf c"
  by (auto simp: departureOf_def updateRecord_def)

lemma updateRecord_sel [simp]:
  "cs_records (updateRecord i f c) = (cs_records c)[i := f (cs_records c ! i)]"
  "cs_departures (updateRecord i f c) = cs_departures c"
  "cs_issued (updateRecord i f c) = cs_issued c"
  "cs_requests (updateRecord i f c) = cs_requests c"
  "cs_deadlines (updateRecord i f c) = cs_deadlines c"
  "cs_counts (updateRecord i f c) = cs_counts c"
  by (auto simp: updateRecord_def)

lemma wired_pending:
  "wired_off X c \<Longrightarrow> j < length (cs_records c) \<Longrightarrow> rc_Outcome (cs_records c ! j) = ''pending'' \<Longrightarrow>
     j \<in> X \<or> (\<exists>x\<in>#mset (cs_deadlines c). dl_index x = j)"
  by (simp only: wired_off_def)

lemma wired_issued:
  "wired_off X c \<Longrightarrow> cs_issued c (e, p) = Some i \<longleftrightarrow>
     i < length (cs_records c) \<and> rc_Event (cs_records c ! i) = e \<and> rc_Passenger (cs_records c ! i) = p"
  by (simp only: wired_off_def)

lemma wired_requests:
  "wired_off X c \<Longrightarrow> cs_requests c r = Some i \<longleftrightarrow>
     i < length (cs_records c) \<and> rc_RequestID (cs_records c ! i) = r \<and> r > 0"
  by (simp only: wired_off_def)

lemma wired_entries:
  "wired_off X c \<Longrightarrow> \<forall>x\<in>#mset (cs_deadlines c). dl_index x < length (cs_records c) \<and>
     dl_tick x = departureTick (departureOf c (rc_Event (cs_records c ! dl_index x)))"
  unfolding wired_off_def by (elim conjE)

lemma wired_planned:
  "wired_off X c \<Longrightarrow> \<forall>i<length (cs_records c). cs_departures c (rc_Event (cs_records c ! i)) \<noteq> None"
  unfolding wired_off_def by (elim conjE)

lemma wired_heap: "wired_off X c \<Longrightarrow> heap_inv (cs_deadlines c)"
  unfolding wired_off_def by (elim conjE)

lemma wired_update:
  assumes w: "wired_off X c" and i: "i < length (cs_records c)" and k: "keeps_key f (cs_records c ! i)"
    and Y: "X \<subseteq> Y \<union> {i}" "i \<in> X \<Longrightarrow> rc_Outcome (f (cs_records c ! i)) = ''pending'' \<Longrightarrow> i \<in> Y"
    and n: "n = tallies ((cs_records c)[i := f (cs_records c ! i)])"
  shows "wired_off Y ((updateRecord i f c)\<lparr>cs_counts := n\<rparr>)"
proof -
  let ?rs = "(cs_records c)[i := f (cs_records c ! i)]"
  have same: "rc_Event (?rs ! j) = rc_Event (cs_records c ! j)" "rc_Passenger (?rs ! j) = rc_Passenger (cs_records c ! j)"
    "rc_RequestID (?rs ! j) = rc_RequestID (cs_records c ! j)"
    "rc_Outcome (?rs ! j) = ''pending'' \<Longrightarrow> rc_Outcome (cs_records c ! j) = ''pending''" for j
    using i k by (cases "j = i"; simp add: keeps_key_def)+
  have "j \<in> Y \<or> (\<exists>x\<in>#mset (cs_deadlines c). dl_index x = j)"
    if "j < length (cs_records c)" "rc_Outcome (?rs ! j) = ''pending''" for j
  proof -
    have "j \<in> X \<or> (\<exists>x\<in>#mset (cs_deadlines c). dl_index x = j)"
      by (rule wired_pending [OF w that(1) same(4) [OF that(2)]])
    moreover have "j \<in> Y" if "j \<in> X"
      using that Y \<open>rc_Outcome (?rs ! j) = ''pending''\<close> i by (cases "j = i") auto
    ultimately show ?thesis by blast
  qed
  then have cover: "\<forall>j<length (cs_records c). rc_Outcome (?rs ! j) = ''pending'' \<longrightarrow>
      j \<in> Y \<or> (\<exists>x\<in>#mset (cs_deadlines c). dl_index x = j)" by blast
  define c' where "c' = (updateRecord i f c)\<lparr>cs_counts := n\<rparr>"
  have sel: "cs_records c' = ?rs" "cs_deadlines c' = cs_deadlines c" "cs_issued c' = cs_issued c"
    "cs_requests c' = cs_requests c" "cs_departures c' = cs_departures c" "cs_counts c' = tallies ?rs"
    "departureOf c' = departureOf c"
    by (simp_all add: c'_def n)
  show ?thesis
    using w cover unfolding wired_off_def c'_def [symmetric] sel same length_list_update by blast
qed

lemma wired_index:
  assumes "wired_off X c" and "cs_requests c r = Some i"
  shows "i < length (cs_records c) \<and> rc_RequestID (cs_records c ! i) = r \<and> r > 0"
  using assms unfolding wired_off_def by blast

lemma wired_counts: "wired_off X c \<Longrightarrow> cs_counts c = tallies (cs_records c)"
  unfolding wired_off_def by blast

text \<open>A change of the record that a request names is the map of a move that tests the request ID.\<close>

lemma wired_map_update:
  assumes w: "wired_off X c" and i: "cs_requests c r = Some i"
    and f: "\<And>x. rc_RequestID x \<noteq> r \<Longrightarrow> f x = x"
  shows "(cs_records c)[i := f (cs_records c ! i)] = map f (cs_records c)"
proof (rule nth_equalityI)
  fix j assume j: "j < length ((cs_records c)[i := f (cs_records c ! i)])"
  have uniq: "j = i" if "rc_RequestID (cs_records c ! j) = r"
  proof -
    have "cs_requests c r = Some j"
      using w wired_index [OF w i] that j unfolding wired_off_def by auto
    with i show ?thesis by simp
  qed
  show "(cs_records c)[i := f (cs_records c ! i)] ! j = map f (cs_records c) ! j"
  proof (cases "j = i")
    case False
    then have "f (cs_records c ! j) = cs_records c ! j" using uniq f by blast
    with False j show ?thesis by simp
  qed (use j in simp)
qed simp

lemma wired_map_none:
  assumes w: "wired_off X c" and i: "cs_requests c r = None"
    and f: "\<And>x. \<not> (rc_RequestID x = r \<and> r > 0) \<Longrightarrow> f x = x"
  shows "map f (cs_records c) = cs_records c"
proof (rule map_idI)
  fix x assume "x \<in> set (cs_records c)"
  then obtain j where j: "j < length (cs_records c)" "x = cs_records c ! j" by (auto simp: in_set_conv_nth)
  have "\<not> (rc_RequestID x = r \<and> r > 0)"
  proof
    assume "rc_RequestID x = r \<and> r > 0"
    then have "cs_requests c r = Some j" using w j unfolding wired_off_def by auto
    with i show False by simp
  qed
  then show "f x = x" by (rule f)
qed

section \<open>The operations are maps\<close>

lemma completeRecord_map:
  assumes w: "wired_off X c"
  shows "wired_off X (completeRecord completion c) \<and>
    cs_records (completeRecord completion c) = map (completeOne completion) (cs_records c) \<and>
    cs_departures (completeRecord completion c) = cs_departures c"
proof (cases "cs_requests c (sc_RequestID completion)")
  case None
  have "map (completeOne completion) (cs_records c) = cs_records c"
    by (rule wired_map_none [OF w None]) (auto simp: completeOne_def)
  with w None show ?thesis by (simp add: completeRecord_def)
next
  case (Some i)
  note ix = wired_index [OF w Some]
  let ?r = "cs_records c ! i"
  have map: "map (completeOne completion) (cs_records c) = (cs_records c)[i := completeOne completion ?r]"
    using wired_map_update [OF w Some, of "completeOne completion"] by (simp add: completeOne_def)
  show ?thesis
  proof (cases "rc_AlightedTick ?r = - 1 \<and> (rc_Outcome ?r = ''pending'' \<or> rc_Outcome ?r = ''missed'')")
    case True
    let ?f = "rc_AlightedTick_update (\<lambda>_. sc_AlightedTick completion)"
    have c': "completeRecord completion c = (updateRecord i ?f c)\<lparr>cs_counts := cs_counts c\<rparr>"
      using Some True by (simp add: completeRecord_def Let_def updateRecord_def)
    have "completeOne completion ?r = ?f ?r" using True ix by (simp add: completeOne_def)
    moreover have "wired_off X (completeRecord completion c)"
      unfolding c'
    proof (rule wired_update [OF w])
      show "cs_counts c = tallies ((cs_records c)[i := ?f ?r])"
        using ix by (simp add: wired_counts [OF w] tallies_def tally_update)
    qed (use ix in \<open>auto simp: keeps_key_def\<close>)
    ultimately show ?thesis using map c' by simp
  next
    case False
    then have "completeRecord completion c = c"
      using Some by (simp add: completeRecord_def Let_def) argo
    moreover have "completeOne completion ?r = ?r" using False by (auto simp: completeOne_def)
    ultimately show ?thesis using map w ix by simp
  qed
qed

lemma completeRecords_map:
  "wired_off X c \<Longrightarrow> wired_off X (fold completeRecord completions c) \<and>
    cs_records (fold completeRecord completions c) = map (fold completeOne completions) (cs_records c) \<and>
    cs_departures (fold completeRecord completions c) = cs_departures c"
proof (induction completions arbitrary: c)
  case (Cons x xs)
  note step = completeRecord_map [OF Cons.prems, of x]
  show ?case
    using Cons.IH [OF step [THEN conjunct1]] step by (simp add: comp_def)
qed simp

lemma interruptOrder_map:
  assumes w: "wired_off X c"
  shows "wired_off X (interruptOrder tick order c) \<and>
    cs_records (interruptOrder tick order c) = map (interruptOne tick order) (cs_records c) \<and>
    cs_departures (interruptOrder tick order c) = cs_departures c"
proof (cases "cs_requests c order")
  case None
  have "map (interruptOne tick order) (cs_records c) = cs_records c"
    by (rule wired_map_none [OF w None]) (auto simp: interruptOne_def)
  with w None show ?thesis by (simp add: interruptOrder_def)
next
  case (Some i)
  note ix = wired_index [OF w Some]
  let ?r = "cs_records c ! i"
  have map: "map (interruptOne tick order) (cs_records c) = (cs_records c)[i := interruptOne tick order ?r]"
    using wired_map_update [OF w Some, of "interruptOne tick order"] by (simp add: interruptOne_def)
  show ?thesis
  proof (cases "rc_Outcome ?r = ''pending'' \<and> rc_RequestedTick ?r \<le> tick")
    case True
    let ?f = "\<lambda>r. r\<lparr>rc_Outcome := ''unserved'', rc_Reason := ''interrupted''\<rparr>"
    have c': "interruptOrder tick order c = (updateRecord i ?f c)\<lparr>cs_counts := (cs_counts c)
      \<lparr>cn_Unresolved := cn_Unresolved (cs_counts c) - 1, cn_Unserved := cn_Unserved (cs_counts c) + 1\<rparr>\<rparr>"
      using Some True by (simp add: interruptOrder_def Let_def updateRecord_def)
    have "interruptOne tick order ?r = ?f ?r" using True ix by (simp add: interruptOne_def)
    moreover have "wired_off X (interruptOrder tick order c)"
      unfolding c'
    proof (rule wired_update [OF w])
      show "(cs_counts c)\<lparr>cn_Unresolved := cn_Unresolved (cs_counts c) - 1,
          cn_Unserved := cn_Unserved (cs_counts c) + 1\<rparr> = tallies ((cs_records c)[i := ?f ?r])"
        using ix True by (simp add: wired_counts [OF w] tallies_def tally_update)
    qed (use ix in \<open>auto simp: keeps_key_def\<close>)
    ultimately show ?thesis using map c' by simp
  next
    case False
    then have "interruptOrder tick order c = c" using Some by (auto simp: interruptOrder_def Let_def)
    moreover have "interruptOne tick order ?r = ?r" using False by (auto simp: interruptOne_def)
    ultimately show ?thesis using map w ix by simp
  qed
qed

lemma Interrupt_map:
  "wired_off X c \<Longrightarrow> wired_off X (Interrupt tick orders c) \<and>
    cs_records (Interrupt tick orders c) = map (fold (interruptOne tick) orders) (cs_records c) \<and>
    cs_departures (Interrupt tick orders c) = cs_departures c"
  unfolding Interrupt_def
proof (induction orders arbitrary: c)
  case (Cons x xs)
  note step = interruptOrder_map [OF Cons.prems, of tick x]
  show ?case
    using Cons.IH [OF step [THEN conjunct1]] step by (simp add: comp_def)
qed simp

section \<open>Scoring\<close>

lemma wired_popped:
  assumes w: "wired c" and pop: "heap_pop (cs_deadlines c) = Some (entry, rest)"
  shows "wired_off {dl_index entry} (c\<lparr>cs_deadlines := rest\<rparr>)"
    and "dl_index entry < length (cs_records c)"
    and "dl_tick entry = departureTick (departureOf c (rc_Event (cs_records c ! dl_index entry)))"
proof -
  let ?c = "c\<lparr>cs_deadlines := rest\<rparr>"
  have heap: "heap_inv rest" using w go_heap.pop_inv [OF _ pop] unfolding wired_off_def by blast
  have elems: "mset (cs_deadlines c) = add_mset entry (mset rest)" by (rule go_heap.pop_elems [OF pop])
  have "j \<in> {dl_index entry} \<or> (\<exists>x\<in>#mset rest. dl_index x = j)"
    if "j < length (cs_records c)" "rc_Outcome (cs_records c ! j) = ''pending''" for j
    using wired_pending [OF w that] by (auto simp: elems)
  then have cover: "\<forall>j<length (cs_records c). rc_Outcome (cs_records c ! j) = ''pending'' \<longrightarrow>
      j \<in> {dl_index entry} \<or> (\<exists>x\<in>#mset rest. dl_index x = j)" by blast
  have sub: "x \<in># mset (cs_deadlines c)" if "x \<in># mset rest" for x using that by (simp add: elems)
  have sel: "cs_records ?c = cs_records c" "cs_deadlines ?c = rest" "cs_issued ?c = cs_issued c"
    "cs_requests ?c = cs_requests c" "cs_departures ?c = cs_departures c" "cs_counts ?c = cs_counts c"
    "departureOf ?c = departureOf c"
    by simp_all
  show "wired_off {dl_index entry} ?c"
    using w heap cover sub unfolding wired_off_def sel by blast
  have "entry \<in># mset (cs_deadlines c)" by (simp add: elems)
  then show "dl_index entry < length (cs_records c)"
    and "dl_tick entry = departureTick (departureOf c (rc_Event (cs_records c ! dl_index entry)))"
    using w unfolding wired_off_def by blast+
qed

lemma scoreDeadline_map:
  assumes w: "wired c" and pop: "heap_pop (cs_deadlines c) = Some (entry, rest)" and due: "dl_tick entry \<le> tick"
  shows "wired (scoreDeadline entry (c\<lparr>cs_deadlines := rest\<rparr>)) \<and>
    cs_records (scoreDeadline entry (c\<lparr>cs_deadlines := rest\<rparr>)) =
      (cs_records c)[dl_index entry := scoreOne (departureOf c) tick (cs_records c ! dl_index entry)] \<and>
    cs_departures (scoreDeadline entry (c\<lparr>cs_deadlines := rest\<rparr>)) = cs_departures c"
proof -
  let ?c = "c\<lparr>cs_deadlines := rest\<rparr>" and ?i = "dl_index entry"
  let ?r = "cs_records c ! ?i" and ?d = "departureOf c (rc_Event (cs_records c ! dl_index entry))"
  note off = wired_popped [OF w pop]
  show ?thesis
  proof (cases "rc_Outcome ?r = ''pending''")
    case True
    let ?made = "rc_AlightedTick ?r \<ge> 0 \<and> rc_AlightedTick ?r + dep_WalkingSeconds ?d * TicksPerSecond \<le> departureTick ?d"
    let ?o = "if ?made then ''made'' else ''missed''"
    let ?f = "rc_Outcome_update (\<lambda>_. ?o)"
    let ?n = "tallies ((cs_records ?c)[?i := ?f (cs_records ?c ! ?i)])"
    have counts: "cs_counts c = tallies (cs_records c)" by (rule wired_counts [OF w])
    have n: "?n = (let n = (cs_counts c)\<lparr>cn_Unresolved := cn_Unresolved (cs_counts c) - 1\<rparr> in
        if ?made then n\<lparr>cn_Made := cn_Made n + 1\<rparr> else n\<lparr>cn_Missed := cn_Missed n + 1\<rparr>)"
      using off(2) True by (cases ?made) (simp_all add: counts tallies_def tally_update Let_def)
    have c': "scoreDeadline entry ?c = (updateRecord ?i ?f ?c)\<lparr>cs_counts := ?n\<rparr>"
      using True off(3) unfolding n by (simp add: scoreDeadline_def Let_def)
    have "wired ((updateRecord ?i ?f ?c)\<lparr>cs_counts := ?n\<rparr>)"
      by (rule wired_update [OF off(1)]) (use off(2) True in \<open>auto simp: keeps_key_def split: if_splits\<close>)
    moreover have "scoreOne (departureOf c) tick ?r = ?f ?r"
      using True due off(3) by (simp add: scoreOne_def Let_def)
    ultimately show ?thesis by (simp add: c')
  next
    case False
    then have c': "scoreDeadline entry ?c = ?c" by (simp add: scoreDeadline_def Let_def)
    have "wired ((updateRecord ?i id ?c)\<lparr>cs_counts := cs_counts c\<rparr>)"
      by (rule wired_update [OF off(1)]) (use off(2) False wired_counts [OF w] in \<open>auto simp: keeps_key_def\<close>)
    then have "wired ?c" by (simp add: updateRecord_def)
    moreover have "scoreOne (departureOf c) tick ?r = ?r" using False by (simp add: scoreOne_def Let_def)
    ultimately show ?thesis by (simp add: c')
  qed
qed

lemma scoreOne_idem [simp]: "scoreOne plan tick (scoreOne plan tick r) = scoreOne plan tick r"
  by (simp add: scoreOne_def Let_def)

definition none_due :: "int \<Rightarrow> Connections \<Rightarrow> bool" where
  "none_due tick c \<longleftrightarrow> (\<forall>x\<in>#mset (cs_deadlines c). tick < dl_tick x)"

lemma none_due_pending:
  assumes w: "wired c" and nd: "none_due tick c" and r: "r \<in> set (cs_records c)" "rc_Outcome r = ''pending''"
  shows "tick < departureTick (departureOf c (rc_Event r))"
proof -
  obtain i where i: "i < length (cs_records c)" "r = cs_records c ! i" using r by (auto simp: in_set_conv_nth)
  with wired_pending [OF w i(1)] r(2) obtain x where x: "x \<in># mset (cs_deadlines c)" "dl_index x = i" by blast
  then have "dl_tick x = departureTick (departureOf c (rc_Event r))"
    using w i unfolding wired_off_def by blast
  with nd x show ?thesis by (auto simp: none_due_def)
qed

lemma scoreDeadlines_map:
  "wired c \<Longrightarrow> wired (scoreDeadlines tick c) \<and> none_due tick (scoreDeadlines tick c) \<and>
    cs_records (scoreDeadlines tick c) = map (scoreOne (departureOf c) tick) (cs_records c) \<and>
    cs_departures (scoreDeadlines tick c) = cs_departures c"
proof (induction tick c rule: scoreDeadlines.induct)
  case (1 tick c)
  note w = "1.prems"
  have heap: "heap_inv (cs_deadlines c)" using w unfolding wired_off_def by blast
  show ?case
  proof (cases "\<exists>x. heap_peek (cs_deadlines c) = Some x \<and> dl_tick x \<le> tick")
    case False
    then have stop: "scoreDeadlines tick c = c"
      by (subst scoreDeadlines.simps) (auto split: option.splits)
    have "\<forall>x\<in>#mset (cs_deadlines c). \<not> dl_tick x \<le> tick"
      using False by (intro go_heap.stop_none_due [OF heap]) (auto simp: less_eq_deadline_def less_deadline_def)
    then have nd: "none_due tick c" by (auto simp: none_due_def)
    have "scoreOne (departureOf c) tick r = r" if "r \<in> set (cs_records c)" for r
      using none_due_pending [OF w nd that] by (cases "rc_Outcome r = ''pending''") (simp_all add: scoreOne_def Let_def)
    then have "map (scoreOne (departureOf c) tick) (cs_records c) = cs_records c"
      by (intro map_idI)
    with stop nd w show ?thesis by simp
  next
    case True
    then obtain entry rest where pop: "heap_pop (cs_deadlines c) = Some (entry, rest)"
      and peek: "heap_peek (cs_deadlines c) = Some entry" and due: "dl_tick entry \<le> tick"
      using go_heap.peek_Some by (metis go_heap.pop_peek fst_conv option.inject option.map(2))
    let ?c = "scoreDeadline entry (c\<lparr>cs_deadlines := rest\<rparr>)" and ?i = "dl_index entry"
    note step = scoreDeadline_map [OF w pop due]
    have unfold: "scoreDeadlines tick c = scoreDeadlines tick ?c"
      using pop peek due by (subst scoreDeadlines.simps) simp
    have "departureOf ?c = departureOf c" using step by (simp add: departureOf_def fun_eq_iff)
    moreover have "map (scoreOne (departureOf c) tick) (cs_records ?c) = map (scoreOne (departureOf c) tick) (cs_records c)"
    proof (rule nth_equalityI)
      fix j assume "j < length (map (scoreOne (departureOf c) tick) (cs_records ?c))"
      with step show "map (scoreOne (departureOf c) tick) (cs_records ?c) ! j = map (scoreOne (departureOf c) tick) (cs_records c) ! j"
        by (cases "j = ?i") auto
    qed (use step in simp)
    ultimately show ?thesis
      using "1.IH" [OF peek _ pop refl step [THEN conjunct1]] due step unfolding unfold by simp
  qed
qed

lemma Advance_map:
  assumes w: "wired c"
  shows "wired (Advance tick completions c) \<and> none_due tick (Advance tick completions c) \<and>
    cs_records (Advance tick completions c) =
      map (\<lambda>r. scoreOne (departureOf c) tick (fold completeOne completions r)) (cs_records c) \<and>
    cs_departures (Advance tick completions c) = cs_departures c"
proof -
  note step = completeRecords_map [OF w, of completions]
  have "departureOf (fold completeRecord completions c) = departureOf c"
    using step by (simp add: departureOf_def fun_eq_iff)
  with step scoreDeadlines_map [OF step [THEN conjunct1], of tick] show ?thesis
    by (simp add: Advance_def comp_def)
qed

section \<open>New records\<close>

lemma append_record_sel:
  "cs_records (append_record r d c) = cs_records c @ [r]"
  "cs_departures (append_record r d c) = cs_departures c"
  "cs_issued (append_record r d c) = (cs_issued c)((rc_Event r, rc_Passenger r) \<mapsto> length (cs_records c))"
  "cs_requests (append_record r d c) =
    (if rc_RequestID r > 0 then (cs_requests c)(rc_RequestID r \<mapsto> length (cs_records c)) else cs_requests c)"
  "cs_counts (append_record r d c) = countOutcome (rc_Outcome r) (cs_counts c)"
  "mset (cs_deadlines (append_record r d c)) =
    (if rc_Outcome r = ''pending'' then add_mset (Deadline (departureTick d) (length (cs_records c))) (mset (cs_deadlines c))
     else mset (cs_deadlines c))"
  "departureOf (append_record r d c) = departureOf c"
  by (auto simp: append_record_def Let_def departureOf_def go_heap.push_elems)

lemma append_record_heap: "heap_inv (cs_deadlines c) \<Longrightarrow> heap_inv (cs_deadlines (append_record r d c))"
  by (simp add: append_record_def Let_def go_heap.push_inv)

lemma tallies_append: "tallies (rs @ [r]) = countOutcome (rc_Outcome r) (tallies rs)"
  by (simp add: tallies_def countOutcome_def)

lemma wired_append:
  assumes w: "wired c" and d: "cs_departures c (rc_Event r) = Some d"
    and fresh: "\<not> Issued c (rc_Event r) (rc_Passenger r)"
    and request: "rc_RequestID r > 0 \<Longrightarrow> cs_requests c (rc_RequestID r) = None"
  shows "wired (append_record r d c)"
proof -
  let ?c = "append_record r d c" and ?rs = "cs_records c @ [r]" and ?n = "length (cs_records c)"
  have nth: "?rs ! i = (if i < ?n then cs_records c ! i else r)" if "i < length ?rs" for i
    using that by (auto simp: nth_append)
  note issued = wired_issued [OF w] and requests = wired_requests [OF w]
  have plan: "departureOf c (rc_Event r) = d" using d by (simp add: departureOf_def)
  have heap: "heap_inv (cs_deadlines ?c)" by (rule append_record_heap [OF wired_heap [OF w]])
  have new_issued: "cs_issued ?c (e, p) = Some i \<longleftrightarrow>
      i < length ?rs \<and> rc_Event (?rs ! i) = e \<and> rc_Passenger (?rs ! i) = p" for e p i
  proof (cases "e = rc_Event r \<and> p = rc_Passenger r")
    case True
    then have "\<not> (i < ?n \<and> rc_Event (cs_records c ! i) = e \<and> rc_Passenger (cs_records c ! i) = p)"
      using fresh issued [of e p i] by (auto simp: Issued_def)
    with True show ?thesis by (auto simp: append_record_sel nth_append less_Suc_eq)
  next
    case False
    then show ?thesis using issued [of e p i] by (auto simp: append_record_sel nth_append less_Suc_eq)
  qed
  have new_requests: "cs_requests ?c q = Some i \<longleftrightarrow> i < length ?rs \<and> rc_RequestID (?rs ! i) = q \<and> q > 0" for q i
  proof (cases "q = rc_RequestID r")
    case True
    then have "\<not> (i < ?n \<and> rc_RequestID (cs_records c ! i) = q \<and> q > 0)"
      using request requests [of q i] by auto
    with True requests [of q i] show ?thesis by (auto simp: append_record_sel nth_append less_Suc_eq)
  next
    case False
    then show ?thesis using requests [of q i] by (auto simp: append_record_sel nth_append less_Suc_eq)
  qed
  have planned: "\<forall>i<?n. cs_departures c (rc_Event (cs_records c ! i)) \<noteq> None"
    by (rule wired_planned [OF w])
  have new_planned: "\<forall>i<length ?rs. cs_departures ?c (rc_Event (?rs ! i)) \<noteq> None"
    using planned d by (auto simp: append_record_sel nth_append less_Suc_eq)
  have old: "\<forall>x\<in>#mset (cs_deadlines c). dl_index x < ?n \<and>
      dl_tick x = departureTick (departureOf c (rc_Event (cs_records c ! dl_index x)))"
    by (rule wired_entries [OF w])
  have new_entries: "\<forall>x\<in>#mset (cs_deadlines ?c). dl_index x < length ?rs \<and>
      dl_tick x = departureTick (departureOf c (rc_Event (?rs ! dl_index x)))"
    using old plan by (auto simp: append_record_sel nth_append less_Suc_eq)
  have "\<exists>x\<in>#mset (cs_deadlines ?c). dl_index x = i"
    if i: "i < length ?rs" "rc_Outcome (?rs ! i) = ''pending''" for i
  proof (cases "i < ?n")
    case True
    then have "\<exists>x\<in>#mset (cs_deadlines c). dl_index x = i"
      using wired_pending [OF w, of i] i by (simp add: nth_append)
    then show ?thesis by (auto simp: append_record_sel)
  next
    case False
    with i show ?thesis by (auto simp: append_record_sel nth_append less_Suc_eq)
  qed
  then have cover: "\<forall>i<length ?rs. rc_Outcome (?rs ! i) = ''pending'' \<longrightarrow>
      i \<in> {} \<or> (\<exists>x\<in>#mset (cs_deadlines ?c). dl_index x = i)" by blast
  have counts: "cs_counts ?c = tallies ?rs"
    by (simp add: append_record_sel tallies_append wired_counts [OF w])
  show ?thesis
    unfolding wired_off_def append_record_sel(1,7)
    by (intro conjI allI heap new_issued new_requests new_planned new_entries cover counts)
qed

lemma wired_New: "wired (NewConnections departures)"
  by (simp add: wired_off_def NewConnections_def tallies_def zeroCounts_def heap_ordered_def)

text \<open>Records fix everything but the order of the heap.\<close>

lemma wired_determines:
  assumes "wired c" and "wired c'" and "cs_records c' = cs_records c"
  shows "cs_issued c' = cs_issued c \<and> cs_requests c' = cs_requests c \<and> cs_counts c' = cs_counts c"
proof -
  have "cs_issued c' k = Some i \<longleftrightarrow> cs_issued c k = Some i" for k i
    using wired_issued [OF assms(1)] wired_issued [OF assms(2)] assms(3) by (cases k) simp
  moreover have "cs_requests c' k = Some i \<longleftrightarrow> cs_requests c k = Some i" for k i
    using wired_requests [OF assms(1)] wired_requests [OF assms(2)] assms(3) by simp
  ultimately have "cs_issued c' = cs_issued c" "cs_requests c' = cs_requests c"
    by (intro ext option.expand; metis not_None_eq)+
  then show ?thesis using assms wired_counts by metis
qed

section \<open>Histories\<close>

text \<open>
  \<open>ledgerRun departures t s c\<close>: the ledger \<open>c\<close> of a plan at tick \<open>t\<close>, after \<open>s\<close> submissions to the
  simulation. The session adds offers at their tick, delivers interruptions of orders that have not
  alighted, at the end of a command or right after a step of the simulation, and then advances the ledger with the
  completions of the step (\<open>internal/session/demand.go\<close>, \<open>internal/session/interruptions.go\<close>).
\<close>

definition unalighted :: "int list \<Rightarrow> Connections \<Rightarrow> bool" where
  "unalighted orders c \<longleftrightarrow>
    (\<forall>r\<in>set (cs_records c). rc_RequestID r \<in> set orders \<longrightarrow> rc_AlightedTick r = - 1)"

inductive ledgerRun :: "RailDeparture list \<Rightarrow> int \<Rightarrow> int \<Rightarrow> Connections \<Rightarrow> bool" for departures where
  start: "ledgerRun departures 0 0 (NewConnections departures)"
| offer: "ledgerRun departures t s c \<Longrightarrow> Add offer requestID reason c = Inr c' \<Longrightarrow> offer_Tick offer = t \<Longrightarrow>
    s \<le> s' \<Longrightarrow> requestID \<le> s' \<Longrightarrow> ledgerRun departures t s' c'"
| command: "ledgerRun departures t s c \<Longrightarrow> unalighted orders c \<Longrightarrow>
    ledgerRun departures t s (Interrupt t orders c)"
| step: "ledgerRun departures t s c \<Longrightarrow> unalighted orders c \<Longrightarrow>
    \<forall>x\<in>set completions. sc_AlightedTick x = t + 1 \<Longrightarrow>
    ledgerRun departures (t + 1) s (Advance (t + 1) completions (Interrupt (t + 1) orders c))"

definition record_valid :: "int \<Rightarrow> int \<Rightarrow> int \<Rightarrow> RailDeparture \<Rightarrow> Connection \<Rightarrow> bool" where
  "record_valid t t' s d r \<longleftrightarrow> recordTimesValid r t s \<and> recordOutcomeValid r d t' \<and>
    validOffer d (rc_RequestedTick r) (rc_Passenger r) (rc_From r) (rc_To r)"

lemma record_valid_interrupt:
  "record_valid t t' s d r \<Longrightarrow> (rc_RequestID r = order \<Longrightarrow> rc_AlightedTick r = - 1) \<Longrightarrow>
     record_valid t t' s d (interruptOne u order r)"
  by (auto simp: record_valid_def interruptOne_def recordTimesValid_def recordOutcomeValid_def unservedRecordValid_def)

lemma record_valid_complete:
  "record_valid (t + 1) t s d r \<Longrightarrow> sc_AlightedTick x = t + 1 \<Longrightarrow> 0 \<le> t \<Longrightarrow> 0 \<le> dep_WalkingSeconds d \<Longrightarrow>
     record_valid (t + 1) t s d (completeOne x r)"
  by (auto simp: record_valid_def completeOne_def recordTimesValid_def recordOutcomeValid_def Let_def TicksPerSecond_def
      split: if_splits)

lemma record_valid_score:
  "record_valid (t + 1) t s (plan (rc_Event r)) r \<Longrightarrow>
     record_valid (t + 1) (t + 1) s (plan (rc_Event r)) (scoreOne plan (t + 1) r)"
  by (auto simp: record_valid_def scoreOne_def recordTimesValid_def recordOutcomeValid_def Let_def
      split: if_splits)

end
