(* ===== verification/RailHistory.thy ===== *)
theory RailHistory
  imports RailLedger
begin

text \<open>
  Every history of a connection ledger: the records stay valid, the counts stay their tallies, an
  advance scores exactly the trains that have left, an outcome never changes again, and a saved
  ledger restores to one with the same future.
\<close>

section \<open>The invariant of a history\<close>

definition ledger_ok :: "RailDeparture list \<Rightarrow> int \<Rightarrow> int \<Rightarrow> Connections \<Rightarrow> bool" where
  "ledger_ok departures t s c \<longleftrightarrow>
    0 \<le> t \<and> wired c \<and> none_due t c \<and> cs_departures c = cs_departures (NewConnections departures) \<and>
    int (length (cs_records c)) \<le> MaxRailDeparturePassengers \<and>
    (\<forall>r\<in>set (cs_records c). record_valid t t s (departureOf c (rc_Event r)) r)"

lemma fold_plan_Some: "fold (\<lambda>d m. m(dep_ID d \<mapsto> d)) ds m e = Some d \<Longrightarrow> d \<in> set ds \<or> m e = Some d"
  by (induction ds arbitrary: m) (fastforce split: if_splits)+

lemma plan_good:
  assumes "\<forall>d\<in>set departures. goodDeparture P d" and "cs_departures (NewConnections departures) e = Some d"
  shows "goodDeparture P d"
  using assms by (auto simp: NewConnections_def dest: fold_plan_Some)

lemma offer_before_train:
  assumes good: "goodDeparture P d" and offer: "validOffer d t k a b"
  shows "t < departureTick d"
proof -
  let ?w = "(dep_RequestUntilSeconds d - dep_RequestFromSeconds d) * 60" and ?n = "dep_Passengers d"
  have k: "1 \<le> k" "k \<le> ?n" and t: "t = DepartureOfferTick d k"
    using offer by (auto simp: validOffer_def)
  have w: "0 \<le> ?w" using good by (simp add: goodDeparture_def)
  have high: "(k - 1) * ?w div (?n - 1) \<le> ?w" if "?n > 1"
  proof -
    have "(k - 1) * ?w div (?n - 1) \<le> (?n - 1) * ?w div (?n - 1)"
      using that w k by (intro zdiv_mono1 mult_right_mono) auto
    with that show ?thesis by simp
  qed
  have bounds: "dep_RequestUntilSeconds d < dep_AtSeconds d" "1 \<le> dep_AtSeconds d" "0 \<le> ?w"
    using good w by (auto simp: goodDeparture_def)
  show ?thesis
    unfolding t offer_tick_form [OF good k] departureTick_def TicksPerSecond_def
    using high bounds by (cases "?n > 1") (auto simp: max_def)
qed

lemma record_valid_interrupts:
  "record_valid t t' s d r \<Longrightarrow> (rc_RequestID r \<in> set orders \<longrightarrow> rc_AlightedTick r = - 1) \<Longrightarrow>
     record_valid t t' s d (fold (interruptOne u) orders r)"
proof (induction orders arbitrary: r)
  case (Cons x xs)
  have keep: "rc_RequestID (interruptOne u x r) = rc_RequestID r" "rc_AlightedTick (interruptOne u x r) = rc_AlightedTick r"
    by (simp_all add: interruptOne_def)
  have "record_valid t t' s d (interruptOne u x r)"
    using Cons.prems by (intro record_valid_interrupt) auto
  then have "record_valid t t' s d (fold (interruptOne u) xs (interruptOne u x r))"
    using Cons.prems(2) by (intro Cons.IH) (auto simp: keep)
  then show ?case by simp
qed simp

lemma record_valid_completes:
  "record_valid (t + 1) t s d r \<Longrightarrow> \<forall>x\<in>set xs. sc_AlightedTick x = t + 1 \<Longrightarrow> 0 \<le> t \<Longrightarrow>
     0 \<le> dep_WalkingSeconds d \<Longrightarrow> record_valid (t + 1) t s d (fold completeOne xs r)"
proof (induction xs arbitrary: r)
  case (Cons x xs)
  have "record_valid (t + 1) t s d (completeOne x r)"
    using Cons.prems by (intro record_valid_complete) auto
  then have "record_valid (t + 1) t s d (fold completeOne xs (completeOne x r))"
    using Cons.prems by (intro Cons.IH) auto
  then show ?case by simp
qed simp

lemma fold_keeps: "(\<And>x r. f (g x r) = f r) \<Longrightarrow> f (fold g xs r) = f r"
  by (induction xs arbitrary: r) auto

lemma moves_keep_key [simp]:
  "rc_Event (fold (interruptOne u) orders r) = rc_Event r"
  "rc_Event (fold completeOne xs r) = rc_Event r"
  "rc_Passenger (fold completeOne xs r) = rc_Passenger r"
  "rc_RequestID (fold completeOne xs r) = rc_RequestID r"
  by (rule fold_keeps, simp add: interruptOne_def completeOne_def)+

lemma score_keeps_key [simp]:
  "rc_Event (scoreOne plan u r) = rc_Event r" "rc_Passenger (scoreOne plan u r) = rc_Passenger r"
  "rc_RequestID (scoreOne plan u r) = rc_RequestID r"
  by (simp_all add: scoreOne_def Let_def)

lemma record_valid_later: "record_valid t t s d r \<Longrightarrow> record_valid (t + 1) t s d r"
  by (auto simp: record_valid_def recordTimesValid_def)

lemma departureOf_cong: "cs_departures c' = cs_departures c \<Longrightarrow> departureOf c' = departureOf c"
  by (simp add: departureOf_def fun_eq_iff)

lemma Interrupt_deadlines: "cs_deadlines (Interrupt tick orders c) = cs_deadlines c"
  unfolding Interrupt_def
  by (induction orders arbitrary: c) (auto simp: interruptOrder_def Let_def split: option.splits)

lemma good_walk:
  "\<forall>d\<in>set departures. goodDeparture P d \<Longrightarrow> cs_departures c = cs_departures (NewConnections departures) \<Longrightarrow>
     0 \<le> dep_WalkingSeconds (departureOf c e)"
  using plan_good [of departures P e]
  by (auto simp: departureOf_def zeroDeparture_def goodDeparture_def split: option.splits)

lemma ledger_ok_interrupt:
  assumes ok: "ledger_ok departures t s c" and un: "unalighted orders c"
  shows "ledger_ok departures t s (Interrupt u orders c)"
proof -
  have w: "wired c" using ok by (simp add: ledger_ok_def)
  note step = Interrupt_map [OF w, of u orders]
  have plan: "departureOf (Interrupt u orders c) = departureOf c" using step by (intro departureOf_cong) simp
  have "record_valid t t s (departureOf c (rc_Event r)) (fold (interruptOne u) orders r)"
    if "r \<in> set (cs_records c)" for r
    using ok un that by (intro record_valid_interrupts) (auto simp: ledger_ok_def unalighted_def)
  with ok step show ?thesis
    by (auto simp: ledger_ok_def plan none_due_def Interrupt_deadlines)
qed

lemma ledger_ok_advance:
  assumes ok: "ledger_ok departures t s c" and good: "\<forall>d\<in>set departures. goodDeparture P d"
    and at_tick: "\<forall>x\<in>set xs. sc_AlightedTick x = t + 1"
  shows "ledger_ok departures (t + 1) s (Advance (t + 1) xs c)"
proof -
  have w: "wired c" and t: "0 \<le> t" and deps: "cs_departures c = cs_departures (NewConnections departures)"
    using ok by (simp_all add: ledger_ok_def)
  note step = Advance_map [OF w, of "t + 1" xs]
  have plan: "departureOf (Advance (t + 1) xs c) = departureOf c" using step by (intro departureOf_cong) simp
  have "record_valid (t + 1) (t + 1) s (departureOf c (rc_Event r)) (scoreOne (departureOf c) (t + 1) (fold completeOne xs r))"
    if r: "r \<in> set (cs_records c)" for r
  proof -
    have "record_valid (t + 1) t s (departureOf c (rc_Event r)) r"
      using ok r by (intro record_valid_later) (auto simp: ledger_ok_def)
    then have "record_valid (t + 1) t s (departureOf c (rc_Event (fold completeOne xs r))) (fold completeOne xs r)"
      using at_tick t good_walk [OF good deps] by (simp add: record_valid_completes)
    from record_valid_score [where plan = "departureOf c", OF this] show ?thesis by simp
  qed
  with ok step show ?thesis by (auto simp: ledger_ok_def plan)
qed

lemma Add_ok:
  assumes "Add offer requestID reason c = Inr c'"
  obtains d r where "cs_departures c (offer_Event offer) = Some d" "c' = append_record r d c"
    "r = \<lparr>rc_Event = offer_Event offer, rc_Passenger = offer_Passenger offer, rc_RequestedTick = offer_Tick offer,
      rc_From = offer_From offer, rc_To = offer_To offer, rc_RequestID = requestID, rc_AlightedTick = - 1,
      rc_Outcome = (if requestID = 0 then ''unserved'' else ''pending''), rc_Reason = reason\<rparr>"
    "validOffer d (offer_Tick offer) (offer_Passenger offer) (offer_From offer) (offer_To offer)"
    "int (length (cs_records c)) < MaxRailDeparturePassengers" "\<not> Issued c (offer_Event offer) (offer_Passenger offer)"
    "0 \<le> requestID" "requestID = 0 \<Longrightarrow> reason = ''queue-limit'' \<or> reason = ''request-error''"
    "requestID > 0 \<Longrightarrow> reason = [] \<and> cs_requests c requestID = None"
  using assms unfolding Add_def
  by (cases "cs_departures c (offer_Event offer)") (simp_all split: if_splits)

lemma ledger_ok_offer:
  assumes ok: "ledger_ok departures t s c" and good: "\<forall>d\<in>set departures. goodDeparture P d"
    and add: "Add offer requestID reason c = Inr c'" and now: "offer_Tick offer = t" and s': "s \<le> s'" "requestID \<le> s'"
  shows "ledger_ok departures t s' c'"
proof -
  obtain d r where d: "cs_departures c (offer_Event offer) = Some d" and c': "c' = append_record r d c"
    and r: "r = \<lparr>rc_Event = offer_Event offer, rc_Passenger = offer_Passenger offer, rc_RequestedTick = offer_Tick offer,
      rc_From = offer_From offer, rc_To = offer_To offer, rc_RequestID = requestID, rc_AlightedTick = - 1,
      rc_Outcome = (if requestID = 0 then ''unserved'' else ''pending''), rc_Reason = reason\<rparr>"
    and offer: "validOffer d (offer_Tick offer) (offer_Passenger offer) (offer_From offer) (offer_To offer)"
    and bound: "int (length (cs_records c)) < MaxRailDeparturePassengers"
    and fresh: "\<not> Issued c (offer_Event offer) (offer_Passenger offer)"
    and id: "0 \<le> requestID" "requestID = 0 \<Longrightarrow> reason = ''queue-limit'' \<or> reason = ''request-error''"
      "requestID > 0 \<Longrightarrow> reason = [] \<and> cs_requests c requestID = None"
    using Add_ok [OF add] by metis
  have w: "wired c" and deps: "cs_departures c = cs_departures (NewConnections departures)"
    using ok by (simp_all add: ledger_ok_def)
  have soon: "t < departureTick d"
    using offer_before_train [OF plan_good [OF good] offer] d deps now by simp
  have wired': "wired c'" unfolding c'
    by (rule wired_append [OF w]) (use d fresh id r in auto)
  have nd: "none_due t c'"
    using ok soon by (auto simp: c' none_due_def ledger_ok_def append_record_sel)
  have plan: "departureOf c (rc_Event r) = d" using d r by (simp add: departureOf_def)
  have "record_valid t t s' d r"
    using offer id s' soon now
    by (auto simp: r record_valid_def recordTimesValid_def recordOutcomeValid_def unservedRecordValid_def Let_def)
  moreover have "record_valid t t s' (departureOf c (rc_Event q)) q" if "q \<in> set (cs_records c)" for q
    using ok that s' by (auto simp: ledger_ok_def record_valid_def recordTimesValid_def)
  ultimately have "\<forall>q\<in>set (cs_records c'). record_valid t t s' (departureOf c' (rc_Event q)) q"
    using plan by (simp add: c' append_record_sel)
  with ok wired' nd bound show ?thesis by (simp add: ledger_ok_def c' append_record_sel)
qed

lemma ledgerRun_ok:
  assumes "ledgerRun departures t s c" and good: "\<forall>d\<in>set departures. goodDeparture P d"
  shows "ledger_ok departures t s c"
  using assms(1)
proof induction
  case start
  show ?case
    by (simp add: ledger_ok_def wired_New) (simp add: NewConnections_def none_due_def MaxRailDeparturePassengers_def)
next
  case (offer t s c offer requestID reason c' s')
  then show ?case using ledger_ok_offer [OF _ good] by blast
next
  case (command t s c orders)
  then show ?case by (rule_tac ledger_ok_interrupt)
next
  case (step t s c orders completions)
  then show ?case using ledger_ok_advance [OF ledger_ok_interrupt good] by blast
qed

lemma outcome_kind:
  "recordOutcomeValid r d t \<Longrightarrow> rc_Outcome r \<in> {''pending'', ''made'', ''missed'', ''unserved''}"
  by (simp add: recordOutcomeValid_def Let_def split: if_split_asm)

lemma outcome_pending: "recordOutcomeValid r d t \<Longrightarrow> rc_Outcome r = ''pending'' \<Longrightarrow> t < departureTick d"
  by (simp add: recordOutcomeValid_def Let_def)

lemmas plan_departures = validateRailServices_good [unfolded goodPlan_def, THEN conjunct2, THEN conjunct2, THEN conjunct1]

section \<open>Outcomes\<close>

text \<open>
  C8. In every history of the ledger of an accepted rail plan, at every tick: a train that has left
  leaves no pending record; every record is an offer of its departure with times and an outcome that
  the restore check accepts at that tick; and the four maintained counts are the tallies of the records, so
  that they add up to the number of issued offers, which is at most 3000.
\<close>

theorem ledger_history_valid:
  assumes "validateRailServices arrivals departures network = Inr ()" and "ledgerRun departures t s c"
  shows "(\<forall>r\<in>set (cs_records c). \<exists>d. cs_departures c (rc_Event r) = Some d \<and>
      recordTimesValid r t s \<and> recordOutcomeValid r d t \<and>
      validOffer d (rc_RequestedTick r) (rc_Passenger r) (rc_From r) (rc_To r) \<and>
      (departureTick d \<le> t \<longrightarrow> rc_Outcome r \<noteq> ''pending'')) \<and>
    cs_counts c = tallies (cs_records c) \<and>
    cn_Made (cs_counts c) + cn_Missed (cs_counts c) + cn_Unserved (cs_counts c) + cn_Unresolved (cs_counts c) =
      int (length (cs_records c)) \<and>
    length (cs_records c) \<le> 3000"
proof -
  have ok: "ledger_ok departures t s c" by (rule ledgerRun_ok [OF assms(2) plan_departures [OF assms(1)]])
  then have w: "wired c" by (simp add: ledger_ok_def)
  have counts: "cs_counts c = tallies (cs_records c)" by (rule wired_counts [OF w])
  have each: "\<exists>d. cs_departures c (rc_Event r) = Some d \<and> recordTimesValid r t s \<and> recordOutcomeValid r d t \<and>
      validOffer d (rc_RequestedTick r) (rc_Passenger r) (rc_From r) (rc_To r) \<and>
      (departureTick d \<le> t \<longrightarrow> rc_Outcome r \<noteq> ''pending'')" if r: "r \<in> set (cs_records c)" for r
  proof -
    obtain d where d: "cs_departures c (rc_Event r) = Some d"
      using r wired_planned [OF w] by (fastforce simp: in_set_conv_nth)
    with ok r have "record_valid t t s d r" by (auto simp: ledger_ok_def departureOf_def)
    then show ?thesis using d outcome_pending [of r d t] unfolding record_valid_def by force
  qed
  have kinds: "rc_Outcome r \<in> {''pending'', ''made'', ''missed'', ''unserved''}" if "r \<in> set (cs_records c)" for r
    using each [OF that] outcome_kind by blast
  have "cn_Made (tallies rs) + cn_Missed (tallies rs) + cn_Unserved (tallies rs) + cn_Unresolved (tallies rs) = int (length rs)"
    if "\<forall>r\<in>set rs. rc_Outcome r \<in> {''pending'', ''made'', ''missed'', ''unserved''}" for rs
    using that by (induction rs) (auto simp: tallies_def)
  with kinds have "cn_Made (cs_counts c) + cn_Missed (cs_counts c) + cn_Unserved (cs_counts c) + cn_Unresolved (cs_counts c) =
      int (length (cs_records c))" by (simp add: counts)
  moreover have "length (cs_records c) \<le> 3000" using ok by (simp add: ledger_ok_def MaxRailDeparturePassengers_def)
  ultimately show ?thesis using each counts by blast
qed

text \<open>
  C14. The heap of deadlines implements a scan of all records: in every history an advance to a tick
  turns each record by itself, first by the completions of the step, in their order, and then by its own train: made
  when the passenger alighted in time to walk to it, missed otherwise. The counts follow.
\<close>

theorem Advance_scores:
  assumes "validateRailServices arrivals departures network = Inr ()" and "ledgerRun departures t s c"
  shows "cs_records (Advance tick completions c) =
      map (\<lambda>r. scoreOne (departureOf c) tick (fold completeOne completions r)) (cs_records c) \<and>
    cs_counts (Advance tick completions c) = tallies (cs_records (Advance tick completions c)) \<and>
    cs_issued (Advance tick completions c) = cs_issued c \<and> cs_requests (Advance tick completions c) = cs_requests c"
proof -
  have w: "wired c" using ledgerRun_ok [OF assms(2) plan_departures [OF assms(1)]] by (simp add: ledger_ok_def)
  note step = Advance_map [OF w, of tick completions]
  let ?c = "Advance tick completions c"
  let ?f = "\<lambda>r. scoreOne (departureOf c) tick (fold completeOne completions r)"
  have keys: "rc_Event (?f r) = rc_Event r \<and> rc_Passenger (?f r) = rc_Passenger r \<and> rc_RequestID (?f r) = rc_RequestID r" for r
    by simp
  have w': "wired ?c" and recs: "cs_records ?c = map ?f (cs_records c)" using step by simp_all
  have "cs_issued ?c k = Some i \<longleftrightarrow> cs_issued c k = Some i" for k i
    using wired_issued [OF w] wired_issued [OF w'] recs keys by (cases k) auto
  moreover have "cs_requests ?c k = Some i \<longleftrightarrow> cs_requests c k = Some i" for k i
    using wired_requests [OF w] wired_requests [OF w'] recs keys by auto
  ultimately have "cs_issued ?c = cs_issued c" "cs_requests ?c = cs_requests c"
    by (intro ext option.expand; metis not_None_eq)+
  with recs wired_counts [OF w'] show ?thesis by simp
qed

section \<open>Restore\<close>

lemma restoreLoop_appends:
  assumes "\<forall>r\<in>set rs. \<exists>d. cs_departures c (rc_Event r) = Some d \<and>
      validOffer d (rc_RequestedTick r) (rc_Passenger r) (rc_From r) (rc_To r) \<and>
      validateRecord r d (ss_Tick state) (ss_RequestID state) bindings = Inr ()"
    and "wired c"
    and "distinct (map (\<lambda>r. (rc_Event r, rc_Passenger r)) (cs_records c @ rs))"
    and "distinct (filter (\<lambda>i. i > 0) (map rc_RequestID (cs_records c @ rs)))"
  shows "\<exists>c'. restoreLoop state bindings rs c = Inr c' \<and> wired c' \<and> cs_records c' = cs_records c @ rs \<and>
    cs_departures c' = cs_departures c"
  using assms
proof (induction rs arbitrary: c)
  case (Cons r rs)
  obtain d where d: "cs_departures c (rc_Event r) = Some d"
      "validOffer d (rc_RequestedTick r) (rc_Passenger r) (rc_From r) (rc_To r)"
      "validateRecord r d (ss_Tick state) (ss_RequestID state) bindings = Inr ()"
    using Cons.prems(1) by auto
  have fresh: "\<not> Issued c (rc_Event r) (rc_Passenger r)"
  proof
    assume "Issued c (rc_Event r) (rc_Passenger r)"
    then obtain i where "i < length (cs_records c)" "rc_Event (cs_records c ! i) = rc_Event r"
        "rc_Passenger (cs_records c ! i) = rc_Passenger r"
      using wired_issued [OF Cons.prems(2)] by (auto simp: Issued_def)
    then have "(rc_Event r, rc_Passenger r) \<in> (\<lambda>r. (rc_Event r, rc_Passenger r)) ` set (cs_records c)"
      by (metis (mono_tags, lifting) image_iff nth_mem)
    with Cons.prems(3) show False by simp
  qed
  have request: "cs_requests c (rc_RequestID r) = None" if pos: "rc_RequestID r > 0"
  proof (rule ccontr)
    assume "cs_requests c (rc_RequestID r) \<noteq> None"
    then obtain i where "i < length (cs_records c)" "rc_RequestID (cs_records c ! i) = rc_RequestID r"
      using wired_requests [OF Cons.prems(2)] by auto
    then have "rc_RequestID r \<in> rc_RequestID ` set (cs_records c)" by (metis image_eqI nth_mem)
    with Cons.prems(4) pos show False by simp
  qed
  let ?c = "append_record r d c"
  have w: "wired ?c" by (rule wired_append [OF Cons.prems(2) d(1) fresh request])
  have "restoreLoop state bindings (r # rs) c = restoreLoop state bindings rs ?c"
    using d fresh request by (cases "rc_RequestID r > 0") simp_all
  moreover have "\<exists>c'. restoreLoop state bindings rs ?c = Inr c' \<and> wired c' \<and>
      cs_records c' = cs_records ?c @ rs \<and> cs_departures c' = cs_departures ?c"
    using Cons.prems w by (intro Cons.IH) (auto simp: append_record_sel)
  ultimately show ?case by (simp add: append_record_sel)
qed simp

lemma wired_distinct:
  assumes w: "wired c"
  shows "distinct (map (\<lambda>r. (rc_Event r, rc_Passenger r)) (cs_records c)) \<and>
    distinct (filter (\<lambda>i. i > 0) (map rc_RequestID (cs_records c)))"
proof
  have issued: "cs_issued c (rc_Event (cs_records c ! i), rc_Passenger (cs_records c ! i)) = Some i"
    if "i < length (cs_records c)" for i using that wired_issued [OF w] by simp
  show "distinct (map (\<lambda>r. (rc_Event r, rc_Passenger r)) (cs_records c))"
    unfolding distinct_conv_nth
  proof (intro allI impI)
    fix i j assume ij: "i < length (map (\<lambda>r. (rc_Event r, rc_Passenger r)) (cs_records c))"
      "j < length (map (\<lambda>r. (rc_Event r, rc_Passenger r)) (cs_records c))" "i \<noteq> j"
    show "map (\<lambda>r. (rc_Event r, rc_Passenger r)) (cs_records c) ! i \<noteq> map (\<lambda>r. (rc_Event r, rc_Passenger r)) (cs_records c) ! j"
      using issued [of i] issued [of j] ij by auto
  qed
  have "distinct (filter (\<lambda>i. i > 0) (map rc_RequestID rs))"
    if "\<And>i j. i < length rs \<Longrightarrow> j < length rs \<Longrightarrow> rc_RequestID (rs ! i) > 0 \<Longrightarrow>
      rc_RequestID (rs ! i) = rc_RequestID (rs ! j) \<Longrightarrow> i = j" for rs
    using that
  proof (induction rs)
    case (Cons r rs)
    have "distinct (filter (\<lambda>i. i > 0) (map rc_RequestID rs))"
      using Cons.prems [of "Suc i" "Suc j" for i j] by (intro Cons.IH) auto
    moreover have "rc_RequestID r \<notin> rc_RequestID ` set rs" if "rc_RequestID r > 0"
    proof
      assume "rc_RequestID r \<in> rc_RequestID ` set rs"
      then obtain j where "j < length rs" "rc_RequestID (rs ! j) = rc_RequestID r"
        by (auto simp: in_set_conv_nth)
      with Cons.prems [of 0 "Suc j"] that show False by simp
    qed
    ultimately show ?case by simp
  qed simp
  moreover have "i = j" if "i < length (cs_records c)" "j < length (cs_records c)" "rc_RequestID (cs_records c ! i) > 0"
    "rc_RequestID (cs_records c ! i) = rc_RequestID (cs_records c ! j)" for i j
    using that wired_requests [OF w, of "rc_RequestID (cs_records c ! i)"] by (metis option.inject)
  ultimately show "distinct (filter (\<lambda>i. i > 0) (map rc_RequestID (cs_records c)))" by blast
qed

text \<open>
  A saved state belongs to a ledger when it was taken at the same tick and submission count, and a
  pending passenger who has not alighted is an active request with the same stations and
  request tick; a request that is bound and still active has not alighted and is not unserved.
\<close>

definition saved_with :: "SavedState \<Rightarrow> (int \<rightharpoonup> requestBinding) \<Rightarrow> int \<Rightarrow> int \<Rightarrow> Connection list \<Rightarrow> bool" where
  "saved_with state bindings t s rs \<longleftrightarrow>
    savedBindings state = Inr bindings \<and> ss_Tick state = t \<and> ss_RequestID state = s \<and>
    (\<forall>r\<in>set rs. case bindings (rc_RequestID r) of
        None \<Rightarrow> \<not> (rc_Outcome r = ''pending'' \<and> rc_AlightedTick r = - 1)
      | Some binding \<Rightarrow> rc_RequestID r > 0 \<longrightarrow> recordMatchesBinding r binding \<and>
          (rc_Outcome r = ''pending'' \<and> rc_AlightedTick r = - 1 \<longrightarrow> rb_active binding))"

lemma saved_validates:
  assumes "saved_with state bindings t s rs" and "r \<in> set rs" and "recordTimesValid r t s" and "recordOutcomeValid r d t"
  shows "validateRecord r d (ss_Tick state) (ss_RequestID state) bindings = Inr ()"
proof (cases "bindings (rc_RequestID r)")
  case None
  with assms show ?thesis by (force simp: saved_with_def validateRecord_def)
next
  case (Some binding)
  have "rc_Outcome r = ''pending'' \<Longrightarrow> rc_RequestID r > 0"
    using assms(4) by (simp add: recordOutcomeValid_def Let_def)
  with assms Some show ?thesis by (force simp: saved_with_def validateRecord_def)
qed

text \<open>
  C20. A ledger of an accepted rail plan survives a save and a restore: the restore of its records and counts
  succeeds with a state that was saved with it, and gives the same records, the same indexes and
  counts, and the same result of every later advance.
\<close>

theorem restore_roundtrip:
  assumes "validateRailServices arrivals departures network = Inr ()" and "ledgerRun departures t s c"
    and "saved_with state bindings t s (cs_records c)"
  shows "\<exists>c'. RestoreConnections departures (cs_records c) state (cs_counts c) = Inr c' \<and>
    cs_records c' = cs_records c \<and> cs_issued c' = cs_issued c \<and> cs_requests c' = cs_requests c \<and>
    cs_counts c' = cs_counts c \<and>
    (\<forall>tick completions. cs_records (Advance tick completions c') = cs_records (Advance tick completions c))"
proof -
  have ok: "ledger_ok departures t s c" by (rule ledgerRun_ok [OF assms(2) plan_departures [OF assms(1)]])
  then have w: "wired c" and deps: "cs_departures c = cs_departures (NewConnections departures)"
    and bound: "int (length (cs_records c)) \<le> MaxRailDeparturePassengers" by (simp_all add: ledger_ok_def)
  have each: "\<exists>d. cs_departures (NewConnections departures) (rc_Event r) = Some d \<and>
      validOffer d (rc_RequestedTick r) (rc_Passenger r) (rc_From r) (rc_To r) \<and>
      validateRecord r d (ss_Tick state) (ss_RequestID state) bindings = Inr ()" if r: "r \<in> set (cs_records c)" for r
  proof -
    obtain d where d: "cs_departures c (rc_Event r) = Some d"
      using r wired_planned [OF w] by (fastforce simp: in_set_conv_nth)
    with ok r have "record_valid t t s d r" by (auto simp: ledger_ok_def departureOf_def)
    then show ?thesis
      using d deps saved_validates [OF assms(3) r, of d] by (auto simp: record_valid_def)
  qed
  have none: "cs_records (NewConnections departures) = []" by (simp add: NewConnections_def)
  obtain c' where c': "restoreLoop state bindings (cs_records c) (NewConnections departures) = Inr c'"
    and w': "wired c'" and recs: "cs_records c' = cs_records c"
    and deps': "cs_departures c' = cs_departures (NewConnections departures)"
    using restoreLoop_appends [OF _ wired_New [of departures], of "cs_records c" state bindings] each wired_distinct [OF w] none
    by auto
  have plan: "cs_records c = [] \<or> departures \<noteq> []"
    using each by (cases "cs_records c") (force simp: NewConnections_def)+
  note same = wired_determines [OF w w' recs]
  have "RestoreConnections departures (cs_records c) state (cs_counts c) = Inr c'"
    using bound plan c' same assms(3) by (auto simp: RestoreConnections_def saved_with_def)
  moreover have "departureOf c' = departureOf c" using deps deps' by (intro departureOf_cong) simp
  ultimately show ?thesis
    using recs same Advance_map [OF w] Advance_map [OF w'] by auto
qed

section \<open>Final outcomes\<close>

text \<open>
  C28. An outcome is final: in every history a record that is made, missed or unserved keeps its
  outcome and its reason when the ledger adds an offer, delivers an interruption or advances.
\<close>

theorem outcome_final:
  assumes "validateRailServices arrivals departures network = Inr ()" and "ledgerRun departures t s c"
    and "i < length (cs_records c)" and "rc_Outcome (cs_records c ! i) \<noteq> ''pending''"
  shows "rc_Outcome (cs_records (Advance tick completions c) ! i) = rc_Outcome (cs_records c ! i) \<and>
    rc_Reason (cs_records (Advance tick completions c) ! i) = rc_Reason (cs_records c ! i) \<and>
    cs_records (Interrupt tick orders c) ! i = cs_records c ! i \<and>
    (\<forall>c'. Add offer requestID reason c = Inr c' \<longrightarrow> cs_records c' ! i = cs_records c ! i)"
proof -
  have w: "wired c" using ledgerRun_ok [OF assms(2) plan_departures [OF assms(1)]] by (simp add: ledger_ok_def)
  let ?r = "cs_records c ! i"
  have completes: "rc_Outcome (fold completeOne xs r) = rc_Outcome r \<and> rc_Reason (fold completeOne xs r) = rc_Reason r" for xs r
    by (induction xs arbitrary: r) (auto simp: completeOne_def)
  have interrupts: "fold (interruptOne tick) orders ?r = ?r"
    using assms(4) by (induction orders) (auto simp: interruptOne_def)
  have "cs_records (Advance tick completions c) ! i = scoreOne (departureOf c) tick (fold completeOne completions ?r)"
    using Advance_map [OF w] assms(3) by simp
  moreover have "scoreOne (departureOf c) tick (fold completeOne completions ?r) = fold completeOne completions ?r"
    using completes assms(4) by (simp add: scoreOne_def Let_def)
  moreover have "cs_records (Interrupt tick orders c) ! i = ?r"
    using Interrupt_map [OF w] assms(3) interrupts by simp
  moreover have "cs_records c' ! i = ?r" if "Add offer requestID reason c = Inr c'" for c'
    using Add_ok [OF that] assms(3) by (metis append_record_sel(1) nth_append)
  ultimately show ?thesis using completes by simp
qed

section \<open>A concrete history\<close>

definition firstOffer :: RailServiceOffer where
  "firstOffer =
    \<lparr>offer_Tick = 1, offer_Event = ''t'', offer_Passenger = 1, offer_From = ''home'', offer_To = ''hub'',
     offer_Kind = ''departure'', offer_DepartureTick = 36000, offer_WalkingTicks = 3600\<rparr>"

definition firstRecord :: Connection where
  "firstRecord =
    \<lparr>rc_Event = ''t'', rc_Passenger = 1, rc_RequestedTick = 1, rc_From = ''home'', rc_To = ''hub'', rc_RequestID = 7,
     rc_AlightedTick = - 1, rc_Outcome = ''pending'', rc_Reason = []\<rparr>"

definition firstLedger :: Connections where
  "firstLedger = append_record firstRecord trainAtTen (NewConnections [trainAtTen])"

lemma train_accepted: "validateRailServices [] [trainAtTen] hubNetwork = Inr ()"
proof -
  have ticks: "[1..3] = [1, 2, 3 :: int]" by (simp add: upto.simps)
  show ?thesis
    by (simp add: validateRailServices_def validateRailArrivals_def trainAtTen_def hubNetwork_def plan_eval
        PassengerStations_def arrivalReleases_def DepartureOfferTick_def quot_def ticks Let_def)
qed

lemma firstLedger_run: "ledgerRun [trainAtTen] 1 7 firstLedger"
proof -
  have idle: "Advance (0 + 1) [] (Interrupt (0 + 1) [] (NewConnections [trainAtTen])) = NewConnections [trainAtTen]"
    by (simp add: Advance_def Interrupt_def scoreDeadlines.simps heap_peek_def NewConnections_def)
  have one: "ledgerRun [trainAtTen] 1 0 (NewConnections [trainAtTen])"
    using ledgerRun.step [OF ledgerRun.start, of "[]" "[trainAtTen]" "[]"] idle by (simp add: unalighted_def)
  have "Add firstOffer 7 [] (NewConnections [trainAtTen]) = Inr firstLedger"
    by (simp add: Add_def NewConnections_def firstOffer_def firstLedger_def firstRecord_def validOffer_def departureTick_def
        Issued_def trainAtTen_def DepartureOfferTick_def quot_def plan_eval Let_def)
  from ledgerRun.offer [OF one this, of 7] show ?thesis by (simp add: firstOffer_def)
qed

lemma firstLedger_records: "cs_records firstLedger = [firstRecord]"
  by (simp add: firstLedger_def append_record_sel NewConnections_def)

theorem ledger_history_valid_witness:
  "ledgerRun [trainAtTen] 1 7 firstLedger \<and> cn_Unresolved (cs_counts firstLedger) = 1"
  using firstLedger_run ledger_history_valid [OF train_accepted firstLedger_run]
  by (simp add: firstLedger_records tallies_def firstRecord_def)

theorem Advance_scores_witness:
  "map rc_Outcome (cs_records (Advance 36000 [\<lparr>sc_RequestID = 7, sc_AlightedTick = 32400\<rparr>] firstLedger)) = [''made''] \<and>
   map rc_Outcome (cs_records (Advance 36000 [\<lparr>sc_RequestID = 7, sc_AlightedTick = 32401\<rparr>] firstLedger)) = [''missed'']"
proof -
  have plan: "departureOf firstLedger = departureOf (NewConnections [trainAtTen])"
    by (simp add: firstLedger_def append_record_sel)
  show ?thesis
    using Advance_scores [OF train_accepted firstLedger_run]
    by (simp add: firstLedger_records plan scoreOne_def completeOne_def firstRecord_def Let_def)
      (simp add: departureOf_def NewConnections_def trainAtTen_def departureTick_def TicksPerSecond_def)
qed

definition firstSave :: SavedState where
  "firstSave =
    \<lparr>ss_Tick = 1, ss_RequestID = 7,
     ss_Waiting = [\<lparr>sr_ID = 7, sr_From = ''home'', sr_To = ''hub'', sr_RequestedTick = 1, sr_Completed = False\<rparr>],
     ss_PodRiders = []\<rparr>"

theorem restore_roundtrip_witness:
  "\<exists>c'. RestoreConnections [trainAtTen] [firstRecord] firstSave (cs_counts firstLedger) = Inr c' \<and>
    cs_records c' = [firstRecord]"
proof -
  let ?b = "Map.empty(7 \<mapsto> \<lparr>rb_request = hd (ss_Waiting firstSave), rb_active = True\<rparr>)"
  have "saved_with firstSave ?b 1 7 (cs_records firstLedger)"
    by (simp add: saved_with_def firstLedger_records firstSave_def firstRecord_def savedBindings_def recordMatchesBinding_def)
  from restore_roundtrip [OF train_accepted firstLedger_run this] show ?thesis
    by (auto simp: firstLedger_records)
qed

theorem outcome_final_witness:
  "rc_Outcome (cs_records (Interrupt 1 [7] firstLedger) ! 0) = ''unserved'' \<and>
   rc_Outcome (cs_records (Advance 36000 [] (Interrupt 1 [7] firstLedger)) ! 0) = ''unserved''"
proof -
  have run: "ledgerRun [trainAtTen] 1 7 (Interrupt 1 [7] firstLedger)"
    by (rule ledgerRun.command [OF firstLedger_run]) (simp add: unalighted_def firstLedger_records firstRecord_def)
  have "wired firstLedger"
    using ledgerRun_ok [OF firstLedger_run plan_departures [OF train_accepted]] by (simp add: ledger_ok_def)
  note Interrupt_map [OF this, of 1 "[7]"]
  then have recs: "cs_records (Interrupt 1 [7] firstLedger) = [interruptOne 1 7 firstRecord]"
    by (simp add: firstLedger_records)
  then have "rc_Outcome (cs_records (Interrupt 1 [7] firstLedger) ! 0) = ''unserved''"
    by (simp add: interruptOne_def firstRecord_def)
  with outcome_final [OF train_accepted run, of 0] recs show ?thesis by simp
qed

end
