(* ===== verification/TrackCells.thy ===== *)
theory TrackCells
  imports NetworkModel
begin

text \<open>
  The track of \<open>internal/sim/traffic.go\<close>: the resources, the cells of a lane, the blocks of a
  route, and the end of a reservation. Distances are real numbers. The geometry pointers of the
  code, which only place a pod on a map, are left out. The cursors of a block list are hints of a
  lookup; \<open>scan\<close> stands for any of them, and the results do not depend on it
  (\<open>locate_holds\<close> in \<open>TrackZones\<close>), so a lookup does not return a moved hint.
\<close>

section \<open>Resources\<close>

datatype resourceKind = berthResource | nodeResource | trackResource | junctionResource

record resource =
  res_kind :: resourceKind
  res_id :: string
  res_cell :: nat

abbreviation plain_resource :: "resourceKind \<Rightarrow> string \<Rightarrow> resource" where
  "plain_resource kind i \<equiv> \<lparr>res_kind = kind, res_id = i, res_cell = 0\<rparr>"

definition berthResources :: "Berth \<Rightarrow> resource list" where
  "berthResources berth =
    [plain_resource berthResource (berth_ID berth), plain_resource nodeResource (berth_Node berth)]"

record laneConflict =
  cf_junction :: string
  cf_start :: real
  cf_end :: real

definition Clearance :: real where "Clearance = 4 + 8"

definition largeClearance :: real where "largeClearance = 20"

definition retainedClearance :: "real \<Rightarrow> real" where
  "retainedClearance retention = (if retention > 0 then retention else Clearance)"

definition largeClassSet :: "ClassSet \<Rightarrow> bool" where
  "largeClassSet classes = (Allows classes ''group'' \<or> Allows classes ''express'')"

section \<open>Cells of a lane\<close>

definition laneBlockCount :: "real \<Rightarrow> nat" where
  "laneBlockCount len = max 2 (nat \<lceil>len / 30\<rceil>)"

definition cellOffset :: "nat \<Rightarrow> nat \<Rightarrow> real \<Rightarrow> real" where
  "cellOffset cell n len = real cell * len / real n"

record laneCells =
  lc_tail :: real
  lc_fromTail :: real
  lc_retention :: real
  lc_resources :: "resource list"
  lc_ends :: "nat list"

definition lc_count :: "laneCells \<Rightarrow> nat" where
  "lc_count c = length (lc_ends c)"

definition lc_cell :: "laneCells \<Rightarrow> nat \<Rightarrow> resource list" where
  "lc_cell c cell =
    (let start = (if cell > 0 then lc_ends c ! (cell - 1) else 0)
     in drop start (take (lc_ends c ! cell) (lc_resources c)))"

definition lc_add :: "resource list \<Rightarrow> laneCells \<Rightarrow> laneCells" where
  "lc_add resources c =
    c\<lparr>lc_resources := lc_resources c @ resources, lc_ends := lc_ends c @ [length (lc_resources c @ resources)]\<rparr>"

record laneCellsInput =
  ci_tail :: real
  ci_fromTail :: real
  ci_retention :: real
  ci_lane :: Lane
  ci_length :: real
  ci_berths :: "resource list"
  ci_conflicts :: "laneConflict list"
  ci_every :: "resource list"

definition add_absent :: "resource \<Rightarrow> resource list \<Rightarrow> resource list" where
  "add_absent r resources = (if r \<in> set resources then resources else resources @ [r])"

definition emptyCells :: "laneCellsInput \<Rightarrow> laneCells" where
  "emptyCells i =
    (if largeClassSet (lane_VehicleClasses (ci_lane i))
     then \<lparr>lc_tail = max largeClearance (ci_tail i), lc_fromTail = max largeClearance (ci_fromTail i),
           lc_retention = 0, lc_resources = [], lc_ends = []\<rparr>
     else \<lparr>lc_tail = ci_tail i, lc_fromTail = ci_fromTail i, lc_retention = ci_retention i,
           lc_resources = [], lc_ends = []\<rparr>)"

text \<open>One turn of the loop of \<open>newLaneCells\<close>: the resources of a cell. The tails are those of \<open>emptyCells\<close>.\<close>

definition cellResources :: "laneCellsInput \<Rightarrow> laneCells \<Rightarrow> nat \<Rightarrow> nat \<Rightarrow> resource list" where
  "cellResources i cells n cell =
    (let lane = ci_lane i;
         isLast = (cell = n - 1);
         start = cellOffset cell n (ci_length i);
         end = cellOffset (cell + 1) n (ci_length i);
         r1 = (if isLast then fold add_absent (ci_berths i) (ci_every i) else ci_every i);
         r2 = (if cell = 0 \<or> start < lc_fromTail cells
           then add_absent (plain_resource nodeResource (lane_From lane)) r1 else r1);
         r3 = (if isLast \<or> end > ci_length i - lc_tail cells \<and> lc_tail cells > 0
           then add_absent (plain_resource nodeResource (lane_To lane)) r2 else r2);
         r4 = fold (\<lambda>conflict rs.
             if start < cf_end conflict \<and> cf_start conflict < end
             then add_absent (plain_resource junctionResource (cf_junction conflict)) rs else rs) (ci_conflicts i) r3
     in r4 @ [\<lparr>res_kind = trackResource, res_id = lane_ID lane, res_cell = cell\<rparr>])"

definition newLaneCells :: "laneCellsInput \<Rightarrow> laneCells" where
  "newLaneCells i =
    (let n = laneBlockCount (ci_length i); cells = emptyCells i
     in fold (\<lambda>cell c. lc_add (cellResources i cells n cell) c) [0..<n] cells)"

section \<open>Blocks of a route\<close>

text \<open>
  \<open>bl_lanes\<close> has one entry for each lane of the route and then an entry whose \<open>rl_first\<close> is the number
  of blocks. \<open>rl_start\<close> and \<open>rl_length\<close> are route distances.
\<close>

record routeLaneCells =
  rl_first :: nat
  rl_start :: real
  rl_length :: real
  rl_cells :: laneCells

record blockList =
  bl_route :: "Lane list"
  bl_lanes :: "routeLaneCells list"
  bl_blocks :: nat
  bl_scan :: nat

definition noCells :: laneCells where
  "noCells = \<lparr>lc_tail = 0, lc_fromTail = 0, lc_retention = 0, lc_resources = [], lc_ends = []\<rparr>"

fun routeEntries :: "(Lane \<Rightarrow> laneCells) \<Rightarrow> (Lane \<Rightarrow> real) \<Rightarrow> Lane list \<Rightarrow> nat \<Rightarrow> real \<Rightarrow> routeLaneCells list" where
  "routeEntries cells laneLen [] first distance =
    [\<lparr>rl_first = first, rl_start = distance, rl_length = 0, rl_cells = noCells\<rparr>]"
| "routeEntries cells laneLen (lane # rest) first distance =
    \<lparr>rl_first = first, rl_start = distance, rl_length = laneLen lane, rl_cells = cells lane\<rparr> #
      routeEntries cells laneLen rest (first + lc_count (cells lane)) (distance + laneLen lane)"

definition emptyBlocks :: blockList where
  "emptyBlocks = \<lparr>bl_route = [], bl_lanes = [], bl_blocks = 0, bl_scan = 0\<rparr>"

text \<open>
  \<open>shared\<close> holds the cells that the network has for a lane, \<open>fallback\<close> the input for the cells of
  another lane, and \<open>laneLen\<close> is \<open>Simulation.laneLength\<close>.
\<close>

definition routeBlocks ::
  "(string \<rightharpoonup> laneCells) \<Rightarrow> (Lane \<Rightarrow> laneCellsInput) \<Rightarrow> (Lane \<Rightarrow> real) \<Rightarrow> Lane list \<Rightarrow> blockList \<times> real list" where
  "routeBlocks shared fallback laneLen route =
    (if route = [] then (emptyBlocks, [])
     else
       let cells = (\<lambda>lane. case shared (lane_ID lane) of Some c \<Rightarrow> c | None \<Rightarrow> newLaneCells (fallback lane));
           entries = routeEntries cells laneLen route 0 0
       in (\<lparr>bl_route = route, bl_lanes = entries, bl_blocks = rl_first (last entries), bl_scan = 0\<rparr>,
           map laneLen route))"

definition laneFirst :: "blockList \<Rightarrow> nat \<Rightarrow> nat" where
  "laneFirst l lane = rl_first (bl_lanes l ! lane)"

definition holds :: "blockList \<Rightarrow> nat \<Rightarrow> nat \<Rightarrow> bool" where
  "holds l lane index =
    (lane + 1 < length (bl_lanes l) \<and> laneFirst l lane \<le> index \<and> index < laneFirst l (lane + 1))"

text \<open>\<open>slices.BinarySearchFunc\<close>: the first index of \<open>[i, j)\<close> whose entry is not below the target.\<close>

function binarySearch :: "(nat \<Rightarrow> nat) \<Rightarrow> nat \<Rightarrow> nat \<Rightarrow> nat \<Rightarrow> nat" where
  "binarySearch key target i j =
    (if i < j
     then let h = (i + j) div 2 in
       if key h < target then binarySearch key target (h + 1) j else binarySearch key target i h
     else i)"
  by pat_completeness auto
termination
  by (relation "measure (\<lambda>(key, target, i, j). j - i)") auto

declare binarySearch.simps [simp del]

definition locate :: "blockList \<Rightarrow> nat \<Rightarrow> nat \<Rightarrow> nat" where
  "locate l index hint =
    (if holds l hint index then hint
     else if holds l (hint + 1) index then hint + 1
     else binarySearch (laneFirst l) (index + 1) 0 (length (bl_lanes l) - 1) - 1)"

definition routeLane :: "blockList \<Rightarrow> nat \<Rightarrow> nat" where
  "routeLane l index = (if holds l (bl_scan l) index then bl_scan l else locate l index (bl_scan l))"

text \<open>\<open>next\<close>: the lane of a block, from the lane of the block or of an earlier block.\<close>

function nextLane :: "blockList \<Rightarrow> nat \<Rightarrow> nat \<Rightarrow> nat" where
  "nextLane l lane index =
    (if lane + 1 < length (bl_lanes l) \<and> index \<ge> laneFirst l (lane + 1) then nextLane l (lane + 1) index else lane)"
  by pat_completeness auto
termination
  by (relation "measure (\<lambda>(l, lane, index). length (bl_lanes l) - lane)") auto

declare nextLane.simps [simp del]

definition cellBounds :: "blockList \<Rightarrow> nat \<Rightarrow> nat \<Rightarrow> real \<times> real" where
  "cellBounds l lane cell =
    (let entry = bl_lanes l ! lane; n = laneFirst l (lane + 1) - rl_first entry
     in (rl_start entry + cellOffset cell n (rl_length entry),
         rl_start entry + cellOffset (cell + 1) n (rl_length entry)))"

definition cellEnd :: "blockList \<Rightarrow> nat \<Rightarrow> nat \<Rightarrow> real" where
  "cellEnd l lane cell =
    (let entry = bl_lanes l ! lane
     in rl_start entry + cellOffset (cell + 1) (laneFirst l (lane + 1) - rl_first entry) (rl_length entry))"

text \<open>The cell resources, lane and end of a block by its index in the route.\<close>

definition cellAt :: "blockList \<Rightarrow> nat \<Rightarrow> nat \<Rightarrow> resource list" where
  "cellAt l lane index = lc_cell (rl_cells (bl_lanes l ! lane)) (index - laneFirst l lane)"

definition blockEnd :: "blockList \<Rightarrow> nat \<Rightarrow> real" where
  "blockEnd l index = (let lane = routeLane l index in cellEnd l lane (index - laneFirst l lane))"

definition blockStart :: "blockList \<Rightarrow> nat \<Rightarrow> real" where
  "blockStart l index = (let lane = routeLane l index in fst (cellBounds l lane (index - laneFirst l lane)))"

text \<open>\<open>spanResources\<close> yields the resources of each block of a span, walking the lanes.\<close>

fun spanFrom :: "blockList \<Rightarrow> nat \<Rightarrow> nat \<Rightarrow> nat \<Rightarrow> resource list list" where
  "spanFrom l lane index 0 = []"
| "spanFrom l lane index (Suc n) =
    (let lane' = nextLane l lane index in cellAt l lane' index # spanFrom l lane' (index + 1) n)"

definition spanResources :: "blockList \<Rightarrow> nat \<Rightarrow> nat \<Rightarrow> resource list list" where
  "spanResources l from to = (if from \<ge> to then [] else spanFrom l (routeLane l from) from (to - from))"

section \<open>Release distances\<close>

record releaseInput =
  ri_from :: string
  ri_start :: real
  ri_end :: real
  ri_tail :: real
  ri_fromTail :: real
  ri_retention :: real

definition releaseDistance :: "resource \<Rightarrow> releaseInput \<Rightarrow> real" where
  "releaseDistance r b =
    (if res_kind r = junctionResource then ri_end b
     else if res_kind r = nodeResource \<and> res_id r = ri_from b
     then ri_start b + max (retainedClearance (ri_retention b)) (ri_fromTail b)
     else ri_end b + max (retainedClearance (ri_retention b)) (ri_tail b))"

definition blockInput :: "blockList \<Rightarrow> nat \<Rightarrow> nat \<Rightarrow> releaseInput" where
  "blockInput l lane index =
    (let bounds = cellBounds l lane (index - laneFirst l lane); cells = rl_cells (bl_lanes l ! lane)
     in \<lparr>ri_from = lane_From (bl_route l ! lane), ri_start = fst bounds, ri_end = snd bounds,
         ri_tail = lc_tail cells, ri_fromTail = lc_fromTail cells, ri_retention = lc_retention cells\<rparr>)"

section \<open>The end of a reservation\<close>

text \<open>A run of blocks that have one junction resource; the code keeps those that reach the block it is at.\<close>

record junctionRun =
  jr_junction :: resource
  jr_end :: nat

function extendRun :: "blockList \<Rightarrow> resource \<Rightarrow> nat \<Rightarrow> nat \<Rightarrow> nat" where
  "extendRun l r endLane end =
    (if end + 1 < bl_blocks l
     then let lane = nextLane l endLane (end + 1) in
       if r \<in> set (cellAt l lane (end + 1)) then extendRun l r lane (end + 1) else end
     else end)"
  by pat_completeness auto
termination
  by (relation "measure (\<lambda>(l, r, endLane, end). bl_blocks l - end)") auto

declare extendRun.simps [simp del]

fun zoneResources :: "blockList \<Rightarrow> nat \<Rightarrow> nat \<Rightarrow> resource list \<Rightarrow> junctionRun list \<Rightarrow> nat \<Rightarrow> junctionRun list \<times> nat" where
  "zoneResources l lane i [] runs through = (runs, through)"
| "zoneResources l lane i (r # rs) runs through =
    (if res_kind r \<noteq> junctionResource then zoneResources l lane i rs runs through
     else case find (\<lambda>run. jr_junction run = r) runs of
       Some run \<Rightarrow> zoneResources l lane i rs runs (max through (jr_end run))
     | None \<Rightarrow>
         let end = extendRun l r lane i
         in zoneResources l lane i rs (runs @ [\<lparr>jr_junction = r, jr_end = end\<rparr>]) (max through end))"


definition zoneStep :: "blockList \<Rightarrow> nat \<Rightarrow> nat \<Rightarrow> junctionRun list \<Rightarrow> nat \<Rightarrow> junctionRun list \<times> nat" where
  "zoneStep l lane i runs through =
    (let through1 = (if i + 1 = laneFirst l (lane + 1) \<and> i + 1 < bl_blocks l then max through (i + 1) else through);
         runs1 = filter (\<lambda>run. \<not> jr_end run < i) runs
     in zoneResources l lane i (cellAt l lane i) runs1 through1)"

text \<open>
  The loop of \<open>reservationEnd\<close> with fuel: it visits each block of the route at most once, so
  \<open>bl_blocks l\<close> turns are enough (\<open>reservationEnd_zone\<close> in \<open>TrackZones\<close>).
\<close>

fun zoneLoop :: "nat \<Rightarrow> blockList \<Rightarrow> nat \<Rightarrow> nat \<Rightarrow> junctionRun list \<Rightarrow> nat \<Rightarrow> nat option" where
  "zoneLoop 0 l lane i runs through = (if i \<le> through then None else Some through)"
| "zoneLoop (Suc fuel) l lane i runs through =
    (if i \<le> through
     then let lane' = nextLane l lane i; (runs', through') = zoneStep l lane' i runs through
       in zoneLoop fuel l lane' (i + 1) runs' through'
     else Some through)"

definition reservationEnd :: "blockList \<Rightarrow> nat \<Rightarrow> nat option" where
  "reservationEnd l start = zoneLoop (bl_blocks l) l (routeLane l start) start [] start"

end
