(* ===== verification/Motion.thy ===== *)
theory Motion
  imports TrackCells
begin

text \<open>
  The motion kernel of a pod (\<open>internal/sim/move_step.go\<close>, and \<open>speedBeforeLane\<close> of
  \<open>internal/sim/traffic.go\<close>). Speeds and distances are real numbers, so the properties hold up to the
  rounding of the code's floating point arithmetic. Speed limits are those of a checked network, thus finite.
\<close>

definition acceleration :: real where "acceleration = 2"

definition tickSeconds :: real where "tickSeconds = 1 / 60"

definition stoppingDistance :: "real \<Rightarrow> real" where
  "stoppingDistance speed = speed * speed / (2 * acceleration)"

definition speedLimit :: "blockList \<Rightarrow> nat \<Rightarrow> real" where
  "speedLimit l lane = fval (lane_SpeedLimit (bl_route l ! lane))"

definition laneStart :: "blockList \<Rightarrow> nat \<Rightarrow> real" where
  "laneStart l lane = rl_start (bl_lanes l ! lane)"

section \<open>The step\<close>

fun speedBeforeLoop :: "blockList \<Rightarrow> real \<Rightarrow> real \<Rightarrow> nat list \<Rightarrow> real \<Rightarrow> real" where
  "speedBeforeLoop l distance reach [] speed = speed"
| "speedBeforeLoop l distance reach (lane # lanes) speed =
    (let remaining = laneStart l lane - distance in
      if remaining > reach then speed
      else
        let limit = speedLimit l lane in
        if limit \<ge> speed then speedBeforeLoop l distance reach lanes speed
        else
          let step = acceleration * tickSeconds;
              safe = sqrt (step * step + limit * limit + 2 * acceleration * max 0 remaining) - step
          in speedBeforeLoop l distance reach lanes (min speed (max limit safe)))"

definition speedBeforeLane :: "blockList \<Rightarrow> nat \<Rightarrow> real \<Rightarrow> real \<Rightarrow> real" where
  "speedBeforeLane l current distance speed =
    speedBeforeLoop l distance (speed * speed / (2 * acceleration) + speed * tickSeconds)
      [current + 1..<length (bl_route l)] speed"

record ordinaryMoveResult =
  mr_commandedSpeed :: real
  mr_distance :: real
  mr_speed :: real

definition moveStep :: "blockList \<Rightarrow> nat \<Rightarrow> real \<Rightarrow> real \<Rightarrow> real \<Rightarrow> ordinaryMoveResult" where
  "moveStep l lane distance speedCeiling limit =
    (let available = max 0 (limit - distance);
         dt = tickSeconds;
         safe = sqrt (acceleration * acceleration * dt * dt + 2 * acceleration * available) - acceleration * dt;
         command = min speedCeiling (min (speedLimit l lane) (max 0 safe));
         command = speedBeforeLane l lane distance command;
         travel = min available (command * dt)
     in if limit - (distance + travel) < 1 / 100000
        then \<lparr>mr_commandedSpeed = command, mr_distance = limit, mr_speed = 0\<rparr>
        else \<lparr>mr_commandedSpeed = command, mr_distance = distance + travel, mr_speed = command\<rparr>)"

definition ordinaryMoveStep :: "blockList \<Rightarrow> nat \<Rightarrow> real \<Rightarrow> real \<Rightarrow> real \<Rightarrow> ordinaryMoveResult" where
  "ordinaryMoveStep l lane distance speed limit =
    moveStep l lane distance (speed + acceleration * tickSeconds) limit"

definition coastMoveStep :: "blockList \<Rightarrow> nat \<Rightarrow> real \<Rightarrow> real \<Rightarrow> real \<Rightarrow> real \<Rightarrow> ordinaryMoveResult" where
  "coastMoveStep l lane distance speed limit speedCeiling =
    moveStep l lane distance (min (speed + acceleration * tickSeconds) speedCeiling) limit"

definition faultMoveStep :: "blockList \<Rightarrow> nat \<Rightarrow> real \<Rightarrow> real \<Rightarrow> real \<Rightarrow> real \<Rightarrow> ordinaryMoveResult" where
  "faultMoveStep l lane distance speed limit faultCap = moveStep l lane distance speed (min limit faultCap)"

section \<open>Braking curves\<close>

text \<open>\<open>brakeSpeed b x\<close> is the fastest command from which the speed \<open>b\<close> is reached within the distance \<open>x\<close>.\<close>

definition brakeSpeed :: "real \<Rightarrow> real \<Rightarrow> real" where
  "brakeSpeed b x =
    sqrt ((acceleration * tickSeconds) * (acceleration * tickSeconds) + b * b + 2 * acceleration * x) -
      acceleration * tickSeconds"

lemma accel_pos [simp]: "0 < acceleration" "0 < tickSeconds" "0 < acceleration * tickSeconds" "0 \<le> tickSeconds"
  "0 \<le> acceleration * tickSeconds" "0 \<le> v \<Longrightarrow> 0 \<le> v + acceleration * tickSeconds"
  by (simp_all add: acceleration_def tickSeconds_def)

lemma brakeSpeed_iff:
  assumes "0 \<le> x" and "0 \<le> v"
  shows "v \<le> brakeSpeed b x \<longleftrightarrow> v * v + 2 * (acceleration * tickSeconds) * v \<le> b * b + 2 * acceleration * x"
proof -
  let ?s = "acceleration * tickSeconds"
  have s: "0 < ?s" by simp
  have nonneg: "0 \<le> ?s * ?s + b * b + 2 * acceleration * x"
    using assms(1) by (intro add_nonneg_nonneg) (auto simp: acceleration_def)
  have "v \<le> brakeSpeed b x \<longleftrightarrow> v + ?s \<le> sqrt (?s * ?s + b * b + 2 * acceleration * x)"
    by (auto simp: brakeSpeed_def)
  also have "\<dots> \<longleftrightarrow> (v + ?s)\<^sup>2 \<le> ?s * ?s + b * b + 2 * acceleration * x"
    using assms(2) s nonneg by (metis abs_of_nonneg add_nonneg_nonneg less_imp_le real_le_rsqrt real_le_lsqrt real_sqrt_abs real_sqrt_le_iff)
  also have "\<dots> \<longleftrightarrow> v * v + 2 * ?s * v \<le> b * b + 2 * acceleration * x"
    by (simp add: power2_eq_square algebra_simps)
  finally show ?thesis .
qed

lemma brakeSpeed_ge: "0 \<le> x \<Longrightarrow> 0 \<le> b \<Longrightarrow> v * v \<le> b * b + 2 * acceleration * x \<Longrightarrow> v - acceleration * tickSeconds \<le> brakeSpeed b x"
proof -
  let ?s = "acceleration * tickSeconds"
  assume "v * v \<le> b * b + 2 * acceleration * x"
  then have "v\<^sup>2 \<le> ?s * ?s + b * b + 2 * acceleration * x"
    by (simp add: power2_eq_square) (metis add.assoc add_increasing zero_le_square)
  then have "v \<le> sqrt (?s * ?s + b * b + 2 * acceleration * x)" by (rule real_le_rsqrt)
  then show ?thesis by (simp add: brakeSpeed_def)
qed

lemma brakeSpeed_nonneg: "0 \<le> x \<Longrightarrow> 0 \<le> brakeSpeed b x"
  by (subst brakeSpeed_iff) (auto simp: acceleration_def)

lemma moveStep_brake:
  "moveStep l lane distance speedCeiling limit =
    (let available = max 0 (limit - distance);
         command = speedBeforeLane l lane distance (min speedCeiling (min (speedLimit l lane) (brakeSpeed 0 available)));
         travel = min available (command * tickSeconds)
     in if limit - (distance + travel) < 1 / 100000
        then \<lparr>mr_commandedSpeed = command, mr_distance = limit, mr_speed = 0\<rparr>
        else \<lparr>mr_commandedSpeed = command, mr_distance = distance + travel, mr_speed = command\<rparr>)"
proof -
  have "sqrt (acceleration * acceleration * tickSeconds * tickSeconds + 2 * acceleration * a) - acceleration * tickSeconds =
      brakeSpeed 0 a" for a
    by (simp add: brakeSpeed_def ac_simps)
  moreover have "max 0 (brakeSpeed 0 (max 0 (limit - distance))) = brakeSpeed 0 (max 0 (limit - distance))"
    using brakeSpeed_nonneg [of "max 0 (limit - distance)" 0] by (intro max_absorb2) simp
  ultimately show ?thesis by (simp only: moveStep_def Let_def)
qed

section \<open>Lanes ahead\<close>

definition goodTrack :: "blockList \<Rightarrow> bool" where
  "goodTrack l \<longleftrightarrow> (\<forall>k<length (bl_route l). 0 \<le> speedLimit l k) \<and>
    (\<forall>i j. i \<le> j \<and> j < length (bl_route l) \<longrightarrow> laneStart l i \<le> laneStart l j)"

definition inLane :: "blockList \<Rightarrow> nat \<Rightarrow> real \<Rightarrow> bool" where
  "inLane l lane d \<longleftrightarrow> lane < length (bl_route l) \<and> laneStart l lane \<le> d \<and>
    (\<forall>k. lane < k \<and> k < length (bl_route l) \<longrightarrow> d \<le> laneStart l k)"

text \<open>At \<open>d\<close> with speed \<open>v\<close> the pod can slow down to the limit of each later lane before it starts.\<close>

definition brakeable :: "blockList \<Rightarrow> nat \<Rightarrow> real \<Rightarrow> real \<Rightarrow> bool" where
  "brakeable l lane d v \<longleftrightarrow> (\<forall>k. lane < k \<and> k < length (bl_route l) \<longrightarrow>
    v \<le> speedLimit l k \<or> v * v \<le> speedLimit l k * speedLimit l k + 2 * acceleration * (laneStart l k - d))"

definition calm :: "blockList \<Rightarrow> nat \<Rightarrow> real \<Rightarrow> real \<Rightarrow> bool" where
  "calm l lane d v \<longleftrightarrow> inLane l lane d \<and> 0 \<le> v \<and> v \<le> speedLimit l lane \<and> brakeable l lane d v"

lemma speedBeforeLoop_le: "speedBeforeLoop l d reach lanes v \<le> v"
  by (induction l d reach lanes v rule: speedBeforeLoop.induct)
    (auto simp: Let_def intro: order_trans)

lemma speedBeforeLoop_Cons:
  "speedBeforeLoop l d reach (k # ks) v =
    (if laneStart l k - d > reach then v
     else speedBeforeLoop l d reach ks (min v (max (speedLimit l k) (brakeSpeed (speedLimit l k) (max 0 (laneStart l k - d))))))"
  by (simp add: Let_def brakeSpeed_def min_def max_def)

declare speedBeforeLoop.simps(2) [simp del]

lemma speedBeforeLoop_lower:
  "w \<le> v \<Longrightarrow> \<forall>k\<in>set ks. w \<le> speedLimit l k \<or> w \<le> brakeSpeed (speedLimit l k) (max 0 (laneStart l k - d)) \<Longrightarrow>
     w \<le> speedBeforeLoop l d reach ks v"
  by (induction ks arbitrary: v) (auto simp: speedBeforeLoop_Cons)

lemma speedBeforeLoop_brakes:
  "\<forall>i\<in>set ks. 0 \<le> speedLimit l i \<Longrightarrow> sorted (map (laneStart l) ks) \<Longrightarrow> k \<in> set ks \<Longrightarrow>
     laneStart l k - d > reach \<or> speedBeforeLoop l d reach ks v \<le> speedLimit l k \<or>
     speedBeforeLoop l d reach ks v \<le> brakeSpeed (speedLimit l k) (max 0 (laneStart l k - d))"
proof (induction ks arbitrary: v)
  case (Cons j ks)
  let ?v = "min v (max (speedLimit l j) (brakeSpeed (speedLimit l j) (max 0 (laneStart l j - d))))"
  show ?case
  proof (cases "laneStart l j - d > reach")
    case True
    then have "laneStart l k - d > reach" using Cons.prems by auto
    then show ?thesis by blast
  next
    case False
    then have eq: "speedBeforeLoop l d reach (j # ks) v = speedBeforeLoop l d reach ks ?v"
      by (simp add: speedBeforeLoop_Cons)
    show ?thesis
    proof (cases "k = j")
      case True
      have "speedBeforeLoop l d reach ks ?v \<le> ?v" by (rule speedBeforeLoop_le)
      with True eq show ?thesis by (auto simp: min_le_iff_disj le_max_iff_disj)
    next
      case False
      with Cons show ?thesis unfolding eq by (intro Cons.IH) auto
    qed
  qed
qed simp

lemma speedBeforeLane_brakeable:
  assumes track: "goodTrack l" and lane: "inLane l lane d" and v: "0 \<le> v"
    and step: "c = speedBeforeLane l lane d v" and d': "d' \<le> d + c * tickSeconds" and c: "0 \<le> c"
  shows "brakeable l lane d' c"
  unfolding brakeable_def
proof (intro allI impI)
  fix k assume k: "lane < k \<and> k < length (bl_route l)"
  let ?b = "speedLimit l k" and ?x = "laneStart l k - d"
  let ?reach = "v * v / (2 * acceleration) + v * tickSeconds"
  have cv: "c \<le> v" unfolding step speedBeforeLane_def by (rule speedBeforeLoop_le)
  have x: "0 \<le> ?x" using lane k by (simp add: inLane_def)
  have "\<forall>i\<in>set [lane + 1..<length (bl_route l)]. 0 \<le> speedLimit l i"
    using track by (simp add: goodTrack_def)
  moreover have "sorted (map (laneStart l) [lane + 1..<length (bl_route l)])"
    using track by (auto simp: goodTrack_def sorted_iff_nth_mono)
  ultimately have cases3: "?x > ?reach \<or> c \<le> ?b \<or> c \<le> brakeSpeed ?b (max 0 ?x)"
    unfolding step speedBeforeLane_def using k by (intro speedBeforeLoop_brakes) auto
  have move: "2 * acceleration * (?x - c * tickSeconds) \<le> 2 * acceleration * (laneStart l k - d')"
    using d' by (intro mult_left_mono) (auto simp: acceleration_def)
  consider "?x > ?reach" | "c \<le> ?b" | "c \<le> brakeSpeed ?b ?x" using cases3 x by (auto simp: max_def)
  then show "c \<le> ?b \<or> c * c \<le> ?b * ?b + 2 * acceleration * (laneStart l k - d')"
  proof cases
    case 1
    have "c * tickSeconds \<le> v * tickSeconds" using cv by (intro mult_right_mono) auto
    with 1 have "v * v / (2 * acceleration) \<le> ?x - c * tickSeconds" by linarith
    then have "v * v \<le> 2 * acceleration * (?x - c * tickSeconds)" by (simp add: acceleration_def)
    moreover have "c * c \<le> v * v" using c cv by (intro mult_mono) auto
    moreover have "0 \<le> ?b * ?b" by simp
    ultimately show ?thesis using move by linarith
  next
    case 3
    then have "c * c + 2 * (acceleration * tickSeconds) * c \<le> ?b * ?b + 2 * acceleration * ?x"
      using brakeSpeed_iff [OF x c] by blast
    then have "c * c \<le> ?b * ?b + 2 * acceleration * (?x - c * tickSeconds)" by (simp add: algebra_simps)
    with move show ?thesis by linarith
  qed simp
qed

lemma brakeable_within:
  "brakeable l lane d v \<Longrightarrow> lane \<le> lane' \<Longrightarrow> inLane l lane' d \<Longrightarrow> goodTrack l \<Longrightarrow> lane = lane' \<or> v \<le> speedLimit l lane'"
proof -
  assume b: "brakeable l lane d v" and le: "lane \<le> lane'" and i: "inLane l lane' d" and g: "goodTrack l"
  have "v \<le> speedLimit l lane'" if "lane < lane'"
  proof (rule ccontr)
    assume n: "\<not> v \<le> speedLimit l lane'"
    have limit: "0 \<le> speedLimit l lane'" using g i by (simp add: goodTrack_def inLane_def)
    have "v * v \<le> speedLimit l lane' * speedLimit l lane' + 2 * acceleration * (laneStart l lane' - d)"
      using b that i n by (auto simp: brakeable_def inLane_def)
    also have "\<dots> \<le> speedLimit l lane' * speedLimit l lane'"
      using i by (simp add: inLane_def acceleration_def)
    finally have "v \<le> speedLimit l lane'" using limit n by (metis mult_strict_mono' not_le)
    with n show False by simp
  qed
  with le show ?thesis by (cases "lane = lane'") auto
qed

section \<open>Safety of a step\<close>

lemma stop_after:
  assumes "0 \<le> x" and "0 \<le> v" and "v \<le> brakeSpeed 0 x"
  shows "v * tickSeconds + stoppingDistance v \<le> x"
proof -
  have "v * v + 2 * (acceleration * tickSeconds) * v \<le> 2 * acceleration * x"
    using brakeSpeed_iff [OF assms(1,2), of 0] assms(3) by simp
  then show ?thesis by (simp add: stoppingDistance_def acceleration_def field_simps)
qed

lemma moveStep_bounds:
  assumes "goodTrack l" and "inLane l lane distance" and "0 \<le> speedCeiling" and "distance \<le> limit"
    and "r = moveStep l lane distance speedCeiling limit"
  shows "distance \<le> mr_distance r \<and> mr_distance r \<le> limit \<and> 0 \<le> mr_speed r \<and> mr_speed r \<le> speedCeiling \<and>
    mr_speed r \<le> speedLimit l lane \<and> mr_distance r + stoppingDistance (mr_speed r) \<le> limit \<and>
    brakeable l lane (mr_distance r) (mr_speed r) \<and>
    (\<forall>lane'. lane \<le> lane' \<and> inLane l lane' (mr_distance r) \<longrightarrow> mr_speed r \<le> speedLimit l lane')"
proof -
  define x where "x = limit - distance"
  define v where "v = min speedCeiling (min (speedLimit l lane) (brakeSpeed 0 x))"
  define c where "c = speedBeforeLane l lane distance v"
  have x: "0 \<le> x" "max 0 (limit - distance) = x" using assms(4) by (simp_all add: x_def)
  have limits: "0 \<le> speedLimit l k" if "k < length (bl_route l)" for k using assms(1) that by (simp add: goodTrack_def)
  have len: "lane < length (bl_route l)" using assms(2) by (simp add: inLane_def)
  have v: "0 \<le> v" using assms(3) limits [OF len] brakeSpeed_nonneg [OF x(1)] by (simp add: v_def)
  have cv: "c \<le> v" unfolding c_def speedBeforeLane_def by (rule speedBeforeLoop_le)
  have c: "0 \<le> c" unfolding c_def speedBeforeLane_def
    by (rule speedBeforeLoop_lower [OF v]) (use limits in auto)
  have stop: "c * tickSeconds + stoppingDistance c \<le> x" using cv by (intro stop_after [OF x(1) c]) (simp add: v_def)
  have nonneg: "0 \<le> stoppingDistance c" by (simp add: stoppingDistance_def acceleration_def)
  have travel: "min x (c * tickSeconds) = c * tickSeconds" using stop nonneg by simp
  have r: "r = (if limit - (distance + c * tickSeconds) < 1 / 100000
      then \<lparr>mr_commandedSpeed = c, mr_distance = limit, mr_speed = 0\<rparr>
      else \<lparr>mr_commandedSpeed = c, mr_distance = distance + c * tickSeconds, mr_speed = c\<rparr>)"
    by (simp only: assms(5) moveStep_brake Let_def x(2) v_def [symmetric] c_def [symmetric] travel)
  have brake: "brakeable l lane (distance + c * tickSeconds) c"
    by (rule speedBeforeLane_brakeable [OF assms(1,2) v c_def _ c]) simp
  have rest: "brakeable l lane limit 0" using limits by (simp add: brakeable_def)
  have ct: "0 \<le> c * tickSeconds" using c by simp
  have bounds: "c \<le> speedCeiling" "c \<le> speedLimit l lane" using cv by (simp_all add: v_def)
  have "brakeable l lane (mr_distance r) (mr_speed r)" using brake rest by (simp add: r)
  moreover from this have "\<forall>lane'. lane \<le> lane' \<and> inLane l lane' (mr_distance r) \<longrightarrow> mr_speed r \<le> speedLimit l lane'"
    using brakeable_within [OF _ _ _ assms(1)] bounds(2) limits [OF len] by (auto simp: r split: if_splits)
  ultimately show ?thesis
    using stop nonneg ct c bounds assms(3,4) limits [OF len]
    by (auto simp: r x_def stoppingDistance_def)
qed

text \<open>
  C10. One step of the motion kernel, for every ceiling and limit: the pod does not move back and does not pass its
  limit; its speed is not negative, not above the ceiling and not above the limit of its lane; it
  can still stop by its limit; and it can still slow down to the speed limit of every later lane before it starts, so
  that it enters no lane above its limit.
\<close>

theorem moveStep_safe:
  assumes "goodTrack l" and "inLane l lane distance" and "0 \<le> speedCeiling" and "distance \<le> limit"
    and "r = moveStep l lane distance speedCeiling limit"
  shows "distance \<le> mr_distance r \<and> mr_distance r \<le> limit \<and> 0 \<le> mr_speed r \<and> mr_speed r \<le> speedCeiling \<and>
    mr_speed r \<le> speedLimit l lane \<and> mr_distance r + stoppingDistance (mr_speed r) \<le> limit \<and>
    brakeable l lane (mr_distance r) (mr_speed r) \<and>
    (\<forall>lane'. lane \<le> lane' \<and> inLane l lane' (mr_distance r) \<longrightarrow> mr_speed r \<le> speedLimit l lane')"
  using assms by (rule moveStep_bounds)

section \<open>Braking\<close>

lemma command_lower:
  assumes "goodTrack l" and "calm l lane distance speed" and "distance + stoppingDistance speed \<le> limit"
    and "0 \<le> speedCeiling" and "r = moveStep l lane distance speedCeiling limit"
  shows "min speedCeiling (brakeSpeed speed 0) \<le> mr_commandedSpeed r"
proof -
  let ?x = "max 0 (limit - distance)" and ?w = "brakeSpeed speed 0"
  define v where "v = min speedCeiling (min (speedLimit l lane) (brakeSpeed 0 ?x))"
  have speed: "0 \<le> speed" "speed \<le> speedLimit l lane" using assms(2) by (simp_all add: calm_def)
  have x: "0 \<le> ?x" "speed * speed \<le> 2 * acceleration * ?x"
    using assms(3) by (auto simp: stoppingDistance_def acceleration_def max_def field_simps)
  have mono: "?w \<le> brakeSpeed b y" if "speed * speed \<le> b * b + 2 * acceleration * y" for b y
    using that by (simp add: brakeSpeed_def)
  have w_speed: "?w \<le> speed"
  proof -
    let ?s = "acceleration * tickSeconds"
    have "?s * ?s + speed * speed + 2 * acceleration * 0 \<le> (?s + speed)\<^sup>2"
      using speed mult_nonneg_nonneg [of ?s speed] by (simp add: power2_eq_square distrib_left distrib_right less_imp_le)
    then have "sqrt (?s * ?s + speed * speed + 2 * acceleration * 0) \<le> ?s + speed"
      using speed by (intro real_le_lsqrt) (simp_all add: add_nonneg_nonneg less_imp_le)
    then show ?thesis by (simp add: brakeSpeed_def)
  qed
  have "?w \<le> speedLimit l lane" using w_speed speed by linarith
  then have first: "min speedCeiling ?w \<le> v" using mono [of 0 ?x] x(2) by (simp add: v_def min_le_iff_disj)
  have "min speedCeiling ?w \<le> speedBeforeLane l lane distance v"
    unfolding speedBeforeLane_def
  proof (rule speedBeforeLoop_lower [OF first], intro ballI)
    fix k assume k: "k \<in> set [lane + 1..<length (bl_route l)]"
    then have here: "distance \<le> laneStart l k" using assms(2) by (simp add: calm_def inLane_def)
    have "speed \<le> speedLimit l k \<or>
        speed * speed \<le> speedLimit l k * speedLimit l k + 2 * acceleration * (laneStart l k - distance)"
      using assms(2) k by (simp add: calm_def brakeable_def)
    then show "min speedCeiling ?w \<le> speedLimit l k \<or>
        min speedCeiling ?w \<le> brakeSpeed (speedLimit l k) (max 0 (laneStart l k - distance))"
      using w_speed here mono [of "speedLimit l k" "laneStart l k - distance"] by (auto simp: min_le_iff_disj)
  qed
  then show ?thesis by (simp add: assms(5) moveStep_brake v_def Let_def)
qed

text \<open>
  C36. No brake is harder than the design: a pod within the speed limits whose stopping point lies by its limit is commanded to slow down by at
  most two meters per second squared, and to speed up by at most as much. The kernel never
  has to take a harder brake, also for a faulted pod, and for a coasting pod with a ceiling of at least
  its speed less that brake.
\<close>

theorem gentle_braking:
  assumes "goodTrack l" and "calm l lane distance speed" and "distance + stoppingDistance speed \<le> limit"
  shows "speed - acceleration * tickSeconds \<le> mr_commandedSpeed (ordinaryMoveStep l lane distance speed limit) \<and>
    mr_commandedSpeed (ordinaryMoveStep l lane distance speed limit) \<le> speed + acceleration * tickSeconds \<and>
    (distance + stoppingDistance speed \<le> faultCap \<longrightarrow>
      speed - acceleration * tickSeconds \<le> mr_commandedSpeed (faultMoveStep l lane distance speed limit faultCap)) \<and>
    mr_commandedSpeed (faultMoveStep l lane distance speed limit faultCap) \<le> speed \<and>
    (speed - acceleration * tickSeconds \<le> coast \<and> 0 \<le> coast \<longrightarrow>
      speed - acceleration * tickSeconds \<le> mr_commandedSpeed (coastMoveStep l lane distance speed limit coast))"
proof -
  have speed: "0 \<le> speed" using assms(2) by (simp add: calm_def)
  have brake: "speed - acceleration * tickSeconds \<le> brakeSpeed speed 0"
    using speed by (intro brakeSpeed_ge) (auto simp: acceleration_def)
  have upper: "mr_commandedSpeed (moveStep l lane distance b limit') \<le> b" for b limit'
  proof -
    have "mr_commandedSpeed (moveStep l lane distance b limit') =
        speedBeforeLane l lane distance (min b (min (speedLimit l lane) (brakeSpeed 0 (max 0 (limit' - distance)))))"
      by (simp add: moveStep_brake Let_def)
    also have "\<dots> \<le> min b (min (speedLimit l lane) (brakeSpeed 0 (max 0 (limit' - distance))))"
      unfolding speedBeforeLane_def by (rule speedBeforeLoop_le)
    also have "\<dots> \<le> b" by simp
    finally show ?thesis .
  qed
  have lower: "min b (brakeSpeed speed 0) \<le> mr_commandedSpeed (moveStep l lane distance b limit')"
    if "0 \<le> b" "distance + stoppingDistance speed \<le> limit'" for b limit'
    using command_lower [OF assms(1,2) that(2,1) refl] .
  have s: "0 < acceleration * tickSeconds" by simp
  have gentle: "speed - acceleration * tickSeconds \<le> mr_commandedSpeed (moveStep l lane distance b limit')"
    if "0 \<le> b" "speed - acceleration * tickSeconds \<le> b" "distance + stoppingDistance speed \<le> limit'" for b limit'
  proof -
    have "speed - acceleration * tickSeconds \<le> min b (brakeSpeed speed 0)" using that(2) brake by simp
    also have "\<dots> \<le> mr_commandedSpeed (moveStep l lane distance b limit')" by (rule lower [OF that(1,3)])
    finally show ?thesis .
  qed
  show ?thesis
    unfolding ordinaryMoveStep_def faultMoveStep_def coastMoveStep_def
    using speed s assms(3) by (intro conjI impI upper gentle) auto
qed

section \<open>Coming to rest\<close>

text \<open>The motion of a faulted pod over ticks; \<open>lane n\<close> is its lane at tick \<open>n\<close>.\<close>

primrec faultMotion :: "blockList \<Rightarrow> (nat \<Rightarrow> nat) \<Rightarrow> real \<Rightarrow> real \<Rightarrow> real \<Rightarrow> real \<Rightarrow> nat \<Rightarrow> real \<times> real" where
  "faultMotion l lane limit faultCap d v 0 = (d, v)"
| "faultMotion l lane limit faultCap d v (Suc n) =
    (let (d', v') = faultMotion l lane limit faultCap d v n; r = faultMoveStep l (lane n) d' v' limit faultCap
     in (mr_distance r, mr_speed r))"

lemma brakeSpeed_stop:
  assumes "0 \<le> v" and "c = brakeSpeed v 0"
  shows "0 \<le> c" and "c \<le> v" and "c * c + 2 * (acceleration * tickSeconds) * c = v * v"
    and "c * tickSeconds + stoppingDistance c = stoppingDistance v"
proof -
  let ?s = "acceleration * tickSeconds"
  show c: "0 \<le> c" unfolding assms(2) by (rule brakeSpeed_nonneg) simp
  have "c + ?s = sqrt (?s * ?s + v * v)" by (simp add: assms(2) brakeSpeed_def)
  then have "(c + ?s) * (c + ?s) = ?s * ?s + v * v" by simp
  then show eq: "c * c + 2 * ?s * c = v * v" by (simp add: algebra_simps)
  have "c * c \<le> v * v" unfolding eq [symmetric] using c by (simp add: mult_nonneg_nonneg)
  then show "c \<le> v" using assms(1) c by (metis mult_strict_mono' not_le)
  show "c * tickSeconds + stoppingDistance c = stoppingDistance v"
    unfolding stoppingDistance_def eq [symmetric] by (simp add: acceleration_def field_simps)
qed

lemma brakeSpeed_drop:
  assumes "0 \<le> v" and "c = brakeSpeed v 0" and "1 / 100000 \<le> stoppingDistance c"
  shows "c \<le> v - 1 / 200"
proof (rule ccontr)
  assume n: "\<not> c \<le> v - 1 / 200"
  note b = brakeSpeed_stop [OF assms(1,2)]
  have s: "acceleration * tickSeconds = 1 / 30" by (simp add: acceleration_def tickSeconds_def)
  have c2: "4 / 100000 \<le> c * c" using assms(3) by (simp add: stoppingDistance_def acceleration_def)
  have c1: "1 / 1000 \<le> c"
  proof (rule ccontr)
    assume "\<not> 1 / 1000 \<le> c"
    then have "c * c \<le> 1 / 1000 * (1 / 1000)" using b(1) by (intro mult_mono) auto
    with c2 show False by simp
  qed
  have "v * v \<le> (c + 1 / 200) * (c + 1 / 200)" using n assms(1) b(1) by (intro mult_mono) auto
  then have "2 * (1 / 30) * c \<le> c / 100 + 1 / 40000" using b(3) by (simp add: s algebra_simps)
  with c1 show False by simp
qed

text \<open>One tick of a faulted pod that still rolls to its cap.\<close>

lemma faultMoveStep_rolls:
  assumes "goodTrack l" and "calm l lane d v" and "d + stoppingDistance v = faultCap" and "faultCap \<le> limit"
    and "r = faultMoveStep l lane d v limit faultCap"
  shows "mr_commandedSpeed r = brakeSpeed v 0 \<and> brakeable l lane (mr_distance r) (mr_speed r) \<and>
    (mr_distance r = faultCap \<and> mr_speed r = 0 \<or>
     mr_distance r + stoppingDistance (mr_speed r) = faultCap \<and> 0 \<le> mr_speed r \<and> mr_speed r \<le> v - 1 / 200)"
proof -
  define c where "c = brakeSpeed v 0"
  have v: "0 \<le> v" using assms(2) by (simp add: calm_def)
  note b = brakeSpeed_stop [OF v c_def]
  have stop: "0 \<le> stoppingDistance v" by (simp add: stoppingDistance_def acceleration_def)
  have x: "max 0 (min limit faultCap - d) = stoppingDistance v" using assms(3,4) stop by simp
  have r: "r = moveStep l lane d v faultCap" using assms(4,5) by (simp add: faultMoveStep_def min_absorb2)
  have same: "brakeSpeed 0 (stoppingDistance v) = c"
    by (simp add: c_def brakeSpeed_def stoppingDistance_def acceleration_def)
  have x': "max 0 (faultCap - d) = stoppingDistance v" using assms(3) stop by simp
  define command where "command = speedBeforeLane l lane d (min v (min (speedLimit l lane) c))"
  have upper: "command \<le> c"
    using speedBeforeLoop_le [of l d _ _ "min v (min (speedLimit l lane) c)"]
    by (simp add: command_def speedBeforeLane_def)
  have lower: "c \<le> mr_commandedSpeed r"
    using command_lower [OF assms(1,2) _ v r] assms(3) b(2) by (simp add: c_def [symmetric] min_absorb2)
  have r': "r = (let travel = min (stoppingDistance v) (command * tickSeconds)
     in if faultCap - (d + travel) < 1 / 100000
        then \<lparr>mr_commandedSpeed = command, mr_distance = faultCap, mr_speed = 0\<rparr>
        else \<lparr>mr_commandedSpeed = command, mr_distance = d + travel, mr_speed = command\<rparr>)"
    by (simp only: r moveStep_brake Let_def x' same command_def)
  have command: "command = c"
    using lower upper unfolding r' by (simp add: Let_def split: if_splits)
  have c_stop: "0 \<le> stoppingDistance c" by (simp add: stoppingDistance_def acceleration_def)
  have travel: "min (stoppingDistance v) (c * tickSeconds) = c * tickSeconds" using b(4) c_stop by simp
  have res: "r = (if stoppingDistance c < 1 / 100000
        then \<lparr>mr_commandedSpeed = c, mr_distance = faultCap, mr_speed = 0\<rparr>
        else \<lparr>mr_commandedSpeed = c, mr_distance = d + c * tickSeconds, mr_speed = c\<rparr>)"
    using b(4) assms(3) unfolding r' command travel Let_def by (simp add: algebra_simps)
  have "brakeable l lane (mr_distance r) (mr_speed r)"
    using moveStep_bounds [OF assms(1) _ v _ r] assms(2,3) stop by (simp add: calm_def)
  then show ?thesis
    using b(1,4) assms(3) brakeSpeed_drop [OF v c_def] by (auto simp: res c_def [symmetric])
qed

lemma calm_moves:
  "brakeable l k d v \<Longrightarrow> 0 \<le> v \<Longrightarrow> v \<le> speedLimit l k \<Longrightarrow> goodTrack l \<Longrightarrow> k \<le> k' \<Longrightarrow> inLane l k' d \<Longrightarrow> calm l k' d v"
  using brakeable_within [of l k d v k'] by (auto simp: calm_def brakeable_def)

text \<open>
  C27. A faulted pod comes to rest exactly at its cap. When a pod within the speed limits breaks down, with the
  cap at its stopping point and inside its reservation, then after at most 200 ticks for each meter
  per second of its speed, plus one, it stands at the cap with speed zero, whatever lanes it passes on the way; until then it
  slows down at every tick.
\<close>

theorem fault_comes_to_rest:
  assumes "goodTrack l" and "calm l (lane 0) d v" and "d + stoppingDistance v = faultCap" and "faultCap \<le> limit"
    and "\<forall>n. lane n \<le> lane (Suc n) \<and> inLane l (lane n) (fst (faultMotion l lane limit faultCap d v n))"
  shows "\<exists>n. real n \<le> 200 * v + 1 \<and> faultMotion l lane limit faultCap d v n = (faultCap, 0) \<and>
    (\<forall>m<n. snd (faultMotion l lane limit faultCap d v m) \<le> v - real m / 200)"
proof -
  let ?at = "faultMotion l lane limit faultCap d v"
  have v: "0 \<le> v" using assms(2) by (simp add: calm_def)
  have lanes: "lane n \<le> lane (Suc n)" "inLane l (lane n) (fst (?at n))" for n using assms(5) by blast+
  define rolls where "rolls n \<longleftrightarrow> calm l (lane n) (fst (?at n)) (snd (?at n)) \<and>
    fst (?at n) + stoppingDistance (snd (?at n)) = faultCap \<and> snd (?at n) \<le> v - real n / 200" for n
  have start: "rolls 0" using assms(2,3) by (simp add: rolls_def)
  have step: "rolls (Suc n) \<or> ?at (Suc n) = (faultCap, 0)" if "rolls n" for n
  proof -
    obtain d' v' where at_n: "?at n = (d', v')" by (cases "?at n")
    have here: "calm l (lane n) d' v'" "d' + stoppingDistance v' = faultCap" "v' \<le> v - real n / 200"
      using that by (simp_all add: rolls_def at_n)
    define r where "r = faultMoveStep l (lane n) d' v' limit faultCap"
    have next_at: "?at (Suc n) = (mr_distance r, mr_speed r)" by (simp add: at_n r_def Let_def)
    note roll = faultMoveStep_rolls [OF assms(1) here(1,2) assms(4) r_def]
    show ?thesis
    proof (cases "mr_distance r = faultCap \<and> mr_speed r = 0")
      case True
      then show ?thesis using next_at by simp
    next
      case False
      then have go: "mr_distance r + stoppingDistance (mr_speed r) = faultCap" "0 \<le> mr_speed r" "mr_speed r \<le> v' - 1 / 200"
        using roll by blast+
      have "mr_speed r \<le> speedLimit l (lane n)" using go(3) here(1) by (simp add: calm_def)
      then have "calm l (lane (Suc n)) (mr_distance r) (mr_speed r)"
        using roll go(2) lanes(1) [of n] lanes(2) [of "Suc n"] next_at by (intro calm_moves [OF _ _ _ assms(1)]) auto
      moreover have "mr_speed r \<le> v - real (Suc n) / 200"
        using go(3) here(3) by (simp add: add_divide_distrib)
      ultimately show ?thesis using go(1) unfolding rolls_def next_at by simp
    qed
  qed
  have "\<exists>n. ?at n = (faultCap, 0)"
  proof (rule ccontr)
    assume none: "\<not> ?thesis"
    have all: "rolls n" for n by (induction n) (use start step none in blast)+
    obtain n :: nat where n: "200 * v < real n" using reals_Archimedean2 by blast
    have "0 \<le> snd (?at n)" "snd (?at n) \<le> v - real n / 200" using all [of n] by (simp_all add: rolls_def calm_def)
    with n show False by simp
  qed
  then obtain n where n: "?at n = (faultCap, 0)" and least: "\<forall>m<n. ?at m \<noteq> (faultCap, 0)"
    using exists_least_iff [of "\<lambda>n. ?at n = (faultCap, 0)"] by blast
  have rolling: "m < n \<Longrightarrow> rolls m" for m
  proof (induction m)
    case (Suc m)
    have "?at (Suc m) \<noteq> (faultCap, 0)" using least Suc.prems by blast
    moreover have "rolls m" using Suc by simp
    ultimately show ?case using step by blast
  qed (use start in simp)
  have "real n \<le> 200 * v + 1"
  proof (cases n)
    case (Suc m)
    then have "rolls m" using rolling by simp
    then have "0 \<le> v - real m / 200" by (auto simp: rolls_def calm_def)
    with Suc show ?thesis by simp
  qed (use v in simp)
  with n rolling show ?thesis unfolding rolls_def by blast
qed

section \<open>A concrete track\<close>

text \<open>Two lanes of a hundred meters; the second has half the speed limit of the first.\<close>

definition slowAhead :: blockList where
  "slowAhead =
    (let lane = (\<lambda>i limit. \<lparr>lane_VehicleClasses = 0, lane_ID = i, lane_From = [], lane_To = [], lane_SpeedLimit = Fin limit,
           lane_SeparationGroup = [], lane_StationID = [], lane_StationRole = [], lane_Control = None\<rparr>);
         entry = (\<lambda>n s. \<lparr>rl_first = n, rl_start = s, rl_length = 100, rl_cells = noCells\<rparr>)
     in \<lparr>bl_route = [lane ''a'' 10, lane ''b'' 5], bl_lanes = [entry 0 0, entry 4 100, entry 8 200],
         bl_blocks = 8, bl_scan = 0\<rparr>)"

lemma slowAhead_good: "goodTrack slowAhead"
  by (auto simp: goodTrack_def slowAhead_def speedLimit_def laneStart_def Let_def less_Suc_eq numeral_2_eq_2
      le_Suc_eq)

lemma slowAhead_lane: "0 \<le> d \<Longrightarrow> d \<le> 100 \<Longrightarrow> inLane slowAhead 0 d"
  by (auto simp: inLane_def slowAhead_def laneStart_def Let_def less_Suc_eq numeral_2_eq_2)

lemma slowAhead_calm: "calm slowAhead 0 50 4"
  by (simp add: calm_def slowAhead_lane brakeable_def)
    (auto simp: slowAhead_def speedLimit_def laneStart_def Let_def less_Suc_eq numeral_2_eq_2)

theorem moveStep_safe_witness:
  "mr_distance (moveStep slowAhead 0 50 8 150) \<le> 150 \<and> mr_speed (moveStep slowAhead 0 50 8 150) \<le> 8"
  using moveStep_safe [OF slowAhead_good slowAhead_lane [of 50] _ _ refl, of 8 150] by simp

theorem gentle_braking_witness:
  "4 - 1 / 30 \<le> mr_commandedSpeed (ordinaryMoveStep slowAhead 0 50 4 60) \<and>
   mr_commandedSpeed (ordinaryMoveStep slowAhead 0 50 4 60) \<le> 4 + 1 / 30"
  using gentle_braking [OF slowAhead_good slowAhead_calm, of 60 0 0]
  by (simp add: stoppingDistance_def acceleration_def tickSeconds_def)

theorem fault_comes_to_rest_witness:
  "\<exists>n. faultMotion slowAhead (\<lambda>_. 0) 60 54 50 4 n = (54, 0)"
proof -
  have cap: "50 + stoppingDistance 4 = 54" by (simp add: stoppingDistance_def acceleration_def)
  have within: "50 \<le> fst (faultMotion slowAhead (\<lambda>_. 0) 60 54 50 4 n) \<and>
      fst (faultMotion slowAhead (\<lambda>_. 0) 60 54 50 4 n) \<le> 54 \<and> 0 \<le> snd (faultMotion slowAhead (\<lambda>_. 0) 60 54 50 4 n)" for n
  proof (induction n)
    case (Suc n)
    obtain d v where dv: "faultMotion slowAhead (\<lambda>_. 0) 60 54 50 4 n = (d, v)"
      by (cases "faultMotion slowAhead (\<lambda>_. 0) 60 54 50 4 n")
    with Suc moveStep_bounds [OF slowAhead_good slowAhead_lane [of d] _ _ refl, of v 54] show ?case
      by (simp add: faultMoveStep_def Let_def)
  qed simp
  have "inLane slowAhead 0 (fst (faultMotion slowAhead (\<lambda>_. 0) 60 54 50 4 n))" for n
    using within [of n] by (intro slowAhead_lane) auto
  then show ?thesis
    using fault_comes_to_rest [where lane = "\<lambda>_. 0" and limit = 60, OF slowAhead_good slowAhead_calm cap] by auto
qed

end
