(* ===== verification/TrackClaims.thy ===== *)
theory TrackClaims
  imports Motion "HOL-Library.AList"
begin

text \<open>
  The claims of pods on the track: the owners of \<open>internal/sim/resource_owner.go\<close>, the incident IDs of
  \<open>incident.go\<close>, the pods and the platoon walks of \<open>platoon.go\<close>, and the grant and the release of
  resources of \<open>traffic.go\<close>. A pod has the fields of \<open>vehicle\<close> that these operations read or
  write. A vehicle is its index in the fleet, as the links have it (one plus the index, zero for none).
  \<open>routeReleases\<close> is an association list: a Go map has no order of iteration, and \<open>TrafficSafety\<close> shows
  what a release does to each resource without regard to the order.
\<close>

section \<open>Owners\<close>

definition podOwnerKind :: nat where "podOwnerKind = 1"
definition faultOwnerKind :: nat where "faultOwnerKind = 2"

record resourceOwner =
  own_kind :: nat
  own_id :: string

definition zeroOwner :: resourceOwner where
  "zeroOwner = \<lparr>own_kind = 0, own_id = []\<rparr>"

definition podResourceOwner :: "string \<Rightarrow> resourceOwner" where
  "podResourceOwner i = (if i = [] then zeroOwner else \<lparr>own_kind = podOwnerKind, own_id = i\<rparr>)"

definition isZero :: "resourceOwner \<Rightarrow> bool" where
  "isZero owner = (owner = zeroOwner)"

definition isPod :: "resourceOwner \<Rightarrow> string \<Rightarrow> bool" where
  "isPod owner i = (own_kind owner = podOwnerKind \<and> own_id owner \<noteq> [] \<and> own_id owner = i)"

definition podID :: "resourceOwner \<Rightarrow> string" where
  "podID owner = (if own_kind owner \<noteq> podOwnerKind then [] else own_id owner)"

definition ownerString :: "resourceOwner \<Rightarrow> string" where
  "ownerString owner =
    (if isZero owner then []
     else if own_kind owner = podOwnerKind \<and> own_id owner \<noteq> [] then own_id owner
     else if own_kind owner = faultOwnerKind then own_id owner
     else ''unknown resource owner '' @ own_id owner)"

section \<open>Incident IDs\<close>

text \<open>\<open>strconv.FormatUint\<close> in base ten.\<close>

definition digit :: "nat \<Rightarrow> char" where
  "digit d = ''0123456789'' ! d"

fun formatUint :: "nat \<Rightarrow> string" where
  "formatUint n = (if n < 10 then [digit n] else formatUint (n div 10) @ [digit (n mod 10)])"

declare formatUint.simps [simp del]

definition incidentID :: "nat \<Rightarrow> nat \<Rightarrow> string" where
  "incidentID generation serial = ''i'' @ formatUint generation @ ''.'' @ formatUint serial"

datatype faultKind = podFault | debrisFault

record faultRecord =
  fr_generation :: nat
  fr_serial :: nat
  fr_kind :: faultKind
  fr_start :: int
  fr_end :: int
  fr_pod :: nat
  fr_lane :: nat
  fr_from :: real
  fr_to :: real

definition recordID :: "faultRecord \<Rightarrow> string" where
  "recordID r = incidentID (fr_generation r) (fr_serial r)"

section \<open>Pods\<close>

datatype Activity = Idle | DepartingEmpty | Boarding | Traveling | Unloading | Continuing

record platoonLink =
  pl_leader :: nat
  pl_lane :: nat
  pl_leaderLane :: nat
  pl_lanes :: nat
  pl_end :: int
  pl_turn :: real
  pl_clearance :: real
  pl_draining :: bool

text \<open>\<open>nextRelease\<close> is \<open>None\<close> for plus infinity and \<open>Some 0\<close> for the value that asks for an owner check.\<close>

record vehicle =
  vh_ID :: string
  vh_Class :: string
  vh_Activity :: Activity
  vh_StationID :: string
  vh_BerthID :: string
  vh_LaneID :: string
  vh_LaneDistance :: real
  vh_Speed :: real
  vh_Occupied :: bool
  vh_WaitReason :: string
  vh_BlockedBy :: string
  vh_RelocatingTo :: string
  vh_RidersDone :: "bool list"
  vh_phaseTicks :: int
  vh_blocks :: blockList
  vh_routeReleases :: "(resource \<times> real) list"
  vh_blockIndex :: nat
  vh_reservedThrough :: int
  vh_originReleased :: bool
  vh_distance :: real
  vh_pending :: int
  vh_waitSince :: int
  vh_origin :: Berth
  vh_destination :: Berth
  vh_destinationStation :: string
  vh_nextRelease :: "real option"
  vh_link :: platoonLink
  vh_follower :: nat
  vh_faulted :: bool
  vh_depotArrived :: bool

record intent =
  in_index :: nat
  in_block :: nat
  in_since :: int
  in_priority :: int
  in_id :: string
  in_emergency :: nat

record deniedRequest =
  dr_in :: intent
  dr_through :: nat

record traffic =
  tr_vehicles :: "vehicle list"
  tr_owners :: "resource \<rightharpoonup> resourceOwner"
  tr_platooning :: bool
  tr_groups :: "string list"
  tr_stations :: "Station list"
  tr_faults :: "faultRecord list"
  tr_denied :: "deniedRequest list"

abbreviation pod :: "traffic \<Rightarrow> nat \<Rightarrow> vehicle" where
  "pod s i \<equiv> tr_vehicles s ! i"

definition setPod :: "nat \<Rightarrow> (vehicle \<Rightarrow> vehicle) \<Rightarrow> traffic \<Rightarrow> traffic" where
  "setPod i f s = s\<lparr>tr_vehicles := (tr_vehicles s)[i := f (pod s i)]\<rparr>"

definition ownerAt :: "traffic \<Rightarrow> resource \<Rightarrow> resourceOwner" where
  "ownerAt s r = (case tr_owners s r of None \<Rightarrow> zeroOwner | Some owner \<Rightarrow> owner)"

definition podOwner :: "traffic \<Rightarrow> nat \<Rightarrow> resourceOwner" where
  "podOwner s i = podResourceOwner (vh_ID (pod s i))"

definition findVehicle :: "traffic \<Rightarrow> string \<Rightarrow> nat option" where
  "findVehicle s i = (if i = [] then None else index_func (\<lambda>v. vh_ID v = i) (tr_vehicles s))"

section \<open>Platoons\<close>

text \<open>
  The walks along the links. A platoon has no loop, so a walk meets each pod at most once and the
  size of the fleet is enough fuel (\<open>aheadInPlatoon_iff\<close> in \<open>TrafficSafety\<close>).
\<close>

fun leadersFrom :: "nat \<Rightarrow> traffic \<Rightarrow> nat \<Rightarrow> nat list" where
  "leadersFrom 0 s link = []"
| "leadersFrom (Suc fuel) s link =
    (if link = 0 then [] else (link - 1) # leadersFrom fuel s (pl_leader (vh_link (pod s (link - 1)))))"

fun followersFrom :: "nat \<Rightarrow> traffic \<Rightarrow> nat \<Rightarrow> nat list" where
  "followersFrom 0 s link = []"
| "followersFrom (Suc fuel) s link =
    (if link = 0 then [] else (link - 1) # followersFrom fuel s (vh_follower (pod s (link - 1))))"

definition leaders :: "traffic \<Rightarrow> nat \<Rightarrow> nat list" where
  "leaders s i = leadersFrom (length (tr_vehicles s)) s (pl_leader (vh_link (pod s i)))"

definition followers :: "traffic \<Rightarrow> nat \<Rightarrow> nat list" where
  "followers s i = followersFrom (length (tr_vehicles s)) s (vh_follower (pod s i))"

definition aheadInPlatoon :: "traffic \<Rightarrow> nat \<Rightarrow> string \<Rightarrow> bool" where
  "aheadInPlatoon s i ident = list_ex (\<lambda>leader. vh_ID (pod s leader) = ident) (leaders s i)"

definition platoonPosition :: "traffic \<Rightarrow> nat \<Rightarrow> nat \<times> nat" where
  "platoonPosition s i = (last (i # leaders s i), 1 + length (leaders s i))"

definition ownerAheadInPlatoon :: "traffic \<Rightarrow> nat \<Rightarrow> resourceOwner \<Rightarrow> bool" where
  "ownerAheadInPlatoon s i owner = (let ident = podID owner in ident \<noteq> [] \<and> aheadInPlatoon s i ident)"

definition leaderBlock :: "vehicle \<Rightarrow> vehicle \<Rightarrow> platoonLink \<Rightarrow> nat \<Rightarrow> int" where
  "leaderBlock v leader link index =
    (let lane = routeLane (vh_blocks v) index
     in int (laneFirst (vh_blocks leader) (lane - pl_lane link + pl_leaderLane link)) + int index -
       int (laneFirst (vh_blocks v) lane))"

definition linkedSpan :: "traffic \<Rightarrow> nat \<Rightarrow> nat \<Rightarrow> nat \<Rightarrow> bool" where
  "linkedSpan s i from through =
    (let v = pod s i; link = vh_link v in
      if \<not> tr_platooning s \<or> pl_draining link \<or> int through > pl_end link \<or>
        from < laneFirst (vh_blocks v) (pl_lane link)
      then False
      else
        let leader = pod s (pl_leader link - 1) in
        vh_Activity leader = Traveling \<and> leaderBlock v leader link through \<le> vh_reservedThrough leader)"

definition holdsPending :: "traffic \<Rightarrow> nat \<Rightarrow> bool" where
  "holdsPending s i = list_ex (\<lambda>(r, _). ownerAt s r \<noteq> podOwner s i) (vh_routeReleases (pod s i))"

definition returnsToShared :: "traffic \<Rightarrow> nat \<Rightarrow> nat \<Rightarrow> nat \<Rightarrow> bool" where
  "returnsToShared s i from through =
    list_ex (\<lambda>r. map_of (vh_routeReleases (pod s i)) r \<noteq> None \<and>
        list_ex (\<lambda>j. map_of (vh_routeReleases (pod s j)) r \<noteq> None) (followers s i))
      (concat (spanResources (vh_blocks (pod s i)) from (through + 1)))"

section \<open>Grants\<close>

definition podFaultID :: "traffic \<Rightarrow> nat \<Rightarrow> string" where
  "podFaultID s i =
    (if \<not> vh_faulted (pod s i) then []
     else case find (\<lambda>r. fr_kind r = podFault \<and> fr_pod r = i) (tr_faults s) of
       None \<Rightarrow> [] | Some r \<Rightarrow> recordID r)"

definition incidentBlocker :: "traffic \<Rightarrow> resourceOwner \<Rightarrow> string option" where
  "incidentBlocker s owner =
    (if tr_faults s = [] then None
     else if own_kind owner = faultOwnerKind then Some (own_id owner)
     else case findVehicle s (podID owner) of
       None \<Rightarrow> None
     | Some other \<Rightarrow> if vh_faulted (pod s other) then Some (podFaultID s other) else None)"

definition groupResource :: "traffic \<Rightarrow> resource \<Rightarrow> bool" where
  "groupResource s r = (res_kind r = junctionResource \<and> res_id r \<in> set (tr_groups s))"

definition deny :: "deniedRequest \<Rightarrow> traffic \<Rightarrow> traffic" where
  "deny d s = s\<lparr>tr_denied := tr_denied s @ [d]\<rparr>"

definition waitOn :: "nat \<Rightarrow> string \<Rightarrow> string \<Rightarrow> traffic \<Rightarrow> traffic" where
  "waitOn i reason by s = setPod i (\<lambda>v. v\<lparr>vh_WaitReason := reason, vh_BlockedBy := by\<rparr>) s"

definition refuseGrant :: "nat \<Rightarrow> deniedRequest \<Rightarrow> resource \<Rightarrow> resourceOwner \<Rightarrow> traffic \<Rightarrow> traffic" where
  "refuseGrant i d r owner s =
    (case incidentBlocker s owner of
       Some ident \<Rightarrow> waitOn i ''Blocked by incident'' ident s
     | None \<Rightarrow>
         let reason = (case res_kind r of berthResource \<Rightarrow> ''Berth occupied''
             | nodeResource \<Rightarrow> ''Junction traffic'' | junctionResource \<Rightarrow> ''Junction traffic''
             | trackResource \<Rightarrow> ''Pod ahead'');
           s' = waitOn i reason (ownerString owner) s
         in if res_kind r \<noteq> berthResource then deny d s' else s')"

definition retainRouteResource :: "resource \<Rightarrow> real \<Rightarrow> vehicle \<Rightarrow> vehicle" where
  "retainRouteResource r releaseAt v =
    (let old = (case map_of (vh_routeReleases v) r of None \<Rightarrow> 0 | Some t \<Rightarrow> t);
         v' = v\<lparr>vh_routeReleases := AList.update r (max old releaseAt) (vh_routeReleases v)\<rparr>
     in case vh_nextRelease v of
          None \<Rightarrow> v'\<lparr>vh_nextRelease := Some releaseAt\<rparr>
        | Some t \<Rightarrow> if t \<noteq> 0 then v'\<lparr>vh_nextRelease := Some (min t releaseAt)\<rparr> else v')"

text \<open>The resources of the blocks of a grant with their release distances, along the walk over the lanes.\<close>

fun spanReleases :: "blockList \<Rightarrow> nat \<Rightarrow> nat \<Rightarrow> nat \<Rightarrow> (resource \<times> real) list" where
  "spanReleases l lane index 0 = []"
| "spanReleases l lane index (Suc n) =
    (let lane' = nextLane l lane index
     in map (\<lambda>r. (r, releaseDistance r (blockInput l lane' index))) (cellAt l lane' index) @
       spanReleases l lane' (index + 1) n)"

definition takeResource :: "bool \<Rightarrow> nat \<Rightarrow> resource \<times> real \<Rightarrow> traffic \<Rightarrow> traffic" where
  "takeResource linked i entry s =
    (let (r, releaseAt) = entry;
         s' = (if \<not> linked \<or> isZero (ownerAt s r)
           then s\<lparr>tr_owners := (tr_owners s)(r \<mapsto> podOwner s i)\<rparr> else s)
     in setPod i (retainRouteResource r releaseAt) s')"

text \<open>The first resource of a request that another pod refuses.\<close>

definition refuses :: "bool \<Rightarrow> traffic \<Rightarrow> nat \<Rightarrow> resource \<Rightarrow> bool" where
  "refuses linked s i r =
    (let owner = ownerAt s r in
      \<not> isZero owner \<and> \<not> isPod owner (vh_ID (pod s i)) \<and>
      (\<not> linked \<or> res_kind r = berthResource \<or> res_kind r = junctionResource \<and> groupResource s r \<or>
       \<not> ownerAheadInPlatoon s i owner))"

definition grant :: "intent \<Rightarrow> traffic \<Rightarrow> traffic" where
  "grant request s =
    (let i = in_index request; start = in_block request; v = pod s i; blocks = vh_blocks v in
      case reservationEnd blocks start of
        None \<Rightarrow> s
      | Some through \<Rightarrow>
      let linked = (pl_leader (vh_link v) \<noteq> 0 \<and> linkedSpan s i start through);
          d = \<lparr>dr_in = request, dr_through = through\<rparr> in
      if pl_leader (vh_link v) \<noteq> 0 \<and> \<not> linked \<and> holdsPending s i
      then deny d (waitOn i ''Pod ahead'' (vh_ID (pod s (pl_leader (vh_link v) - 1))) s)
      else if vh_follower v \<noteq> 0 \<and> returnsToShared s i start through
      then deny d (waitOn i ''Pod ahead'' (vh_ID (pod s (vh_follower v - 1))) s)
      else case find (refuses linked s i) (concat (spanResources blocks start (through + 1))) of
        Some r \<Rightarrow> refuseGrant i d r (ownerAt s r) s
      | None \<Rightarrow>
          let s' = fold (takeResource linked i) (spanReleases blocks (routeLane blocks start) start (through + 1 - start)) s
          in setPod i (\<lambda>v. v\<lparr>vh_reservedThrough := int through, vh_pending := - 1\<rparr>) s')"

section \<open>Releases\<close>

definition largeVehicleClass :: "string \<Rightarrow> bool" where
  "largeVehicleClass class = (class = ''group'' \<or> class = ''express'')"

definition originTailFrom :: "vehicle \<Rightarrow> nat \<Rightarrow> real" where
  "originTailFrom v lane =
    (let minimum = (if largeVehicleClass (vh_Class v) then largeClearance else Clearance) in
      if length (bl_lanes (vh_blocks v)) > lane + 1
      then
        let cells = rl_cells (bl_lanes (vh_blocks v) ! lane)
        in max (if largeVehicleClass (vh_Class v) then minimum else retainedClearance (lc_retention cells)) (lc_fromTail cells)
      else minimum)"

definition originTail :: "vehicle \<Rightarrow> real" where
  "originTail v = originTailFrom v 0"

text \<open>The first pod behind the owner that retains the resource past its position gets it.\<close>

definition heirOf :: "traffic \<Rightarrow> nat \<Rightarrow> resource \<Rightarrow> nat option" where
  "heirOf s i r =
    find (\<lambda>j. case map_of (vh_routeReleases (pod s j)) r of
        None \<Rightarrow> False | Some releaseAt \<Rightarrow> releaseAt > vh_distance (pod s j)) (followers s i)"

definition releaseRouteResource :: "nat \<Rightarrow> resource \<Rightarrow> traffic \<Rightarrow> traffic" where
  "releaseRouteResource i r s =
    (if \<not> isPod (ownerAt s r) (vh_ID (pod s i)) then s
     else case heirOf s i r of
       Some j \<Rightarrow> s\<lparr>tr_owners := (tr_owners s)(r \<mapsto> podOwner s j)\<rparr>
     | None \<Rightarrow> s\<lparr>tr_owners := (tr_owners s)(r := None)\<rparr>)"

definition releaseOwned :: "nat \<Rightarrow> resource \<Rightarrow> traffic \<Rightarrow> traffic" where
  "releaseOwned i r s =
    (if ownerAt s r = podOwner s i
     then setPod i (\<lambda>v. v\<lparr>vh_nextRelease := Some 0\<rparr>) (releaseRouteResource i r s)
     else s)"

definition podBerth :: "traffic \<Rightarrow> nat \<Rightarrow> Berth option" where
  "podBerth s i =
    (case find (\<lambda>st. st_ID st = vh_StationID (pod s i)) (tr_stations s) of
       None \<Rightarrow> None | Some station \<Rightarrow> Station_berth station (vh_BerthID (pod s i)))"

definition podBerthNode :: "traffic \<Rightarrow> nat \<Rightarrow> string" where
  "podBerthNode s i = (case podBerth s i of None \<Rightarrow> [] | Some berth \<Rightarrow> berth_Node berth)"

definition lowest :: "real option \<Rightarrow> real \<Rightarrow> real option" where
  "lowest t releaseAt = Some (case t of None \<Rightarrow> releaseAt | Some u \<Rightarrow> min u releaseAt)"

text \<open>The loop over \<open>routeReleases\<close> gives the entries that stay and the smallest release distance of them.\<close>

fun passedLoop ::
  "nat \<Rightarrow> bool \<Rightarrow> (resource \<times> real) list \<Rightarrow> traffic \<Rightarrow> (resource \<times> real) list \<Rightarrow> real option \<Rightarrow>
    traffic \<times> (resource \<times> real) list \<times> real option" where
  "passedLoop i checkOwners [] s kept next = (s, kept, next)"
| "passedLoop i checkOwners ((r, releaseAt) # rest) s kept next =
    (let owner = ownerAt s r in
      if checkOwners \<and> \<not> isPod owner (vh_ID (pod s i)) \<and> \<not> ownerAheadInPlatoon s i owner
      then passedLoop i checkOwners rest s kept next
      else if releaseAt \<le> vh_distance (pod s i)
      then passedLoop i checkOwners rest (if owner = podOwner s i then releaseRouteResource i r s else s) kept next
      else passedLoop i checkOwners rest s (kept @ [(r, releaseAt)]) (lowest next releaseAt))"

definition releasePassedResources :: "nat \<Rightarrow> traffic \<Rightarrow> traffic" where
  "releasePassedResources i s =
    (let v = pod s i; checkOwners = (vh_nextRelease v = Some 0) in
      if \<not> checkOwners \<and> (case vh_nextRelease v of None \<Rightarrow> True | Some t \<Rightarrow> vh_distance v < t) then s
      else
        let (s', kept, next) = passedLoop i checkOwners (vh_routeReleases v) s [] None
        in setPod i (\<lambda>v. v\<lparr>vh_routeReleases := kept, vh_nextRelease := next\<rparr>) s')"

definition releaseRouteResourcesExcept :: "nat \<Rightarrow> resource list \<Rightarrow> traffic \<Rightarrow> traffic" where
  "releaseRouteResourcesExcept i retained s =
    setPod i (\<lambda>v. v\<lparr>vh_routeReleases := []\<rparr>)
      (fold (\<lambda>(r, _) s. if r \<in> set retained then s else releaseOwned i r s) (vh_routeReleases (pod s i)) s)"

definition releaseDepotOrigin :: "nat \<Rightarrow> traffic \<Rightarrow> traffic" where
  "releaseDepotOrigin i s0 =
    (let s = setPod i (\<lambda>v. v\<lparr>vh_depotArrived := False\<rparr>) s0; v = pod s i in
      if vh_originReleased v \<or> vh_distance v < originTail v then s
      else setPod i (\<lambda>v. v\<lparr>vh_originReleased := True\<rparr>)
        (fold (\<lambda>r s. if r \<in> set (berthResources (vh_destination v)) then s else releaseOwned i r s)
          (berthResources (vh_origin v)) s))"

definition releaseOrigin :: "nat \<Rightarrow> traffic \<Rightarrow> traffic" where
  "releaseOrigin i s =
    setPod i (\<lambda>v. v\<lparr>vh_originReleased := True\<rparr>)
      (fold (\<lambda>r s. case map_of (vh_routeReleases (pod s i)) r of
           None \<Rightarrow> releaseOwned i r s
         | Some releaseAt \<Rightarrow> if releaseAt \<le> vh_distance (pod s i) then releaseOwned i r s else s)
        (berthResources (vh_origin (pod s i))) s)"

definition releaseVehicleResources :: "nat \<Rightarrow> traffic \<Rightarrow> traffic" where
  "releaseVehicleResources i s0 =
    (if vh_Activity (pod s0 i) \<noteq> Traveling
     then
       let s = (if vh_depotArrived (pod s0 i) then releaseDepotOrigin i s0 else s0) in
       if vh_routeReleases (pod s i) = [] then s
       else releaseRouteResourcesExcept i
         [plain_resource berthResource (vh_BerthID (pod s i)), plain_resource nodeResource (podBerthNode s i)] s
     else
       let s = releasePassedResources i s0; v = pod s i in
       if \<not> vh_originReleased v \<and> vh_distance v \<ge> originTail v then releaseOrigin i s else s)"

definition releaseCleared :: "traffic \<Rightarrow> traffic" where
  "releaseCleared s = fold releaseVehicleResources [0..<length (tr_vehicles s)] s"

section \<open>Movement\<close>

text \<open>
  \<open>publishVehicleTravel\<close> moves the block index of a pod with its distance. The result tells whether
  the pod reached the end of its route; the arrival is then \<open>arrivePod\<close>, or a wait at the end of a route without a berth.
  The lane entries of an experiment and the map position are left out.
\<close>

function advanceBlocks :: "vehicle \<Rightarrow> vehicle \<times> bool" where
  "advanceBlocks v =
    (if vh_distance v \<ge> blockEnd (vh_blocks v) (vh_blockIndex v)
     then
       if vh_blockIndex v + 1 \<ge> bl_blocks (vh_blocks v) then (v, True)
       else if int (vh_blockIndex v) = vh_reservedThrough v then (v, False)
       else advanceBlocks (v\<lparr>vh_blockIndex := vh_blockIndex v + 1\<rparr>)
     else (v, False))"
  by pat_completeness auto
termination
  by (relation "measure (\<lambda>v. bl_blocks (vh_blocks v) - vh_blockIndex v)") auto

declare advanceBlocks.simps [simp del]

definition arrivePod :: "vehicle \<Rightarrow> vehicle" where
  "arrivePod v =
    (let v1 = v\<lparr>vh_Activity := Unloading, vh_StationID := vh_destinationStation v, vh_BerthID := berth_ID (vh_destination v),
          vh_LaneID := [], vh_LaneDistance := 0, vh_Speed := 0, vh_Occupied := True, vh_WaitReason := [], vh_BlockedBy := [],
          vh_phaseTicks := unloadingTicks\<rparr>
     in if vh_RelocatingTo v1 \<noteq> []
        then v1\<lparr>vh_Activity := Idle, vh_Occupied := False, vh_phaseTicks := 0, vh_RelocatingTo := []\<rparr>
        else v1)"

definition publishVehicleTravel :: "bool \<Rightarrow> real \<Rightarrow> real \<Rightarrow> vehicle \<Rightarrow> vehicle" where
  "publishVehicleTravel depotEntryWait distance speed v =
    (case advanceBlocks (v\<lparr>vh_distance := distance, vh_Speed := speed\<rparr>) of
       (v', True) \<Rightarrow>
         if berth_ID (vh_destination v') = []
         then v'\<lparr>vh_Speed := 0, vh_WaitReason :=
             (if vh_faulted v' then vh_WaitReason v'
              else if depotEntryWait then ''No parking available'' else ''Berth occupied'')\<rparr>
         else arrivePod v'
     | (v', False) \<Rightarrow>
         let lane = routeLane (vh_blocks v') (vh_blockIndex v')
         in v'\<lparr>vh_LaneID := lane_ID (bl_route (vh_blocks v') ! lane),
               vh_LaneDistance := vh_distance v' - laneStart (vh_blocks v') lane\<rparr>)"

definition departs :: "Activity \<Rightarrow> bool" where
  "departs activity = (activity = Boarding \<or> activity = DepartingEmpty \<or> activity = Continuing)"

definition departPod :: "vehicle \<Rightarrow> vehicle" where
  "departPod v =
    v\<lparr>vh_Occupied := (vh_Activity v = Boarding \<or> vh_Activity v = Continuing), vh_Activity := Traveling,
      vh_StationID := [], vh_BerthID := []\<rparr>"

text \<open>
  The turn of the motion loop of \<open>Step\<close> for one pod. \<open>travel\<close> gives the distance and the speed that
  \<open>move\<close> publishes (\<open>Motion\<close> has the kernel), and whether the pod waits at the entry of a depot.
\<close>

definition movePod :: "(nat \<Rightarrow> bool \<times> real \<times> real) \<Rightarrow> nat \<Rightarrow> traffic \<Rightarrow> traffic" where
  "movePod travel i s =
    (let v = pod s i in
      if departs (vh_Activity v) \<and> vh_phaseTicks v = 0 \<and> vh_reservedThrough v \<ge> 0 \<and> \<not> vh_faulted v
      then setPod i departPod s
      else if vh_Activity v = Traveling
      then case travel i of (wait, distance, speed) \<Rightarrow> setPod i (publishVehicleTravel wait distance speed) s
      else s)"

definition stepMotion :: "(nat \<Rightarrow> bool \<times> real \<times> real) \<Rightarrow> traffic \<Rightarrow> traffic" where
  "stepMotion travel s = releaseCleared (fold (movePod travel) [0..<length (tr_vehicles s)] s)"

section \<open>Links\<close>

definition noLink :: platoonLink where
  "noLink = \<lparr>pl_leader = 0, pl_lane = 0, pl_leaderLane = 0, pl_lanes = 0, pl_end = 0, pl_turn = 0, pl_clearance = 0,
    pl_draining = False\<rparr>"

definition unlink :: "nat \<Rightarrow> traffic \<Rightarrow> traffic" where
  "unlink i s =
    setPod i (\<lambda>v. v\<lparr>vh_link := noLink\<rparr>)
      (setPod (pl_leader (vh_link (pod s i)) - 1) (\<lambda>v. v\<lparr>vh_follower := 0\<rparr>) s)"

definition linkPods :: "nat \<Rightarrow> nat \<Rightarrow> platoonLink \<Rightarrow> traffic \<Rightarrow> traffic" where
  "linkPods i ahead link s =
    setPod ahead (\<lambda>v. v\<lparr>vh_follower := i + 1\<rparr>)
      (setPod i (\<lambda>v. v\<lparr>vh_link := link\<lparr>pl_leader := ahead + 1\<rparr>\<rparr>) s)"

section \<open>Admission order\<close>

definition admissionAgeTicks :: int where "admissionAgeTicks = 10 * TicksPerSecond"

definition admissionPriority :: "bool \<Rightarrow> bool \<Rightarrow> int" where
  "admissionPriority carriesPassengers pickup = (if carriesPassengers then 0 else if pickup then 1 else 2)"

text \<open>\<open>cmp.Compare\<close> on an ordered type. Strings are compared byte by byte.\<close>

definition goCompare :: "'a::linorder \<Rightarrow> 'a \<Rightarrow> int" where
  "goCompare a b = (if a < b then - 1 else if b < a then 1 else 0)"

fun stringLess :: "string \<Rightarrow> string \<Rightarrow> bool" where
  "stringLess a [] = False"
| "stringLess [] (y # ys) = True"
| "stringLess (x # xs) (y # ys) = (of_char x < (of_char y :: nat) \<or> x = y \<and> stringLess xs ys)"

definition compareStrings :: "string \<Rightarrow> string \<Rightarrow> int" where
  "compareStrings a b = (if stringLess a b then - 1 else if stringLess b a then 1 else 0)"

definition compareAdmission :: "intent \<Rightarrow> intent \<Rightarrow> int \<Rightarrow> int" where
  "compareAdmission a b tick =
    (if in_emergency a \<noteq> 0 \<or> in_emergency b \<noteq> 0
     then if in_emergency b = 0 then - 1
       else if in_emergency a = 0 then 1
       else let order = goCompare (in_emergency a) (in_emergency b)
         in if order \<noteq> 0 then order else compareStrings (in_id a) (in_id b)
     else
       let agedA = (tick - in_since a \<ge> admissionAgeTicks); agedB = (tick - in_since b \<ge> admissionAgeTicks) in
       if agedA \<noteq> agedB then (if agedA then - 1 else 1)
       else if \<not> agedA \<and> goCompare (in_priority a) (in_priority b) \<noteq> 0 then goCompare (in_priority a) (in_priority b)
       else if goCompare (in_since a) (in_since b) \<noteq> 0 then goCompare (in_since a) (in_since b)
       else compareStrings (in_id a) (in_id b))"

text \<open>The first block that a pod requests, or none while its reservation covers the horizon.\<close>

definition admissionRequest :: "real \<Rightarrow> vehicle \<Rightarrow> nat option" where
  "admissionRequest reservationLookaheadSeconds v =
    (let blocks = vh_blocks v; request = vh_reservedThrough v + 1 in
      if request \<ge> int (bl_blocks blocks) then None
      else
        let speed = max (vh_Speed v) (speedLimit blocks (routeLane blocks (vh_blockIndex v)));
            horizon = speed * speed / (2 * acceleration) + speed * reservationLookaheadSeconds in
        if vh_reservedThrough v \<ge> 0 \<and> blockEnd blocks (nat (vh_reservedThrough v)) - vh_distance v \<ge> horizon then None
        else Some (nat request))"

text \<open>The part of \<open>admit\<close> that sorts the requests of the pods and grants them in order.\<close>

fun insertIntent :: "int \<Rightarrow> intent \<Rightarrow> intent list \<Rightarrow> intent list" where
  "insertIntent tick a [] = [a]"
| "insertIntent tick a (b # bs) = (if compareAdmission a b tick \<le> 0 then a # b # bs else b # insertIntent tick a bs)"

definition sortIntents :: "int \<Rightarrow> intent list \<Rightarrow> intent list" where
  "sortIntents tick intents = foldr (insertIntent tick) intents []"

definition grantIntents :: "int \<Rightarrow> intent list \<Rightarrow> traffic \<Rightarrow> traffic" where
  "grantIntents tick intents s = fold grant (sortIntents tick intents) s"

section \<open>A new route\<close>

text \<open>The fields of the route that \<open>board\<close> sets for a pod at the berth \<open>from_berth\<close>.\<close>

definition boardRoute :: "blockList \<Rightarrow> Berth \<Rightarrow> string \<Rightarrow> vehicle \<Rightarrow> vehicle" where
  "boardRoute blocks from_berth station v =
    v\<lparr>vh_origin := from_berth, vh_destination := \<lparr>berth_VehicleClasses = 0, berth_ID = [], berth_Node = [], berth_SeparationGroup = []\<rparr>,
      vh_destinationStation := station, vh_blocks := blocks, vh_Activity := Boarding, vh_WaitReason := [], vh_BlockedBy := [],
      vh_phaseTicks := boardingTicks, vh_blockIndex := 0, vh_reservedThrough := - 1, vh_originReleased := False,
      vh_distance := 0, vh_pending := - 1\<rparr>"

end
