(* ===== verification/Platoons.thy ===== *)
theory Platoons
  imports TrackClaims
begin

text \<open>
  The links of the platoons. A walk along the links of a well formed fleet meets exactly the pods ahead (or
  behind), in their order, and the size of the fleet is enough fuel for it. The pods ahead and the pods
  behind are the two directions of one chain.
\<close>

section \<open>Walks\<close>

definition link_rel :: "(nat \<Rightarrow> nat) \<Rightarrow> nat \<Rightarrow> (nat \<times> nat) set" where
  "link_rel nxt n = {(i, k). i < n \<and> nxt i = Suc k}"

fun walk :: "(nat \<Rightarrow> nat) \<Rightarrow> nat \<Rightarrow> nat \<Rightarrow> nat list" where
  "walk nxt 0 link = []"
| "walk nxt (Suc fuel) link = (if link = 0 then [] else (link - 1) # walk nxt fuel (nxt (link - 1)))"

lemma leadersFrom_walk: "leadersFrom fuel s link = walk (\<lambda>k. pl_leader (vh_link (pod s k))) fuel link"
  by (induction fuel arbitrary: link) auto

lemma followersFrom_walk: "followersFrom fuel s link = walk (\<lambda>k. vh_follower (pod s k)) fuel link"
  by (induction fuel arbitrary: link) auto

lemma link_rel_fun: "(i, j) \<in> link_rel nxt n \<Longrightarrow> (i, k) \<in> link_rel nxt n \<Longrightarrow> j = k"
  by (simp add: link_rel_def)

lemma link_rel_step:
  "i < n \<Longrightarrow> nxt i = Suc j \<Longrightarrow> {k. (i, k) \<in> (link_rel nxt n)\<^sup>+} = insert j {k. (j, k) \<in> (link_rel nxt n)\<^sup>+}"
proof (intro set_eqI iffI)
  fix k
  assume i: "i < n" "nxt i = Suc j"
  then have ij: "(i, j) \<in> link_rel nxt n" by (simp add: link_rel_def)
  show "k \<in> insert j {k. (j, k) \<in> (link_rel nxt n)\<^sup>+}" if "k \<in> {k. (i, k) \<in> (link_rel nxt n)\<^sup>+}"
  proof -
    from that have "(i, k) \<in> (link_rel nxt n)\<^sup>+" by simp
    then show ?thesis
      by (cases rule: converse_tranclE) (use ij link_rel_fun in fastforce)+
  qed
  show "k \<in> {k. (i, k) \<in> (link_rel nxt n)\<^sup>+}" if "k \<in> insert j {k. (j, k) \<in> (link_rel nxt n)\<^sup>+}"
    using that ij by (auto intro: trancl_into_trancl2)
qed

lemma link_rel_end: "nxt i = 0 \<Longrightarrow> (i, k) \<notin> (link_rel nxt n)\<^sup>+"
proof
  assume "nxt i = 0" and "(i, k) \<in> (link_rel nxt n)\<^sup>+"
  then show False by (auto elim: converse_tranclE simp: link_rel_def)
qed

lemma link_rel_bounded: "\<forall>i<n. nxt i \<le> n \<Longrightarrow> (i, k) \<in> (link_rel nxt n)\<^sup>+ \<Longrightarrow> i < n \<and> k < n"
proof -
  assume bound: "\<forall>i<n. nxt i \<le> n"
  have step: "i < n \<and> k < n" if "(i, k) \<in> link_rel nxt n" for i k
  proof -
    from that have "i < n" "nxt i = Suc k" by (auto simp: link_rel_def)
    moreover from bound this(1) have "nxt i \<le> n" by blast
    ultimately show ?thesis by simp
  qed
  show "(i, k) \<in> (link_rel nxt n)\<^sup>+ \<Longrightarrow> i < n \<and> k < n"
    by (induction rule: trancl_induct) (use step in blast)+
qed

lemma walk_sound:
  "\<forall>i<n. nxt i \<le> n \<Longrightarrow> i < n \<Longrightarrow> k \<in> set (walk nxt fuel (nxt i)) \<Longrightarrow> (i, k) \<in> (link_rel nxt n)\<^sup>+"
proof (induction fuel arbitrary: i)
  case (Suc fuel)
  show ?case
  proof (cases "nxt i")
    case 0
    with Suc.prems(3) show ?thesis by simp
  next
    case j: (Suc j)
    from Suc.prems(1,2) have "nxt i \<le> n" by blast
    with j have jn: "j < n" by simp
    have "k = j \<or> k \<in> set (walk nxt fuel (nxt j))" using Suc.prems(3) j by simp
    then have "k \<in> insert j {k. (j, k) \<in> (link_rel nxt n)\<^sup>+}" using Suc.IH [OF Suc.prems(1) jn] by blast
    then have "k \<in> {k. (i, k) \<in> (link_rel nxt n)\<^sup>+}" by (simp only: link_rel_step [where nxt = nxt, OF Suc.prems(2) j])
    then show ?thesis by simp
  qed
qed simp

lemma walk_ordered:
  "\<forall>i<n. nxt i \<le> n \<Longrightarrow> i < n \<Longrightarrow> sorted_wrt (\<lambda>x y. (x, y) \<in> (link_rel nxt n)\<^sup>+) (walk nxt fuel (nxt i))"
proof (induction fuel arbitrary: i)
  case (Suc fuel)
  show ?case
  proof (cases "nxt i")
    case (Suc j)
    from Suc.prems(1,2) have "nxt i \<le> n" by blast
    with Suc have "j < n" by simp
    with Suc Suc.IH [of j] Suc.prems(1) show ?thesis by (auto intro: walk_sound)
  qed simp
qed simp

lemma reach_card:
  assumes bound: "\<forall>i<n. nxt i \<le> n" and acyc: "acyclic (link_rel nxt n)" and i: "i < n"
  shows "card {k. (i, k) \<in> (link_rel nxt n)\<^sup>+} \<le> n"
proof -
  have "{k. (i, k) \<in> (link_rel nxt n)\<^sup>+} \<subseteq> {..<n}" using link_rel_bounded [OF bound] by auto
  then show ?thesis using card_mono [of "{..<n}"] by fastforce
qed

lemma reach_card_less:
  assumes bound: "\<forall>i<n. nxt i \<le> n" and acyc: "acyclic (link_rel nxt n)" and "i < n" "nxt i = Suc j"
  shows "card {k. (j, k) \<in> (link_rel nxt n)\<^sup>+} < card {k. (i, k) \<in> (link_rel nxt n)\<^sup>+}"
proof -
  have "{k. (i, k) \<in> (link_rel nxt n)\<^sup>+} \<subseteq> {..<n}" using link_rel_bounded [OF bound] by auto
  then have "finite {k. (i, k) \<in> (link_rel nxt n)\<^sup>+}" by (rule finite_subset) simp
  moreover have "j \<notin> {k. (j, k) \<in> (link_rel nxt n)\<^sup>+}" using acyc by (simp add: acyclic_def)
  moreover have "{k. (i, k) \<in> (link_rel nxt n)\<^sup>+} = insert j {k. (j, k) \<in> (link_rel nxt n)\<^sup>+}"
    by (rule link_rel_step [where nxt = nxt, OF assms(3,4)])
  ultimately show ?thesis by (simp add: card_insert_if)
qed

lemma walk_complete:
  assumes bound: "\<forall>i<n. nxt i \<le> n" and acyc: "acyclic (link_rel nxt n)"
  shows "i < n \<Longrightarrow> card {k. (i, k) \<in> (link_rel nxt n)\<^sup>+} \<le> fuel \<Longrightarrow> (i, k) \<in> (link_rel nxt n)\<^sup>+ \<Longrightarrow>
    k \<in> set (walk nxt fuel (nxt i))"
proof (induction fuel arbitrary: i)
  case 0
  have "{k. (i, k) \<in> (link_rel nxt n)\<^sup>+} \<subseteq> {..<n}" using link_rel_bounded [OF bound] by auto
  then have "finite {k. (i, k) \<in> (link_rel nxt n)\<^sup>+}" by (rule finite_subset) simp
  with 0 show ?case by auto
next
  case (Suc fuel)
  show ?case
  proof (cases "nxt i")
    case 0
    then have "(i, k) \<notin> (link_rel nxt n)\<^sup>+" by (rule link_rel_end)
    with Suc.prems(3) show ?thesis by contradiction
  next
    case j: (Suc j)
    have "nxt i \<le> n" using bound Suc.prems(1) by blast
    with j have "j < n" by simp
    moreover have "card {k. (j, k) \<in> (link_rel nxt n)\<^sup>+} \<le> fuel"
      using reach_card_less [OF bound acyc Suc.prems(1) j] Suc.prems(2) by simp
    ultimately have ih: "(j, k) \<in> (link_rel nxt n)\<^sup>+ \<Longrightarrow> k \<in> set (walk nxt fuel (nxt j))" by (rule Suc.IH)
    have "k \<in> {k. (i, k) \<in> (link_rel nxt n)\<^sup>+}" using Suc.prems(3) by simp
    then have "k = j \<or> (j, k) \<in> (link_rel nxt n)\<^sup>+" by (simp add: link_rel_step [where nxt = nxt, OF Suc.prems(1) j])
    with ih j show ?thesis by auto
  qed
qed

lemma walk_set:
  assumes "\<forall>i<n. nxt i \<le> n" and "acyclic (link_rel nxt n)" and "i < n"
  shows "set (walk nxt n (nxt i)) = {k. (i, k) \<in> (link_rel nxt n)\<^sup>+}"
  using walk_sound [OF assms(1,3)] walk_complete [OF assms(1,2,3) reach_card [OF assms]] by blast

section \<open>Links of a fleet\<close>

abbreviation fleetSize :: "traffic \<Rightarrow> nat" where
  "fleetSize s \<equiv> length (tr_vehicles s)"

abbreviation leaderOf :: "traffic \<Rightarrow> nat \<Rightarrow> nat" where
  "leaderOf s i \<equiv> pl_leader (vh_link (pod s i))"

abbreviation followerOf :: "traffic \<Rightarrow> nat \<Rightarrow> nat" where
  "followerOf s i \<equiv> vh_follower (pod s i)"

text \<open>\<open>(i, k) \<in> ahead s\<close>: the pod \<open>k\<close> is ahead of the pod \<open>i\<close> in its platoon.\<close>

definition ahead :: "traffic \<Rightarrow> (nat \<times> nat) set" where
  "ahead s = (link_rel (leaderOf s) (fleetSize s))\<^sup>+"

definition link_wf :: "traffic \<Rightarrow> bool" where
  "link_wf s \<longleftrightarrow>
    (\<forall>i<fleetSize s. leaderOf s i \<le> fleetSize s \<and> followerOf s i \<le> fleetSize s) \<and>
    (\<forall>i<fleetSize s. \<forall>k<fleetSize s. leaderOf s i = Suc k \<longleftrightarrow> followerOf s k = Suc i) \<and>
    acyclic (link_rel (leaderOf s) (fleetSize s))"

lemma link_wf_bound: "link_wf s \<Longrightarrow> \<forall>i<fleetSize s. leaderOf s i \<le> fleetSize s"
  "link_wf s \<Longrightarrow> \<forall>i<fleetSize s. followerOf s i \<le> fleetSize s"
  by (auto simp: link_wf_def)

lemma link_wf_converse: "link_wf s \<Longrightarrow> link_rel (followerOf s) (fleetSize s) = (link_rel (leaderOf s) (fleetSize s))\<inverse>"
proof -
  assume w: "link_wf s"
  have "i < fleetSize s \<and> followerOf s i = Suc k \<longleftrightarrow> k < fleetSize s \<and> leaderOf s k = Suc i" for i k
    using w unfolding link_wf_def by (metis Suc_le_eq)
  then show ?thesis by (auto simp: link_rel_def)
qed

lemma link_wf_acyclic: "link_wf s \<Longrightarrow> acyclic (link_rel (leaderOf s) (fleetSize s))"
  "link_wf s \<Longrightarrow> acyclic (link_rel (followerOf s) (fleetSize s))"
  by (simp_all add: link_wf_converse) (simp_all add: link_wf_def)

lemma ahead_irrefl: "link_wf s \<Longrightarrow> (i, i) \<notin> ahead s"
  using link_wf_acyclic(1) by (auto simp: ahead_def acyclic_def)

lemma ahead_trans: "(i, j) \<in> ahead s \<Longrightarrow> (j, k) \<in> ahead s \<Longrightarrow> (i, k) \<in> ahead s"
  by (simp add: ahead_def)

lemma ahead_bounded: "link_wf s \<Longrightarrow> (i, k) \<in> ahead s \<Longrightarrow> i < fleetSize s \<and> k < fleetSize s"
  using link_rel_bounded [OF link_wf_bound(1)] by (simp add: ahead_def)

lemma set_leaders: "link_wf s \<Longrightarrow> i < fleetSize s \<Longrightarrow> set (leaders s i) = {k. (i, k) \<in> ahead s}"
  unfolding leaders_def leadersFrom_walk ahead_def
  by (rule walk_set [OF link_wf_bound(1) link_wf_acyclic(1)])

lemma ahead_converse: "link_wf s \<Longrightarrow> (i, k) \<in> (link_rel (followerOf s) (fleetSize s))\<^sup>+ \<longleftrightarrow> (k, i) \<in> ahead s"
  by (simp add: ahead_def link_wf_converse trancl_converse)

lemma set_followers: "link_wf s \<Longrightarrow> i < fleetSize s \<Longrightarrow> set (followers s i) = {k. (k, i) \<in> ahead s}"
  using walk_set [OF link_wf_bound(2) link_wf_acyclic(2)] by (simp add: followers_def followersFrom_walk ahead_converse)

lemma followers_ordered: "link_wf s \<Longrightarrow> i < fleetSize s \<Longrightarrow> sorted_wrt (\<lambda>x y. (y, x) \<in> ahead s) (followers s i)"
  using walk_ordered [OF link_wf_bound(2), where fuel = "fleetSize s" and i = i]
  by (simp add: followers_def followersFrom_walk ahead_converse)

text \<open>Two pods behind one pod are on one chain.\<close>

lemma ahead_linear:
  assumes w: "link_wf s" and i: "(i, k) \<in> (ahead s)\<^sup>=" and j: "(j, k) \<in> (ahead s)\<^sup>="
  shows "i = j \<or> (i, j) \<in> ahead s \<or> (j, i) \<in> ahead s"
proof -
  let ?F = "link_rel (followerOf s) (fleetSize s)"
  have "single_valued ?F" by (auto simp: single_valued_def intro: link_rel_fun)
  moreover have "(k, i) \<in> ?F\<^sup>*" "(k, j) \<in> ?F\<^sup>*"
    using i j ahead_converse [OF w] by (auto simp: rtrancl_eq_or_trancl)
  ultimately have "(i, j) \<in> ?F\<^sup>* \<or> (j, i) \<in> ?F\<^sup>*" by (rule single_valued_confluent)
  then show ?thesis by (auto simp: rtrancl_eq_or_trancl ahead_converse [OF w])
qed

lemma aheadInPlatoon_iff:
  "link_wf s \<Longrightarrow> i < fleetSize s \<Longrightarrow> aheadInPlatoon s i ident \<longleftrightarrow> (\<exists>k. (i, k) \<in> ahead s \<and> vh_ID (pod s k) = ident)"
  by (auto simp: aheadInPlatoon_def list_ex_iff set_leaders)

text \<open>The links depend only on the skeleton of the fleet.\<close>

definition skeleton :: "traffic \<Rightarrow> (string \<times> platoonLink \<times> nat) list" where
  "skeleton s = map (\<lambda>v. (vh_ID v, vh_link v, vh_follower v)) (tr_vehicles s)"

lemma skeleton_nth: "skeleton s' = skeleton s \<Longrightarrow> i < fleetSize s \<Longrightarrow>
    vh_ID (pod s' i) = vh_ID (pod s i) \<and> vh_link (pod s' i) = vh_link (pod s i) \<and> vh_follower (pod s' i) = vh_follower (pod s i)"
proof -
  assume eq: "skeleton s' = skeleton s" and i: "i < fleetSize s"
  have "fleetSize s' = fleetSize s" using arg_cong [OF eq, of length] by (simp add: skeleton_def)
  with i have "skeleton s' ! i = (vh_ID (pod s' i), vh_link (pod s' i), vh_follower (pod s' i))"
    "skeleton s ! i = (vh_ID (pod s i), vh_link (pod s i), vh_follower (pod s i))" by (simp_all add: skeleton_def)
  with eq show ?thesis by simp
qed

lemma skeleton_size: "skeleton s' = skeleton s \<Longrightarrow> fleetSize s' = fleetSize s"
  by (drule arg_cong [of _ _ length]) (simp add: skeleton_def)

lemma skeleton_links:
  assumes "skeleton s' = skeleton s"
  shows "i < fleetSize s \<Longrightarrow> leaderOf s' i = leaderOf s i" "i < fleetSize s \<Longrightarrow> followerOf s' i = followerOf s i"
    "i < fleetSize s \<Longrightarrow> vh_ID (pod s' i) = vh_ID (pod s i)"
  using skeleton_nth [OF assms, of i] by simp_all

lemma link_rel_cong: "(\<And>i. i < n \<Longrightarrow> f i = g i) \<Longrightarrow> link_rel f n = link_rel g n"
  by (rule set_eqI) (auto simp: link_rel_def)

lemma skeleton_link_rel:
  assumes eq: "skeleton s' = skeleton s"
  shows "link_rel (leaderOf s') (fleetSize s') = link_rel (leaderOf s) (fleetSize s)"
proof -
  have "link_rel (leaderOf s') (fleetSize s) = link_rel (leaderOf s) (fleetSize s)"
  proof (rule link_rel_cong)
    fix i assume "i < fleetSize s"
    then show "leaderOf s' i = leaderOf s i" by (rule skeleton_links(1) [OF eq])
  qed
  then show ?thesis by (simp only: skeleton_size [OF eq])
qed

lemma skeleton_ahead:
  assumes eq: "skeleton s' = skeleton s"
  shows "ahead s' = ahead s"
  unfolding ahead_def skeleton_link_rel [OF eq] ..

lemma skeleton_link_wf:
  assumes eq: "skeleton s' = skeleton s" and w: "link_wf s"
  shows "link_wf s'"
  unfolding link_wf_def
proof (intro conjI)
  show "acyclic (link_rel (leaderOf s') (fleetSize s'))"
    unfolding skeleton_link_rel [OF eq] by (rule link_wf_acyclic(1) [OF w])
qed (use w in \<open>simp_all add: link_wf_def skeleton_size [OF eq] skeleton_links [OF eq]\<close>)

lemma pod_setPod: "j < fleetSize s \<Longrightarrow> pod (setPod i f s) j = (if i = j then f (pod s j) else pod s j)"
  by (simp add: setPod_def nth_list_update)

lemma setPod_simps [simp]:
  "fleetSize (setPod i f s) = fleetSize s" "tr_owners (setPod i f s) = tr_owners s"
  "tr_groups (setPod i f s) = tr_groups s" "tr_platooning (setPod i f s) = tr_platooning s"
  "tr_faults (setPod i f s) = tr_faults s" "tr_stations (setPod i f s) = tr_stations s"
  by (simp_all add: setPod_def)

lemma skeleton_setPod:
  "(\<And>v. vh_ID (f v) = vh_ID v \<and> vh_link (f v) = vh_link v \<and> vh_follower (f v) = vh_follower v) \<Longrightarrow>
    skeleton (setPod i f s) = skeleton s"
proof -
  assume f: "\<And>v. vh_ID (f v) = vh_ID v \<and> vh_link (f v) = vh_link v \<and> vh_follower (f v) = vh_follower v"
  show ?thesis
  proof (rule nth_equalityI)
    show "length (skeleton (setPod i f s)) = length (skeleton s)" by (simp add: skeleton_def)
    fix j assume "j < length (skeleton (setPod i f s))"
    then have "j < fleetSize s" by (simp add: skeleton_def)
    then show "skeleton (setPod i f s) ! j = skeleton s ! j"
      by (simp add: skeleton_def pod_setPod f)
  qed
qed

end
