(* ===== verification/TrackZones.thy ===== *)
theory TrackZones
  imports TrackCells
begin

text \<open>
  Properties of the track: what the cells of a lane hold, the blocks that tile a route, the lookups
  that do not depend on their hints, and the conflict zone that a reservation takes as one movement.
\<close>

section \<open>Cells\<close>

lemma set_add_absent [simp]: "set (add_absent r rs) = insert r (set rs)"
  by (auto simp: add_absent_def)

lemma distinct_add_absent [simp]: "distinct (add_absent r rs) \<longleftrightarrow> distinct rs"
  by (simp add: add_absent_def)

lemma fold_add_absent:
  "set (fold add_absent bs rs) = set bs \<union> set rs" "distinct (fold add_absent bs rs) \<longleftrightarrow> distinct rs"
  by (induction bs arbitrary: rs) auto

lemma fold_conflicts:
  "set (fold (\<lambda>c rs. if p c then add_absent (f c) rs else rs) cs rs) = f ` {c \<in> set cs. p c} \<union> set rs"
  "distinct (fold (\<lambda>c rs. if p c then add_absent (f c) rs else rs) cs rs) \<longleftrightarrow> distinct rs"
  by (induction cs arbitrary: rs) auto

text \<open>The cells that are added hold the lists that were added.\<close>

definition good_ends :: "laneCells \<Rightarrow> bool" where
  "good_ends c \<longleftrightarrow> sorted (lc_ends c) \<and> (\<forall>e\<in>set (lc_ends c). e \<le> length (lc_resources c)) \<and>
    (lc_ends c \<noteq> [] \<longrightarrow> last (lc_ends c) = length (lc_resources c)) \<and> (lc_ends c = [] \<longrightarrow> lc_resources c = [])"

lemma lc_add_cells:
  assumes "good_ends c"
  shows "good_ends (lc_add rs c)" and "lc_count (lc_add rs c) = Suc (lc_count c)"
    and "lc_cell (lc_add rs c) (lc_count c) = rs"
    and "k < lc_count c \<Longrightarrow> lc_cell (lc_add rs c) k = lc_cell c k"
proof -
  show "good_ends (lc_add rs c)" using assms by (auto simp: good_ends_def lc_add_def sorted_append)
  show "lc_count (lc_add rs c) = Suc (lc_count c)" by (simp add: lc_count_def lc_add_def)
  have "lc_ends c \<noteq> [] \<Longrightarrow> lc_ends c ! (length (lc_ends c) - 1) = length (lc_resources c)"
    using assms by (metis good_ends_def last_conv_nth)
  then show "lc_cell (lc_add rs c) (lc_count c) = rs"
    using assms by (auto simp: lc_cell_def lc_add_def lc_count_def Let_def nth_append good_ends_def)
  show "lc_cell (lc_add rs c) k = lc_cell c k" if "k < lc_count c"
  proof -
    have "lc_ends c ! k \<le> length (lc_resources c)"
      using assms that by (simp add: good_ends_def lc_count_def)
    with that show ?thesis by (auto simp: lc_cell_def lc_add_def lc_count_def Let_def nth_append)
  qed
qed

lemma fold_lc_add:
  assumes "good_ends c" and "lc_count c = 0"
  shows "good_ends (fold (\<lambda>cell c. lc_add (f cell) c) [0..<n] c) \<and>
    lc_count (fold (\<lambda>cell c. lc_add (f cell) c) [0..<n] c) = n \<and>
    (\<forall>k<n. lc_cell (fold (\<lambda>cell c. lc_add (f cell) c) [0..<n] c) k = f k)"
proof (induction n)
  case (Suc n)
  let ?c = "fold (\<lambda>cell c. lc_add (f cell) c) [0..<n] c"
  have step: "fold (\<lambda>cell c. lc_add (f cell) c) [0..<Suc n] c = lc_add (f n) ?c" by simp
  have good: "good_ends ?c" and count: "lc_count ?c = n" and cells: "\<forall>k<n. lc_cell ?c k = f k"
    using Suc by blast+
  show ?case unfolding step using lc_add_cells [where rs = "f n", OF good] count cells by (auto simp: less_Suc_eq)
qed (use assms in simp)

lemma newLaneCells_cells:
  "lc_count (newLaneCells i) = laneBlockCount (ci_length i)"
  "k < laneBlockCount (ci_length i) \<Longrightarrow>
     lc_cell (newLaneCells i) k = cellResources i (emptyCells i) (laneBlockCount (ci_length i)) k"
proof -
  have "good_ends (emptyCells i)" "lc_count (emptyCells i) = 0"
    by (simp_all add: emptyCells_def good_ends_def lc_count_def)
  from fold_lc_add [OF this]
  show "lc_count (newLaneCells i) = laneBlockCount (ci_length i)"
    and "k < laneBlockCount (ci_length i) \<Longrightarrow>
      lc_cell (newLaneCells i) k = cellResources i (emptyCells i) (laneBlockCount (ci_length i)) k"
    by (simp_all add: newLaneCells_def Let_def)
qed

text \<open>What a cell holds beside its own track.\<close>

definition cellOthers :: "laneCellsInput \<Rightarrow> laneCells \<Rightarrow> nat \<Rightarrow> nat \<Rightarrow> resource set" where
  "cellOthers i c n k = set (ci_every i) \<union> (if k = n - 1 then set (ci_berths i) else {}) \<union>
    (if k = 0 \<or> cellOffset k n (ci_length i) < lc_fromTail c
     then {plain_resource nodeResource (lane_From (ci_lane i))} else {}) \<union>
    (if k = n - 1 \<or> cellOffset (k + 1) n (ci_length i) > ci_length i - lc_tail c \<and> lc_tail c > 0
     then {plain_resource nodeResource (lane_To (ci_lane i))} else {}) \<union>
    (\<lambda>conflict. plain_resource junctionResource (cf_junction conflict)) `
      {conflict \<in> set (ci_conflicts i). cellOffset k n (ci_length i) < cf_end conflict \<and>
        cf_start conflict < cellOffset (k + 1) n (ci_length i)}"

lemma cellResources_parts:
  "\<exists>rs. cellResources i c n k = rs @ [\<lparr>res_kind = trackResource, res_id = lane_ID (ci_lane i), res_cell = k\<rparr>] \<and>
    set rs = cellOthers i c n k \<and> (distinct rs \<longleftrightarrow> distinct (ci_every i))"
  unfolding cellResources_def cellOthers_def Let_def
  by (intro exI conjI, rule refl) (auto simp: fold_add_absent fold_conflicts)

lemma cellOthers_plain:
  "\<forall>r\<in>set (ci_every i) \<union> set (ci_berths i). res_kind r \<noteq> trackResource \<Longrightarrow> r \<in> cellOthers i c n k \<Longrightarrow>
     res_kind r \<noteq> trackResource"
  by (auto simp: cellOthers_def split: if_splits)


section \<open>Routes\<close>

definition wf_blocks :: "blockList \<Rightarrow> bool" where
  "wf_blocks l \<longleftrightarrow>
    bl_route l \<noteq> [] \<and> length (bl_lanes l) = Suc (length (bl_route l)) \<and>
    laneFirst l 0 = 0 \<and> rl_start (bl_lanes l ! 0) = 0 \<and> bl_blocks l = laneFirst l (length (bl_route l)) \<and>
    (\<forall>k<length (bl_route l). 0 < lc_count (rl_cells (bl_lanes l ! k)) \<and>
      laneFirst l (Suc k) = laneFirst l k + lc_count (rl_cells (bl_lanes l ! k)) \<and>
      rl_start (bl_lanes l ! Suc k) = rl_start (bl_lanes l ! k) + rl_length (bl_lanes l ! k))"

lemma routeEntries_shape:
  "length (routeEntries cells laneLen route n d) = Suc (length route) \<and>
    rl_first (routeEntries cells laneLen route n d ! 0) = n \<and> rl_start (routeEntries cells laneLen route n d ! 0) = d \<and>
    (\<forall>k<length route.
      rl_cells (routeEntries cells laneLen route n d ! k) = cells (route ! k) \<and>
      rl_length (routeEntries cells laneLen route n d ! k) = laneLen (route ! k) \<and>
      rl_first (routeEntries cells laneLen route n d ! Suc k) =
        rl_first (routeEntries cells laneLen route n d ! k) + lc_count (cells (route ! k)) \<and>
      rl_start (routeEntries cells laneLen route n d ! Suc k) =
        rl_start (routeEntries cells laneLen route n d ! k) + laneLen (route ! k))"
proof (induction route arbitrary: n d)
  case (Cons lane route)
  note IH = Cons.IH [of "n + lc_count (cells lane)" "d + laneLen lane"]
  show ?case
    using IH by (auto simp: All_less_Suc2 nth_Cons split: nat.splits)
qed simp

lemma routeBlocks_wf:
  assumes "route \<noteq> []" and "\<forall>lane\<in>set route. \<forall>c. shared (lane_ID lane) = Some c \<longrightarrow> 0 < lc_count c"
  shows "wf_blocks (fst (routeBlocks shared fallback laneLen route))"
proof -
  let ?cells = "\<lambda>lane. case shared (lane_ID lane) of Some c \<Rightarrow> c | None \<Rightarrow> newLaneCells (fallback lane)"
  let ?es = "routeEntries ?cells laneLen route 0 0"
  note shape = routeEntries_shape [of ?cells laneLen route 0 0]
  have pos: "0 < lc_count (?cells lane)" if "lane \<in> set route" for lane
    using assms(2) that by (auto simp: newLaneCells_cells laneBlockCount_def split: option.splits)
  have l: "fst (routeBlocks shared fallback laneLen route) =
      \<lparr>bl_route = route, bl_lanes = ?es, bl_blocks = rl_first (last ?es), bl_scan = 0\<rparr>"
    using assms(1) by (simp add: routeBlocks_def Let_def)
  have "last ?es = ?es ! length route"
    using shape by (cases "?es = []") (simp_all add: last_conv_nth)
  then show ?thesis
    unfolding l wf_blocks_def laneFirst_def using shape pos assms(1) by simp
qed

lemma wf_mono:
  assumes w: "wf_blocks l" and "a < b" and "b \<le> length (bl_route l)"
  shows "laneFirst l a < laneFirst l b"
  using assms(2,3)
proof (induction b)
  case (Suc b)
  have "laneFirst l b < laneFirst l (Suc b)" using w Suc.prems by (simp add: wf_blocks_def)
  with Suc show ?case by (cases "a = b") auto
qed simp

lemma wf_mono_le: "wf_blocks l \<Longrightarrow> a \<le> b \<Longrightarrow> b \<le> length (bl_route l) \<Longrightarrow> laneFirst l a \<le> laneFirst l b"
  using wf_mono by (metis le_neq_implies_less less_imp_le order_refl)

lemma holds_iff: "wf_blocks l \<Longrightarrow> holds l k i \<longleftrightarrow> k < length (bl_route l) \<and> laneFirst l k \<le> i \<and> i < laneFirst l (Suc k)"
  by (auto simp: holds_def wf_blocks_def)

lemma holds_order: "wf_blocks l \<Longrightarrow> holds l a i \<Longrightarrow> holds l b i \<Longrightarrow> \<not> a < b"
proof
  assume w: "wf_blocks l" and h: "holds l a i" "holds l b i" and "a < b"
  then have "laneFirst l (Suc a) \<le> laneFirst l b" by (intro wf_mono_le [OF w]) (auto simp: holds_iff)
  with h show False by (simp add: holds_iff [OF w])
qed

lemma holds_unique: "wf_blocks l \<Longrightarrow> holds l a i \<Longrightarrow> holds l b i \<Longrightarrow> a = b"
  using holds_order by (meson linorder_neqE_nat)

lemma binarySearch_spec:
  assumes "i \<le> j" and "\<And>a b. i \<le> a \<Longrightarrow> a \<le> b \<Longrightarrow> b < j \<Longrightarrow> key a \<le> key b"
  shows "i \<le> binarySearch key t i j \<and> binarySearch key t i j \<le> j \<and>
    (\<forall>a. i \<le> a \<and> a < binarySearch key t i j \<longrightarrow> key a < t) \<and>
    (\<forall>a. binarySearch key t i j \<le> a \<and> a < j \<longrightarrow> t \<le> key a)"
  using assms
proof (induction key t i j rule: binarySearch.induct)
  case (1 key t i j)
  show ?case
  proof (cases "i < j")
    case True
    define h where "h = (i + j) div 2"
    have h: "i \<le> h" "h < j" using True by (auto simp: h_def)
    show ?thesis
    proof (cases "key h < t")
      case less: True
      have eq: "binarySearch key t i j = binarySearch key t (h + 1) j"
        using True less by (subst binarySearch.simps) (simp add: h_def Let_def)
      have IH: "h + 1 \<le> binarySearch key t (h + 1) j \<and> binarySearch key t (h + 1) j \<le> j \<and>
          (\<forall>a. h + 1 \<le> a \<and> a < binarySearch key t (h + 1) j \<longrightarrow> key a < t) \<and>
          (\<forall>a. binarySearch key t (h + 1) j \<le> a \<and> a < j \<longrightarrow> t \<le> key a)"
        using "1.IH"(1) [OF True h_def less] "1.prems" h by auto
      have "key a < t" if "i \<le> a" "a \<le> h" for a
        using "1.prems"(2) [of a h] that h less by (meson le_less_trans)
      then have "key a < t" if "i \<le> a" "a < binarySearch key t (h + 1) j" for a
        using IH that by (cases "a \<le> h") auto
      with IH h show ?thesis unfolding eq by auto
    next
      case ge: False
      have eq: "binarySearch key t i j = binarySearch key t i h"
        using True ge by (subst binarySearch.simps) (simp add: h_def Let_def)
      have IH: "i \<le> binarySearch key t i h \<and> binarySearch key t i h \<le> h \<and>
          (\<forall>a. i \<le> a \<and> a < binarySearch key t i h \<longrightarrow> key a < t) \<and>
          (\<forall>a. binarySearch key t i h \<le> a \<and> a < h \<longrightarrow> t \<le> key a)"
        using "1.IH"(2) [OF True h_def ge] "1.prems" h by auto
      have "t \<le> key a" if "h \<le> a" "a < j" for a
        using "1.prems"(2) [of h a] that h ge by (meson le_trans not_less)
      then have "t \<le> key a" if "binarySearch key t i h \<le> a" "a < j" for a
        using IH that by (cases "h \<le> a") auto
      with IH h show ?thesis unfolding eq by auto
    qed
  next
    case False
    then have "binarySearch key t i j = i" by (subst binarySearch.simps) simp
    with False "1.prems"(1) show ?thesis by auto
  qed
qed

lemma locate_holds:
  assumes w: "wf_blocks l" and i: "i < bl_blocks l"
  shows "holds l (locate l i hint) i"
proof (cases "holds l hint i \<or> holds l (hint + 1) i")
  case True
  then show ?thesis by (auto simp: locate_def)
next
  case False
  let ?m = "length (bl_route l)"
  define f where "f = binarySearch (laneFirst l) (i + 1) 0 ?m"
  have len: "length (bl_lanes l) - 1 = ?m" using w by (simp add: wf_blocks_def)
  have spec: "f \<le> ?m \<and> (\<forall>a. a < f \<longrightarrow> laneFirst l a < i + 1) \<and> (\<forall>a. f \<le> a \<and> a < ?m \<longrightarrow> i + 1 \<le> laneFirst l a)"
    unfolding f_def using binarySearch_spec [of 0 ?m "laneFirst l" "i + 1"] wf_mono_le [OF w] by auto
  have zero: "laneFirst l 0 = 0" "0 < ?m" using w by (simp_all add: wf_blocks_def)
  have pos: "0 < f"
  proof (rule ccontr)
    assume "\<not> 0 < f"
    then have "i + 1 \<le> laneFirst l 0" using spec zero(2) by blast
    with zero(1) show False by simp
  qed
  have "i < laneFirst l f"
  proof (cases "f < ?m")
    case True
    then show ?thesis using spec by (simp add: Suc_le_eq)
  next
    case False
    with spec i w show ?thesis by (simp add: wf_blocks_def)
  qed
  moreover have "laneFirst l (f - 1) \<le> i" using spec pos by (simp add: less_Suc_eq_le)
  ultimately have "holds l (f - 1) i" using spec pos unfolding holds_iff [OF w] by (cases f) auto
  with False len show ?thesis by (simp add: locate_def f_def)
qed

definition laneAt :: "blockList \<Rightarrow> nat \<Rightarrow> nat" where
  "laneAt l i = locate l i 0"

definition resAt :: "blockList \<Rightarrow> nat \<Rightarrow> resource list" where
  "resAt l i = cellAt l (laneAt l i) i"

lemma laneAt_holds: "wf_blocks l \<Longrightarrow> i < bl_blocks l \<Longrightarrow> holds l (laneAt l i) i"
  by (simp add: laneAt_def locate_holds)

lemma laneAt_eq: "wf_blocks l \<Longrightarrow> i < bl_blocks l \<Longrightarrow> holds l k i \<Longrightarrow> k = laneAt l i"
  using holds_unique laneAt_holds by blast

lemma routeLane_laneAt: "wf_blocks l \<Longrightarrow> i < bl_blocks l \<Longrightarrow> routeLane l i = laneAt l i"
  by (rule laneAt_eq) (auto simp: routeLane_def locate_holds)

lemma laneAt_mono: "wf_blocks l \<Longrightarrow> i \<le> j \<Longrightarrow> j < bl_blocks l \<Longrightarrow> laneAt l i \<le> laneAt l j"
proof (rule ccontr)
  assume w: "wf_blocks l" and ij: "i \<le> j" "j < bl_blocks l" and "\<not> laneAt l i \<le> laneAt l j"
  then have "Suc (laneAt l j) \<le> laneAt l i" by simp
  moreover have hi: "holds l (laneAt l i) i" and hj: "holds l (laneAt l j) j" using w ij by (auto intro: laneAt_holds)
  ultimately have "laneFirst l (Suc (laneAt l j)) \<le> laneFirst l (laneAt l i)"
    using holds_iff [OF w] by (intro wf_mono_le [OF w]) auto
  with hi hj ij show False using holds_iff [OF w] by (metis le_less_trans leD le_trans)
qed

lemma nextLane_laneAt:
  assumes w: "wf_blocks l" and i: "i < bl_blocks l" and lane: "lane \<le> laneAt l i"
  shows "nextLane l lane i = laneAt l i"
  using lane
proof (induction "laneAt l i - lane" arbitrary: lane)
  case 0
  then have "lane = laneAt l i" by simp
  with laneAt_holds [OF w i] show ?case by (subst nextLane.simps) (simp add: holds_def)
next
  case (Suc n)
  then have less: "Suc lane \<le> laneAt l i" by simp
  have h: "holds l (laneAt l i) i" by (rule laneAt_holds [OF w i])
  then have "laneFirst l (Suc lane) \<le> laneFirst l (laneAt l i)"
    using less by (intro wf_mono_le [OF w]) (auto simp: holds_iff [OF w])
  with h less have "nextLane l lane i = nextLane l (Suc lane) i"
    by (subst nextLane.simps) (auto simp: holds_def)
  with Suc less show ?case by simp
qed

lemma spanFrom_map:
  assumes w: "wf_blocks l"
  shows "i + n \<le> bl_blocks l \<Longrightarrow> (n > 0 \<Longrightarrow> lane \<le> laneAt l i) \<Longrightarrow> spanFrom l lane i n = map (resAt l) [i..<i + n]"
proof (induction n arbitrary: lane i)
  case (Suc n)
  have lane: "nextLane l lane i = laneAt l i" using Suc.prems by (intro nextLane_laneAt [OF w]) auto
  have "spanFrom l (laneAt l i) (i + 1) n = map (resAt l) [i + 1..<i + 1 + n]"
    using Suc.prems laneAt_mono [OF w, of i "i + 1"] by (intro Suc.IH) auto
  then show ?case
    using Suc.prems by (simp add: lane resAt_def upt_conv_Cons Let_def del: upt_Suc)
qed simp

lemma spanResources_map:
  assumes "wf_blocks l" and "b \<le> bl_blocks l"
  shows "spanResources l a b = map (resAt l) [a..<b]"
proof (cases "a < b")
  case True
  with assms have "routeLane l a = laneAt l a" by (intro routeLane_laneAt) auto
  with True assms spanFrom_map [OF assms(1), of a "b - a" "laneAt l a"] show ?thesis
    by (simp add: spanResources_def)
qed (simp add: spanResources_def)

lemma block_bounds:
  assumes w: "wf_blocks l" and i: "i < bl_blocks l"
  shows "blockStart l i = fst (cellBounds l (laneAt l i) (i - laneFirst l (laneAt l i)))"
    and "blockEnd l i = snd (cellBounds l (laneAt l i) (i - laneFirst l (laneAt l i)))"
  using routeLane_laneAt [OF w i] by (simp_all add: blockStart_def blockEnd_def cellEnd_def cellBounds_def Let_def)

lemma cellOffset_simps [simp]: "cellOffset 0 n d = 0" "0 < n \<Longrightarrow> cellOffset n n d = d"
  by (simp_all add: cellOffset_def)

lemma cellBounds_eq:
  "cellBounds l k c =
    (rl_start (bl_lanes l ! k) + cellOffset c (laneFirst l (Suc k) - laneFirst l k) (rl_length (bl_lanes l ! k)),
     rl_start (bl_lanes l ! k) + cellOffset (Suc c) (laneFirst l (Suc k) - laneFirst l k) (rl_length (bl_lanes l ! k)))"
  by (simp add: cellBounds_def laneFirst_def Let_def)

lemma blocks_adjoin:
  assumes w: "wf_blocks l" and i: "i + 1 < bl_blocks l"
  shows "blockStart l (i + 1) = blockEnd l i"
proof -
  let ?k = "laneAt l i"
  have h: "holds l ?k i" and h': "holds l (laneAt l (i + 1)) (i + 1)"
    using w i by (auto intro: laneAt_holds)
  then have k: "?k < length (bl_route l)" "laneFirst l ?k \<le> i" "i < laneFirst l (Suc ?k)"
    by (simp_all add: holds_iff [OF w])
  show ?thesis
  proof (cases "i + 1 < laneFirst l (Suc ?k)")
    case True
    then have "holds l ?k (i + 1)" using k by (simp add: holds_iff [OF w])
    then have "laneAt l (i + 1) = ?k" using holds_unique [OF w] h' by blast
    then show ?thesis using i k by (simp add: block_bounds [OF w] cellBounds_def Let_def Suc_diff_le)
  next
    case False
    then have last: "i + 1 = laneFirst l (Suc ?k)" using k by simp
    have m: "Suc ?k < length (bl_route l)"
      using i last w k(1) unfolding wf_blocks_def by (metis Suc_lessI less_irrefl)
    then have "laneFirst l (Suc ?k) < laneFirst l (Suc (Suc ?k))" by (intro wf_mono [OF w]) auto
    then have "holds l (Suc ?k) (i + 1)" using m last by (simp add: holds_iff [OF w])
    then have next_lane: "laneAt l (i + 1) = Suc ?k" using holds_unique [OF w] h' by blast
    have start: "rl_start (bl_lanes l ! Suc ?k) = rl_start (bl_lanes l ! ?k) + rl_length (bl_lanes l ! ?k)"
      using w k(1) by (simp add: wf_blocks_def)
    have cells: "Suc (i - laneFirst l ?k) = laneFirst l (Suc ?k) - laneFirst l ?k"
      using last k by linarith
    have pos: "0 < laneFirst l (Suc ?k) - laneFirst l ?k" using k by linarith
    have "blockEnd l i = rl_start (bl_lanes l ! ?k) + rl_length (bl_lanes l ! ?k)"
      using i pos by (simp add: block_bounds(2) [OF w] cellBounds_eq cells)
    moreover have "blockStart l (i + 1) = rl_start (bl_lanes l ! Suc ?k)"
      using block_bounds(1) [OF w i, unfolded next_lane] last by (simp add: cellBounds_eq)
    ultimately show ?thesis by (simp add: start)
  qed
qed

lemma wf_start_sum:
  assumes w: "wf_blocks l" and "k \<le> length (bl_route l)"
  shows "rl_start (bl_lanes l ! k) = sum_list (map (\<lambda>j. rl_length (bl_lanes l ! j)) [0..<k])"
  using assms(2)
proof (induction k)
  case (Suc k)
  then show ?case using w by (simp add: wf_blocks_def)
qed (use w in \<open>simp add: wf_blocks_def\<close>)

text \<open>
  C19. The blocks of a route tile it: the first block starts at zero, each block starts where the one
  before it ends, and the last one ends at the length of the route. Every lookup of the lane of a block finds the lane
  that holds it, whatever hint it starts with, and a walk over a span yields the resources of
  exactly its blocks, in order.
\<close>

theorem route_blocks_tile:
  assumes "route \<noteq> []" and "\<forall>lane\<in>set route. \<forall>c. shared (lane_ID lane) = Some c \<longrightarrow> 0 < lc_count c"
  shows "let l = fst (routeBlocks shared fallback laneLen route) in
    0 < bl_blocks l \<and> blockStart l 0 = 0 \<and>
    (\<forall>i. i + 1 < bl_blocks l \<longrightarrow> blockStart l (i + 1) = blockEnd l i) \<and>
    blockEnd l (bl_blocks l - 1) = sum_list (map laneLen route) \<and>
    (\<forall>i hint. i < bl_blocks l \<longrightarrow> holds l (locate l i hint) i \<and> locate l i hint = routeLane l i) \<and>
    (\<forall>a b. b \<le> bl_blocks l \<longrightarrow> spanResources l a b = map (\<lambda>i. cellAt l (routeLane l i) i) [a..<b])"
proof -
  define l where "l = fst (routeBlocks shared fallback laneLen route)"
  let ?m = "length (bl_route l)"
  have w: "wf_blocks l" unfolding l_def by (rule routeBlocks_wf [OF assms])
  have route: "bl_route l = route" using assms(1) by (simp add: l_def routeBlocks_def Let_def)
  have m: "0 < ?m" using w by (simp add: wf_blocks_def)
  have pos: "0 < bl_blocks l" using wf_mono [OF w m] w by (simp add: wf_blocks_def)
  have zero: "laneAt l 0 = 0"
  proof -
    have "holds l 0 0" using w m wf_mono [OF w, of 0 1] by (simp add: holds_iff [OF w] wf_blocks_def)
    then show ?thesis using laneAt_eq [OF w pos] by simp
  qed
  have first: "blockStart l 0 = 0"
    using w by (simp add: block_bounds [OF w pos] zero cellBounds_def Let_def wf_blocks_def)
  have lens: "rl_length (bl_lanes l ! j) = laneLen (route ! j)" if "j < length route" for j
    using routeEntries_shape that assms(1) by (simp add: l_def routeBlocks_def Let_def)
  have final: "blockEnd l (bl_blocks l - 1) = sum_list (map laneLen route)"
  proof -
    let ?i = "bl_blocks l - 1" and ?k = "?m - 1"
    have blocks: "bl_blocks l = laneFirst l (Suc ?k)" using w m by (simp add: wf_blocks_def)
    have "laneFirst l ?k < laneFirst l (Suc ?k)" using m by (intro wf_mono [OF w]) auto
    then have h: "holds l ?k ?i" using m blocks by (auto simp: holds_iff [OF w])
    then have k: "laneAt l ?i = ?k" using laneAt_eq [OF w] pos by (metis diff_less zero_less_one)
    have n: "Suc (?i - laneFirst l ?k) = laneFirst l (Suc ?k) - laneFirst l ?k"
      using h blocks pos unfolding holds_iff [OF w] by linarith
    have "blockEnd l ?i = rl_start (bl_lanes l ! ?k) + rl_length (bl_lanes l ! ?k)"
      using block_bounds(2) [OF w, of ?i, unfolded k cellBounds_eq n] pos h by (simp add: holds_iff [OF w])
    also have "\<dots> = rl_start (bl_lanes l ! Suc ?k)"
      using w m unfolding wf_blocks_def by (metis diff_less zero_less_one)
    also have "\<dots> = sum_list (map (\<lambda>j. laneLen (route ! j)) [0..<length route])"
      using m lens route by (subst wf_start_sum [OF w]) (auto intro!: arg_cong [where f = sum_list])
    also have "\<dots> = sum_list (map laneLen route)"
      by (metis map_nth length_map list.map_comp comp_def map_eq_conv)
    finally show ?thesis .
  qed
  have lookup: "holds l (locate l i hint) i \<and> locate l i hint = routeLane l i" if "i < bl_blocks l" for i hint
    using locate_holds [OF w that] laneAt_eq [OF w that] routeLane_laneAt [OF w that] by metis
  have span: "spanResources l a b = map (\<lambda>i. cellAt l (routeLane l i) i) [a..<b]" if "b \<le> bl_blocks l" for a b
    using spanResources_map [OF w that] that by (auto simp: resAt_def routeLane_laneAt [OF w])
  show ?thesis
    unfolding Let_def l_def [symmetric] using pos first blocks_adjoin [OF w] final lookup span by blast
qed

section \<open>Conflict zones\<close>

text \<open>\<open>shares l r i e\<close>: each block from \<open>i\<close> to \<open>e\<close> has the resource \<open>r\<close>.\<close>

definition shares :: "blockList \<Rightarrow> resource \<Rightarrow> nat \<Rightarrow> nat \<Rightarrow> bool" where
  "shares l r i e \<longleftrightarrow> i \<le> e \<and> e < bl_blocks l \<and> (\<forall>k. i \<le> k \<and> k \<le> e \<longrightarrow> r \<in> set (resAt l k))"

definition laneEnds :: "blockList \<Rightarrow> nat \<Rightarrow> bool" where
  "laneEnds l i \<longleftrightarrow> i + 1 = laneFirst l (laneAt l i + 1) \<and> i + 1 < bl_blocks l"

text \<open>
  What a reservation up to \<open>through\<close> owes to its block \<open>i\<close>: the block after the end of a lane, and
  the blocks of each junction run that \<open>i\<close> is in.
\<close>

definition owes :: "blockList \<Rightarrow> nat \<Rightarrow> nat \<Rightarrow> bool" where
  "owes l i through \<longleftrightarrow>
    (laneEnds l i \<longrightarrow> i + 1 \<le> through) \<and>
    (\<forall>r\<in>set (resAt l i). res_kind r = junctionResource \<longrightarrow> (\<forall>e. shares l r i e \<longrightarrow> e \<le> through))"

definition zone_closed :: "blockList \<Rightarrow> nat \<Rightarrow> nat \<Rightarrow> bool" where
  "zone_closed l start through \<longleftrightarrow> (\<forall>i. start \<le> i \<and> i \<le> through \<longrightarrow> owes l i through)"

definition longest :: "blockList \<Rightarrow> resource \<Rightarrow> nat \<Rightarrow> nat \<Rightarrow> bool" where
  "longest l r i e \<longleftrightarrow> shares l r i e \<and> (\<forall>e'. shares l r i e' \<longrightarrow> e' \<le> e)"

lemma extendRun_longest:
  assumes w: "wf_blocks l"
  shows "shares l r i e \<Longrightarrow> lane \<le> laneAt l e \<Longrightarrow> longest l r i (extendRun l r lane e)"
proof (induction "bl_blocks l - e" arbitrary: e lane rule: less_induct)
  case less
  show ?case
  proof (cases "e + 1 < bl_blocks l")
    case True
    have lane: "nextLane l lane (e + 1) = laneAt l (e + 1)"
      using less.prems True laneAt_mono [OF w, of e "e + 1"] by (intro nextLane_laneAt [OF w]) auto
    show ?thesis
    proof (cases "r \<in> set (resAt l (e + 1))")
      case grow: True
      have "shares l r i (e + 1)" using less.prems(1) True grow by (auto simp: shares_def le_Suc_eq)
      then have "longest l r i (extendRun l r (laneAt l (e + 1)) (e + 1))"
        using less.hyps [of "e + 1"] True by simp
      moreover have "extendRun l r lane e = extendRun l r (laneAt l (e + 1)) (e + 1)"
        using True grow by (subst extendRun.simps) (simp add: lane [simplified] resAt_def Let_def)
      ultimately show ?thesis by simp
    next
      case False
      then have "extendRun l r lane e = e"
        by (subst extendRun.simps) (use lane in \<open>simp add: resAt_def Let_def\<close>)
      moreover have "e' \<le> e" if "shares l r i e'" for e'
        using that False less.prems(1) by (auto simp: shares_def not_le [symmetric] dest: Suc_leI)
      ultimately show ?thesis using less.prems(1) by (simp add: longest_def)
    qed
  next
    case False
    then have "extendRun l r lane e = e" by (subst extendRun.simps) simp
    with False less.prems(1) show ?thesis by (auto simp: longest_def shares_def)
  qed
qed

definition runs_ok :: "blockList \<Rightarrow> nat \<Rightarrow> junctionRun list \<Rightarrow> bool" where
  "runs_ok l i runs \<longleftrightarrow> (\<forall>run\<in>set runs. i \<le> jr_end run \<longrightarrow> longest l (jr_junction run) i (jr_end run))"

lemma runs_ok_Suc: "runs_ok l i runs \<Longrightarrow> runs_ok l (Suc i) runs"
proof -
  assume ok: "runs_ok l i runs"
  have "longest l r (Suc i) e" if "longest l r i e" "Suc i \<le> e" for r e
  proof -
    have mem: "r \<in> set (resAt l i)" using that by (auto simp: longest_def shares_def)
    have "shares l r (Suc i) e" using that by (auto simp: longest_def shares_def)
    moreover have "e' \<le> e" if "shares l r (Suc i) e'" for e'
    proof -
      have "shares l r i e'" using that mem unfolding shares_def by (metis Suc_leD le_antisym not_less_eq_eq)
      with \<open>longest l r i e\<close> show ?thesis by (simp add: longest_def)
    qed
    ultimately show ?thesis by (simp add: longest_def)
  qed
  with ok show ?thesis by (auto simp: runs_ok_def)
qed

lemma zoneResources_spec:
  assumes w: "wf_blocks l" and i: "i < bl_blocks l"
  shows "set rs \<subseteq> set (resAt l i) \<Longrightarrow> runs_ok l i runs \<Longrightarrow> \<forall>run\<in>set runs. i \<le> jr_end run \<Longrightarrow>
    through < bl_blocks l \<Longrightarrow>
    case zoneResources l (laneAt l i) i rs runs through of (runs', through') \<Rightarrow>
      runs_ok l i runs' \<and> through \<le> through' \<and> through' < bl_blocks l \<and>
      (\<forall>r\<in>set rs. res_kind r = junctionResource \<longrightarrow> (\<forall>e. shares l r i e \<longrightarrow> e \<le> through')) \<and>
      (\<forall>T. through \<le> T \<and> (\<forall>r\<in>set rs. res_kind r = junctionResource \<longrightarrow> (\<forall>e. shares l r i e \<longrightarrow> e \<le> T)) \<longrightarrow>
        through' \<le> T)"
proof (induction rs arbitrary: runs through)
  case (Cons r rs)
  show ?case
  proof (cases "res_kind r = junctionResource")
    case False
    then show ?thesis using Cons by (simp add: split_beta)
  next
    case True
    define e where "e = (case find (\<lambda>run. jr_junction run = r) runs of Some run \<Rightarrow> jr_end run
      | None \<Rightarrow> extendRun l r (laneAt l i) i)"
    define runs' where "runs' = (case find (\<lambda>run. jr_junction run = r) runs of Some run \<Rightarrow> runs
      | None \<Rightarrow> runs @ [\<lparr>jr_junction = r, jr_end = e\<rparr>])"
    have mem: "r \<in> set (resAt l i)" using Cons.prems(1) by simp
    have here: "shares l r i i" using i mem by (simp add: shares_def) (metis le_antisym)
    have long: "longest l r i e"
    proof (cases "find (\<lambda>run. jr_junction run = r) runs")
      case None
      then show ?thesis using extendRun_longest [OF w here] by (simp add: e_def)
    next
      case (Some run)
      then have "run \<in> set runs" "jr_junction run = r" by (auto simp: find_Some_iff)
      then show ?thesis using Cons.prems(2,3) Some by (auto simp: e_def runs_ok_def)
    qed
    have eq: "zoneResources l (laneAt l i) i (r # rs) runs through =
        zoneResources l (laneAt l i) i rs runs' (max through e)"
      using True by (simp add: e_def runs'_def Let_def split: option.split)
    have "i \<le> e" "e < bl_blocks l" using long by (auto simp: longest_def shares_def)
    then have ends: "\<forall>run\<in>set runs'. i \<le> jr_end run" "runs_ok l i runs'" "max through e < bl_blocks l"
      using Cons.prems long by (auto simp: runs'_def runs_ok_def split: option.splits)
    obtain runs2 t2 where res: "zoneResources l (laneAt l i) i rs runs' (max through e) = (runs2, t2)"
      by (cases "zoneResources l (laneAt l i) i rs runs' (max through e)")
    note IH = Cons.IH [of runs' "max through e", unfolded res prod.case]
    have IH': "runs_ok l i runs2 \<and> max through e \<le> t2 \<and> t2 < bl_blocks l \<and>
      (\<forall>r\<in>set rs. res_kind r = junctionResource \<longrightarrow> (\<forall>e. shares l r i e \<longrightarrow> e \<le> t2)) \<and>
      (\<forall>T. max through e \<le> T \<and> (\<forall>r\<in>set rs. res_kind r = junctionResource \<longrightarrow> (\<forall>e. shares l r i e \<longrightarrow> e \<le> T)) \<longrightarrow>
        t2 \<le> T)"
      using Cons.prems(1) ends by (intro IH) auto
    have self: "\<forall>e'. shares l r i e' \<longrightarrow> e' \<le> t2" using long IH' by (auto simp: longest_def)
    have low: "t2 \<le> T" if "through \<le> T"
      "\<forall>r\<in>set (r # rs). res_kind r = junctionResource \<longrightarrow> (\<forall>e. shares l r i e \<longrightarrow> e \<le> T)" for T
    proof -
      have "e \<le> T" using that(2) long True by (simp add: longest_def)
      with that IH' show ?thesis by simp
    qed
    show ?thesis unfolding eq res prod.case using IH' self low by simp
  qed
qed simp

lemma owes_mono: "owes l i t \<Longrightarrow> t \<le> t' \<Longrightarrow> owes l i t'"
  by (auto simp: owes_def intro: le_trans)

lemma zoneStep_spec:
  assumes w: "wf_blocks l" and i: "i < bl_blocks l" and ok: "runs_ok l i runs" and t: "through < bl_blocks l"
  shows "case zoneStep l (laneAt l i) i runs through of (runs', through') \<Rightarrow>
    runs_ok l i runs' \<and> through \<le> through' \<and> through' < bl_blocks l \<and> owes l i through' \<and>
    (\<forall>T. through \<le> T \<and> owes l i T \<longrightarrow> through' \<le> T)"
proof -
  let ?t = "if i + 1 = laneFirst l (laneAt l i + 1) \<and> i + 1 < bl_blocks l then max through (i + 1) else through"
  let ?runs = "filter (\<lambda>run. \<not> jr_end run < i) runs"
  have t': "?t < bl_blocks l" using t by auto
  have runs: "runs_ok l i ?runs" "\<forall>run\<in>set ?runs. i \<le> jr_end run" using ok by (auto simp: runs_ok_def)
  obtain r2 t2 where res: "zoneResources l (laneAt l i) i (resAt l i) ?runs ?t = (r2, t2)"
    by (cases "zoneResources l (laneAt l i) i (resAt l i) ?runs ?t")
  have spec: "runs_ok l i r2 \<and> ?t \<le> t2 \<and> t2 < bl_blocks l \<and>
      (\<forall>r\<in>set (resAt l i). res_kind r = junctionResource \<longrightarrow> (\<forall>e. shares l r i e \<longrightarrow> e \<le> t2)) \<and>
      (\<forall>T. ?t \<le> T \<and> (\<forall>r\<in>set (resAt l i). res_kind r = junctionResource \<longrightarrow> (\<forall>e. shares l r i e \<longrightarrow> e \<le> T)) \<longrightarrow> t2 \<le> T)"
    using zoneResources_spec [OF w i subset_refl runs t', unfolded res prod.case] .
  have step: "zoneStep l (laneAt l i) i runs through = (r2, t2)"
    using res by (simp add: zoneStep_def resAt_def Let_def)
  have pre: "through \<le> ?t" "laneEnds l i \<Longrightarrow> i + 1 \<le> ?t" by (auto simp: laneEnds_def)
  have "owes l i t2" using spec pre(2) by (auto simp: owes_def intro: le_trans)
  moreover have "t2 \<le> T" if "through \<le> T" "owes l i T" for T
  proof -
    have "?t \<le> T" using that by (auto simp: owes_def laneEnds_def)
    with spec that(2) show ?thesis unfolding owes_def by blast
  qed
  ultimately show ?thesis unfolding step prod.case using spec pre(1) by (meson le_trans)
qed

lemma zoneLoop_spec:
  assumes w: "wf_blocks l"
  shows "bl_blocks l \<le> fuel + i \<Longrightarrow> start \<le> i \<Longrightarrow> i \<le> through + 1 \<Longrightarrow> start \<le> through \<Longrightarrow> through < bl_blocks l \<Longrightarrow>
    (i < bl_blocks l \<Longrightarrow> lane \<le> laneAt l i) \<Longrightarrow> runs_ok l i runs \<Longrightarrow>
    \<forall>j. start \<le> j \<and> j < i \<longrightarrow> owes l j through \<Longrightarrow> \<forall>T. start \<le> T \<and> zone_closed l start T \<longrightarrow> through \<le> T \<Longrightarrow>
    \<exists>T. zoneLoop fuel l lane i runs through = Some T \<and> start \<le> T \<and> T < bl_blocks l \<and> zone_closed l start T \<and>
      (\<forall>T'. start \<le> T' \<and> zone_closed l start T' \<longrightarrow> T \<le> T')"
proof (induction fuel arbitrary: lane i runs through)
  case 0
  then have "through < i" by simp
  with 0 show ?case by (auto simp: zone_closed_def)
next
  case (Suc fuel)
  show ?case
  proof (cases "i \<le> through")
    case False
    with Suc.prems show ?thesis by (auto simp: zone_closed_def)
  next
    case True
    then have i: "i < bl_blocks l" using Suc.prems(5) by simp
    have lane: "nextLane l lane i = laneAt l i" by (rule nextLane_laneAt [OF w i Suc.prems(6) [OF i]])
    obtain r2 t2 where step: "zoneStep l (laneAt l i) i runs through = (r2, t2)"
      by (cases "zoneStep l (laneAt l i) i runs through")
    have spec: "runs_ok l i r2 \<and> through \<le> t2 \<and> t2 < bl_blocks l \<and> owes l i t2 \<and>
        (\<forall>T. through \<le> T \<and> owes l i T \<longrightarrow> t2 \<le> T)"
      using zoneStep_spec [OF w i Suc.prems(7,5), unfolded step prod.case] .
    have eq: "zoneLoop (Suc fuel) l lane i runs through = zoneLoop fuel l (laneAt l i) (i + 1) r2 t2"
      using True by (simp add: lane step Let_def)
    have owed: "\<forall>j. start \<le> j \<and> j < i + 1 \<longrightarrow> owes l j t2"
      using Suc.prems(8) spec owes_mono by (metis Suc_eq_plus1 less_Suc_eq)
    have least: "\<forall>T. start \<le> T \<and> zone_closed l start T \<longrightarrow> t2 \<le> T"
    proof (intro allI impI)
      fix T assume T: "start \<le> T \<and> zone_closed l start T"
      then have "through \<le> T" using Suc.prems(9) by blast
      moreover have "owes l i T" using T Suc.prems(2) True calculation by (auto simp: zone_closed_def)
      ultimately show "t2 \<le> T" using spec by blast
    qed
    show ?thesis unfolding eq
    proof (rule Suc.IH)
      show "i + 1 < bl_blocks l \<Longrightarrow> laneAt l i \<le> laneAt l (i + 1)" by (rule laneAt_mono [OF w]) auto
      show "runs_ok l (i + 1) r2" using spec runs_ok_Suc by simp
    qed (use Suc.prems True spec owed least in auto)
  qed
qed

lemma reservationEnd_wf:
  assumes w: "wf_blocks l" and start: "start < bl_blocks l"
  shows "\<exists>through. reservationEnd l start = Some through \<and> start \<le> through \<and> through < bl_blocks l \<and>
    zone_closed l start through \<and> (\<forall>t. start \<le> t \<and> zone_closed l start t \<longrightarrow> through \<le> t)"
  unfolding reservationEnd_def
  by (rule zoneLoop_spec [OF w])
    (use start routeLane_laneAt [OF w start] in \<open>auto simp: runs_ok_def\<close>)

text \<open>
  C17. The end of a reservation always exists and is the least conflict zone: the loop of
  \<open>reservationEnd\<close> ends within one turn for each block of the route, and gives the first block such that the blocks of the
  request from \<open>start\<close> on hold, with each of their blocks, the block after the end of its lane and the whole run of blocks of each
  junction that it enters. No shorter reservation has this property.
\<close>

theorem reservationEnd_zone:
  assumes "route \<noteq> []" and "\<forall>lane\<in>set route. \<forall>c. shared (lane_ID lane) = Some c \<longrightarrow> 0 < lc_count c"
    and "l = fst (routeBlocks shared fallback laneLen route)" and "start < bl_blocks l"
  shows "\<exists>through. reservationEnd l start = Some through \<and> start \<le> through \<and> through < bl_blocks l \<and>
    zone_closed l start through \<and> (\<forall>t. start \<le> t \<and> zone_closed l start t \<longrightarrow> through \<le> t)"
proof -
  have "wf_blocks l" unfolding assms(3) by (rule routeBlocks_wf [OF assms(1,2)])
  then show ?thesis using assms(4) by (rule reservationEnd_wf)
qed

section \<open>A concrete crossing\<close>

definition wayLane :: "string \<Rightarrow> string \<Rightarrow> string \<Rightarrow> Lane" where
  "wayLane i a b =
    \<lparr>lane_VehicleClasses = 0, lane_ID = i, lane_From = a, lane_To = b, lane_SpeedLimit = Fin 10, lane_SeparationGroup = [],
     lane_StationID = [], lane_StationRole = [], lane_Control = None\<rparr>"

definition trackOf :: "string \<Rightarrow> nat \<Rightarrow> resource" where
  "trackOf i k = \<lparr>res_kind = trackResource, res_id = i, res_cell = k\<rparr>"

text \<open>Two lanes of two cells each; the second cell of the first and the first cell of the second are in junction \<open>x\<close>.\<close>

definition crossingCells :: "string \<rightharpoonup> laneCells" where
  "crossingCells =
    [''w'' \<mapsto> \<lparr>lc_tail = 0, lc_fromTail = 0, lc_retention = 0,
       lc_resources = [trackOf ''w'' 0, plain_resource junctionResource ''x'', trackOf ''w'' 1], lc_ends = [1, 3]\<rparr>,
     ''e'' \<mapsto> \<lparr>lc_tail = 0, lc_fromTail = 0, lc_retention = 0,
       lc_resources = [plain_resource junctionResource ''x'', trackOf ''e'' 0, trackOf ''e'' 1], lc_ends = [2, 3]\<rparr>]"

definition plainInputOf :: "Lane \<Rightarrow> laneCellsInput" where
  "plainInputOf lane =
    \<lparr>ci_tail = 0, ci_fromTail = 0, ci_retention = 0, ci_lane = lane, ci_length = 20, ci_berths = [],
     ci_conflicts = [\<lparr>cf_junction = lane_To lane, cf_start = 12, cf_end = 20\<rparr>], ci_every = []\<rparr>"

definition crossing :: blockList where
  "crossing = fst (routeBlocks crossingCells plainInputOf (\<lambda>_. 20) [wayLane ''w'' ''a'' ''x'', wayLane ''e'' ''x'' ''b''])"

lemma crossing_eval:
  "crossing = \<lparr>bl_route = [wayLane ''w'' ''a'' ''x'', wayLane ''e'' ''x'' ''b''],
    bl_lanes = [\<lparr>rl_first = 0, rl_start = 0, rl_length = 20, rl_cells = the (crossingCells ''w'')\<rparr>,
      \<lparr>rl_first = 2, rl_start = 20, rl_length = 20, rl_cells = the (crossingCells ''e'')\<rparr>,
      \<lparr>rl_first = 4, rl_start = 40, rl_length = 0, rl_cells = noCells\<rparr>], bl_blocks = 4, bl_scan = 0\<rparr>"
  by (simp add: crossing_def routeBlocks_def crossingCells_def wayLane_def lc_count_def Let_def)

lemma crossing_shared:
  "\<forall>lane\<in>set [wayLane ''w'' ''a'' ''x'', wayLane ''e'' ''x'' ''b'']. \<forall>c. crossingCells (lane_ID lane) = Some c \<longrightarrow> 0 < lc_count c"
  by (auto simp: crossingCells_def wayLane_def lc_count_def)


theorem route_blocks_tile_witness:
  "bl_blocks crossing = 4 \<and> blockStart crossing 2 = blockEnd crossing 1 \<and> blockEnd crossing 3 = 40"
  using route_blocks_tile [OF _ crossing_shared, of plainInputOf "\<lambda>_. 20", folded crossing_def, unfolded Let_def]
  by (simp add: crossing_eval numeral_2_eq_2 numeral_3_eq_3)

theorem reservationEnd_zone_witness:
  "reservationEnd crossing 0 = Some 0 \<and> reservationEnd crossing 1 = Some 2 \<and> zone_closed crossing 1 2"
proof -
  have a: "reservationEnd crossing 0 = Some 0" by code_simp
  have b: "reservationEnd crossing 1 = Some 2" by code_simp
  have "bl_blocks crossing = 4" by (simp add: crossing_eval)
  with a b reservationEnd_zone [OF _ crossing_shared crossing_def, of 1] show ?thesis by simp
qed

end
