(* ===== verification/TrafficSafety.thy ===== *)
theory TrafficSafety
  imports Platoons TrackZones
begin

text \<open>
  The safety of the track. A pod that retains a resource past its position owns it, or a pod ahead of it in
  its platoon owns it (\<open>guarded\<close>), and a pod on its way retains each resource of its reserved blocks
  until it is past the release distance (\<open>covered\<close>). Grants, the motion and the releases keep both, so
  two pods never hold one resource of the track ahead of them, except pods of one platoon.
\<close>

section \<open>Ownership\<close>

definition pod_tag :: "traffic \<Rightarrow> nat \<Rightarrow> resourceOwner" where
  "pod_tag s i = \<lparr>own_kind = podOwnerKind, own_id = vh_ID (pod s i)\<rparr>"

definition owns :: "traffic \<Rightarrow> nat \<Rightarrow> resource \<Rightarrow> bool" where
  "owns s i r \<longleftrightarrow> tr_owners s r = Some (pod_tag s i)"

definition fleet_ids :: "traffic \<Rightarrow> bool" where
  "fleet_ids s \<longleftrightarrow> (\<forall>i<fleetSize s. vh_ID (pod s i) \<noteq> []) \<and>
    (\<forall>i<fleetSize s. \<forall>j<fleetSize s. vh_ID (pod s i) = vh_ID (pod s j) \<longrightarrow> i = j)"

lemma fleet_ids_inj: "fleet_ids s \<Longrightarrow> i < fleetSize s \<Longrightarrow> j < fleetSize s \<Longrightarrow> vh_ID (pod s i) = vh_ID (pod s j) \<Longrightarrow> i = j"
  by (simp add: fleet_ids_def)

lemma fleet_ids_nonempty: "fleet_ids s \<Longrightarrow> i < fleetSize s \<Longrightarrow> vh_ID (pod s i) \<noteq> []"
  by (simp add: fleet_ids_def)

lemma podOwner_tag: "fleet_ids s \<Longrightarrow> i < fleetSize s \<Longrightarrow> podOwner s i = pod_tag s i"
  by (simp add: podOwner_def podResourceOwner_def pod_tag_def fleet_ids_nonempty)

lemma owner_iff:
  assumes "fleet_ids s" and "i < fleetSize s"
  shows "isPod (ownerAt s r) (vh_ID (pod s i)) \<longleftrightarrow> owns s i r" "ownerAt s r = podOwner s i \<longleftrightarrow> owns s i r"
    "isZero (ownerAt s r) \<Longrightarrow> \<not> owns s i r"
  using fleet_ids_nonempty [OF assms] podOwner_tag [OF assms]
  by (auto simp: ownerAt_def owns_def pod_tag_def isPod_def isZero_def zeroOwner_def podOwnerKind_def split: option.splits)

lemma owns_unique:
  assumes "fleet_ids s" and "i < fleetSize s" and "j < fleetSize s" and "owns s i r" and "owns s j r"
  shows "i = j"
  using fleet_ids_inj [OF assms(1-3)] assms(4,5) by (simp add: owns_def pod_tag_def)

lemma ownerAheadInPlatoon_iff:
  assumes ids: "fleet_ids s" and w: "link_wf s" and i: "i < fleetSize s"
  shows "ownerAheadInPlatoon s i (ownerAt s r) \<longleftrightarrow> (\<exists>k. (i, k) \<in> ahead s \<and> owns s k r)"
proof -
  have "podID (ownerAt s r) \<noteq> [] \<and> vh_ID (pod s k) = podID (ownerAt s r) \<longleftrightarrow> owns s k r" if "(i, k) \<in> ahead s" for k
  proof -
    have "k < fleetSize s" using ahead_bounded [OF w that] by simp
    with ids have "vh_ID (pod s k) \<noteq> []" by (rule fleet_ids_nonempty)
    then show ?thesis
      by (cases "ownerAt s r")
        (auto simp: podID_def owns_def pod_tag_def ownerAt_def zeroOwner_def podOwnerKind_def split: option.splits)
  qed
  then show ?thesis
    unfolding ownerAheadInPlatoon_def Let_def aheadInPlatoon_iff [OF w i] by blast
qed

lemma owns_frame:
  "skeleton s' = skeleton s \<Longrightarrow> i < fleetSize s \<Longrightarrow> tr_owners s' r = tr_owners s r \<Longrightarrow> owns s' i r = owns s i r"
  using skeleton_links(3) [of s' s i] by (simp add: owns_def pod_tag_def)

lemma skeleton_fleet_ids:
  assumes eq: "skeleton s' = skeleton s" and "fleet_ids s"
  shows "fleet_ids s'"
  using assms(2) unfolding fleet_ids_def skeleton_size [OF eq] by (simp add: skeleton_links(3) [OF eq])

section \<open>Retained resources\<close>

abbreviation retention :: "traffic \<Rightarrow> nat \<Rightarrow> resource \<rightharpoonup> real" where
  "retention s i \<equiv> map_of (vh_routeReleases (pod s i))"

text \<open>The pod retains the resource past its position.\<close>

definition retains :: "traffic \<Rightarrow> nat \<Rightarrow> resource \<Rightarrow> bool" where
  "retains s i r \<longleftrightarrow> (\<exists>a. retention s i r = Some a \<and> vh_distance (pod s i) < a)"

definition guard :: "traffic \<Rightarrow> nat \<Rightarrow> resource \<Rightarrow> bool" where
  "guard s i r \<longleftrightarrow> (\<exists>k<fleetSize s. (i, k) \<in> (ahead s)\<^sup>= \<and> owns s k r)"

definition guarded :: "traffic \<Rightarrow> bool" where
  "guarded s \<longleftrightarrow> (\<forall>i<fleetSize s. \<forall>r. retains s i r \<longrightarrow> guard s i r)"

lemma guardedD: "guarded s \<Longrightarrow> i < fleetSize s \<Longrightarrow> retains s i r \<Longrightarrow> guard s i r"
  by (simp add: guarded_def)

lemma guard_frame:
  assumes eq: "skeleton s' = skeleton s" and "tr_owners s' r = tr_owners s r"
  shows "guard s' i r = guard s i r"
  unfolding guard_def skeleton_size [OF eq] skeleton_ahead [OF eq]
  using owns_frame [OF eq _ assms(2)] by auto

lemma guard_iff:
  assumes ids: "fleet_ids s" and w: "link_wf s" and i: "i < fleetSize s"
  shows "guard s i r \<longleftrightarrow> isPod (ownerAt s r) (vh_ID (pod s i)) \<or> ownerAheadInPlatoon s i (ownerAt s r)"
  unfolding owner_iff(1) [OF ids i] ownerAheadInPlatoon_iff [OF ids w i] guard_def
  using i ahead_bounded [OF w] by blast

section \<open>Handing over\<close>

text \<open>The owners after the pod \<open>i\<close> released the resources in \<open>rs\<close>.\<close>

definition hand_over :: "nat \<Rightarrow> resource set \<Rightarrow> traffic \<Rightarrow> resource \<rightharpoonup> resourceOwner" where
  "hand_over i rs s = (\<lambda>r.
    if r \<in> rs \<and> owns s i r then map_option (pod_tag s) (heirOf s i r) else tr_owners s r)"

lemma heirOf_Some:
  assumes w: "link_wf s" and i: "i < fleetSize s" and h: "heirOf s i r = Some j"
  shows "(j, i) \<in> ahead s" "j < fleetSize s" "j \<noteq> i" "retains s j r"
proof -
  have "j \<in> set (followers s i)" and ret: "case retention s j r of None \<Rightarrow> False | Some a \<Rightarrow> a > vh_distance (pod s j)"
    using h unfolding heirOf_def by (auto simp: find_Some_iff in_set_conv_nth)
  then show ahd: "(j, i) \<in> ahead s" by (simp add: set_followers [OF w i])
  then show "j < fleetSize s" "j \<noteq> i" using ahead_bounded [OF w] ahead_irrefl [OF w] by auto
  show "retains s j r" using ret by (auto simp: retains_def split: option.splits)
qed

lemma heirOf_first:
  assumes w: "link_wf s" and i: "i < fleetSize s" and j: "(j, i) \<in> ahead s" and ret: "retains s j r"
  shows "\<exists>h. heirOf s i r = Some h \<and> (j, h) \<in> (ahead s)\<^sup>="
proof -
  let ?P = "\<lambda>j. case retention s j r of None \<Rightarrow> False | Some a \<Rightarrow> a > vh_distance (pod s j)"
  let ?fs = "followers s i"
  have "j \<in> set ?fs" using j by (simp add: set_followers [OF w i])
  then obtain b where b: "b < length ?fs" "?fs ! b = j" by (auto simp: in_set_conv_nth)
  have P: "?P j" using ret by (auto simp: retains_def)
  have "find ?P ?fs \<noteq> None" using \<open>j \<in> set ?fs\<close> P unfolding find_None_iff by blast
  then obtain h where h: "find ?P ?fs = Some h" by blast
  then obtain a where a: "a < length ?fs" "?fs ! a = h" and least: "\<forall>c<a. \<not> ?P (?fs ! c)"
    by (auto simp: find_Some_iff)
  have "a \<le> b" using least P b(2) by (metis not_le)
  then have "(j, h) \<in> (ahead s)\<^sup>="
    using followers_ordered [OF w i] a b by (cases "a = b") (auto simp: sorted_wrt_iff_nth_less)
  with h show ?thesis unfolding heirOf_def by blast
qed

lemma hand_over_guard:
  assumes ids: "fleet_ids s" and w: "link_wf s" and i: "i < fleetSize s" and j: "j < fleetSize s"
    and eq: "skeleton s' = skeleton s" and owners: "tr_owners s' = hand_over i rs s"
    and g: "guard s j r" and ret: "retains s j r" and other: "j \<noteq> i \<or> r \<notin> rs"
  shows "guard s' j r"
proof (cases "r \<in> rs \<and> owns s i r")
  case False
  then have "tr_owners s' r = tr_owners s r" by (auto simp: owners hand_over_def)
  with g show ?thesis using guard_frame [OF eq] by blast
next
  case True
  with other have ne: "j \<noteq> i" by blast
  obtain k where k: "k < fleetSize s" "(j, k) \<in> (ahead s)\<^sup>=" "owns s k r" using g by (auto simp: guard_def)
  then have "k = i" using owns_unique [OF ids k(1) i] True by blast
  with k ne have "(j, i) \<in> ahead s" by auto
  then obtain h where h: "heirOf s i r = Some h" "(j, h) \<in> (ahead s)\<^sup>=" using heirOf_first [OF w i _ ret] by blast
  then have "h < fleetSize s" using heirOf_Some(2) [OF w i] by blast
  moreover have "owns s' h r"
    using True h(1) skeleton_links(3) [OF eq \<open>h < fleetSize s\<close>] by (simp add: owns_def owners hand_over_def pod_tag_def)
  ultimately show ?thesis
    unfolding guard_def skeleton_size [OF eq] skeleton_ahead [OF eq] using h(2) by blast
qed

lemma hand_over_empty: "hand_over i {} s = tr_owners s"
  by (simp add: hand_over_def)

lemma walk_cong:
  assumes bound: "\<forall>i<n. f i \<le> n" and eq: "\<And>i. i < n \<Longrightarrow> g i = f i"
  shows "link \<le> n \<Longrightarrow> walk g fuel link = walk f fuel link"
proof (induction fuel arbitrary: link)
  case (Suc fuel)
  show ?case
  proof (cases link)
    case l: (Suc j)
    then have "j < n" using Suc.prems by simp
    then have "f j \<le> n" "g j = f j" using bound eq by auto
    with l Suc.IH [of "f j"] show ?thesis by simp
  qed simp
qed simp

lemma followers_cong:
  assumes eq: "skeleton s' = skeleton s" and w: "link_wf s" and i: "i < fleetSize s"
  shows "followers s' i = followers s i"
proof -
  have "followerOf s i \<le> fleetSize s" using link_wf_bound(2) [OF w] i by blast
  then show ?thesis
    unfolding followers_def followersFrom_walk skeleton_size [OF eq] skeleton_links(2) [OF eq i]
    by (intro walk_cong [OF link_wf_bound(2) [OF w]] skeleton_links(2) [OF eq])
qed

lemma heirOf_cong:
  assumes eq: "skeleton s' = skeleton s" and w: "link_wf s" and i: "i < fleetSize s"
    and same: "\<And>j. j < fleetSize s \<Longrightarrow> j \<noteq> i \<Longrightarrow> pod s' j = pod s j"
  shows "heirOf s' i r = heirOf s i r"
proof -
  have "pod s' j = pod s j" if "j \<in> set (followers s i)" for j
  proof -
    from that have "(j, i) \<in> ahead s" by (simp add: set_followers [OF w i])
    then show ?thesis using same ahead_bounded [OF w] ahead_irrefl [OF w] by metis
  qed
  then show ?thesis unfolding heirOf_def followers_cong [OF eq w i] by (intro find_cong [OF refl]) (simp split: option.split)
qed

text \<open>A release of the pod \<open>i\<close>: it hands over the resources in \<open>rs\<close> and changes nothing but its own records of them.\<close>

definition recorded :: "vehicle \<Rightarrow> vehicle \<Rightarrow> bool" where
  "recorded v v' \<longleftrightarrow> v' = v\<lparr>vh_routeReleases := vh_routeReleases v', vh_nextRelease := vh_nextRelease v',
      vh_originReleased := vh_originReleased v', vh_depotArrived := vh_depotArrived v'\<rparr>"

definition released :: "nat \<Rightarrow> resource set \<Rightarrow> traffic \<Rightarrow> traffic \<Rightarrow> bool" where
  "released i rs s s' \<longleftrightarrow> tr_owners s' = hand_over i rs s \<and> fleetSize s' = fleetSize s \<and>
    (\<forall>j<fleetSize s. j \<noteq> i \<longrightarrow> pod s' j = pod s j) \<and> recorded (pod s i) (pod s' i)"

lemma recorded_refl: "recorded v v"
  by (simp add: recorded_def)

lemma recorded_trans: "recorded u v \<Longrightarrow> recorded v w \<Longrightarrow> recorded u w"
  unfolding recorded_def by (cases u, cases v, cases w) simp

lemma recorded_same:
  assumes "recorded v v'"
  shows "vh_ID v' = vh_ID v" "vh_link v' = vh_link v" "vh_follower v' = vh_follower v" "vh_distance v' = vh_distance v"
    "vh_Activity v' = vh_Activity v" "vh_blocks v' = vh_blocks v" "vh_reservedThrough v' = vh_reservedThrough v"
    "vh_phaseTicks v' = vh_phaseTicks v" "vh_faulted v' = vh_faulted v" "vh_origin v' = vh_origin v"
  using assms unfolding recorded_def by (cases v', cases v, simp)+

lemma released_skeleton:
  assumes "released i rs s s'"
  shows "skeleton s' = skeleton s"
proof (rule nth_equalityI)
  have size: "fleetSize s' = fleetSize s" using assms by (simp add: released_def)
  show "length (skeleton s') = length (skeleton s)" using size by (simp add: skeleton_def)
  fix j assume "j < length (skeleton s')"
  then have j: "j < fleetSize s" using size by (simp add: skeleton_def)
  show "skeleton s' ! j = skeleton s ! j"
  proof (cases "j = i")
    case True
    have "recorded (pod s i) (pod s' i)" using assms by (simp add: released_def)
    then show ?thesis using j size True by (simp add: skeleton_def recorded_same)
  qed (use assms j in \<open>simp add: skeleton_def released_def\<close>)
qed

lemma released_refl: "released i {} s s"
  by (simp add: released_def hand_over_empty recorded_refl)

lemma released_trans:
  assumes ids: "fleet_ids s" and w: "link_wf s" and i: "i < fleetSize s"
    and a: "released i A s s1" and b: "released i B s1 s2"
  shows "released i (A \<union> B) s s2"
proof -
  note eq = released_skeleton [OF a]
  have same: "pod s1 j = pod s j" if "j < fleetSize s" "j \<noteq> i" for j using a that by (simp add: released_def)
  have tag: "pod_tag s1 j = pod_tag s j" if "j < fleetSize s" for j
    using skeleton_links(3) [OF eq that] by (simp add: pod_tag_def)
  have heir: "heirOf s1 i r = heirOf s i r" for r by (rule heirOf_cong [OF eq w i same])
  have "hand_over i B s1 r = hand_over i (A \<union> B) s r" for r
  proof (cases "r \<in> A \<and> owns s i r")
    case True
    then have o1: "tr_owners s1 r = map_option (pod_tag s) (heirOf s i r)" using a by (simp add: released_def hand_over_def)
    have "\<not> owns s1 i r"
    proof
      assume "owns s1 i r"
      then obtain h where h: "heirOf s i r = Some h" "pod_tag s h = pod_tag s i" using o1 tag [OF i] by (auto simp: owns_def)
      from heirOf_Some(2,3) [OF w i h(1)] h(2) fleet_ids_inj [OF ids _ i] show False by (auto simp: pod_tag_def)
    qed
    with True o1 show ?thesis by (simp add: hand_over_def)
  next
    case False
    then have o1: "tr_owners s1 r = tr_owners s r" using a by (auto simp: released_def hand_over_def)
    then have "owns s1 i r = owns s i r" by (simp add: owns_def tag [OF i])
    moreover have "map_option (pod_tag s1) (heirOf s i r) = map_option (pod_tag s) (heirOf s i r)"
      using heirOf_Some(2) [OF w i] tag by (cases "heirOf s i r") auto
    ultimately show ?thesis using False o1 heir by (auto simp: hand_over_def)
  qed
  moreover have "recorded (pod s i) (pod s2 i)" using a b recorded_trans by (auto simp: released_def)
  ultimately show ?thesis using a b by (auto simp: released_def)
qed

lemma released_setPod:
  "i < fleetSize s \<Longrightarrow> recorded (pod s i) (f (pod s i)) \<Longrightarrow> released i {} s (setPod i f s)"
  by (simp add: released_def hand_over_empty pod_setPod)

lemma released_wf:
  assumes "fleet_ids s" and "link_wf s" and r: "released i A s s'"
  shows "fleet_ids s'" "link_wf s'" "fleetSize s' = fleetSize s"
proof -
  note eq = released_skeleton [OF r]
  show "fleet_ids s'" by (rule skeleton_fleet_ids [OF eq assms(1)])
  show "link_wf s'" by (rule skeleton_link_wf [OF eq assms(2)])
  show "fleetSize s' = fleetSize s" by (rule skeleton_size [OF eq])
qed

lemma releaseRouteResource_eq:
  assumes ids: "fleet_ids s" and w: "link_wf s" and i: "i < fleetSize s"
  shows "releaseRouteResource i r s = s\<lparr>tr_owners := hand_over i {r} s\<rparr>"
proof (cases "owns s i r")
  case True
  have "hand_over i {r} s = (case heirOf s i r of Some j \<Rightarrow> (tr_owners s)(r \<mapsto> podOwner s j) | None \<Rightarrow> (tr_owners s)(r := None))"
    using True heirOf_Some(2) [OF w i] podOwner_tag [OF ids]
    by (auto simp: hand_over_def fun_eq_iff split: option.splits)
  with True show ?thesis by (simp add: releaseRouteResource_def owner_iff [OF ids i] split: option.splits)
next
  case False
  then have "hand_over i {r} s = tr_owners s" by (auto simp: hand_over_def)
  with False show ?thesis by (simp add: releaseRouteResource_def owner_iff [OF ids i])
qed

lemma released_releaseRouteResource:
  assumes "fleet_ids s" and "link_wf s" and "i < fleetSize s"
  shows "released i {r} s (releaseRouteResource i r s)"
  by (simp add: releaseRouteResource_eq [OF assms] released_def recorded_refl)

lemma released_releaseOwned:
  assumes ids: "fleet_ids s" and w: "link_wf s" and i: "i < fleetSize s"
  shows "released i {r} s (releaseOwned i r s)" "retention (releaseOwned i r s) i = retention s i"
proof -
  show "retention (releaseOwned i r s) i = retention s i"
    using i by (simp add: releaseOwned_def pod_setPod releaseRouteResource_eq [OF assms])
  show "released i {r} s (releaseOwned i r s)"
  proof (cases "owns s i r")
    case True
    have a: "released i {r} s (releaseRouteResource i r s)" by (rule released_releaseRouteResource [OF assms])
    moreover have "released i {} (releaseRouteResource i r s)
        (setPod i (\<lambda>v. v\<lparr>vh_nextRelease := Some 0\<rparr>) (releaseRouteResource i r s))"
      using i by (intro released_setPod) (simp_all add: releaseRouteResource_eq [OF assms] recorded_def)
    ultimately have "released i ({r} \<union> {}) s (setPod i (\<lambda>v. v\<lparr>vh_nextRelease := Some 0\<rparr>) (releaseRouteResource i r s))"
      by (rule released_trans [OF assms])
    with True show ?thesis by (simp add: releaseOwned_def owner_iff [OF ids i])
  next
    case False
    then have "hand_over i {r} s = tr_owners s" by (auto simp: hand_over_def)
    with False show ?thesis by (simp add: releaseOwned_def owner_iff [OF ids i] released_def recorded_refl)
  qed
qed

section \<open>The release of one pod\<close>

lemma passedLoop_spec:
  assumes "passedLoop i chk rel s kept lowestOne = (s', kept', lowest')"
    and "fleet_ids s" and "link_wf s" and "i < fleetSize s" and "distinct (map fst rel)"
  shows "\<exists>A kept1. released i A s s' \<and> tr_vehicles s' = tr_vehicles s \<and> kept' = kept @ kept1 \<and>
    set kept1 \<subseteq> set rel \<and> distinct (map fst kept1) \<and> (\<forall>(r, a)\<in>set kept1. vh_distance (pod s i) < a) \<and>
    A \<subseteq> {r. \<exists>a. (r, a) \<in> set rel \<and> a \<le> vh_distance (pod s i)} \<and>
    (\<forall>(r, a)\<in>set rel. vh_distance (pod s i) < a \<and> guard s i r \<longrightarrow> (r, a) \<in> set kept1) \<and>
    (\<forall>a\<in>snd ` set kept1 \<union> set_option lowestOne. \<exists>t. lowest' = Some t \<and> t \<le> a)"
  using assms
proof (induction rel arbitrary: s kept lowestOne)
  case Nil
  then show ?case using released_refl by (cases lowestOne) fastforce+
next
  case (Cons entry rel)
  obtain r a where entry: "entry = (r, a)" by (cases entry)
  let ?d = "vh_distance (pod s i)"
  let ?mine = "isPod (ownerAt s r) (vh_ID (pod s i)) \<or> ownerAheadInPlatoon s i (ownerAt s r)"
  note ids = Cons.prems(2) and w = Cons.prems(3) and i = Cons.prems(4)
  have dist: "distinct (map fst rel)" and fresh: "\<And>b. (r, b) \<notin> set rel"
    using Cons.prems(5) by (auto simp: entry image_iff)
  have g: "guard s i r \<longleftrightarrow> ?mine" by (rule guard_iff [OF ids w i])
  consider (drop) "chk \<and> \<not> ?mine" | (passed) "\<not> (chk \<and> \<not> ?mine)" "a \<le> ?d" | (stay) "\<not> (chk \<and> \<not> ?mine)" "\<not> a \<le> ?d"
    by blast
  then show ?case
  proof cases
    case drop
    then have "passedLoop i chk rel s kept lowestOne = (s', kept', lowest')"
      using Cons.prems(1) by (simp add: entry Let_def)
    from Cons.IH [OF this ids w i dist] obtain A kept1 where ih:
      "released i A s s'" "tr_vehicles s' = tr_vehicles s" "kept' = kept @ kept1" "set kept1 \<subseteq> set rel"
      "distinct (map fst kept1)" "\<forall>(r, a)\<in>set kept1. ?d < a" "A \<subseteq> {r. \<exists>a. (r, a) \<in> set rel \<and> a \<le> ?d}"
      "\<forall>(r, a)\<in>set rel. ?d < a \<and> guard s i r \<longrightarrow> (r, a) \<in> set kept1"
      "\<forall>a\<in>snd ` set kept1 \<union> set_option lowestOne. \<exists>t. lowest' = Some t \<and> t \<le> a" by (elim exE conjE) (rule that)
    show ?thesis
      by (rule exI [of _ A], rule exI [of _ kept1]) (use ih drop g in \<open>auto simp: entry\<close>)
  next
    case passed
    let ?s1 = "if ownerAt s r = podOwner s i then releaseRouteResource i r s else s"
    have loop: "passedLoop i chk rel ?s1 kept lowestOne = (s', kept', lowest')"
      using Cons.prems(1) passed by (auto simp: entry Let_def split: if_splits)
    obtain B where B: "released i B s ?s1" "B \<subseteq> {r}"
    proof (cases "ownerAt s r = podOwner s i")
      case True
      then show ?thesis using released_releaseRouteResource [OF ids w i, of r] that by auto
    next
      case False
      then show ?thesis using released_refl that by auto
    qed
    have veh: "tr_vehicles ?s1 = tr_vehicles s" by (simp add: releaseRouteResource_eq [OF ids w i])
    note wf1 = released_wf [OF ids w B(1)]
    have i1: "i < fleetSize ?s1" using i wf1(3) by simp
    from Cons.IH [OF loop wf1(1,2) i1 dist] obtain A kept1 where ih:
      "released i A ?s1 s'" "tr_vehicles s' = tr_vehicles s" "kept' = kept @ kept1" "set kept1 \<subseteq> set rel"
      "distinct (map fst kept1)" "\<forall>(r, a)\<in>set kept1. ?d < a" "A \<subseteq> {r. \<exists>a. (r, a) \<in> set rel \<and> a \<le> ?d}"
      and stay: "\<forall>(r, a)\<in>set rel. ?d < a \<and> guard ?s1 i r \<longrightarrow> (r, a) \<in> set kept1"
      and low: "\<forall>a\<in>snd ` set kept1 \<union> set_option lowestOne. \<exists>t. lowest' = Some t \<and> t \<le> a" unfolding veh by (elim exE conjE) (rule that)
    have same: "guard ?s1 i r' = guard s i r'" if "(r', b) \<in> set rel" for r' b
    proof (rule guard_frame [OF released_skeleton [OF B(1)]])
      have "r' \<noteq> r" using fresh that by auto
      then show "tr_owners ?s1 r' = tr_owners s r'" using B by (auto simp: released_def hand_over_def)
    qed
    have "released i (B \<union> A) s s'" by (rule released_trans [OF ids w i B(1) ih(1)])
    moreover have "B \<union> A \<subseteq> {r. \<exists>a. (r, a) \<in> set (entry # rel) \<and> a \<le> ?d}" using B(2) ih(7) passed(2) by (auto simp: entry)
    moreover have "\<forall>(r, a)\<in>set (entry # rel). ?d < a \<and> guard s i r \<longrightarrow> (r, a) \<in> set kept1"
      using stay same passed(2) by (auto simp: entry)
    moreover have "set kept1 \<subseteq> set (entry # rel)" using ih(4) by auto
    ultimately show ?thesis using ih(2,3,5,6) low by blast
  next
    case stay
    then have "passedLoop i chk rel s (kept @ [(r, a)]) (lowest lowestOne a) = (s', kept', lowest')"
      using Cons.prems(1) by (auto simp: entry Let_def)
    from Cons.IH [OF this ids w i dist] obtain A kept1 where ih:
      "released i A s s'" "tr_vehicles s' = tr_vehicles s" "kept' = (kept @ [(r, a)]) @ kept1" "set kept1 \<subseteq> set rel"
      "distinct (map fst kept1)" "\<forall>(r, a)\<in>set kept1. ?d < a" "A \<subseteq> {r. \<exists>a. (r, a) \<in> set rel \<and> a \<le> ?d}"
      "\<forall>(r, a)\<in>set rel. ?d < a \<and> guard s i r \<longrightarrow> (r, a) \<in> set kept1"
      and low: "\<forall>a\<in>snd ` set kept1 \<union> set_option (lowest lowestOne a). \<exists>t. lowest' = Some t \<and> t \<le> a" by (elim exE conjE) (rule that)
    obtain t where t: "lowest' = Some t" "t \<le> a" "\<forall>u\<in>set_option lowestOne. t \<le> u" "\<forall>b\<in>snd ` set kept1. t \<le> b"
      using low by (cases lowestOne) (fastforce simp: lowest_def)+
    show ?thesis
      by (rule exI [of _ A], rule exI [of _ "(r, a) # kept1"])
        (use ih stay(2) fresh t in \<open>auto simp: entry image_iff\<close>)
  qed
qed

text \<open>The early return of \<open>releasePassedResources\<close> is right: no retained resource has a smaller release distance.\<close>

definition early_ok :: "vehicle \<Rightarrow> bool" where
  "early_ok v \<longleftrightarrow> (\<forall>a\<in>snd ` set (vh_routeReleases v). \<exists>t. vh_nextRelease v = Some t \<and> (t = 0 \<or> t \<le> a))"

lemma map_of_distinct: "distinct (map fst xs) \<Longrightarrow> map_of xs r = Some a \<longleftrightarrow> (r, a) \<in> set xs"
  by (simp add: map_of_eq_Some_iff)

lemma releasePassed_spec:
  assumes ids: "fleet_ids s" and w: "link_wf s" and i: "i < fleetSize s"
    and dist: "distinct (map fst (vh_routeReleases (pod s i)))"
  shows "\<exists>A. released i A s (releasePassedResources i s) \<and>
    distinct (map fst (vh_routeReleases (pod (releasePassedResources i s) i))) \<and>
    A \<subseteq> {r. \<exists>a. retention s i r = Some a \<and> a \<le> vh_distance (pod s i)} \<and>
    (\<forall>r a. retention (releasePassedResources i s) i r = Some a \<longrightarrow> retention s i r = Some a) \<and>
    (\<forall>r a. retention s i r = Some a \<and> vh_distance (pod s i) < a \<and> guard s i r \<longrightarrow>
      retention (releasePassedResources i s) i r = Some a) \<and>
    (early_ok (pod s i) \<longrightarrow> early_ok (pod (releasePassedResources i s) i) \<and>
      (\<forall>r a. retention (releasePassedResources i s) i r = Some a \<longrightarrow> vh_distance (pod s i) < a))"
proof -
  let ?v = "pod s i"
  let ?check = "vh_nextRelease ?v = Some 0"
  let ?s' = "releasePassedResources i s"
  show ?thesis
  proof (cases "\<not> ?check \<and> (case vh_nextRelease ?v of None \<Rightarrow> True | Some t \<Rightarrow> vh_distance ?v < t)")
    case True
    then have "?s' = s" by (simp add: releasePassedResources_def Let_def)
    moreover have "vh_distance ?v < a" if "early_ok ?v" "retention s i r = Some a" for r a
    proof -
      have "a \<in> snd ` set (vh_routeReleases ?v)" using that(2) map_of_SomeD by force
      with that(1) obtain t where "vh_nextRelease ?v = Some t" "t = 0 \<or> t \<le> a" unfolding early_ok_def by blast
      with True show ?thesis by auto
    qed
    ultimately show ?thesis using released_refl [of i s] dist by auto
  next
    case False
    obtain s1 kept t where loop: "passedLoop i ?check (vh_routeReleases ?v) s [] None = (s1, kept, t)"
      by (metis prod_cases3)
    let ?f = "\<lambda>v. v\<lparr>vh_routeReleases := kept, vh_nextRelease := t\<rparr>"
    have s': "?s' = setPod i ?f s1" using False loop by (auto simp: releasePassedResources_def Let_def)
    from passedLoop_spec [OF loop ids w i dist] obtain A where A:
      "released i A s s1" "tr_vehicles s1 = tr_vehicles s" "set kept \<subseteq> set (vh_routeReleases ?v)" "distinct (map fst kept)"
      "\<forall>(r, a)\<in>set kept. vh_distance ?v < a" "A \<subseteq> {r. \<exists>a. (r, a) \<in> set (vh_routeReleases ?v) \<and> a \<le> vh_distance ?v}"
      "\<forall>(r, a)\<in>set (vh_routeReleases ?v). vh_distance ?v < a \<and> guard s i r \<longrightarrow> (r, a) \<in> set kept"
      "\<forall>a\<in>snd ` set kept. \<exists>u. t = Some u \<and> u \<le> a" by auto
    have i1: "i < fleetSize s1" using i A(2) by simp
    have v': "pod ?s' i = ?f ?v" using i1 A(2) by (simp add: s' pod_setPod)
    have "released i {} s1 ?s'" unfolding s' by (rule released_setPod [OF i1]) (simp add: recorded_def)
    with A(1) have "released i (A \<union> {}) s ?s'" by (rule released_trans [OF ids w i])
    then have h1: "released i A s ?s'" by simp
    have h2: "early_ok (pod ?s' i)" using A(8) unfolding v' early_ok_def by auto
    have h3: "distinct (map fst (vh_routeReleases (pod ?s' i)))" using A(4) by (simp add: v')
    have h4: "A \<subseteq> {r. \<exists>a. retention s i r = Some a \<and> a \<le> vh_distance ?v}" using A(6) by (simp add: map_of_distinct [OF dist])
    have h5: "\<forall>r a. retention ?s' i r = Some a \<longrightarrow> retention s i r = Some a"
      using A(3) by (auto simp: v' map_of_distinct [OF dist] map_of_distinct [OF A(4)])
    have h6: "\<forall>r a. retention s i r = Some a \<and> vh_distance ?v < a \<and> guard s i r \<longrightarrow> retention ?s' i r = Some a"
      using A(7) by (auto simp: v' map_of_distinct [OF dist] map_of_distinct [OF A(4)])
    have h7: "\<forall>r a. retention ?s' i r = Some a \<longrightarrow> vh_distance ?v < a"
      using A(5) by (auto simp: v' map_of_distinct [OF A(4)])
    show ?thesis by (rule exI [of _ A]) (intro conjI impI h1 h2 h3 h4 h5 h6 h7)
  qed
qed

lemma fold_released:
  assumes "\<And>r s. r \<in> set rs \<Longrightarrow> fleet_ids s \<Longrightarrow> link_wf s \<Longrightarrow> i < fleetSize s \<Longrightarrow> P s \<Longrightarrow>
      \<exists>A. released i A s (f r s) \<and> A \<subseteq> B \<and> P (f r s)"
  shows "fleet_ids s \<Longrightarrow> link_wf s \<Longrightarrow> i < fleetSize s \<Longrightarrow> P s \<Longrightarrow>
    \<exists>A. released i A s (fold f rs s) \<and> A \<subseteq> B \<and> P (fold f rs s)"
  using assms
proof (induction rs arbitrary: s)
  case Nil
  then show ?case using released_refl by auto
next
  case (Cons r rs)
  obtain A where A: "released i A s (f r s)" "A \<subseteq> B" "P (f r s)" using Cons.prems by (metis list.set_intros(1))
  note wf1 = released_wf [OF Cons.prems(1,2) A(1)]
  have i1: "i < fleetSize (f r s)" using Cons.prems(3) wf1(3) by simp
  obtain C where C: "released i C (f r s) (fold f rs (f r s))" "C \<subseteq> B" "P (fold f rs (f r s))"
    using Cons.IH [OF wf1(1,2) i1 A(3)] Cons.prems(5) by auto
  have "released i (A \<union> C) s (fold f (r # rs) s)"
    using released_trans [OF Cons.prems(1-3) A(1) C(1)] by simp
  moreover have "A \<union> C \<subseteq> B" using A(2) C(2) by simp
  moreover have "P (fold f (r # rs) s)" using C(3) by simp
  ultimately show ?case by blast
qed


lemma releaseOrigin_spec:
  assumes ids: "fleet_ids s" and w: "link_wf s" and i: "i < fleetSize s"
  shows "\<exists>A. released i A s (releaseOrigin i s) \<and> A \<subseteq> {r. \<not> retains s i r} \<and>
    vh_routeReleases (pod (releaseOrigin i s) i) = vh_routeReleases (pod s i) \<and>
    (early_ok (pod s i) \<longrightarrow> early_ok (pod (releaseOrigin i s) i))"
proof -
  let ?f = "\<lambda>r s. case retention s i r of
      None \<Rightarrow> releaseOwned i r s
    | Some releaseAt \<Rightarrow> if releaseAt \<le> vh_distance (pod s i) then releaseOwned i r s else s"
  let ?P = "\<lambda>t. vh_routeReleases (pod t i) = vh_routeReleases (pod s i) \<and> vh_distance (pod t i) = vh_distance (pod s i) \<and>
    (early_ok (pod s i) \<longrightarrow> early_ok (pod t i))"
  have step: "\<exists>A. released i A t (?f r t) \<and> A \<subseteq> {r. \<not> retains s i r} \<and> ?P (?f r t)"
    if t: "fleet_ids t" "link_wf t" "i < fleetSize t" "?P t" for r t
  proof (cases "retains s i r")
    case True
    then have "?f r t = t" using t(4) by (auto simp: retains_def)
    then show ?thesis using released_refl t(4) by auto
  next
    case False
    then have f: "?f r t = releaseOwned i r t" using t(4) by (auto simp: retains_def split: option.splits)
    note rel = released_releaseOwned(1) [OF t(1-3), of r]
    then have "recorded (pod t i) (pod (releaseOwned i r t) i)" by (simp add: released_def)
    then have "vh_distance (pod (releaseOwned i r t) i) = vh_distance (pod s i)" using t(4) by (simp add: recorded_same)
    moreover have "vh_routeReleases (pod (releaseOwned i r t) i) = vh_routeReleases (pod s i)"
      using t(3,4) by (simp add: releaseOwned_def pod_setPod releaseRouteResource_eq [OF t(1-3)])
    moreover have "early_ok (pod (releaseOwned i r t) i)" if "early_ok (pod t i)"
      using that t(3) by (auto simp: releaseOwned_def pod_setPod releaseRouteResource_eq [OF t(1-3)] early_ok_def)
    ultimately show ?thesis using rel False t(4) unfolding f by (intro exI [of _ "{r}"]) auto
  qed
  let ?t = "fold ?f (berthResources (vh_origin (pod s i))) s"
  have "\<exists>A. released i A s ?t \<and> A \<subseteq> {r. \<not> retains s i r} \<and> ?P ?t"
  proof (rule fold_released [where P = ?P, OF _ ids w i])
    show "?P s" by simp
  qed (rule step)
  then obtain A where A: "released i A s ?t" "A \<subseteq> {r. \<not> retains s i r}" "?P ?t" by (elim exE conjE) (rule that, assumption, assumption, intro conjI, assumption+)
  have it: "i < fleetSize ?t" using A(1) i by (simp add: released_def)
  have "released i {} ?t (releaseOrigin i s)"
    unfolding releaseOrigin_def by (rule released_setPod [OF it]) (simp add: recorded_def)
  with A(1) have "released i (A \<union> {}) s (releaseOrigin i s)" by (rule released_trans [OF ids w i])
  moreover have "vh_routeReleases (pod (releaseOrigin i s) i) = vh_routeReleases (pod s i)"
    using A(3) it by (simp add: releaseOrigin_def pod_setPod)
  moreover have "early_ok (pod s i) \<longrightarrow> early_ok (pod (releaseOrigin i s) i)"
    using A(3) it by (simp add: releaseOrigin_def pod_setPod early_ok_def)
  ultimately show ?thesis using A(2) by (intro exI [of _ A]) simp
qed

text \<open>A pod that is not on its way releases all that it retains.\<close>

lemma releaseExcept_spec:
  assumes ids: "fleet_ids s" and w: "link_wf s" and i: "i < fleetSize s"
  shows "\<exists>A. released i A s (releaseRouteResourcesExcept i retained s) \<and>
    vh_routeReleases (pod (releaseRouteResourcesExcept i retained s) i) = []"
proof -
  let ?f = "\<lambda>(r, _) s. if r \<in> set retained then s else releaseOwned i r s"
  have step: "\<exists>A. released i A t (?f entry t) \<and> A \<subseteq> UNIV \<and> True"
    if "fleet_ids t" "link_wf t" "i < fleetSize t" for entry t
    using released_refl released_releaseOwned(1) [OF that] by (cases entry) auto
  obtain A where A: "released i A s (fold ?f (vh_routeReleases (pod s i)) s)"
    using fold_released [where P = "\<lambda>_. True" and f = ?f and B = UNIV and i = i, OF step ids w i] by auto
  let ?t = "fold ?f (vh_routeReleases (pod s i)) s"
  have it: "i < fleetSize ?t" using A i by (simp add: released_def)
  have "released i {} ?t (releaseRouteResourcesExcept i retained s)"
    unfolding releaseRouteResourcesExcept_def by (rule released_setPod [OF it]) (simp add: recorded_def)
  with A have "released i (A \<union> {}) s (releaseRouteResourcesExcept i retained s)" by (rule released_trans [OF ids w i])
  moreover have "vh_routeReleases (pod (releaseRouteResourcesExcept i retained s) i) = []"
    using it by (simp add: releaseRouteResourcesExcept_def pod_setPod)
  ultimately show ?thesis by auto
qed

lemma releaseDepotOrigin_spec:
  assumes ids: "fleet_ids s" and w: "link_wf s" and i: "i < fleetSize s"
  shows "\<exists>A. released i A s (releaseDepotOrigin i s)"
proof -
  let ?s = "setPod i (\<lambda>v. v\<lparr>vh_depotArrived := False\<rparr>) s"
  let ?f = "\<lambda>r s. if r \<in> set (berthResources (vh_destination (pod ?s i))) then s else releaseOwned i r s"
  have a: "released i {} s ?s" by (rule released_setPod [OF i]) (simp add: recorded_def)
  note wf = released_wf [OF ids w a]
  have i': "i < fleetSize ?s" using i by simp
  have step: "\<exists>A. released i A t (?f r t) \<and> A \<subseteq> UNIV \<and> True"
    if "fleet_ids t" "link_wf t" "i < fleetSize t" for r t
    using released_refl released_releaseOwned(1) [OF that] by auto
  obtain A where A: "released i A ?s (fold ?f (berthResources (vh_origin (pod ?s i))) ?s)"
    using fold_released [where P = "\<lambda>_. True" and f = ?f and B = UNIV and i = i, OF step wf(1,2) i'] by auto
  have b: "released i A s (fold ?f (berthResources (vh_origin (pod ?s i))) ?s)"
    using released_trans [OF ids w i a A] by simp
  have "released i {} (fold ?f (berthResources (vh_origin (pod ?s i))) ?s)
      (setPod i (\<lambda>v. v\<lparr>vh_originReleased := True\<rparr>) (fold ?f (berthResources (vh_origin (pod ?s i))) ?s))"
    using b i by (intro released_setPod) (simp_all add: recorded_def released_def)
  note c = released_trans [OF ids w i b this]
  show ?thesis using a c unfolding releaseDepotOrigin_def Let_def by (auto split: if_splits)
qed

lemma releaseVehicle_spec:
  assumes ids: "fleet_ids s" and w: "link_wf s" and i: "i < fleetSize s"
    and dist: "distinct (map fst (vh_routeReleases (pod s i)))"
  shows "\<exists>A. released i A s (releaseVehicleResources i s) \<and>
    distinct (map fst (vh_routeReleases (pod (releaseVehicleResources i s) i))) \<and>
    (\<forall>r. retains (releaseVehicleResources i s) i r \<longrightarrow> retains s i r \<and> r \<notin> A) \<and>
    (vh_Activity (pod s i) \<noteq> Traveling \<longrightarrow> vh_routeReleases (pod (releaseVehicleResources i s) i) = []) \<and>
    (vh_Activity (pod s i) = Traveling \<longrightarrow>
      (\<forall>r a. retention s i r = Some a \<and> vh_distance (pod s i) < a \<and> guard s i r \<longrightarrow>
        retention (releaseVehicleResources i s) i r = Some a) \<and>
      (early_ok (pod s i) \<longrightarrow> early_ok (pod (releaseVehicleResources i s) i) \<and>
        (\<forall>r a. retention (releaseVehicleResources i s) i r = Some a \<longrightarrow> vh_distance (pod s i) < a)))"
proof (cases "vh_Activity (pod s i) = Traveling")
  case False
  let ?s1 = "if vh_depotArrived (pod s i) then releaseDepotOrigin i s else s"
  obtain A where A: "released i A s ?s1" using releaseDepotOrigin_spec [OF ids w i] released_refl by metis
  note wf1 = released_wf [OF ids w A]
  have i1: "i < fleetSize ?s1" using i wf1(3) by simp
  obtain B where B: "released i B ?s1 (releaseVehicleResources i s)"
    "vh_routeReleases (pod (releaseVehicleResources i s) i) = []"
  proof (cases "vh_routeReleases (pod ?s1 i) = []")
    case True
    then have "releaseVehicleResources i s = ?s1" using False by (simp add: releaseVehicleResources_def Let_def)
    then show ?thesis using that [of "{}"] released_refl True by simp
  next
    case ne: False
    let ?held = "[plain_resource berthResource (vh_BerthID (pod ?s1 i)), plain_resource nodeResource (podBerthNode ?s1 i)]"
    have "releaseVehicleResources i s = releaseRouteResourcesExcept i ?held ?s1"
      using False ne by (simp add: releaseVehicleResources_def Let_def)
    then show ?thesis using releaseExcept_spec [OF wf1(1,2) i1] that by metis
  qed
  have "released i (A \<union> B) s (releaseVehicleResources i s)" by (rule released_trans [OF ids w i A B(1)])
  then show ?thesis using B(2) False by (intro exI [of _ "A \<union> B"]) (simp add: retains_def)
next
  case True
  let ?s1 = "releasePassedResources i s"
  let ?s' = "releaseVehicleResources i s"
  obtain A where A: "released i A s ?s1" "distinct (map fst (vh_routeReleases (pod ?s1 i)))"
    "A \<subseteq> {r. \<exists>a. retention s i r = Some a \<and> a \<le> vh_distance (pod s i)}"
    and sub: "\<forall>r a. retention ?s1 i r = Some a \<longrightarrow> retention s i r = Some a"
    and kept: "\<forall>r a. retention s i r = Some a \<and> vh_distance (pod s i) < a \<and> guard s i r \<longrightarrow> retention ?s1 i r = Some a"
    and early: "early_ok (pod s i) \<longrightarrow> early_ok (pod ?s1 i) \<and> (\<forall>r a. retention ?s1 i r = Some a \<longrightarrow> vh_distance (pod s i) < a)"
    using releasePassed_spec [OF ids w i dist] by (elim exE conjE) (rule that)
  note wf1 = released_wf [OF ids w A(1)]
  have i1: "i < fleetSize ?s1" using i wf1(3) by simp
  have d1: "vh_distance (pod ?s1 i) = vh_distance (pod s i)" using A(1) recorded_same(4) by (simp add: released_def)
  obtain B where B: "released i B ?s1 ?s'" "B \<subseteq> {r. \<not> retains ?s1 i r}"
    "vh_routeReleases (pod ?s' i) = vh_routeReleases (pod ?s1 i)" "early_ok (pod ?s1 i) \<longrightarrow> early_ok (pod ?s' i)"
  proof (cases "\<not> vh_originReleased (pod ?s1 i) \<and> vh_distance (pod ?s1 i) \<ge> originTail (pod ?s1 i)")
    case o: True
    then have "?s' = releaseOrigin i ?s1" using True by (simp add: releaseVehicleResources_def Let_def)
    then show ?thesis using releaseOrigin_spec [OF wf1(1,2) i1] that by auto
  next
    case o: False
    then have "?s' = ?s1" using True by (auto simp: releaseVehicleResources_def Let_def)
    then show ?thesis using that [of "{}"] released_refl by simp
  qed
  have rel: "released i (A \<union> B) s ?s'" by (rule released_trans [OF ids w i A(1) B(1)])
  have d': "vh_distance (pod ?s' i) = vh_distance (pod s i)" using rel recorded_same(4) by (simp add: released_def)
  have "retains s i r \<and> r \<notin> A \<union> B" if r: "retains ?s' i r" for r
  proof -
    have r1: "retains ?s1 i r" using r B(3) by (simp add: retains_def d' d1)
    then have "retains s i r" using sub by (auto simp: retains_def d1)
    moreover have "r \<notin> A" using A(3) r1 sub by (fastforce simp: retains_def d1)
    ultimately show ?thesis using r1 B(2) by auto
  qed
  then have h1: "\<forall>r. retains ?s' i r \<longrightarrow> retains s i r \<and> r \<notin> A \<union> B" by blast
  have h2: "distinct (map fst (vh_routeReleases (pod ?s' i)))" using A(2) B(3) by simp
  have h3: "vh_routeReleases (pod ?s' i) = []" if "vh_Activity (pod s i) \<noteq> Traveling" using that True by contradiction
  have h4: "\<forall>r a. retention s i r = Some a \<and> vh_distance (pod s i) < a \<and> guard s i r \<longrightarrow> retention ?s' i r = Some a"
    using kept by (simp only: B(3))
  have h5: "early_ok (pod ?s' i)" and h6: "\<forall>r a. retention ?s' i r = Some a \<longrightarrow> vh_distance (pod s i) < a"
    if "early_ok (pod s i)" using mp [OF early that] B(4) unfolding B(3) by blast+
  show ?thesis by (rule exI [of _ "A \<union> B"]) (intro conjI impI rel h1 h2 h3 h4 h5 h6)
qed

section \<open>The invariants\<close>

text \<open>The pod retains each resource of its reserved blocks that it has not passed.\<close>

definition blockRelease :: "blockList \<Rightarrow> nat \<Rightarrow> resource \<Rightarrow> real" where
  "blockRelease l index r = releaseDistance r (blockInput l (laneAt l index) index)"

definition cover :: "vehicle \<Rightarrow> bool" where
  "cover v \<longleftrightarrow> (\<forall>index. int index \<le> vh_reservedThrough v \<longrightarrow> (\<forall>r\<in>set (resAt (vh_blocks v) index).
    vh_distance v < blockRelease (vh_blocks v) index r \<longrightarrow>
    (\<exists>a. map_of (vh_routeReleases v) r = Some a \<and> blockRelease (vh_blocks v) index r \<le> a)))"

definition onTrack :: "vehicle \<Rightarrow> bool" where
  "onTrack v \<longleftrightarrow> vh_Activity v = Traveling \<or> departs (vh_Activity v)"

definition pod_ok :: "vehicle \<Rightarrow> bool" where
  "pod_ok v \<longleftrightarrow> distinct (map fst (vh_routeReleases v)) \<and> early_ok v \<and>
    (onTrack v \<longrightarrow> wf_blocks (vh_blocks v) \<and> - 1 \<le> vh_reservedThrough v \<and> vh_reservedThrough v < int (bl_blocks (vh_blocks v)) \<and> cover v)"

definition track_ok :: "traffic \<Rightarrow> bool" where
  "track_ok s \<longleftrightarrow> fleet_ids s \<and> link_wf s \<and> guarded s \<and> (\<forall>i<fleetSize s. pod_ok (pod s i))"

text \<open>A pod with a reservation that is not on its way yet leaves in this tick.\<close>

definition leaving_ok :: "traffic \<Rightarrow> bool" where
  "leaving_ok s \<longleftrightarrow> (\<forall>i<fleetSize s. departs (vh_Activity (pod s i)) \<and> 0 \<le> vh_reservedThrough (pod s i) \<longrightarrow>
    vh_phaseTicks (pod s i) = 0 \<and> \<not> vh_faulted (pod s i))"

definition left_ok :: "traffic \<Rightarrow> bool" where
  "left_ok s \<longleftrightarrow> (\<forall>i<fleetSize s. departs (vh_Activity (pod s i)) \<longrightarrow> vh_reservedThrough (pod s i) < 0)"

definition resting_ok :: "traffic \<Rightarrow> bool" where
  "resting_ok s \<longleftrightarrow> (\<forall>i<fleetSize s. vh_Activity (pod s i) \<noteq> Traveling \<longrightarrow> vh_routeReleases (pod s i) = [])"

lemma track_okD:
  assumes "track_ok s"
  shows "fleet_ids s" "link_wf s" "guarded s" "i < fleetSize s \<Longrightarrow> pod_ok (pod s i)"
  using assms by (simp_all add: track_ok_def)

lemma early_ok_empty: "vh_routeReleases v = [] \<Longrightarrow> early_ok v"
  by (simp add: early_ok_def)

lemma release_track_ok:
  assumes ok: "track_ok s" and left: "left_ok s" and i: "i < fleetSize s"
  shows "track_ok (releaseVehicleResources i s) \<and> left_ok (releaseVehicleResources i s)"
proof -
  let ?s' = "releaseVehicleResources i s"
  note ids = track_okD(1) [OF ok] and w = track_okD(2) [OF ok] and pi = track_okD(4) [OF ok i]
  have dist: "distinct (map fst (vh_routeReleases (pod s i)))" using pi by (simp add: pod_ok_def)
  obtain A where A: "released i A s ?s'" "distinct (map fst (vh_routeReleases (pod ?s' i)))"
    "\<forall>r. retains ?s' i r \<longrightarrow> retains s i r \<and> r \<notin> A"
    and rest: "vh_Activity (pod s i) \<noteq> Traveling \<longrightarrow> vh_routeReleases (pod ?s' i) = []"
    and way: "vh_Activity (pod s i) = Traveling \<longrightarrow>
      (\<forall>r a. retention s i r = Some a \<and> vh_distance (pod s i) < a \<and> guard s i r \<longrightarrow> retention ?s' i r = Some a) \<and>
      (early_ok (pod s i) \<longrightarrow> early_ok (pod ?s' i) \<and> (\<forall>r a. retention ?s' i r = Some a \<longrightarrow> vh_distance (pod s i) < a))"
    using releaseVehicle_spec [OF ids w i dist] by (elim exE conjE) (rule that)
  note wf' = released_wf [OF ids w A(1)] and eq = released_skeleton [OF A(1)]
  have others: "pod ?s' j = pod s j" if "j < fleetSize s" "j \<noteq> i" for j using A(1) that by (simp add: released_def)
  have rec: "recorded (pod s i) (pod ?s' i)" and owners: "tr_owners ?s' = hand_over i A s" using A(1) by (simp_all add: released_def)
  have "guard ?s' j r" if j: "j < fleetSize s" "retains ?s' j r" for j r
  proof -
    have "retains s j r \<and> (j \<noteq> i \<or> r \<notin> A)"
    proof (cases "j = i")
      case False
      with others [OF j(1) False] j(2) show ?thesis by (simp add: retains_def)
    qed (use A(3) j in blast)
    then have ret: "retains s j r" and other: "j \<noteq> i \<or> r \<notin> A" by blast+
    show ?thesis
      by (rule hand_over_guard [OF ids w i j(1) eq owners guardedD [OF track_okD(3) [OF ok] j(1) ret] ret other])
  qed
  then have "guarded ?s'" by (simp add: guarded_def wf'(3))
  moreover have "pod_ok (pod ?s' i)"
  proof (cases "vh_Activity (pod s i) = Traveling")
    case True
    have "cover (pod ?s' i)"
      unfolding cover_def recorded_same [OF rec]
    proof (intro allI impI ballI)
      fix index r
      assume index: "int index \<le> vh_reservedThrough (pod s i)" "r \<in> set (resAt (vh_blocks (pod s i)) index)"
        "vh_distance (pod s i) < blockRelease (vh_blocks (pod s i)) index r"
      have "cover (pod s i)" using pi True by (simp add: pod_ok_def onTrack_def)
      with index obtain a where a: "retention s i r = Some a" "blockRelease (vh_blocks (pod s i)) index r \<le> a"
        unfolding cover_def by blast
      with index(3) have "vh_distance (pod s i) < a" by simp
      moreover from this a(1) have "guard s i r" by (intro guardedD [OF track_okD(3) [OF ok] i]) (simp add: retains_def)
      ultimately have "retention ?s' i r = Some a" using way True a(1) by blast
      with a(2) show "\<exists>a. retention ?s' i r = Some a \<and> blockRelease (vh_blocks (pod s i)) index r \<le> a" by blast
    qed
    then show ?thesis using pi way A(2) True by (simp add: pod_ok_def onTrack_def recorded_same [OF rec])
  next
    case False
    then have "cover (pod ?s' i)" if "onTrack (pod s i)"
      using that left i unfolding cover_def recorded_same [OF rec] left_ok_def onTrack_def by fastforce
    then show ?thesis using pi False rest early_ok_empty by (simp add: pod_ok_def onTrack_def recorded_same [OF rec])
  qed
  then have "\<forall>j<fleetSize s. pod_ok (pod ?s' j)" using others track_okD(4) [OF ok] by metis
  moreover have "left_ok ?s'"
    using left others recorded_same(5,7) [OF rec] by (auto simp: left_ok_def wf'(3)) metis
  ultimately show ?thesis using wf' by (simp add: track_ok_def)
qed

end
