(* ===== verification/TrafficHistory.thy ===== *)
theory TrafficHistory
  imports TrafficSafety
begin

text \<open>
  The invariants of \<open>TrafficSafety\<close> in every history of the track: the grants of the admission, the
  motion and the releases of a tick, the departure of a new trip, and the start and the end of a link.
\<close>

section \<open>Grants\<close>

lemma spanReleases_map:
  assumes w: "wf_blocks l"
  shows "i + n \<le> bl_blocks l \<Longrightarrow> (n > 0 \<Longrightarrow> lane \<le> laneAt l i) \<Longrightarrow>
    spanReleases l lane i n = concat (map (\<lambda>k. map (\<lambda>r. (r, blockRelease l k r)) (resAt l k)) [i..<i + n])"
proof (induction n arbitrary: lane i)
  case (Suc n)
  have lane: "nextLane l lane i = laneAt l i" using Suc.prems by (intro nextLane_laneAt [OF w]) auto
  have "spanReleases l (laneAt l i) (i + 1) n =
      concat (map (\<lambda>k. map (\<lambda>r. (r, blockRelease l k r)) (resAt l k)) [i + 1..<i + 1 + n])"
    using Suc.prems by (intro Suc.IH laneAt_mono [OF w]) auto
  moreover have "[i..<i + Suc n] = i # [i + 1..<i + 1 + n]" by (simp add: upt_conv_Cons)
  ultimately show ?case by (simp add: lane Let_def blockRelease_def resAt_def)
qed simp

lemma retain_simps:
  "map_of (vh_routeReleases (retainRouteResource r t v)) =
    (map_of (vh_routeReleases v))(r \<mapsto> max (case map_of (vh_routeReleases v) r of None \<Rightarrow> 0 | Some u \<Rightarrow> u) t)"
  "distinct (map fst (vh_routeReleases v)) \<Longrightarrow> distinct (map fst (vh_routeReleases (retainRouteResource r t v)))"
  by (auto simp: retainRouteResource_def Let_def update_conv' distinct_update split: option.split)

definition granted :: "vehicle \<Rightarrow> vehicle \<Rightarrow> bool" where
  "granted v v' \<longleftrightarrow> v' = v\<lparr>vh_routeReleases := vh_routeReleases v', vh_nextRelease := vh_nextRelease v',
      vh_WaitReason := vh_WaitReason v', vh_BlockedBy := vh_BlockedBy v'\<rparr>"

lemma granted_refl: "granted v v"
  by (simp add: granted_def)

lemma granted_trans: "granted u v \<Longrightarrow> granted v w \<Longrightarrow> granted u w"
  unfolding granted_def by (cases u, cases v, cases w) simp

lemma granted_same:
  assumes "granted v v'"
  shows "vh_ID v' = vh_ID v" "vh_link v' = vh_link v" "vh_follower v' = vh_follower v" "vh_distance v' = vh_distance v"
    "vh_Activity v' = vh_Activity v" "vh_blocks v' = vh_blocks v" "vh_reservedThrough v' = vh_reservedThrough v"
    "vh_phaseTicks v' = vh_phaseTicks v" "vh_faulted v' = vh_faulted v"
  using assms unfolding granted_def by (cases v', cases v, simp)+

lemma granted_retain: "granted v (retainRouteResource r t v)"
  by (simp add: granted_def retainRouteResource_def Let_def split: option.split)

lemma retain_early: "distinct (map fst (vh_routeReleases v)) \<Longrightarrow> early_ok v \<Longrightarrow> early_ok (retainRouteResource r t v)"
proof -
  assume d: "distinct (map fst (vh_routeReleases v))" and e: "early_ok v"
  let ?v' = "retainRouteResource r t v"
  have "\<exists>u. vh_nextRelease ?v' = Some u \<and> (u = 0 \<or> u \<le> a)" if "(q, a) \<in> set (vh_routeReleases ?v')" for q a
  proof -
    from that have m: "map_of (vh_routeReleases ?v') q = Some a" using retain_simps(2) [OF d] by (simp add: map_of_distinct)
    have old: "\<exists>u. vh_nextRelease v = Some u \<and> (u = 0 \<or> u \<le> b)" if "map_of (vh_routeReleases v) q = Some b" for b
    proof -
      have "b \<in> snd ` set (vh_routeReleases v)" using that map_of_SomeD by force
      with e show ?thesis unfolding early_ok_def by blast
    qed
    show ?thesis
    proof (cases "q = r")
      case True
      then have "t \<le> a" using m by (auto simp: retain_simps(1))
      then show ?thesis by (auto simp: retainRouteResource_def Let_def split: option.splits)
    next
      case False
      then have "map_of (vh_routeReleases v) q = Some a" using m by (simp add: retain_simps(1))
      then show ?thesis using old by (fastforce simp: retainRouteResource_def Let_def split: option.splits)
    qed
  qed
  then show ?thesis by (force simp: early_ok_def)
qed

abbreviation retainAll :: "(resource \<times> real) list \<Rightarrow> vehicle \<Rightarrow> vehicle" where
  "retainAll \<equiv> fold (\<lambda>(r, t). retainRouteResource r t)"

lemma retainAll_granted: "granted v (retainAll es v)"
  by (induction es arbitrary: v) (auto simp: granted_refl intro: granted_trans [OF granted_retain] split: prod.split)

lemma retainAll_ok:
  "distinct (map fst (vh_routeReleases v)) \<Longrightarrow> early_ok v \<Longrightarrow>
    distinct (map fst (vh_routeReleases (retainAll es v))) \<and> early_ok (retainAll es v)"
  by (induction es arbitrary: v) (auto simp: retain_simps(2) retain_early split: prod.split)

lemma retainAll_grows: "map_of (vh_routeReleases v) r = Some a \<Longrightarrow> \<exists>b\<ge>a. map_of (vh_routeReleases (retainAll es v)) r = Some b"
proof (induction es arbitrary: v a)
  case (Cons e es)
  obtain q t where e: "e = (q, t)" by (cases e)
  obtain c where c: "a \<le> c" "map_of (vh_routeReleases (retainRouteResource q t v)) r = Some c"
    by (rule that [of "if q = r then max a t else a"]) (use Cons.prems in \<open>auto simp: retain_simps(1)\<close>)
  from Cons.IH [OF c(2)] c(1) show ?case by (auto simp: e intro: order_trans)
qed auto

lemma retainAll_takes: "(r, a) \<in> set es \<Longrightarrow> \<exists>b\<ge>a. map_of (vh_routeReleases (retainAll es v)) r = Some b"
proof (induction es arbitrary: v)
  case (Cons e es)
  show ?case
  proof (cases "e = (r, a)")
    case True
    obtain c where c: "a \<le> c" "map_of (vh_routeReleases (retainRouteResource r a v)) r = Some c"
      by (rule that [of "max (case map_of (vh_routeReleases v) r of None \<Rightarrow> 0 | Some u \<Rightarrow> u) a"])
        (simp_all add: retain_simps(1))
    from retainAll_grows [OF c(2), of es] c(1) True show ?thesis by (auto intro: order_trans)
  next
    case False
    with Cons.prems have "(r, a) \<in> set es" by auto
    from Cons.IH [OF this] show ?thesis by (cases e) simp
  qed
qed simp

lemma retainAll_source:
  "map_of (vh_routeReleases (retainAll es v)) r = Some b \<Longrightarrow> map_of (vh_routeReleases v) r = Some b \<or> r \<in> fst ` set es"
proof (induction es arbitrary: v)
  case (Cons e es)
  obtain q t where e: "e = (q, t)" by (cases e)
  have "map_of (vh_routeReleases (retainAll es (retainRouteResource q t v))) r = Some b" using Cons.prems by (simp add: e)
  then have "map_of (vh_routeReleases (retainRouteResource q t v)) r = Some b \<or> r \<in> fst ` set es" by (rule Cons.IH)
  then show ?case by (cases "q = r") (auto simp: e retain_simps(1))
qed simp

text \<open>What the resources of a granted request are after they are taken, one after the other.\<close>

lemma takeResource_pods:
  assumes i: "i < fleetSize s"
  shows "fleetSize (fold (takeResource linked i) es s) = fleetSize s"
    "j < fleetSize s \<Longrightarrow> pod (fold (takeResource linked i) es s) j = (if j = i then retainAll es (pod s i) else pod s j)"
  using i
proof (induction es arbitrary: s)
  case (Cons e es)
  {
    case 1
    then show ?case using Cons.IH(1) [of "takeResource linked i e s"] by (simp add: takeResource_def Let_def split: prod.split)
  next
    case 2
    obtain q t where e: "e = (q, t)" by (cases e)
    let ?s1 = "takeResource linked i e s"
    have size: "fleetSize ?s1 = fleetSize s" by (simp add: e takeResource_def Let_def)
    have "pod ?s1 k = (if k = i then retainRouteResource q t (pod s i) else pod s k)" if "k < fleetSize s" for k
      using that by (auto simp: e takeResource_def Let_def pod_setPod)
    then show ?case using Cons.IH(2) [of ?s1] 2 size by (simp add: e)
  }
qed simp_all

lemma pods_skeleton:
  assumes size: "fleetSize s' = fleetSize s"
    and pods: "\<And>j. j < fleetSize s \<Longrightarrow> vh_ID (pod s' j) = vh_ID (pod s j) \<and> vh_link (pod s' j) = vh_link (pod s j) \<and>
      vh_follower (pod s' j) = vh_follower (pod s j)"
  shows "skeleton s' = skeleton s"
proof (rule nth_equalityI)
  show "length (skeleton s') = length (skeleton s)" using size by (simp add: skeleton_def)
  fix j assume "j < length (skeleton s')"
  then show "skeleton s' ! j = skeleton s ! j" using pods size by (simp add: skeleton_def)
qed

lemma takeResource_skeleton:
  assumes i: "i < fleetSize s"
  shows "skeleton (fold (takeResource linked i) es s) = skeleton s"
  using takeResource_pods [OF i] granted_same(1-3) [OF retainAll_granted]
  by (intro pods_skeleton) auto

lemma takeResource_owners:
  assumes "fleet_ids s" and "i < fleetSize s"
  shows "tr_owners (fold (takeResource linked i) es s) r =
    (if r \<in> fst ` set es \<and> (\<not> linked \<or> isZero (ownerAt s r)) then Some (pod_tag s i) else tr_owners s r)"
  using assms
proof (induction es arbitrary: s)
  case (Cons e es)
  obtain q t where e: "e = (q, t)" by (cases e)
  let ?s1 = "takeResource linked i e s"
  have o1: "tr_owners ?s1 = (if \<not> linked \<or> isZero (ownerAt s q) then (tr_owners s)(q \<mapsto> pod_tag s i) else tr_owners s)"
    by (simp add: e takeResource_def Let_def podOwner_tag [OF Cons.prems])
  have skel: "skeleton ?s1 = skeleton s" using takeResource_skeleton [OF Cons.prems(2), of linked "[e]"] by simp
  have i1: "i < fleetSize ?s1" using Cons.prems(2) skeleton_size [OF skel] by simp
  have tag: "pod_tag ?s1 i = pod_tag s i" using skeleton_links(3) [OF skel Cons.prems(2)] by (simp add: pod_tag_def)
  have "\<not> isZero (pod_tag s i)" by (simp add: isZero_def zeroOwner_def pod_tag_def podOwnerKind_def)
  then have zero: "isZero (ownerAt ?s1 r) \<longleftrightarrow> isZero (ownerAt s r) \<and> r \<noteq> q" if linked
    using that unfolding ownerAt_def o1 by (cases "r = q") (auto simp: ownerAt_def)
  have "tr_owners (fold (takeResource linked i) es ?s1) r =
      (if r \<in> fst ` set es \<and> (\<not> linked \<or> isZero (ownerAt ?s1 r)) then Some (pod_tag ?s1 i) else tr_owners ?s1 r)"
    by (rule Cons.IH [OF skeleton_fleet_ids [OF skel Cons.prems(1)] i1])
  then have "tr_owners (fold (takeResource linked i) (e # es) s) r =
      (if r \<in> fst ` set es \<and> (\<not> linked \<or> isZero (ownerAt ?s1 r)) then Some (pod_tag s i)
       else (if \<not> linked \<or> isZero (ownerAt s q) then (tr_owners s)(q \<mapsto> pod_tag s i) else tr_owners s) r)"
    unfolding tag o1 by simp
  also have "\<dots> = (if r \<in> fst ` set (e # es) \<and> (\<not> linked \<or> isZero (ownerAt s r)) then Some (pod_tag s i) else tr_owners s r)"
    using zero by (cases "r = q") (auto simp: e)
  finally show ?case .
qed simp

definition waiting :: "vehicle \<Rightarrow> vehicle \<Rightarrow> bool" where
  "waiting v v' \<longleftrightarrow> v' = v\<lparr>vh_WaitReason := vh_WaitReason v', vh_BlockedBy := vh_BlockedBy v'\<rparr>"

definition denied :: "traffic \<Rightarrow> traffic \<Rightarrow> bool" where
  "denied s s' \<longleftrightarrow> tr_owners s' = tr_owners s \<and> fleetSize s' = fleetSize s \<and> (\<forall>j<fleetSize s. waiting (pod s j) (pod s' j))"

lemma waiting_refl: "waiting v v"
  by (simp add: waiting_def)

lemma denied_wait: "denied s (waitOn i reason by s)" "denied s s' \<Longrightarrow> denied s (deny d s')"
  by (auto simp: denied_def waitOn_def pod_setPod waiting_def deny_def)

lemma denied_refuse: "denied s (refuseGrant i d r owner s)"
  by (simp add: refuseGrant_def Let_def denied_wait split: option.split)

definition takeZone :: "bool \<Rightarrow> nat \<Rightarrow> nat \<Rightarrow> nat \<Rightarrow> traffic \<Rightarrow> traffic" where
  "takeZone linked i start through s =
    setPod i (\<lambda>v. v\<lparr>vh_reservedThrough := int through, vh_pending := - 1\<rparr>)
      (fold (takeResource linked i)
        (spanReleases (vh_blocks (pod s i)) (routeLane (vh_blocks (pod s i)) start) start (through + 1 - start)) s)"

lemma grant_cases:
  assumes w: "wf_blocks (vh_blocks (pod s (in_index request)))" and b: "in_block request < bl_blocks (vh_blocks (pod s (in_index request)))"
  obtains (deny) "denied s (grant request s)"
  | (take) linked through where "reservationEnd (vh_blocks (pod s (in_index request))) (in_block request) = Some through"
      "in_block request \<le> through" "through < bl_blocks (vh_blocks (pod s (in_index request)))"
      "\<forall>k r. in_block request \<le> k \<and> k \<le> through \<and> r \<in> set (resAt (vh_blocks (pod s (in_index request))) k) \<longrightarrow>
        \<not> refuses linked s (in_index request) r"
      "grant request s = takeZone linked (in_index request) (in_block request) through s"
proof -
  let ?i = "in_index request" and ?start = "in_block request"
  let ?v = "pod s ?i"
  let ?l = "vh_blocks ?v"
  obtain through where t: "reservationEnd ?l ?start = Some through" "?start \<le> through" "through < bl_blocks ?l"
    using reservationEnd_wf [OF w b] by blast
  let ?linked = "pl_leader (vh_link ?v) \<noteq> 0 \<and> linkedSpan s ?i ?start through"
  let ?d = "\<lparr>dr_in = request, dr_through = through\<rparr>"
  let ?hold = "pl_leader (vh_link ?v) \<noteq> 0 \<and> \<not> ?linked \<and> holdsPending s ?i"
  let ?returns = "vh_follower ?v \<noteq> 0 \<and> returnsToShared s ?i ?start through"
  have span: "spanResources ?l ?start (through + 1) = map (resAt ?l) [?start..<through + 1]"
    using t(3) by (intro spanResources_map [OF w]) simp
  let ?find = "find (refuses ?linked s ?i) (concat (spanResources ?l ?start (through + 1)))"
  have g: "grant request s =
    (if ?hold then TrackClaims.deny ?d (waitOn ?i ''Pod ahead'' (vh_ID (pod s (pl_leader (vh_link ?v) - 1))) s)
     else if ?returns then TrackClaims.deny ?d (waitOn ?i ''Pod ahead'' (vh_ID (pod s (vh_follower ?v - 1))) s)
     else case ?find of Some r \<Rightarrow> refuseGrant ?i ?d r (ownerAt s r) s | None \<Rightarrow> takeZone ?linked ?i ?start through s)"
    by (simp only: grant_def Let_def t(1) option.case takeZone_def)
  show thesis
  proof (cases "?hold \<or> ?returns")
    case True
    have "denied s (grant request s)" unfolding g using True by (auto intro: denied_wait)
    then show thesis by (rule deny)
  next
    case False
    show thesis
    proof (cases "find (refuses ?linked s ?i) (concat (spanResources ?l ?start (through + 1)))")
      case (Some r)
      have "grant request s = refuseGrant ?i ?d r (ownerAt s r) s"
        unfolding g Some using False by (simp only: de_Morgan_disj if_not_P if_False option.case)
      then show thesis using denied_refuse deny by metis
    next
      case None
      have "grant request s = takeZone ?linked ?i ?start through s"
        unfolding g None using False by (simp only: de_Morgan_disj if_not_P if_False option.case)
      moreover have "\<forall>k r. ?start \<le> k \<and> k \<le> through \<and> r \<in> set (resAt ?l k) \<longrightarrow> \<not> refuses ?linked s ?i r"
      proof (intro allI impI)
        fix k r assume k: "?start \<le> k \<and> k \<le> through \<and> r \<in> set (resAt ?l k)"
        then have "k \<in> set [?start..<through + 1]" by auto
        with k have "r \<in> set (concat (spanResources ?l ?start (through + 1)))" unfolding span set_concat set_map by blast
        then show "\<not> refuses ?linked s ?i r" using None unfolding find_None_iff by blast
      qed
      ultimately show thesis using t take by blast
    qed
  qed
qed

lemma takeZone_pods:
  assumes i: "i < fleetSize s"
  shows "fleetSize (takeZone linked i start through s) = fleetSize s" "skeleton (takeZone linked i start through s) = skeleton s"
    "j < fleetSize s \<Longrightarrow> j \<noteq> i \<Longrightarrow> pod (takeZone linked i start through s) j = pod s j"
    "pod (takeZone linked i start through s) i =
      (retainAll (spanReleases (vh_blocks (pod s i)) (routeLane (vh_blocks (pod s i)) start) start (through + 1 - start)) (pod s i))
        \<lparr>vh_reservedThrough := int through, vh_pending := - 1\<rparr>"
proof -
  show "skeleton (takeZone linked i start through s) = skeleton s"
    unfolding takeZone_def by (subst skeleton_setPod) (simp_all add: takeResource_skeleton [OF i])
qed (use i in \<open>simp_all add: takeZone_def pod_setPod takeResource_pods [OF i]\<close>)

lemma denied_skeleton: "denied s s' \<Longrightarrow> skeleton s' = skeleton s"
proof (rule pods_skeleton)
  assume d: "denied s s'"
  then show "fleetSize s' = fleetSize s" by (simp add: denied_def)
  fix j assume "j < fleetSize s"
  with d have "waiting (pod s j) (pod s' j)" by (simp add: denied_def)
  then show "vh_ID (pod s' j) = vh_ID (pod s j) \<and> vh_link (pod s' j) = vh_link (pod s j) \<and> vh_follower (pod s' j) = vh_follower (pod s j)"
    unfolding waiting_def by (cases "pod s j", cases "pod s' j") simp
qed

lemma waiting_same:
  assumes "waiting v v'"
  shows "vh_ID v' = vh_ID v" "vh_distance v' = vh_distance v" "vh_nextRelease v' = vh_nextRelease v"
    "vh_Activity v' = vh_Activity v" "vh_blocks v' = vh_blocks v" "vh_reservedThrough v' = vh_reservedThrough v"
    "vh_phaseTicks v' = vh_phaseTicks v" "vh_faulted v' = vh_faulted v" "vh_routeReleases v' = vh_routeReleases v"
  using assms unfolding waiting_def by (cases v', cases v, simp)+

lemma pod_ok_cong:
  assumes "vh_routeReleases v' = vh_routeReleases v" "vh_nextRelease v' = vh_nextRelease v" "vh_distance v' = vh_distance v"
    "onTrack v' \<longrightarrow> onTrack v" "vh_blocks v' = vh_blocks v" "vh_reservedThrough v' = vh_reservedThrough v"
  shows "pod_ok v \<Longrightarrow> pod_ok v'"
proof -
  have "early_ok v' = early_ok v" "cover v' = cover v" unfolding early_ok_def cover_def assms(1,2,3,5,6) by rule+
  then show "pod_ok v \<Longrightarrow> pod_ok v'" using assms(4) unfolding pod_ok_def assms(1,5,6) by blast
qed

lemma denied_ok:
  assumes ok: "track_ok s" and d: "denied s s'"
  shows "track_ok s'"
proof -
  note eq = denied_skeleton [OF d]
  have pods: "waiting (pod s j) (pod s' j)" if "j < fleetSize s" for j using d that by (simp add: denied_def)
  have "guard s' j r" if j: "j < fleetSize s" "retains s' j r" for j r
  proof -
    have "retains s j r" using j waiting_same [OF pods [OF j(1)]] by (simp add: retains_def)
    then have "guard s j r" by (rule guardedD [OF track_okD(3) [OF ok] j(1)])
    then show ?thesis using d by (subst guard_frame [OF eq]) (simp_all add: denied_def)
  qed
  moreover have "pod_ok (pod s' j)" if "j < fleetSize s" for j
    by (rule pod_ok_cong [OF _ _ _ _ _ _ track_okD(4) [OF ok that]])
      (simp_all add: waiting_same [OF pods [OF that]] onTrack_def)
  ultimately show ?thesis
    using skeleton_fleet_ids [OF eq track_okD(1) [OF ok]] skeleton_link_wf [OF eq track_okD(2) [OF ok]]
    by (simp add: track_ok_def guarded_def skeleton_size [OF eq])
qed

lemma notRefused_guard:
  assumes ids: "fleet_ids s" and w: "link_wf s" and i: "i < fleetSize s" and free: "\<not> refuses linked s i r"
  shows "isZero (ownerAt s r) \<or> owns s i r \<or> linked \<and> (\<exists>k. (i, k) \<in> ahead s \<and> owns s k r)"
  using free unfolding refuses_def Let_def owner_iff(1) [OF ids i] ownerAheadInPlatoon_iff [OF ids w i] by blast

lemma takeZone_ok:
  assumes ok: "track_ok s" and i: "i < fleetSize s" and on: "onTrack (pod s i)"
    and start: "int start = vh_reservedThrough (pod s i) + 1"
    and t: "start \<le> through" "through < bl_blocks (vh_blocks (pod s i))"
    and free: "\<And>k r. start \<le> k \<Longrightarrow> k \<le> through \<Longrightarrow> r \<in> set (resAt (vh_blocks (pod s i)) k) \<Longrightarrow> \<not> refuses linked s i r"
  shows "track_ok (takeZone linked i start through s)"
proof -
  let ?v = "pod s i" and ?s' = "takeZone linked i start through s"
  let ?l = "vh_blocks ?v"
  define es where "es = spanReleases ?l (routeLane ?l start) start (through + 1 - start)"
  note ids = track_okD(1) [OF ok] and w = track_okD(2) [OF ok] and pi = track_okD(4) [OF ok i]
  note eq = takeZone_pods(2) [OF i, of linked start through]
  have wf: "wf_blocks ?l" and cover: "cover ?v" and dist: "distinct (map fst (vh_routeReleases ?v))" and early: "early_ok ?v"
    using pi on by (simp_all add: pod_ok_def)
  have lane: "routeLane ?l start = laneAt ?l start" using t by (intro routeLane_laneAt [OF wf]) simp
  have es_eq: "es = concat (map (\<lambda>k. map (\<lambda>r. (r, blockRelease ?l k r)) (resAt ?l k)) [start..<through + 1])"
    unfolding es_def lane using t spanReleases_map [OF wf, of start "through + 1 - start" "laneAt ?l start"] by simp
  have entry: "(r, blockRelease ?l k r) \<in> set es" if "start \<le> k" "k \<le> through" "r \<in> set (resAt ?l k)" for k r
    unfolding es_eq using that by fastforce
  have taken: "\<not> refuses linked s i r" if mem: "r \<in> fst ` set es" for r
  proof -
    obtain k where "start \<le> k" "k \<le> through" "r \<in> set (resAt ?l k)" using mem unfolding es_eq by (auto simp: less_Suc_eq_le)
    then show ?thesis by (rule free)
  qed
  have v': "pod ?s' i = (retainAll es ?v)\<lparr>vh_reservedThrough := int through, vh_pending := - 1\<rparr>" unfolding es_def by (rule takeZone_pods(4) [OF i])
  note gr = granted_same [OF retainAll_granted [of ?v es]]
  have owners: "tr_owners ?s' r = (if r \<in> fst ` set es \<and> (\<not> linked \<or> isZero (ownerAt s r)) then Some (pod_tag s i) else tr_owners s r)" for r
    unfolding es_def by (simp add: takeZone_def takeResource_owners [OF ids i])
  have mine: "guard ?s' i r" if "tr_owners ?s' r = Some (pod_tag s i)" for r
    using that i skeleton_links(3) [OF eq i] unfolding guard_def skeleton_size [OF eq] by (auto simp: owns_def pod_tag_def)
  have frame: "guard ?s' j r" if "guard s j r" "tr_owners ?s' r = tr_owners s r" for j r
    using that by (simp add: guard_frame [OF eq])
  have "guard ?s' j r" if j: "j < fleetSize s" and ret: "retains ?s' j r" for j r
  proof (cases "r \<in> fst ` set es")
    case False
    then have same: "tr_owners ?s' r = tr_owners s r" by (simp add: owners)
    have "retains s j r"
    proof (cases "j = i")
      case True
      obtain b where "retention ?s' i r = Some b" "vh_distance ?v < b" using ret by (auto simp: True retains_def v' gr)
      moreover from this(1) have "retention s i r = Some b" using retainAll_source [of es ?v r b] False by (auto simp: v')
      ultimately show ?thesis by (simp add: True retains_def)
    qed (use ret takeZone_pods(3) [OF i j] in \<open>simp add: retains_def\<close>)
    then have "guard s j r" by (rule guardedD [OF track_okD(3) [OF ok] j])
    then show ?thesis using same by (rule frame)
  next
    case True
    note nr = notRefused_guard [OF ids w i taken [OF True]]
    show ?thesis
    proof (cases "j = i")
      case ji: True
      show ?thesis
      proof (cases "\<not> linked \<or> isZero (ownerAt s r)")
        case True
        then show ?thesis using mine \<open>r \<in> fst ` set es\<close> owners ji by simp
      next
        case False
        then have "guard s i r" using nr i ahead_bounded [OF w] unfolding guard_def by blast
        then show ?thesis using False owners ji by (intro frame) simp_all
      qed
    next
      case ji: False
      have "retains s j r" using ret takeZone_pods(3) [OF i j ji] by (simp add: retains_def)
      then have g: "guard s j r" by (rule guardedD [OF track_okD(3) [OF ok] j])
      then obtain k where k: "k < fleetSize s" "(j, k) \<in> (ahead s)\<^sup>=" "owns s k r" by (auto simp: guard_def)
      have nz: "\<not> isZero (ownerAt s r)" using owner_iff(3) [OF ids k(1)] k(3) by blast
      show ?thesis
      proof (cases "linked")
        case True
        then show ?thesis using nz owners by (intro frame [OF g]) simp
      next
        case False
        then have "owns s i r" using nr nz by blast
        then have "tr_owners ?s' r = tr_owners s r" using owners by (simp add: owns_def)
        then show ?thesis by (rule frame [OF g])
      qed
    qed
  qed
  then have guarded: "guarded ?s'" by (simp add: guarded_def takeZone_pods(1) [OF i])
  have "cover (pod ?s' i)"
    unfolding cover_def
  proof (intro allI impI ballI)
    fix index r
    assume "int index \<le> vh_reservedThrough (pod ?s' i)" and r: "r \<in> set (resAt (vh_blocks (pod ?s' i)) index)"
      and d: "vh_distance (pod ?s' i) < blockRelease (vh_blocks (pod ?s' i)) index r"
    then have index: "index \<le> through" by (simp add: v')
    have r': "r \<in> set (resAt ?l index)" and d': "vh_distance ?v < blockRelease ?l index r" using r d by (simp_all add: v' gr)
    have "\<exists>b\<ge>blockRelease ?l index r. map_of (vh_routeReleases (retainAll es ?v)) r = Some b"
    proof (cases "start \<le> index")
      case True
      show ?thesis by (rule retainAll_takes [OF entry [OF True index r']])
    next
      case False
      then have "int index \<le> vh_reservedThrough ?v" using start by simp
      with cover r' d' obtain a where a: "retention s i r = Some a" "blockRelease ?l index r \<le> a" unfolding cover_def by blast
      obtain b where "a \<le> b" "map_of (vh_routeReleases (retainAll es ?v)) r = Some b" using retainAll_grows [OF a(1), of es] by blast
      with a(2) show ?thesis by (intro exI [of _ b]) simp
    qed
    then show "\<exists>a. retention ?s' i r = Some a \<and> blockRelease (vh_blocks (pod ?s' i)) index r \<le> a" by (auto simp: v' gr)
  qed
  moreover have "distinct (map fst (vh_routeReleases (retainAll es ?v))) \<and> early_ok (retainAll es ?v)"
    by (rule retainAll_ok [OF dist early])
  ultimately have "pod_ok (pod ?s' i)" using wf t by (simp add: pod_ok_def v' gr early_ok_def)
  then have "pod_ok (pod ?s' j)" if "j < fleetSize s" for j
    using that takeZone_pods(3) [OF i that] track_okD(4) [OF ok that] by (cases "j = i") auto
  then show ?thesis
    using skeleton_fleet_ids [OF eq ids] skeleton_link_wf [OF eq w] guarded by (simp add: track_ok_def takeZone_pods(1) [OF i])
qed

section \<open>Admission\<close>

text \<open>
  A request as \<open>admit\<close> makes it: for a pod that is ready to leave or is on its way, without a fault, for the
  first block after its reservation (\<open>admissionRequest\<close>). A pass has one request for a pod.
\<close>

definition valid_request :: "traffic \<Rightarrow> intent \<Rightarrow> bool" where
  "valid_request s q \<longleftrightarrow>
    (let v = pod s (in_index q) in
      in_index q < fleetSize s \<and> onTrack v \<and> (departs (vh_Activity v) \<longrightarrow> vh_phaseTicks v = 0) \<and> \<not> vh_faulted v \<and>
      int (in_block q) = vh_reservedThrough v + 1 \<and> in_block q < bl_blocks (vh_blocks v))"

definition valid_requests :: "traffic \<Rightarrow> intent list \<Rightarrow> bool" where
  "valid_requests s qs \<longleftrightarrow> distinct (map in_index qs) \<and> (\<forall>q\<in>set qs. valid_request s q)"

lemma admissionRequest_block:
  "admissionRequest lookahead v = Some b \<Longrightarrow> - 1 \<le> vh_reservedThrough v \<Longrightarrow>
    int b = vh_reservedThrough v + 1 \<and> b < bl_blocks (vh_blocks v)"
  by (auto simp: admissionRequest_def Let_def split: if_splits)

lemma grant_step:
  assumes ok: "track_ok s" and leave: "leaving_ok s" and q: "valid_request s q"
  shows "track_ok (grant q s) \<and> leaving_ok (grant q s) \<and> fleetSize (grant q s) = fleetSize s \<and>
    (\<forall>p. in_index p \<noteq> in_index q \<and> valid_request s p \<longrightarrow> valid_request (grant q s) p)"
proof -
  let ?i = "in_index q" and ?s' = "grant q s"
  have i: "?i < fleetSize s" and on: "onTrack (pod s ?i)" and ready: "departs (vh_Activity (pod s ?i)) \<longrightarrow> vh_phaseTicks (pod s ?i) = 0"
    and fault: "\<not> vh_faulted (pod s ?i)" and start: "int (in_block q) = vh_reservedThrough (pod s ?i) + 1"
    and b: "in_block q < bl_blocks (vh_blocks (pod s ?i))" using q by (simp_all add: valid_request_def Let_def)
  have wf: "wf_blocks (vh_blocks (pod s ?i))" using track_okD(4) [OF ok i] on by (simp add: pod_ok_def)
  show ?thesis
  proof (rule grant_cases [OF wf b])
    assume deny: "denied s ?s'"
    have pods: "waiting (pod s j) (pod ?s' j)" if "j < fleetSize s" for j using deny that by (simp add: denied_def)
    have size: "fleetSize ?s' = fleetSize s" using deny by (simp add: denied_def)
    have "leaving_ok ?s'" using leave unfolding leaving_ok_def size by (simp add: waiting_same [OF pods])
    moreover have "valid_request ?s' p" if "valid_request s p" for p
      using that unfolding valid_request_def Let_def size onTrack_def
      by (elim conjE) (simp add: waiting_same [OF pods])
    ultimately show ?thesis using denied_ok [OF ok deny] size by blast
  next
    fix linked through
    assume take: "reservationEnd (vh_blocks (pod s ?i)) (in_block q) = Some through" "in_block q \<le> through"
      "through < bl_blocks (vh_blocks (pod s ?i))"
      "\<forall>k r. in_block q \<le> k \<and> k \<le> through \<and> r \<in> set (resAt (vh_blocks (pod s ?i)) k) \<longrightarrow> \<not> refuses linked s ?i r"
      "?s' = takeZone linked ?i (in_block q) through s"
    have size: "fleetSize ?s' = fleetSize s" unfolding take(5) by (rule takeZone_pods(1) [OF i])
    have other: "pod ?s' j = pod s j" if "j < fleetSize s" "j \<noteq> ?i" for j
      unfolding take(5) by (rule takeZone_pods(3) [OF i that])
    have "track_ok ?s'"
      unfolding take(5) by (rule takeZone_ok [OF ok i on start take(2,3)]) (use take(4) in blast)
    moreover have "leaving_ok ?s'"
    proof -
      have "vh_phaseTicks (pod ?s' ?i) = vh_phaseTicks (pod s ?i) \<and> vh_faulted (pod ?s' ?i) = vh_faulted (pod s ?i) \<and>
          vh_Activity (pod ?s' ?i) = vh_Activity (pod s ?i)"
        unfolding take(5) takeZone_pods(4) [OF i] by (simp add: granted_same [OF retainAll_granted])
      then show ?thesis using leave other ready fault unfolding leaving_ok_def size by metis
    qed
    moreover have "valid_request ?s' p" if "in_index p \<noteq> ?i" "valid_request s p" for p
      using that other unfolding valid_request_def Let_def size by metis
    ultimately show ?thesis using size by blast
  qed
qed

lemma fold_grant:
  "track_ok s \<Longrightarrow> leaving_ok s \<Longrightarrow> valid_requests s qs \<Longrightarrow>
    track_ok (fold grant qs s) \<and> leaving_ok (fold grant qs s) \<and> fleetSize (fold grant qs s) = fleetSize s"
proof (induction qs arbitrary: s)
  case (Cons q qs)
  have q: "valid_request s q" and qs: "\<forall>p\<in>set qs. in_index p \<noteq> in_index q \<and> valid_request s p" "distinct (map in_index qs)"
    using Cons.prems(3) by (auto simp: valid_requests_def image_iff)
  note g = grant_step [OF Cons.prems(1,2) q]
  have "valid_requests (grant q s) qs" using g qs by (simp add: valid_requests_def)
  with g Cons.IH [of "grant q s"] show ?case by simp
qed simp

lemma mset_insertIntent [simp]: "mset (insertIntent tick a qs) = add_mset a (mset qs)"
  by (induction qs) auto

lemma mset_sortIntents [simp]: "mset (sortIntents tick qs) = mset qs"
proof (induction qs)
  case (Cons q qs)
  then show ?case by (simp add: sortIntents_def)
qed (simp add: sortIntents_def)

lemma grantIntents_ok:
  assumes "track_ok s" and "leaving_ok s" and q: "valid_requests s qs"
  shows "track_ok (grantIntents tick qs s) \<and> leaving_ok (grantIntents tick qs s) \<and>
    fleetSize (grantIntents tick qs s) = fleetSize s"
proof -
  have "mset (map in_index (sortIntents tick qs)) = mset (map in_index qs)" by simp
  then have "distinct (map in_index (sortIntents tick qs)) = distinct (map in_index qs)" by (rule mset_eq_imp_distinct_iff)
  moreover have "set (sortIntents tick qs) = set qs" by (rule mset_eq_setD) simp
  ultimately have "valid_requests s (sortIntents tick qs)" using q by (simp add: valid_requests_def)
  then show ?thesis unfolding grantIntents_def by (rule fold_grant [OF assms(1,2)])
qed

section \<open>Motion\<close>

lemma advanceBlocks_same: "advanceBlocks v = (v', b) \<Longrightarrow> v' = v\<lparr>vh_blockIndex := vh_blockIndex v'\<rparr>"
proof (induction v rule: advanceBlocks.induct)
  case (1 v)
  show ?case
  proof (cases "vh_distance v \<ge> blockEnd (vh_blocks v) (vh_blockIndex v) \<and> \<not> vh_blockIndex v + 1 \<ge> bl_blocks (vh_blocks v) \<and>
      int (vh_blockIndex v) \<noteq> vh_reservedThrough v")
    case True
    then have "advanceBlocks (v\<lparr>vh_blockIndex := vh_blockIndex v + 1\<rparr>) = (v', b)"
      using "1.prems" by (subst (asm) advanceBlocks.simps) auto
    then have "v' = (v\<lparr>vh_blockIndex := vh_blockIndex v + 1\<rparr>)\<lparr>vh_blockIndex := vh_blockIndex v'\<rparr>"
      using "1.IH" True by auto
    then show ?thesis by simp
  next
    case False
    then show ?thesis using "1.prems" by (subst (asm) advanceBlocks.simps) (auto split: if_splits)
  qed
qed

definition moved :: "real \<Rightarrow> vehicle \<Rightarrow> vehicle \<Rightarrow> bool" where
  "moved d v v' \<longleftrightarrow> vh_ID v' = vh_ID v \<and> vh_link v' = vh_link v \<and> vh_follower v' = vh_follower v \<and>
    vh_routeReleases v' = vh_routeReleases v \<and> vh_nextRelease v' = vh_nextRelease v \<and> vh_distance v' = d \<and>
    vh_blocks v' = vh_blocks v \<and> vh_reservedThrough v' = vh_reservedThrough v \<and>
    \<not> departs (vh_Activity v') \<and> (onTrack v' \<longrightarrow> onTrack v)"

lemma arrivePod_moved: "vh_distance v = d \<Longrightarrow> moved d v (arrivePod v)"
  by (simp add: moved_def arrivePod_def Let_def departs_def onTrack_def)

lemma publish_moved:
  assumes "vh_Activity v = Traveling"
  shows "moved d v (publishVehicleTravel wait d speed v)"
proof -
  let ?u = "v\<lparr>vh_distance := d, vh_Speed := speed\<rparr>"
  obtain v' b where a: "advanceBlocks ?u = (v', b)" by (cases "advanceBlocks ?u")
  obtain k where v': "v' = ?u\<lparr>vh_blockIndex := k\<rparr>" using advanceBlocks_same [OF a] by blast
  have "moved d v (arrivePod v')" unfolding v' using assms
    by (simp add: moved_def arrivePod_def Let_def departs_def onTrack_def)
  then show ?thesis using assms unfolding publishVehicleTravel_def a
    by (auto simp: v' Let_def moved_def departs_def onTrack_def split: bool.split)
qed

lemma pod_ok_move:
  assumes ok: "pod_ok v" and on: "onTrack v" and m: "moved d v v'" and d: "vh_distance v \<le> d"
  shows "pod_ok v'"
proof -
  have "cover v'" using ok on m d by (fastforce simp: pod_ok_def cover_def moved_def)
  then show ?thesis using ok on m by (simp add: pod_ok_def moved_def early_ok_def)
qed

lemma move_track_ok:
  assumes ok: "track_ok s" and i: "i < fleetSize s" and on: "onTrack (pod s i)"
    and m: "moved d (pod s i) (f (pod s i))" and d: "vh_distance (pod s i) \<le> d"
  shows "track_ok (setPod i f s)"
proof -
  let ?s' = "setPod i f s"
  have pods: "pod ?s' j = (if j = i then f (pod s i) else pod s j)" if "j < fleetSize s" for j
    using that by (simp add: pod_setPod)
  have eq: "skeleton ?s' = skeleton s" using m by (intro pods_skeleton) (auto simp: pods moved_def)
  have "guard ?s' j r" if j: "j < fleetSize s" "retains ?s' j r" for j r
  proof -
    have "retains s j r" using j m d pods [OF j(1)] by (auto simp: retains_def moved_def split: if_splits)
    then have "guard s j r" by (rule guardedD [OF track_okD(3) [OF ok] j(1)])
    then show ?thesis by (subst guard_frame [OF eq]) simp_all
  qed
  moreover have "pod_ok (pod ?s' j)" if "j < fleetSize s" for j
    using track_okD(4) [OF ok that] pod_ok_move [OF track_okD(4) [OF ok i] on m d] by (simp add: pods [OF that])
  ultimately show ?thesis
    using skeleton_fleet_ids [OF eq track_okD(1) [OF ok]] skeleton_link_wf [OF eq track_okD(2) [OF ok]]
    by (simp add: track_ok_def guarded_def)
qed

lemma movePod_step:
  assumes ok: "track_ok s" and leave: "leaving_ok s" and i: "i < fleetSize s"
    and travel: "vh_distance (pod s i) \<le> fst (snd (travel i))"
  shows "track_ok (movePod travel i s) \<and> leaving_ok (movePod travel i s) \<and> fleetSize (movePod travel i s) = fleetSize s \<and>
    (\<forall>j<fleetSize s. j \<noteq> i \<longrightarrow> pod (movePod travel i s) j = pod s j) \<and>
    (departs (vh_Activity (pod (movePod travel i s) i)) \<longrightarrow> vh_reservedThrough (pod (movePod travel i s) i) < 0)"
proof -
  let ?v = "pod s i" and ?s' = "movePod travel i s"
  consider (depart) "departs (vh_Activity ?v) \<and> vh_phaseTicks ?v = 0 \<and> vh_reservedThrough ?v \<ge> 0 \<and> \<not> vh_faulted ?v"
    | (move) "\<not> (departs (vh_Activity ?v) \<and> vh_phaseTicks ?v = 0 \<and> vh_reservedThrough ?v \<ge> 0 \<and> \<not> vh_faulted ?v)" "vh_Activity ?v = Traveling"
    | (stay) "\<not> (departs (vh_Activity ?v) \<and> vh_phaseTicks ?v = 0 \<and> vh_reservedThrough ?v \<ge> 0 \<and> \<not> vh_faulted ?v)" "vh_Activity ?v \<noteq> Traveling"
    by blast
  then show ?thesis
  proof cases
    case depart
    then have s': "?s' = setPod i departPod s" by (simp add: movePod_def Let_def)
    have m: "moved (vh_distance ?v) ?v (departPod ?v)" using depart by (simp add: moved_def departPod_def departs_def onTrack_def)
    have "track_ok ?s'" unfolding s' using depart by (intro move_track_ok [where f = departPod, OF ok i _ m]) (simp_all add: onTrack_def)
    moreover have "leaving_ok ?s'"
      using leave m unfolding leaving_ok_def s' by (auto simp: pod_setPod moved_def)
    ultimately show ?thesis using m i by (simp add: s' pod_setPod moved_def)
  next
    case move
    obtain wait d speed where tr: "travel i = (wait, d, speed)" by (cases "travel i")
    let ?f = "publishVehicleTravel wait d speed"
    have s': "?s' = setPod i ?f s" using move by (auto simp: movePod_def Let_def tr)
    have m: "moved d ?v (?f ?v)" by (rule publish_moved [OF move(2)])
    have "track_ok ?s'" unfolding s' using move travel tr by (intro move_track_ok [where f = ?f, OF ok i _ m]) (simp_all add: onTrack_def)
    moreover have "leaving_ok ?s'"
      using leave m unfolding leaving_ok_def s' by (auto simp: pod_setPod moved_def)
    ultimately show ?thesis using m i by (simp add: s' pod_setPod moved_def)
  next
    case stay
    then have s': "?s' = s" by (auto simp: movePod_def Let_def)
    have "vh_reservedThrough ?v < 0" if "departs (vh_Activity ?v)"
      using that leave i stay(1) unfolding leaving_ok_def by (meson not_le)
    then show ?thesis using ok leave by (simp add: s')
  qed
qed

lemma fold_move:
  assumes ok: "track_ok s" and leave: "leaving_ok s" and travel: "\<forall>i<fleetSize s. vh_distance (pod s i) \<le> fst (snd (travel i))"
  shows "k \<le> fleetSize s \<Longrightarrow> track_ok (fold (movePod travel) [0..<k] s) \<and> leaving_ok (fold (movePod travel) [0..<k] s) \<and>
    fleetSize (fold (movePod travel) [0..<k] s) = fleetSize s \<and>
    (\<forall>j<fleetSize s. k \<le> j \<longrightarrow> pod (fold (movePod travel) [0..<k] s) j = pod s j) \<and>
    (\<forall>j<k. departs (vh_Activity (pod (fold (movePod travel) [0..<k] s) j)) \<longrightarrow>
      vh_reservedThrough (pod (fold (movePod travel) [0..<k] s) j) < 0)"
proof (induction k)
  case 0
  then show ?case using ok leave by simp
next
  case (Suc k)
  let ?t = "fold (movePod travel) [0..<k] s"
  have ih: "track_ok ?t" "leaving_ok ?t" "fleetSize ?t = fleetSize s" "\<forall>j<fleetSize s. k \<le> j \<longrightarrow> pod ?t j = pod s j"
    "\<forall>j<k. departs (vh_Activity (pod ?t j)) \<longrightarrow> vh_reservedThrough (pod ?t j) < 0" using Suc by simp_all
  have k: "k < fleetSize ?t" and d: "vh_distance (pod ?t k) \<le> fst (snd (travel k))" using Suc.prems ih(3,4) travel by simp_all
  note step = movePod_step [where travel = travel and i = k, OF ih(1,2) k d]
  define u where "u = movePod travel k ?t"
  have u: "fold (movePod travel) [0..<Suc k] s = u" by (simp add: u_def)
  have st: "track_ok u" "leaving_ok u" "fleetSize u = fleetSize s"
    and same: "pod u j = pod ?t j" if "j < fleetSize s" "j \<noteq> k" for j
    using step that unfolding u_def ih(3) by blast+
  have last: "departs (vh_Activity (pod u k)) \<longrightarrow> vh_reservedThrough (pod u k) < 0" using step unfolding u_def by blast
  have "pod u j = pod s j" if "j < fleetSize s" "Suc k \<le> j" for j using same [of j] ih(4) that by simp
  moreover have "departs (vh_Activity (pod u j)) \<longrightarrow> vh_reservedThrough (pod u j) < 0" if "j < Suc k" for j
    using last ih(5) same [of j] that Suc.prems by (cases "j = k") simp_all
  ultimately show ?case unfolding u using step ih(3) by (simp add: u_def)
qed

lemma fold_release:
  assumes ok: "track_ok s" and left: "left_ok s"
  shows "k \<le> fleetSize s \<Longrightarrow> track_ok (fold releaseVehicleResources [0..<k] s) \<and> left_ok (fold releaseVehicleResources [0..<k] s) \<and>
    fleetSize (fold releaseVehicleResources [0..<k] s) = fleetSize s \<and>
    (\<forall>j<k. (vh_Activity (pod (fold releaseVehicleResources [0..<k] s) j) \<noteq> Traveling \<longrightarrow>
        vh_routeReleases (pod (fold releaseVehicleResources [0..<k] s) j) = []) \<and>
      (\<forall>r a. retention (fold releaseVehicleResources [0..<k] s) j r = Some a \<longrightarrow>
        vh_distance (pod (fold releaseVehicleResources [0..<k] s) j) < a))"
proof (induction k)
  case 0
  then show ?case using ok left by simp
next
  case (Suc k)
  let ?t = "fold releaseVehicleResources [0..<k] s"
  define u where "u = releaseVehicleResources k ?t"
  have ih: "track_ok ?t" "left_ok ?t" "fleetSize ?t = fleetSize s" using Suc by simp_all
  have u: "fold releaseVehicleResources [0..<Suc k] s = u" by (simp add: u_def)
  have k: "k < fleetSize ?t" using Suc.prems ih(3) by simp
  have pk: "distinct (map fst (vh_routeReleases (pod ?t k)))" "early_ok (pod ?t k)"
    using track_okD(4) [OF ih(1) k] by (simp_all add: pod_ok_def)
  obtain A where A: "released k A ?t u"
    and rest: "vh_Activity (pod ?t k) \<noteq> Traveling \<longrightarrow> vh_routeReleases (pod u k) = []"
    and way: "vh_Activity (pod ?t k) = Traveling \<longrightarrow> (\<forall>r a. retention u k r = Some a \<longrightarrow> vh_distance (pod ?t k) < a)"
    using releaseVehicle_spec [OF track_okD(1,2) [OF ih(1)] k pk(1)] pk(2) unfolding u_def by blast
  have rec: "recorded (pod ?t k) (pod u k)" and other: "\<forall>j<k. pod u j = pod ?t j" and size: "fleetSize u = fleetSize ?t"
    using A k by (simp_all add: released_def)
  have "(vh_Activity (pod u k) \<noteq> Traveling \<longrightarrow> vh_routeReleases (pod u k) = []) \<and>
      (\<forall>r a. retention u k r = Some a \<longrightarrow> vh_distance (pod u k) < a)"
    using rest way by (cases "vh_Activity (pod ?t k) = Traveling") (simp_all add: recorded_same [OF rec])
  moreover have "(vh_Activity (pod u j) \<noteq> Traveling \<longrightarrow> vh_routeReleases (pod u j) = []) \<and>
      (\<forall>r a. retention u j r = Some a \<longrightarrow> vh_distance (pod u j) < a)" if "j < k" for j
    using Suc that other by simp
  moreover have "track_ok u \<and> left_ok u" unfolding u_def by (rule release_track_ok [OF ih(1,2) k])
  ultimately show ?case unfolding u using size ih(3) less_Suc_eq by metis
qed

text \<open>No pod retains a resource that it has passed.\<close>

definition prompt :: "traffic \<Rightarrow> bool" where
  "prompt s \<longleftrightarrow> (\<forall>i<fleetSize s. \<forall>r a. retention s i r = Some a \<longrightarrow> vh_distance (pod s i) < a)"

lemma stepMotion_ok:
  assumes ok: "track_ok s" and leave: "leaving_ok s" and travel: "\<forall>i<fleetSize s. vh_distance (pod s i) \<le> fst (snd (travel i))"
  shows "track_ok (stepMotion travel s) \<and> left_ok (stepMotion travel s) \<and> resting_ok (stepMotion travel s) \<and>
    prompt (stepMotion travel s) \<and> fleetSize (stepMotion travel s) = fleetSize s"
proof -
  let ?t = "fold (movePod travel) [0..<fleetSize s] s"
  have t: "track_ok ?t" "fleetSize ?t = fleetSize s" "left_ok ?t"
    using fold_move [OF ok leave travel order_refl] by (simp_all add: left_ok_def)
  have s': "stepMotion travel s = fold releaseVehicleResources [0..<fleetSize s] ?t"
    by (simp only: stepMotion_def releaseCleared_def t(2))
  show ?thesis
    unfolding s' resting_ok_def prompt_def using fold_release [OF t(1,3), of "fleetSize s"] t(2) by simp
qed

section \<open>Links\<close>

lemma linkPods_rel:
  assumes i: "i < fleetSize s" and a: "a < fleetSize s" and ne: "i \<noteq> a" and free: "leaderOf s i = 0"
  shows "link_rel (leaderOf (linkPods i a link s)) (fleetSize s) = insert (i, a) (link_rel (leaderOf s) (fleetSize s))"
proof -
  have "leaderOf (linkPods i a link s) j = (if j = i then Suc a else leaderOf s j)" if "j < fleetSize s" for j
    using that ne by (simp add: linkPods_def pod_setPod)
  then show ?thesis using i free by (auto simp: link_rel_def split: if_splits)
qed

lemma linkPods_wf:
  assumes w: "link_wf s" and i: "i < fleetSize s" and a: "a < fleetSize s" and ne: "i \<noteq> a"
    and free: "leaderOf s i = 0" "followerOf s a = 0" and far: "a \<notin> set (followers s i)"
  shows "link_wf (linkPods i a link s)"
proof -
  let ?s' = "linkPods i a link s"
  have size: "fleetSize ?s' = fleetSize s" by (simp add: linkPods_def)
  have pods: "pod ?s' j = (if j = i then (pod s i)\<lparr>vh_link := link\<lparr>pl_leader := Suc a\<rparr>\<rparr>
      else if j = a then (pod s a)\<lparr>vh_follower := Suc i\<rparr> else pod s j)" if "j < fleetSize s" for j
    using that ne by (simp add: linkPods_def pod_setPod)
  have "(a, i) \<notin> ahead s" using far by (simp add: set_followers [OF w i])
  then have "acyclic (link_rel (leaderOf ?s') (fleetSize ?s'))"
    unfolding size linkPods_rel [OF i a ne free(1)] acyclic_insert using link_wf_acyclic(1) [OF w] ne
    by (auto simp: ahead_def rtrancl_eq_or_trancl)
  then show ?thesis using w i a ne free unfolding link_wf_def size by (auto simp: pods)
qed

lemma linkPods_ok:
  assumes ok: "track_ok s" and i: "i < fleetSize s" and a: "a < fleetSize s" and ne: "i \<noteq> a"
    and free: "leaderOf s i = 0" "followerOf s a = 0" and far: "a \<notin> set (followers s i)"
  shows "track_ok (linkPods i a link s)"
proof -
  let ?s' = "linkPods i a link s"
  note ids = track_okD(1) [OF ok] and w = track_okD(2) [OF ok]
  have size: "fleetSize ?s' = fleetSize s" by (simp add: linkPods_def)
  have pods: "pod ?s' j = (if j = i then (pod s i)\<lparr>vh_link := link\<lparr>pl_leader := Suc a\<rparr>\<rparr>
      else if j = a then (pod s a)\<lparr>vh_follower := Suc i\<rparr> else pod s j)" if "j < fleetSize s" for j
    using that ne by (simp add: linkPods_def pod_setPod)
  have rel: "link_rel (leaderOf ?s') (fleetSize ?s') = insert (i, a) (link_rel (leaderOf s) (fleetSize s))"
    unfolding size by (rule linkPods_rel [OF i a ne free(1)])
  have w': "link_wf ?s'" by (rule linkPods_wf [OF w i a ne free far])
  have mono: "ahead s \<subseteq> ahead ?s'" unfolding ahead_def rel by (rule trancl_mono_subset) auto
  have tag: "pod_tag ?s' j = pod_tag s j" if "j < fleetSize s" for j using that by (simp add: pod_tag_def pods)
  have owners: "tr_owners ?s' = tr_owners s" by (simp add: linkPods_def)
  have "guard ?s' j r" if j: "j < fleetSize s" "retains ?s' j r" for j r
  proof -
    have "retains s j r" using j by (simp add: retains_def pods split: if_splits)
    then have "guard s j r" by (rule guardedD [OF track_okD(3) [OF ok] j(1)])
    then obtain k where k: "k < fleetSize s" "(j, k) \<in> (ahead s)\<^sup>=" "owns s k r" unfolding guard_def by blast
    have "(j, k) \<in> (ahead ?s')\<^sup>=" using k(2) mono by blast
    moreover have "owns ?s' k r" using k(3) tag [OF k(1)] by (simp add: owns_def owners)
    ultimately show ?thesis unfolding guard_def size using k(1) by blast
  qed
  moreover have "fleet_ids ?s'"
  proof -
    have "vh_ID (pod ?s' j) = vh_ID (pod s j)" if "j < fleetSize s" for j using that by (simp add: pods)
    then show ?thesis using ids unfolding fleet_ids_def size by simp
  qed
  moreover have "pod_ok (pod ?s' j)" if "j < fleetSize s" for j
    by (rule pod_ok_cong [OF _ _ _ _ _ _ track_okD(4) [OF ok that]]) (simp_all add: pods [OF that] onTrack_def)
  ultimately show ?thesis using w' by (simp add: track_ok_def guarded_def size)
qed

lemma trancl_avoid:
  assumes "(j, k) \<in> R\<^sup>+" and "(j, i) \<notin> R\<^sup>*"
  shows "(j, k) \<in> (R - {(i, l)})\<^sup>+"
  using assms
proof (induction rule: converse_trancl_induct)
  case (base y)
  then show ?case by auto
next
  case (step y z)
  then have "(z, i) \<notin> R\<^sup>*" "(y, z) \<in> R - {(i, l)}" by (auto intro: converse_rtrancl_into_rtrancl)
  with step.IH show ?case by (meson trancl_into_trancl2)
qed

lemma unlink_pods:
  assumes w: "link_wf s" and i: "i < fleetSize s" and a: "leaderOf s i = Suc a"
  shows "a < fleetSize s" and "a \<noteq> i" and "fleetSize (unlink i s) = fleetSize s"
    and "j < fleetSize s \<Longrightarrow> pod (unlink i s) j = (if j = i then (pod s i)\<lparr>vh_link := noLink\<rparr>
      else if j = a then (pod s a)\<lparr>vh_follower := 0\<rparr> else pod s j)"
proof -
  show an: "a < fleetSize s" using link_wf_bound(1) [OF w] i a by (metis Suc_le_eq)
  show ne: "a \<noteq> i" using ahead_irrefl [OF w, of i] a i by (auto simp: ahead_def link_rel_def)
  show "fleetSize (unlink i s) = fleetSize s" by (simp add: unlink_def)
  show "pod (unlink i s) j = (if j = i then (pod s i)\<lparr>vh_link := noLink\<rparr>
      else if j = a then (pod s a)\<lparr>vh_follower := 0\<rparr> else pod s j)" if "j < fleetSize s"
    using that ne by (simp add: unlink_def a pod_setPod)
qed

lemma unlink_rel:
  assumes "link_wf s" and "i < fleetSize s" and a: "leaderOf s i = Suc a"
  shows "link_rel (leaderOf (unlink i s)) (fleetSize s) = link_rel (leaderOf s) (fleetSize s) - {(i, a)}"
  using unlink_pods(4) [OF assms] a by (auto simp: link_rel_def noLink_def split: if_splits)

lemma unlink_wf:
  assumes w: "link_wf s" and i: "i < fleetSize s" and a: "leaderOf s i = Suc a"
  shows "link_wf (unlink i s)"
proof -
  let ?s' = "unlink i s"
  note an = unlink_pods(1) [OF assms] and ne = unlink_pods(2) [OF assms] and size = unlink_pods(3) [OF assms]
  note pods = unlink_pods(4) [OF assms]
  have "acyclic (link_rel (leaderOf ?s') (fleetSize ?s'))"
    unfolding size unlink_rel [OF assms] by (rule acyclic_subset [OF link_wf_acyclic(1) [OF w]]) auto
  moreover have "leaderOf ?s' p = Suc q \<longleftrightarrow> followerOf ?s' q = Suc p" if "p < fleetSize s" "q < fleetSize s" for p q
  proof -
    have "leaderOf s p = Suc q \<longleftrightarrow> followerOf s q = Suc p" "leaderOf s p = Suc a \<longleftrightarrow> followerOf s a = Suc p"
      "followerOf s a = Suc i"
      using w that an i a by (auto simp: link_wf_def)
    then show ?thesis using a ne by (auto simp: pods that noLink_def)
  qed
  moreover have "leaderOf ?s' p \<le> fleetSize s \<and> followerOf ?s' p \<le> fleetSize s" if "p < fleetSize s" for p
    using w that by (auto simp: link_wf_def pods noLink_def)
  ultimately show ?thesis by (simp add: link_wf_def size)
qed

lemma unlink_ok:
  assumes ok: "track_ok s" and i: "i < fleetSize s" and l: "leaderOf s i \<noteq> 0"
    and own: "\<forall>j\<in>set (i # followers s i). \<not> holdsPending s j"
  shows "track_ok (unlink i s)"
proof -
  let ?s' = "unlink i s"
  note ids = track_okD(1) [OF ok] and w = track_okD(2) [OF ok]
  obtain a where a: "leaderOf s i = Suc a" using l by (cases "leaderOf s i") auto
  note an = unlink_pods(1) [OF w i a] and ne = unlink_pods(2) [OF w i a] and size = unlink_pods(3) [OF w i a]
  note pods = unlink_pods(4) [OF w i a]
  have rel: "link_rel (leaderOf ?s') (fleetSize ?s') = link_rel (leaderOf s) (fleetSize s) - {(i, a)}"
    unfolding size by (rule unlink_rel [OF w i a])
  have w': "link_wf ?s'" by (rule unlink_wf [OF w i a])
  have tag: "pod_tag ?s' j = pod_tag s j" if "j < fleetSize s" for j using that by (simp add: pod_tag_def pods)
  have owners: "tr_owners ?s' = tr_owners s" by (simp add: unlink_def)
  have "guard ?s' j r" if j: "j < fleetSize s" "retains ?s' j r" for j r
  proof -
    have ret: "retains s j r" using j by (simp add: retains_def pods split: if_splits)
    then obtain k where k: "k < fleetSize s" "(j, k) \<in> (ahead s)\<^sup>=" "owns s k r"
      using guardedD [OF track_okD(3) [OF ok] j(1)] by (auto simp: guard_def)
    show ?thesis
    proof (cases "j \<in> set (i # followers s i)")
      case True
      obtain t where "(r, t) \<in> set (vh_routeReleases (pod s j))" using ret map_of_SomeD by (auto simp: retains_def) fast
      moreover have "\<not> holdsPending s j" using own True by blast
      ultimately have "ownerAt s r = podOwner s j" by (auto simp: holdsPending_def list_ex_iff)
      then have "owns s j r" using owner_iff(2) [OF ids j(1)] by blast
      then show ?thesis using j(1) tag by (auto simp: guard_def size owns_def owners)
    next
      case False
      then have "(j, i) \<notin> (link_rel (leaderOf s) (fleetSize s))\<^sup>*"
        by (auto simp: set_followers [OF w i] ahead_def rtrancl_eq_or_trancl)
      then have "(j, k) \<in> (ahead ?s')\<^sup>="
      proof (cases "j = k")
        case False
        with k(2) have "(j, k) \<in> ahead s" by blast
        then have "(j, k) \<in> (link_rel (leaderOf s) (fleetSize s))\<^sup>+" unfolding ahead_def .
        from trancl_avoid [OF this \<open>(j, i) \<notin> _\<close>] show ?thesis unfolding ahead_def rel by blast
      qed simp
      then show ?thesis using k tag by (auto simp: guard_def size owns_def owners)
    qed
  qed
  moreover have "fleet_ids ?s'"
  proof -
    have "vh_ID (pod ?s' j) = vh_ID (pod s j)" if "j < fleetSize s" for j using that by (simp add: pods)
    then show ?thesis using ids unfolding fleet_ids_def size by simp
  qed
  moreover have "pod_ok (pod ?s' j)" if "j < fleetSize s" for j
    by (rule pod_ok_cong [OF _ _ _ _ _ _ track_okD(4) [OF ok that]]) (simp_all add: pods [OF that] onTrack_def)
  ultimately show ?thesis using w' by (simp add: track_ok_def guarded_def size)
qed

section \<open>Histories\<close>

lemma track_ok_pod:
  assumes ok: "track_ok s" and i: "i < fleetSize s"
    and same: "vh_ID (f (pod s i)) = vh_ID (pod s i)" "vh_link (f (pod s i)) = vh_link (pod s i)"
      "vh_follower (f (pod s i)) = vh_follower (pod s i)"
    and pok: "pod_ok (f (pod s i))"
    and ret: "\<And>r a. map_of (vh_routeReleases (f (pod s i))) r = Some a \<Longrightarrow> vh_distance (f (pod s i)) < a \<Longrightarrow> retains s i r"
  shows "track_ok (setPod i f s)"
proof -
  let ?s' = "setPod i f s"
  have pods: "pod ?s' j = (if j = i then f (pod s i) else pod s j)" if "j < fleetSize s" for j
    using that by (simp add: pod_setPod)
  have eq: "skeleton ?s' = skeleton s" using same by (intro pods_skeleton) (auto simp: pods)
  have "guard ?s' j r" if j: "j < fleetSize s" "retains ?s' j r" for j r
  proof -
    have "retains s j r"
    proof (cases "j = i")
      case True
      then show ?thesis using j ret by (auto simp: retains_def pods)
    qed (use j in \<open>simp add: retains_def pods\<close>)
    then have "guard s j r" by (rule guardedD [OF track_okD(3) [OF ok] j(1)])
    then show ?thesis by (subst guard_frame [OF eq]) simp_all
  qed
  moreover have "pod_ok (pod ?s' j)" if "j < fleetSize s" for j
    using track_okD(4) [OF ok that] pok by (simp add: pods [OF that])
  ultimately show ?thesis
    using skeleton_fleet_ids [OF eq track_okD(1) [OF ok]] skeleton_link_wf [OF eq track_okD(2) [OF ok]]
    by (simp add: track_ok_def guarded_def)
qed

text \<open>
  A step of the track is a tick (the grants of the requests in admission order, the motion, the releases), the
  boarding of an idle pod, the end of an unloading, a turn of a phase timer, or the start or the end of a
  link. A link starts between a pod without a predecessor and a pod that has no follower and is
  not behind it (\<open>tryLink\<close>: it is the nearest pod ahead on the lane). A link ends when the pod holds
  no resource of another pod (\<open>maintainLink\<close>); the step also asks this of the pods behind it, which
  the code does not test: there it rests on the order of the pods along the run.
\<close>

definition phaseTurn :: "vehicle \<Rightarrow> vehicle" where
  "phaseTurn v = (if vh_faulted v then v else if vh_phaseTicks v > 0 then v\<lparr>vh_phaseTicks := vh_phaseTicks v - 1\<rparr> else v)"

definition endUnloading :: "vehicle \<Rightarrow> vehicle" where
  "endUnloading v = v\<lparr>vh_Activity := Idle, vh_Occupied := False\<rparr>"

inductive trafficStep :: "traffic \<Rightarrow> traffic \<Rightarrow> bool" where
  tick: "valid_requests s qs \<Longrightarrow>
    \<forall>i<fleetSize s. vh_distance (pod (grantIntents t qs s) i) \<le> fst (snd (travel i)) \<Longrightarrow>
    trafficStep s (stepMotion travel (grantIntents t qs s))"
| board: "i < fleetSize s \<Longrightarrow> vh_Activity (pod s i) = Idle \<Longrightarrow> wf_blocks blocks \<Longrightarrow>
    trafficStep s (setPod i (boardRoute blocks from_berth station) s)"
| unloaded: "i < fleetSize s \<Longrightarrow> vh_Activity (pod s i) = Unloading \<Longrightarrow> vh_phaseTicks (pod s i) = 0 \<Longrightarrow>
    trafficStep s (setPod i endUnloading s)"
| phase: "i < fleetSize s \<Longrightarrow> trafficStep s (setPod i phaseTurn s)"
| link: "i < fleetSize s \<Longrightarrow> a < fleetSize s \<Longrightarrow> i \<noteq> a \<Longrightarrow> leaderOf s i = 0 \<Longrightarrow> followerOf s a = 0 \<Longrightarrow>
    a \<notin> set (followers s i) \<Longrightarrow> trafficStep s (linkPods i a new s)"
| unlink: "i < fleetSize s \<Longrightarrow> leaderOf s i \<noteq> 0 \<Longrightarrow> \<forall>j\<in>set (i # followers s i). \<not> holdsPending s j \<Longrightarrow>
    trafficStep s (unlink i s)"

definition fresh_fleet :: "traffic \<Rightarrow> bool" where
  "fresh_fleet s \<longleftrightarrow> fleet_ids s \<and>
    (\<forall>i<fleetSize s. vh_Activity (pod s i) = Idle \<and> vh_routeReleases (pod s i) = [] \<and> leaderOf s i = 0 \<and> followerOf s i = 0)"

definition settled :: "traffic \<Rightarrow> bool" where
  "settled s \<longleftrightarrow> track_ok s \<and> left_ok s \<and> resting_ok s"

lemma fresh_settled:
  assumes f: "fresh_fleet s"
  shows "settled s"
proof -
  have pods: "vh_Activity (pod s i) = Idle" "vh_routeReleases (pod s i) = []" "leaderOf s i = 0" "followerOf s i = 0"
    if "i < fleetSize s" for i using f that by (simp_all add: fresh_fleet_def)
  have "link_rel (leaderOf s) (fleetSize s) = {}" by (auto simp: link_rel_def pods)
  then have "link_wf s" by (simp add: link_wf_def pods acyclic_def)
  moreover have "pod_ok (pod s i)" if "i < fleetSize s" for i
    using pods [OF that] by (simp add: pod_ok_def early_ok_def onTrack_def departs_def)
  ultimately show ?thesis
    using f by (simp add: settled_def track_ok_def guarded_def retains_def pods left_ok_def resting_ok_def departs_def fresh_fleet_def)
qed

lemma settled_leaving: "settled s \<Longrightarrow> leaving_ok s"
  unfolding settled_def left_ok_def leaving_ok_def by (meson not_le)

lemma settled_pod:
  assumes ok: "settled s" and i: "i < fleetSize s"
    and same: "vh_ID (f (pod s i)) = vh_ID (pod s i)" "vh_link (f (pod s i)) = vh_link (pod s i)"
      "vh_follower (f (pod s i)) = vh_follower (pod s i)"
    and pok: "pod_ok (f (pod s i))"
    and ret: "\<And>r a. map_of (vh_routeReleases (f (pod s i))) r = Some a \<Longrightarrow> vh_distance (f (pod s i)) < a \<Longrightarrow> retains s i r"
    and left: "departs (vh_Activity (f (pod s i))) \<Longrightarrow> vh_reservedThrough (f (pod s i)) < 0"
    and rest: "vh_Activity (f (pod s i)) \<noteq> Traveling \<Longrightarrow> vh_routeReleases (f (pod s i)) = []"
  shows "settled (setPod i f s)"
proof -
  have "track_ok (setPod i f s)"
    using ok by (intro track_ok_pod [where f = f, OF _ i same pok ret]) (simp_all add: settled_def)
  moreover have "left_ok (setPod i f s)" "resting_ok (setPod i f s)"
    using ok left rest by (auto simp: settled_def left_ok_def resting_ok_def pod_setPod)
  ultimately show ?thesis by (simp add: settled_def)
qed

lemma trafficStep_settled: "trafficStep s s' \<Longrightarrow> settled s \<Longrightarrow> settled s'"
proof (induction rule: trafficStep.induct)
  case (tick s qs t travel)
  have ok: "track_ok s" using tick.prems by (simp add: settled_def)
  note g = grantIntents_ok [OF ok settled_leaving [OF tick.prems] tick.hyps(1), of t]
  have "\<forall>i<fleetSize (grantIntents t qs s). vh_distance (pod (grantIntents t qs s) i) \<le> fst (snd (travel i))"
    using tick.hyps(2) g by simp
  with g stepMotion_ok show ?case unfolding settled_def by blast
next
  case (board i s blocks from_berth station)
  have "vh_routeReleases (pod s i) = []" using board by (simp add: settled_def resting_ok_def)
  then show ?case using board
    by (intro settled_pod) (auto simp: boardRoute_def pod_ok_def early_ok_def onTrack_def departs_def cover_def)
next
  case (unloaded i s)
  have "vh_routeReleases (pod s i) = []" using unloaded by (simp add: settled_def resting_ok_def)
  then show ?case using unloaded
    by (intro settled_pod) (auto simp: endUnloading_def pod_ok_def early_ok_def onTrack_def departs_def)
next
  case (phase i s)
  have ok: "pod_ok (pod s i)" using phase by (simp add: settled_def track_okD(4))
  have "pod_ok (phaseTurn (pod s i))" by (rule pod_ok_cong [OF _ _ _ _ _ _ ok]) (simp_all add: phaseTurn_def onTrack_def)
  then show ?case using phase
    by (intro settled_pod) (auto simp: phaseTurn_def retains_def settled_def left_ok_def resting_ok_def split: if_splits)
next
  case (link i s a new)
  have "track_ok (linkPods i a new s)" using link by (intro linkPods_ok) (simp_all add: settled_def)
  moreover have "left_ok (linkPods i a new s)" "resting_ok (linkPods i a new s)"
    using link.prems by (auto simp: settled_def left_ok_def resting_ok_def linkPods_def pod_setPod)
  ultimately show ?case by (simp add: settled_def)
next
  case (unlink i s)
  have "track_ok (TrackClaims.unlink i s)" using unlink by (intro unlink_ok) (simp_all add: settled_def)
  moreover have "left_ok (TrackClaims.unlink i s)" "resting_ok (TrackClaims.unlink i s)"
    using unlink.prems by (auto simp: settled_def left_ok_def resting_ok_def unlink_def pod_setPod)
  ultimately show ?case by (simp add: settled_def)
qed

interpretation track: step_invariant trafficStep settled
  by unfold_locales (rule trafficStep_settled)

lemma history_settled: "trafficStep\<^sup>*\<^sup>* s0 s \<Longrightarrow> fresh_fleet s0 \<Longrightarrow> settled s"
  by (rule track.run_inv [OF _ fresh_settled])

text \<open>A resource of a reserved block that the pod has not passed.\<close>

definition occupies :: "traffic \<Rightarrow> nat \<Rightarrow> nat \<Rightarrow> resource \<Rightarrow> bool" where
  "occupies s i index r \<longleftrightarrow> i < fleetSize s \<and> vh_Activity (pod s i) = Traveling \<and> int index \<le> vh_reservedThrough (pod s i) \<and>
    r \<in> set (resAt (vh_blocks (pod s i)) index) \<and> vh_distance (pod s i) < blockRelease (vh_blocks (pod s i)) index r"

lemma occupies_guard:
  assumes ok: "track_ok s" and occ: "occupies s i index r"
  shows "retains s i r \<and> guard s i r"
proof -
  have i: "i < fleetSize s" using occ by (simp add: occupies_def)
  have "cover (pod s i)" using track_okD(4) [OF ok i] occ by (simp add: pod_ok_def onTrack_def occupies_def)
  then obtain a where "retention s i r = Some a" "blockRelease (vh_blocks (pod s i)) index r \<le> a"
    using occ unfolding cover_def occupies_def by blast
  then have "retains s i r" using occ unfolding retains_def occupies_def by fastforce
  then show ?thesis using guardedD [OF track_okD(3) [OF ok] i] by blast
qed

lemma occupies_platoon:
  assumes ok: "track_ok s" and "occupies s i p r" and "occupies s j q r"
  shows "i = j \<or> j \<in> set (leaders s i) \<or> i \<in> set (leaders s j)"
proof -
  note ids = track_okD(1) [OF ok] and w = track_okD(2) [OF ok]
  have ij: "i < fleetSize s" "j < fleetSize s" using assms(2,3) by (simp_all add: occupies_def)
  obtain k where k: "k < fleetSize s" "(i, k) \<in> (ahead s)\<^sup>=" "owns s k r"
    using occupies_guard [OF ok assms(2)] by (auto simp: guard_def)
  obtain l where l: "l < fleetSize s" "(j, l) \<in> (ahead s)\<^sup>=" "owns s l r"
    using occupies_guard [OF ok assms(3)] by (auto simp: guard_def)
  have "k = l" by (rule owns_unique [OF ids k(1) l(1) k(3) l(3)])
  then show ?thesis using ahead_linear [OF w k(2)] l(2) set_leaders [OF w] ij by auto
qed

end
