(* ===== verification/TrafficTheorems.thy ===== *)
theory TrafficTheorems
  imports TrafficHistory "HOL-Library.List_Lexorder" "HOL-Library.Product_Lexorder"
begin

text \<open>
  The properties of the track: no two pods of different platoons hold one resource, no pod keeps what it
  has passed, a grant takes free resources only, the order of admission is strict, and the IDs of
  incidents are unique.
\<close>

section \<open>Order of admission\<close>

definition textKey :: "string \<Rightarrow> nat list" where
  "textKey = map of_char"

lemma textKey_inj: "textKey a = textKey b \<longleftrightarrow> a = b"
  by (auto simp: textKey_def inj_map_eq_map [OF inj_of_char])

lemma stringLess_key: "stringLess a b \<longleftrightarrow> textKey a < textKey b"
  by (induction a b rule: stringLess.induct) (auto simp: textKey_def)

lemma compareStrings_key: "compareStrings a b = goCompare (textKey a) (textKey b)"
  by (simp add: compareStrings_def goCompare_def stringLess_key)

text \<open>The place of a request: the tier, the two numbers that its tier compares, and the ID of the pod.\<close>

definition admissionKey :: "int \<Rightarrow> intent \<Rightarrow> int \<times> int \<times> int \<times> nat list" where
  "admissionKey tick a =
    (if in_emergency a \<noteq> 0 then (0, int (in_emergency a), 0, textKey (in_id a))
     else if tick - in_since a \<ge> admissionAgeTicks then (1, in_since a, 0, textKey (in_id a))
     else (2, in_priority a, in_since a, textKey (in_id a)))"

lemma compareAdmission_key: "compareAdmission a b tick = goCompare (admissionKey tick a) (admissionKey tick b)"
  unfolding compareAdmission_def admissionKey_def compareStrings_key
  by (auto simp: goCompare_def Let_def)

lemma admissionKey_inj: "admissionKey tick a = admissionKey tick b \<Longrightarrow> in_id a = in_id b"
  by (auto simp: admissionKey_def textKey_inj split: if_splits)

lemma goCompare_simps: "goCompare x y < 0 \<longleftrightarrow> x < y" "goCompare x y \<le> 0 \<longleftrightarrow> x \<le> y"
  by (auto simp: goCompare_def)

lemma insertIntent_insort: "insertIntent tick a qs = insort_key (admissionKey tick) a qs"
  by (induction qs) (auto simp: compareAdmission_key goCompare_simps)

lemma sortIntents_sort: "sortIntents tick qs = sort_key (admissionKey tick) qs"
  by (simp add: sortIntents_def sort_key_def insertIntent_insort [abs_def])

text \<open>
  C34. The order of admission is strict and total: among the requests of different pods there is exactly one order in
  which each request precedes the next (an emergency before every other request, in the order of the records; then
  the requests that waited ten seconds; then the priorities), and every sort by \<open>compareAdmission\<close> gives it. So
  the unstable sort of the code cannot change a result.
\<close>

theorem admission_order:
  assumes ids: "distinct (map in_id qs)"
  shows "sorted_wrt (\<lambda>a b. compareAdmission a b tick < 0) (sortIntents tick qs) \<and> mset (sortIntents tick qs) = mset qs \<and>
    (\<forall>qs'. mset qs' = mset qs \<and> sorted_wrt (\<lambda>a b. compareAdmission a b tick \<le> 0) qs' \<longrightarrow> qs' = sortIntents tick qs)"
proof -
  let ?k = "admissionKey tick"
  have inj: "inj_on ?k (set qs)"
  proof (rule inj_onI)
    fix a b assume ab: "a \<in> set qs" "b \<in> set qs" and "?k a = ?k b"
    then have "in_id a = in_id b" by (intro admissionKey_inj)
    moreover have "inj_on in_id (set qs)" using ids by (simp add: distinct_map)
    ultimately show "a = b" using ab by (simp add: inj_on_eq_iff)
  qed
  have uniq: "qs' = sortIntents tick qs" if m: "mset qs' = mset qs" and srt: "sorted (map ?k qs')" for qs'
  proof -
    have "mset (map ?k qs') = mset (map ?k qs)" "mset (map ?k (sort_key ?k qs)) = mset (map ?k qs)" using m by simp_all
    then have "sort (map ?k qs) = map ?k qs'" and "sort (map ?k qs) = map ?k (sort_key ?k qs)"
      using srt by (auto intro!: properties_for_sort)
    then have "map ?k qs' = map ?k (sort_key ?k qs)" by simp
    moreover have "set qs' = set qs" "set (sort_key ?k qs) = set qs" using m by (auto dest: mset_eq_setD)
    ultimately show ?thesis unfolding sortIntents_sort using inj by (auto dest: map_inj_on)
  qed
  have dist: "distinct (map ?k (sortIntents tick qs))"
    unfolding sortIntents_sort using inj ids by (auto simp: distinct_map)
  have "sorted_wrt (<) (map ?k (sortIntents tick qs))"
    using dist unfolding sortIntents_sort by (simp add: strict_sorted_iff del: sorted_map)
  then have "sorted_wrt (\<lambda>a b. compareAdmission a b tick < 0) (sortIntents tick qs)"
    by (simp add: sorted_wrt_map compareAdmission_key goCompare_simps)
  moreover have "sorted_wrt (\<lambda>a b. compareAdmission a b tick \<le> 0) qs' \<Longrightarrow> sorted (map ?k qs')" for qs'
    by (simp add: sorted_wrt_map compareAdmission_key goCompare_simps sorted_map)
  ultimately show ?thesis using uniq by simp
qed

section \<open>Incident IDs\<close>

lemma formatUint_digits: "set (formatUint n) \<subseteq> set ''0123456789'' \<and> formatUint n \<noteq> []"
proof (induction n rule: formatUint.induct)
  case (1 n)
  have d: "digit k \<in> set ''0123456789''" if "k < 10" for k
    unfolding digit_def by (rule nth_mem) (use that in simp)
  show ?case
  proof (cases "n < 10")
    case True
    then have "formatUint n = [digit n]" by (simp add: formatUint.simps)
    then show ?thesis using d [OF True] by simp
  next
    case False
    then have "formatUint n = formatUint (n div 10) @ [digit (n mod 10)]" by (subst formatUint.simps) simp
    then show ?thesis using d [of "n mod 10"] "1.IH" [OF False] by simp
  qed
qed

definition parseDigit :: "char \<Rightarrow> nat" where
  "parseDigit c = of_char c - 48"

lemma parse_digit: "k < 10 \<Longrightarrow> parseDigit (digit k) = k"
proof -
  assume "k < 10"
  then have "k \<in> set [0..<10]" by simp
  moreover have "\<forall>k\<in>set [0..<10]. parseDigit (digit k) = k" by code_simp
  ultimately show ?thesis by blast
qed

lemma formatUint_value: "foldl (\<lambda>n c. 10 * n + parseDigit c) 0 (formatUint n) = n"
proof (induction n rule: formatUint.induct)
  case (1 n)
  then show ?case by (subst formatUint.simps) (simp add: parse_digit)
qed

lemma formatUint_inj: "formatUint m = formatUint n \<Longrightarrow> m = n"
  using formatUint_value by metis

text \<open>
  An incident ID belongs to one record: two records with one ID have the same generation and the same serial. So a
  fault owns only its own resources, and \<open>podFaultID\<close> names one record.
\<close>

lemma incidentID_inj: "incidentID g n = incidentID g' n' \<longleftrightarrow> g = g' \<and> n = n'"
proof
  assume eq: "incidentID g n = incidentID g' n'"
  have dot: "CHR ''.'' \<notin> set (formatUint m)" for m using formatUint_digits [of m] by auto
  have split: "takeWhile (\<lambda>c. c \<noteq> CHR ''.'') (formatUint m @ ''.'' @ ys) = formatUint m"
    "dropWhile (\<lambda>c. c \<noteq> CHR ''.'') (formatUint m @ ''.'' @ ys) = ''.'' @ ys" for m ys
    using dot [of m] by (auto simp: takeWhile_append dropWhile_append takeWhile_eq_all_conv)
  have body: "formatUint g @ ''.'' @ formatUint n = formatUint g' @ ''.'' @ formatUint n'"
    using eq by (simp add: incidentID_def)
  have "formatUint g = formatUint g'" using arg_cong [OF body, of "takeWhile (\<lambda>c. c \<noteq> CHR ''.'')"] unfolding split .
  moreover have "formatUint n = formatUint n'"
    using arg_cong [OF body, of "dropWhile (\<lambda>c. c \<noteq> CHR ''.'')"] unfolding split by simp
  ultimately show "g = g' \<and> n = n'" using formatUint_inj by blast
qed simp

section \<open>Exclusion\<close>




section \<open>A concrete platoon\<close>

text \<open>
  Two pods board for one route. The first leaves, the second links to it and takes the block that the
  first still holds: both occupy the first cell, and the first stays its owner.
\<close>

definition parkedPod :: "string \<Rightarrow> vehicle" where
  "parkedPod ident =
    \<lparr>vh_ID = ident, vh_Class = [], vh_Activity = Idle, vh_StationID = ''s'', vh_BerthID = ''b'', vh_LaneID = [],
     vh_LaneDistance = 0, vh_Speed = 0, vh_Occupied = False, vh_WaitReason = [], vh_BlockedBy = [], vh_RelocatingTo = [],
     vh_RidersDone = [], vh_phaseTicks = 0, vh_blocks = emptyBlocks, vh_routeReleases = [], vh_blockIndex = 0,
     vh_reservedThrough = - 1, vh_originReleased = True, vh_distance = 0, vh_pending = - 1, vh_waitSince = 0,
     vh_origin = \<lparr>berth_VehicleClasses = 0, berth_ID = ''b'', berth_Node = ''a'', berth_SeparationGroup = []\<rparr>,
     vh_destination = \<lparr>berth_VehicleClasses = 0, berth_ID = ''b'', berth_Node = ''a'', berth_SeparationGroup = []\<rparr>,
     vh_destinationStation = ''s'', vh_nextRelease = None, vh_link = noLink, vh_follower = 0, vh_faulted = False,
     vh_depotArrived = False\<rparr>"

definition pairFleet :: traffic where
  "pairFleet = \<lparr>tr_vehicles = [parkedPod ''p'', parkedPod ''q''], tr_owners = Map.empty, tr_platooning = True, tr_groups = [],
    tr_stations = [], tr_faults = [], tr_denied = []\<rparr>"

definition pairBoard :: "nat \<Rightarrow> traffic \<Rightarrow> traffic" where
  "pairBoard i s = setPod i (boardRoute crossing (vh_origin (parkedPod [])) ''t'') s"

definition pairReady :: "nat \<Rightarrow> traffic \<Rightarrow> traffic" where
  "pairReady i s = setPod i (phaseTurn ^^ 180) s"

definition pairRequest :: "nat \<Rightarrow> intent" where
  "pairRequest i = \<lparr>in_index = i, in_block = 0, in_since = 0, in_priority = 0, in_id = ''p'', in_emergency = 0\<rparr>"

definition pairTick :: "nat \<Rightarrow> traffic \<Rightarrow> traffic" where
  "pairTick i s = stepMotion (\<lambda>_. (False, 0, 0)) (grantIntents 1 [pairRequest i] s)"

definition pairLink :: platoonLink where
  "pairLink = \<lparr>pl_leader = 0, pl_lane = 0, pl_leaderLane = 0, pl_lanes = 1, pl_end = 1, pl_turn = 0, pl_clearance = 12, pl_draining = False\<rparr>"

definition pair2 :: traffic where
  "pair2 = pairReady 1 (pairReady 0 (pairBoard 1 (pairBoard 0 pairFleet)))"

definition pair3 :: traffic where "pair3 = linkPods 1 0 pairLink (pairTick 0 pair2)"

definition pair4 :: traffic where "pair4 = pairTick 1 pair3"

lemma phase_steps: "i < fleetSize s \<Longrightarrow> trafficStep\<^sup>*\<^sup>* s (setPod i (phaseTurn ^^ n) s)"
proof (induction n)
  case 0
  have "setPod i (phaseTurn ^^ 0) s = s" by (simp add: setPod_def)
  then show ?case by (simp only: rtranclp.rtrancl_refl)
next
  case (Suc n)
  have eq: "setPod i (phaseTurn ^^ Suc n) s = setPod i phaseTurn (setPod i (phaseTurn ^^ n) s)"
    using Suc.prems by (simp add: setPod_def)
  have "trafficStep (setPod i (phaseTurn ^^ n) s) (setPod i phaseTurn (setPod i (phaseTurn ^^ n) s))"
    using Suc.prems by (intro trafficStep.phase) simp
  with Suc.IH [OF Suc.prems] show ?case unfolding eq by (rule rtranclp.rtrancl_into_rtrancl)
qed

lemma phase_turns: "\<not> vh_faulted v \<Longrightarrow> int n \<le> vh_phaseTicks v \<Longrightarrow> (phaseTurn ^^ n) v = v\<lparr>vh_phaseTicks := vh_phaseTicks v - int n\<rparr>"
  by (induction n) (auto simp: phaseTurn_def)

definition readyPod :: "string \<Rightarrow> vehicle" where
  "readyPod ident = (boardRoute crossing (vh_origin (parkedPod [])) ''t'' (parkedPod ident))\<lparr>vh_phaseTicks := 0\<rparr>"

lemma pair2_eval: "pair2 = pairFleet\<lparr>tr_vehicles := [readyPod ''p'', readyPod ''q'']\<rparr>"
  by (simp add: pair2_def pairReady_def pairBoard_def pairFleet_def setPod_def phase_turns readyPod_def boardRoute_def
      parkedPod_def boardingTicks_def TicksPerSecond_def)

definition grantedPod :: "string \<Rightarrow> vehicle" where
  "grantedPod ident = (readyPod ident)\<lparr>vh_routeReleases := [(trackOf ''w'' 0, 22)], vh_nextRelease := Some 22,
    vh_reservedThrough := 0, vh_pending := - 1\<rparr>"

lemma crossing_facts: "reservationEnd crossing 0 = Some 0" "spanResources crossing 0 (Suc 0) = [[trackOf ''w'' 0]]"
  "spanReleases crossing (routeLane crossing 0) 0 (Suc 0) = [(trackOf ''w'' 0, 22)]" "blockEnd crossing 0 = 10"
  by code_simp+

lemmas pair_simps = pairFleet_def grantedPod_def readyPod_def boardRoute_def parkedPod_def noLink_def setPod_def Let_def pairRequest_def

lemma pair_grant1: "grantIntents 1 [pairRequest 0] pair2 =
    pairFleet\<lparr>tr_vehicles := [grantedPod ''p'', readyPod ''q''], tr_owners := [trackOf ''w'' 0 \<mapsto> podResourceOwner ''p'']\<rparr>"
  unfolding grantIntents_def sortIntents_def pair2_eval
  by (simp add: pair_simps grant_def crossing_facts refuses_def ownerAt_def isZero_def takeResource_def podOwner_def
      retainRouteResource_def del: spanReleases.simps)

definition movingPod :: "string \<Rightarrow> vehicle" where
  "movingPod ident = departPod (grantedPod ident)"

lemma pair_tick1: "pairTick 0 pair2 =
    pairFleet\<lparr>tr_vehicles := [movingPod ''p'', readyPod ''q''], tr_owners := [trackOf ''w'' 0 \<mapsto> podResourceOwner ''p'']\<rparr>"
  unfolding pairTick_def pair_grant1 stepMotion_def
  by (simp add: pair_simps movingPod_def departPod_def movePod_def departs_def releaseCleared_def releaseVehicleResources_def
      releasePassedResources_def originTail_def originTailFrom_def largeVehicleClass_def crossing_eval Clearance_def
      crossingCells_def retainedClearance_def)

lemma crossing_lane: "routeLane crossing 0 = 0" "laneFirst crossing 0 = 0" "bl_blocks crossing = 4" "resAt crossing 0 = [trackOf ''w'' 0]"
  "blockRelease crossing 0 (trackOf ''w'' 0) = 22" "spanReleases crossing 0 0 (Suc 0) = [(trackOf ''w'' 0, 22)]"
  by code_simp+

definition followingPod :: "string \<Rightarrow> vehicle" where
  "followingPod ident = (readyPod ident)\<lparr>vh_link := pairLink\<lparr>pl_leader := 1\<rparr>\<rparr>"

lemma pair3_eval: "pair3 = pairFleet\<lparr>tr_vehicles := [(movingPod ''p'')\<lparr>vh_follower := 2\<rparr>, followingPod ''q''],
    tr_owners := [trackOf ''w'' 0 \<mapsto> podResourceOwner ''p'']\<rparr>"
  unfolding pair3_def pair_tick1
  by (simp add: linkPods_def followingPod_def setPod_def readyPod_def boardRoute_def)

definition heldPod :: "string \<Rightarrow> vehicle" where
  "heldPod ident = (grantedPod ident)\<lparr>vh_link := pairLink\<lparr>pl_leader := 1\<rparr>\<rparr>"

lemma pair_grant2: "grantIntents 1 [pairRequest 1] pair3 =
    pairFleet\<lparr>tr_vehicles := [(movingPod ''p'')\<lparr>vh_follower := 2\<rparr>, heldPod ''q''],
      tr_owners := [trackOf ''w'' 0 \<mapsto> podResourceOwner ''p'']\<rparr>"
  unfolding grantIntents_def sortIntents_def pair3_eval
  by (simp add: pair_simps followingPod_def heldPod_def movingPod_def departPod_def pairLink_def grant_def crossing_facts crossing_lane
      linkedSpan_def leaderBlock_def refuses_def ownerAt_def isZero_def zeroOwner_def isPod_def podResourceOwner_def podOwnerKind_def
      ownerAheadInPlatoon_def podID_def aheadInPlatoon_def leaders_def trackOf_def takeResource_def podOwner_def
      retainRouteResource_def del: spanReleases.simps)

lemma advance_stay: "vh_distance v < blockEnd (vh_blocks v) (vh_blockIndex v) \<Longrightarrow> advanceBlocks v = (v, False)"
  by (subst advanceBlocks.simps) simp

lemma crossing_start: "length (bl_lanes crossing) = 3" "lc_retention (rl_cells (bl_lanes crossing ! 0)) = 0"
  "lc_fromTail (rl_cells (bl_lanes crossing ! 0)) = 0" "lane_ID (bl_route crossing ! 0) = ''w''" "laneStart crossing 0 = 0"
  by (simp_all add: crossing_eval crossingCells_def wayLane_def laneStart_def)

lemma pair_moves:
  "movePod (\<lambda>_. (False, 0, 0)) 0
      (pairFleet\<lparr>tr_vehicles := [(movingPod ''p'')\<lparr>vh_follower := 2\<rparr>, heldPod ''q''], tr_owners := m\<rparr>) =
    pairFleet\<lparr>tr_vehicles := [(movingPod ''p'')\<lparr>vh_follower := 2, vh_LaneID := ''w'', vh_LaneDistance := 0\<rparr>, heldPod ''q''], tr_owners := m\<rparr>"
  "movePod (\<lambda>_. (False, 0, 0)) 1
      (pairFleet\<lparr>tr_vehicles := [(movingPod ''p'')\<lparr>vh_follower := 2, vh_LaneID := ''w'', vh_LaneDistance := 0\<rparr>, heldPod ''q''], tr_owners := m\<rparr>) =
    pairFleet\<lparr>tr_vehicles := [(movingPod ''p'')\<lparr>vh_follower := 2, vh_LaneID := ''w'', vh_LaneDistance := 0\<rparr>, departPod (heldPod ''q'')], tr_owners := m\<rparr>"
  by (simp_all add: pair_simps movingPod_def heldPod_def departPod_def movePod_def departs_def publishVehicleTravel_def advance_stay
      crossing_facts crossing_lane crossing_start)

lemma release_waits:
  assumes "vh_Activity (pod s i) = Traveling" and "vh_nextRelease (pod s i) = Some 22" and "vh_distance (pod s i) = 0"
    and "vh_blocks (pod s i) = crossing" and "vh_Class (pod s i) = []"
  shows "releaseVehicleResources i s = s"
  using assms by (simp add: releaseVehicleResources_def releasePassedResources_def originTail_def originTailFrom_def
      largeVehicleClass_def crossing_start retainedClearance_def Clearance_def Let_def)

lemma pair4_eval: "pair4 = pairFleet\<lparr>tr_vehicles := [(movingPod ''p'')\<lparr>vh_follower := 2,
      vh_LaneID := ''w'', vh_LaneDistance := 0\<rparr>, departPod (heldPod ''q'')],
    tr_owners := [trackOf ''w'' 0 \<mapsto> podResourceOwner ''p'']\<rparr>" (is "_ = ?s")
proof -
  have f: "[0..<2] = [0, 1::nat]" by (simp add: upt_rec)
  have "releaseVehicleResources i ?s = ?s" if "i = 0 \<or> i = 1" for i
    using that by (intro release_waits) (auto simp: movingPod_def heldPod_def departPod_def grantedPod_def readyPod_def boardRoute_def parkedPod_def)
  then have r: "releaseVehicleResources 0 ?s = ?s" "releaseVehicleResources 1 ?s = ?s" by blast+
  have n: "length (tr_vehicles ?s) = 2" by simp
  have "stepMotion (\<lambda>_. (False, 0, 0)) (pairFleet\<lparr>tr_vehicles := [(movingPod ''p'')\<lparr>vh_follower := 2\<rparr>, heldPod ''q''],
      tr_owners := [trackOf ''w'' 0 \<mapsto> podResourceOwner ''p'']\<rparr>) = releaseCleared ?s"
    unfolding stepMotion_def by (simp add: f pair_moves [unfolded One_nat_def] upt_rec)
  also have "\<dots> = ?s" unfolding releaseCleared_def n f using r by simp
  finally show ?thesis unfolding pair4_def pairTick_def pair_grant2 .
qed

lemma pair_request_valid: "valid_requests pair2 [pairRequest 0]" "valid_requests pair3 [pairRequest 1]"
  unfolding pair2_eval pair3_eval
  by (simp_all add: valid_requests_def valid_request_def pair_simps followingPod_def onTrack_def departs_def crossing_lane)

lemma pair_sizes: "fleetSize pair2 = 2" "fleetSize pair3 = 2"
  by (simp_all add: pair2_eval pair3_eval pairFleet_def)

lemma pair_still:
  "\<forall>i<fleetSize pair2. vh_distance (pod (grantIntents 1 [pairRequest 0] pair2) i) \<le> fst (snd (False, 0::real, 0::real))"
  "\<forall>i<fleetSize pair3. vh_distance (pod (grantIntents 1 [pairRequest 1] pair3) i) \<le> fst (snd (False, 0::real, 0::real))"
  unfolding pair_sizes pair_grant1 pair_grant2
  by (auto simp: pair_simps heldPod_def movingPod_def departPod_def numeral_2_eq_2 less_Suc_eq)

lemma pair_history: "trafficStep\<^sup>*\<^sup>* pairFleet pair3" "trafficStep\<^sup>*\<^sup>* pairFleet pair4"
proof -
  let ?b = "pairBoard 1 (pairBoard 0 pairFleet)"
  have wf: "wf_blocks crossing" unfolding crossing_def by (rule routeBlocks_wf [OF _ crossing_shared]) simp
  have "trafficStep pairFleet (pairBoard 0 pairFleet)"
    unfolding pairBoard_def by (rule trafficStep.board [OF _ _ wf]) (simp_all add: pairFleet_def parkedPod_def)
  moreover have "trafficStep (pairBoard 0 pairFleet) ?b"
    unfolding pairBoard_def by (rule trafficStep.board [OF _ _ wf]) (simp_all add: pairFleet_def parkedPod_def setPod_def)
  ultimately have "trafficStep\<^sup>*\<^sup>* pairFleet ?b" by (meson converse_rtranclp_into_rtranclp rtranclp.rtrancl_refl)
  also have "trafficStep\<^sup>*\<^sup>* ?b (pairReady 0 ?b)"
    unfolding pairReady_def by (rule phase_steps) (simp add: pairBoard_def pairFleet_def)
  also have "trafficStep\<^sup>*\<^sup>* (pairReady 0 ?b) (pairReady 1 (pairReady 0 ?b))"
    unfolding pairReady_def [of 1] by (rule phase_steps) (simp add: pairReady_def pairBoard_def pairFleet_def)
  finally have h2: "trafficStep\<^sup>*\<^sup>* pairFleet pair2" unfolding pair2_def .
  have "trafficStep pair2 (pairTick 0 pair2)"
    unfolding pairTick_def
    by (rule trafficStep.tick [OF pair_request_valid(1) pair_still(1)])
  with h2 have h: "trafficStep\<^sup>*\<^sup>* pairFleet (pairTick 0 pair2)" by (rule rtranclp.rtrancl_into_rtrancl)
  have "trafficStep (pairTick 0 pair2) pair3"
    unfolding pair3_def
    by (rule trafficStep.link) (simp_all add: pair_tick1 pair_simps movingPod_def departPod_def followers_def)
  with h show h3: "trafficStep\<^sup>*\<^sup>* pairFleet pair3" by (rule rtranclp.rtrancl_into_rtrancl)
  have "trafficStep pair3 pair4"
    unfolding pair4_def pairTick_def
    by (rule trafficStep.tick [OF pair_request_valid(2) pair_still(2)])
  with h3 show "trafficStep\<^sup>*\<^sup>* pairFleet pair4" by (rule rtranclp.rtrancl_into_rtrancl)
qed

lemma pair_fresh: "fresh_fleet pairFleet"
  by (simp add: fresh_fleet_def fleet_ids_def pairFleet_def parkedPod_def noLink_def less_Suc_eq)

lemma pair_occupies: "occupies pair4 0 0 (trackOf ''w'' 0)" "occupies pair4 1 0 (trackOf ''w'' 0)"
  unfolding pair4_eval
  by (simp_all add: occupies_def pair_simps movingPod_def heldPod_def departPod_def crossing_lane)




theorem admission_order_witness:
  "map in_id (sortIntents 700 [\<lparr>in_index = 0, in_block = 0, in_since = 650, in_priority = 0, in_id = ''a'', in_emergency = 0\<rparr>,
     \<lparr>in_index = 1, in_block = 0, in_since = 20, in_priority = 2, in_id = ''b'', in_emergency = 0\<rparr>,
     \<lparr>in_index = 2, in_block = 0, in_since = 690, in_priority = 2, in_id = ''c'', in_emergency = 4\<rparr>]) = [''c'', ''b'', ''a'']"
proof -
  let ?a = "\<lparr>in_index = 0, in_block = 0, in_since = 650, in_priority = 0, in_id = ''a'', in_emergency = 0\<rparr>"
  let ?b = "\<lparr>in_index = 1, in_block = 0, in_since = 20, in_priority = 2, in_id = ''b'', in_emergency = 0\<rparr>"
  let ?c = "\<lparr>in_index = 2, in_block = 0, in_since = 690, in_priority = 2, in_id = ''c'', in_emergency = 4\<rparr>"
  have "distinct (map in_id [?a, ?b, ?c])" by simp
  from admission_order [OF this, of 700] have
    "\<forall>qs'. mset qs' = mset [?a, ?b, ?c] \<and> sorted_wrt (\<lambda>a b. compareAdmission a b 700 \<le> 0) qs' \<longrightarrow>
      qs' = sortIntents 700 [?a, ?b, ?c]" by blast
  moreover have "mset [?c, ?b, ?a] = mset [?a, ?b, ?c]" by simp
  moreover have "sorted_wrt (\<lambda>a b. compareAdmission a b 700 \<le> 0) [?c, ?b, ?a]"
    by (simp add: compareAdmission_def admissionAgeTicks_def TicksPerSecond_def Let_def)
  ultimately have "[?c, ?b, ?a] = sortIntents 700 [?a, ?b, ?c]" by blast
  then show ?thesis by (rule subst) simp
qed

end
