(* ===== verification/PlatoonRuns.thy ===== *)
theory PlatoonRuns
  imports TrackClaims "HOL-Library.List_Lexorder" "HOL-Library.Product_Lexorder" "HOL-Library.Char_ord"
begin

text \<open>
  The run of a platoon link (\<open>internal/sim/platoon.go\<close>): the turns of lanes, the clearance, the lanes
  that two routes share, the planning, the growth and the end of a link, and the caps of the
  followers. What a link reads of the rest of the simulation is a \<open>platoonEnv\<close>: the lane shapes and
  station limits of the network, and the lookups of maneuver groups, depots, emergencies and faults.
  A route is the route of the blocks of the pod, which the code sets together.
\<close>

section \<open>Constants\<close>

definition MinPlatoonLimit :: int where "MinPlatoonLimit = 2"
definition MaxPlatoonLimit :: int where "MaxPlatoonLimit = 4"
definition platoonReactionSeconds :: real where "platoonReactionSeconds = 1 / 2"
definition platoonSlowFraction :: real where "platoonSlowFraction = 1 / 2"
definition platoonHorizon :: real where "platoonHorizon = 300"
definition platoonMaxTurn :: real where "platoonMaxTurn = 2 * pi / 3"
definition platoonTurnSlack :: real where "platoonTurnSlack = 1 / 10 ^ 9"
definition platoonMargin :: real where "platoonMargin = 1 / 100"
definition platoonDrainSlack :: real where "platoonDrainSlack = 1"

section \<open>Turns\<close>

text \<open>\<open>math.Remainder\<close>: the remainder of the nearest multiple, the even one when two are as near.\<close>

definition roundEven :: "real \<Rightarrow> int" where
  "roundEven x =
    (let f = \<lfloor>x\<rfloor>; d = x - real_of_int f in
      if d < 1 / 2 then f else if d > 1 / 2 then f + 1 else if even f then f else f + 1)"

definition mathRemainder :: "real \<Rightarrow> real \<Rightarrow> real" where
  "mathRemainder x y = x - y * real_of_int (roundEven (x / y))"

definition atan2 :: "real \<Rightarrow> real \<Rightarrow> real" where
  "atan2 y x = Arg (Complex x y)"

record laneShape =
  ls_start :: real
  ls_end :: real
  ls_curve :: real
  ls_empty :: bool

record turnSum =
  ts_turn :: real
  ts_heading :: real
  ts_started :: bool

definition zeroTurn :: turnSum where
  "zeroTurn = \<lparr>ts_turn = 0, ts_heading = 0, ts_started = False\<rparr>"

definition turn_add :: "turnSum \<Rightarrow> laneShape \<Rightarrow> turnSum" where
  "turn_add t shape =
    (if ls_empty shape then t
     else
       let turn = (if ts_started t then ts_turn t + \<bar>mathRemainder (ls_start shape - ts_heading t) (2 * pi)\<bar> else ts_turn t)
       in \<lparr>ts_turn = turn + ls_curve shape, ts_heading = ls_end shape, ts_started = True\<rparr>)"

text \<open>One more point of a lane: the shape so far and the point before it.\<close>

fun shapeLoop :: "real \<times> real \<Rightarrow> (real \<times> real) list \<Rightarrow> laneShape \<Rightarrow> laneShape" where
  "shapeLoop p [] shape = shape"
| "shapeLoop p (q # rest) shape =
    (let dx = fst q - fst p; dy = snd q - snd p in
      if dx = 0 \<and> dy = 0 then shapeLoop q rest shape
      else
        let heading = atan2 dy dx;
            shape' = (if ls_empty shape then shape\<lparr>ls_start := heading, ls_empty := False\<rparr>
              else shape\<lparr>ls_curve := ls_curve shape + \<bar>mathRemainder (heading - ls_end shape) (2 * pi)\<bar>\<rparr>)
        in shapeLoop q rest (shape'\<lparr>ls_end := heading\<rparr>))"

definition emptyShape :: laneShape where
  "emptyShape = \<lparr>ls_start = 0, ls_end = 0, ls_curve = 0, ls_empty = True\<rparr>"

definition newLaneShape :: "(real \<times> real) list \<Rightarrow> laneShape" where
  "newLaneShape points = (case points of [] \<Rightarrow> emptyShape | p # rest \<Rightarrow> shapeLoop p rest emptyShape)"

definition linkClearance :: "real \<Rightarrow> real" where
  "linkClearance turn = Clearance / cos (turn / 2) + platoonMargin"

section \<open>What a link reads\<close>

record platoonEnv =
  pe_shapes :: "string \<rightharpoonup> laneShape"
  pe_stationLimits :: "string \<rightharpoonup> real \<times> real"
  pe_groupLane :: "string \<Rightarrow> bool"
  pe_depotLane :: "string \<Rightarrow> bool"
  pe_emergency :: "nat \<Rightarrow> bool"
  pe_blocked :: "Lane list \<Rightarrow> bool"
  pe_platoonLimit :: int

definition shapeOf :: "platoonEnv \<Rightarrow> string \<Rightarrow> laneShape" where
  "shapeOf env i = (case pe_shapes env i of Some shape \<Rightarrow> shape
    | None \<Rightarrow> \<lparr>ls_start = 0, ls_end = 0, ls_curve = 0, ls_empty = False\<rparr>)"

abbreviation vRoute :: "vehicle \<Rightarrow> Lane list" where
  "vRoute v \<equiv> bl_route (vh_blocks v)"

definition currentLane :: "vehicle \<Rightarrow> nat" where
  "currentLane v = routeLane (vh_blocks v) (vh_blockIndex v)"

definition runTurn :: "platoonEnv \<Rightarrow> Lane list \<Rightarrow> nat \<Rightarrow> nat \<Rightarrow> real" where
  "runTurn env route from to =
    ts_turn (foldl turn_add zeroTurn (map (\<lambda>lane. shapeOf env (lane_ID lane)) (drop from (take (to + 1) route))))"

text \<open>\<open>Simulation.station\<close> answers as \<open>Network.Station\<close>; the zero station has no entry.\<close>

definition stationOf :: "traffic \<Rightarrow> string \<Rightarrow> Station option" where
  "stationOf s i = find (\<lambda>station. st_ID station = i) (tr_stations s)"

definition entryNode :: "traffic \<Rightarrow> string \<Rightarrow> string \<Rightarrow> bool" where
  "entryNode s station node = (case stationOf s station of None \<Rightarrow> node = [] | Some st \<Rightarrow> isEntry st node)"

section \<open>The end of a run\<close>

definition lastRunLane :: "platoonLink \<Rightarrow> nat" where
  "lastRunLane link = pl_lane link + pl_lanes link - 1"

definition runGeometry :: "blockList \<Rightarrow> platoonLink \<Rightarrow> real" where
  "runGeometry blocks link =
    (let terminal = lastRunLane link in
      cellEnd blocks terminal (laneFirst blocks (terminal + 1) - 1 - laneFirst blocks terminal))"

definition cellShared :: "traffic \<Rightarrow> vehicle \<Rightarrow> real \<Rightarrow> nat \<Rightarrow> nat \<Rightarrow> bool" where
  "cellShared s v geometry lane index =
    (\<not> list_ex (\<lambda>r. releaseDistance r (blockInput (vh_blocks v) lane index) + platoonDrainSlack > geometry \<or>
        res_kind r = nodeResource \<and> entryNode s (vh_destinationStation v) (res_id r))
      (cellAt (vh_blocks v) lane index))"

text \<open>The cells of the run with their lanes, in route order.\<close>

definition runCells :: "blockList \<Rightarrow> platoonLink \<Rightarrow> (nat \<times> nat) list" where
  "runCells blocks link =
    concat (map (\<lambda>lane. map (\<lambda>index. (lane, index)) [laneFirst blocks lane..<laneFirst blocks (lane + 1)])
      [pl_lane link..<pl_lane link + pl_lanes link])"

fun linkEndLoop :: "(nat \<times> nat \<Rightarrow> bool) \<Rightarrow> (nat \<times> nat) list \<Rightarrow> int \<Rightarrow> int" where
  "linkEndLoop shared [] end = end"
| "linkEndLoop shared (cell # rest) end = (if shared cell then linkEndLoop shared rest (int (snd cell)) else end)"

definition linkEnds :: "traffic \<Rightarrow> vehicle \<Rightarrow> platoonLink \<Rightarrow> real \<times> int" where
  "linkEnds s v link =
    (let geometry = runGeometry (vh_blocks v) link in
      (geometry, linkEndLoop (\<lambda>(lane, index). cellShared s v geometry lane index) (runCells (vh_blocks v) link) (- 1)))"

section \<open>Shared lanes\<close>

definition sharedLane :: "platoonEnv \<Rightarrow> traffic \<Rightarrow> vehicle \<Rightarrow> vehicle \<Rightarrow> nat \<Rightarrow> nat \<Rightarrow> bool" where
  "sharedLane env s v leader lane leaderLane =
    (if lane + 1 \<ge> length (vRoute v) \<or> leaderLane + 1 \<ge> length (vRoute leader) then False
     else
       let current = vRoute v ! lane in
       if lane_ID current \<noteq> lane_ID (vRoute leader ! leaderLane) \<or> lane_StationRole current = StationBerthAccessRole \<or>
         pe_groupLane env (lane_ID current) \<or> pe_depotLane env (lane_ID current)
       then False
       else if list_ex (\<lambda>p. case stationOf s (vh_destinationStation p) of
           None \<Rightarrow> False | Some station \<Rightarrow> isEntry station (lane_From current)) [v, leader]
       then False
       else lane_StationRole current \<noteq> StationEntryRole \<or>
         vh_destinationStation v = vh_destinationStation leader \<and> lane_StationID current = vh_destinationStation v)"

fun entryTurnLoop :: "platoonEnv \<Rightarrow> vehicle \<Rightarrow> nat \<Rightarrow> nat list \<Rightarrow> real" where
  "entryTurnLoop env v from [] = 0"
| "entryTurnLoop env v from (index # rest) =
    (if index > from \<and> laneStart (vh_blocks v) index - vh_distance v > platoonHorizon then 0
     else if lane_StationRole (vRoute v ! index) = StationEntryRole \<and>
       lane_StationID (vRoute v ! index) = vh_destinationStation v
     then let turn = runTurn env (vRoute v) from index in if turn \<le> platoonMaxTurn then turn else 0
     else entryTurnLoop env v from rest)"

definition entryRunTurn :: "platoonEnv \<Rightarrow> vehicle \<Rightarrow> nat \<Rightarrow> real" where
  "entryRunTurn env v from = entryTurnLoop env v from [from..<length (vRoute v)]"

text \<open>\<open>through\<close> is not defined only for a block after the route (\<open>reservationEnd_zone\<close>).\<close>

definition entryRequest :: "vehicle \<Rightarrow> int \<Rightarrow> bool" where
  "entryRequest v linkEnd =
    (let next = vh_reservedThrough v + 1 in
      if next \<ge> int (bl_blocks (vh_blocks v)) then False
      else case reservationEnd (vh_blocks v) (nat next) of
        None \<Rightarrow> False
      | Some through \<Rightarrow>
          if int through \<le> linkEnd then False
          else
            let lane = vRoute v ! routeLane (vh_blocks v) through in
            lane_StationRole lane = StationEntryRole \<and> lane_StationID lane = vh_destinationStation v)"

definition canLink :: "traffic \<Rightarrow> vehicle \<Rightarrow> bool" where
  "canLink s v =
    (if vh_faulted v \<or> largeVehicleClass (vh_Class v) then False
     else tr_platooning s \<and> vh_Speed v < platoonSlowFraction * speedLimit (vh_blocks v) (currentLane v))"

definition platoonSize :: "traffic \<Rightarrow> nat \<Rightarrow> nat \<Rightarrow> nat" where
  "platoonSize s i leader = 2 + length (leaders s leader) + length (followers s i)"

definition oneSpeedLimit :: "platoonEnv \<Rightarrow> vehicle \<Rightarrow> nat \<Rightarrow> real \<Rightarrow> bool" where
  "oneSpeedLimit env v from limit =
    (list_all (\<lambda>k. speedLimit (vh_blocks v) k = limit) [from..<length (vRoute v)] \<and>
     (case pe_stationLimits env (vh_destinationStation v) of None \<Rightarrow> True | Some limits \<Rightarrow> limits = (limit, limit)))"

definition leaderPosition :: "vehicle \<Rightarrow> vehicle \<Rightarrow> platoonLink \<Rightarrow> real" where
  "leaderPosition v leader link =
    (let leaderLane = min (max (currentLane leader) (pl_leaderLane link)) (pl_leaderLane link + pl_lanes link - 1);
         lane = pl_lane link + leaderLane - pl_leaderLane link
     in laneStart (vh_blocks v) lane + vh_distance leader - laneStart (vh_blocks leader) leaderLane)"

section \<open>A new link\<close>

definition turnBound :: "real \<Rightarrow> bool \<Rightarrow> real" where
  "turnBound turn fixed = (if fixed then turn + platoonTurnSlack else platoonMaxTurn)"

text \<open>The lanes of the run that \<open>planLink\<close> collects, with their turn.\<close>

function planLanes ::
  "platoonEnv \<Rightarrow> traffic \<Rightarrow> vehicle \<Rightarrow> vehicle \<Rightarrow> nat \<Rightarrow> nat \<Rightarrow> real \<Rightarrow> nat \<Rightarrow> turnSum \<Rightarrow> nat \<times> turnSum" where
  "planLanes env s v leader lane leaderLane bound lanes acc =
    (if \<not> sharedLane env s v leader (lane + lanes) (leaderLane + lanes) then (lanes, acc)
     else if lanes > 1 \<and> laneStart (vh_blocks v) (lane + lanes) - vh_distance v > platoonHorizon then (lanes, acc)
     else
       let next_sum = turn_add acc (shapeOf env (lane_ID (vRoute v ! (lane + lanes)))) in
       if ts_turn next_sum > bound then (lanes, acc)
       else planLanes env s v leader lane leaderLane bound (lanes + 1) next_sum)"
  by pat_completeness auto
termination
  by (relation "measure (\<lambda>(env, s, v, leader, lane, leaderLane, bound, lanes, acc). length (vRoute v) - (lane + lanes))")
    (auto simp: sharedLane_def split: if_splits)

declare planLanes.simps [simp del]

definition planLink ::
  "platoonEnv \<Rightarrow> traffic \<Rightarrow> vehicle \<Rightarrow> vehicle \<Rightarrow> nat \<Rightarrow> nat \<Rightarrow> real \<Rightarrow> bool \<Rightarrow> platoonLink option" where
  "planLink env s v leader lane leaderLane turn fixed =
    (if largeVehicleClass (vh_Class v) \<or> largeVehicleClass (vh_Class leader) then None
     else if lane_StationRole (vRoute v ! lane) = StationEntryRole then None
     else
       let (lanes, acc) = planLanes env s v leader lane leaderLane (turnBound turn fixed) 0 zeroTurn in
       if lanes = 0 then None
       else
         let t = (if fixed then turn else max (ts_turn acc) (entryRunTurn env v lane));
             link = noLink\<lparr>pl_lane := lane, pl_leaderLane := leaderLane, pl_lanes := lanes, pl_turn := t,
               pl_clearance := linkClearance t\<rparr>;
             link = link\<lparr>pl_end := snd (linkEnds s v link)\<rparr>;
             position = leaderPosition v leader link
         in if pl_end link \<le> vh_reservedThrough v \<or> position - vh_distance v < pl_clearance link \<or>
              vh_distance v + stoppingDistance (vh_Speed v) + pl_clearance link > position + stoppingDistance (vh_Speed leader)
            then None else Some link)"

definition tryLink :: "platoonEnv \<Rightarrow> nat \<Rightarrow> nat \<Rightarrow> traffic \<Rightarrow> traffic" where
  "tryLink env i ahead s =
    (let v = pod s i; leader = pod s ahead in
      if pe_emergency env i \<or> pe_emergency env ahead then s
      else if vh_faulted leader then s
      else if largeVehicleClass (vh_Class v) \<or> largeVehicleClass (vh_Class leader) then s
      else if \<not> canLink s v \<or> vh_follower leader \<noteq> 0 \<or> int (platoonSize s i ahead) > pe_platoonLimit env then s
      else
        let current = currentLane v; limit = speedLimit (vh_blocks v) current; leaderLane = currentLane leader in
        if \<not> oneSpeedLimit env v current limit \<or> \<not> oneSpeedLimit env leader leaderLane limit then s
        else
          let fixed = (pl_leader (vh_link leader) \<noteq> 0);
              turn = (if fixed then pl_turn (vh_link leader) else platoonMaxTurn);
              behind = pl_turn (vh_link (pod s (vh_follower v - 1)))
          in if vh_follower v \<noteq> 0 \<and> fixed \<and> behind \<noteq> turn then s
             else
               let turn' = (if vh_follower v \<noteq> 0 then behind else turn); fixed' = (fixed \<or> vh_follower v \<noteq> 0) in
               case planLink env s v leader current leaderLane turn' fixed' of
                 None \<Rightarrow> s
               | Some link \<Rightarrow>
                   if pe_blocked env (take (pl_lanes link) (drop (pl_lane link) (vRoute v))) then s
                   else if leaderPosition v leader link - vh_distance v \<le> pl_clearance link + stoppingDistance limit
                   then linkPods i ahead link s else s)"

section \<open>The growth and the end of a link\<close>

function extendLoop :: "platoonEnv \<Rightarrow> traffic \<Rightarrow> vehicle \<Rightarrow> vehicle \<Rightarrow> platoonLink \<Rightarrow> platoonLink" where
  "extendLoop env s v leader link =
    (if pl_end link \<ge> 0 \<and>
        (vh_reservedThrough v \<ge> int (laneFirst (vh_blocks v) (routeLane (vh_blocks v) (nat (pl_end link)))) \<or>
         entryRequest v (pl_end link)) then
       let lane = pl_lane link + pl_lanes link; leaderLane = pl_leaderLane link + pl_lanes link in
       if \<not> sharedLane env s v leader lane leaderLane then link
       else if runTurn env (vRoute v) (currentLane v) lane > pl_turn link + platoonTurnSlack then link
       else
         let link' = link\<lparr>pl_lanes := pl_lanes link + 1\<rparr>; end' = snd (linkEnds s v link') in
         extendLoop env s v leader
           (if end' > pl_end link' then link'\<lparr>pl_end := end', pl_draining := False\<rparr> else link')
     else link)"
  by pat_completeness auto
termination
  by (relation "measure (\<lambda>(env, s, v, leader, link). length (vRoute v) - (pl_lane link + pl_lanes link))")
    (auto simp: sharedLane_def Let_def split: if_splits)

declare extendLoop.simps [simp del]

definition setLink :: "nat \<Rightarrow> platoonLink \<Rightarrow> traffic \<Rightarrow> traffic" where
  "setLink i link = setPod i (vh_link_update (\<lambda>_. link))"

text \<open>\<open>ahead\<close> is one plus the index of the nearest pod ahead on the lane, or zero.\<close>

definition maintainLink :: "platoonEnv \<Rightarrow> nat \<Rightarrow> nat \<Rightarrow> traffic \<Rightarrow> traffic" where
  "maintainLink env i ahead s =
    (let v = pod s i; j = pl_leader (vh_link v) - 1; leader = pod s j;
         emergency = (pe_emergency env i \<or> pe_emergency env j);
         link = (if emergency then (vh_link v)\<lparr>pl_draining := True\<rparr> else vh_link v);
         over = (\<not> tr_platooning s \<or> vh_Activity v \<noteq> Traveling \<or> vh_Activity leader \<noteq> Traveling \<or>
           ahead \<noteq> 0 \<and> ahead \<noteq> pl_leader link);
         link' = (if over then link
           else
             let grown = (if emergency then link else extendLoop env s v leader link)
             in grown\<lparr>pl_draining := pl_draining grown \<or> vh_reservedThrough v \<ge> pl_end grown\<rparr>);
         over' = (over \<or> pl_draining link' \<or>
           leaderPosition v leader link' \<ge> runGeometry (vh_blocks v) link' + Clearance);
         s' = setLink i link' s
     in if over' \<and> \<not> holdsPending s' i then unlink i s' else s')"

definition lanePredecessors :: "traffic \<Rightarrow> nat list" where
  "lanePredecessors s =
    (let pods = [0..<length (tr_vehicles s)];
         lanes = map vh_LaneID (filter (\<lambda>v. vh_Activity v = Traveling \<and> vh_LaneID v \<noteq> [] \<and>
           (pl_leader (vh_link v) \<noteq> 0 \<or> canLink s v)) (tr_vehicles s));
         order = sort_key (\<lambda>i. (vh_LaneID (pod s i), - vh_LaneDistance (pod s i), i))
           (filter (\<lambda>i. vh_Activity (pod s i) = Traveling \<and> vh_LaneID (pod s i) \<in> set lanes) pods)
     in fold (\<lambda>k ahead. if vh_LaneID (pod s (order ! k)) = vh_LaneID (pod s (order ! (k - 1)))
          then ahead[order ! k := order ! (k - 1) + 1] else ahead)
        [1..<length order] (replicate (length pods) 0))"

definition formPlatoons :: "platoonEnv \<Rightarrow> traffic \<Rightarrow> traffic" where
  "formPlatoons env s =
    (if \<not> tr_platooning s \<and> list_all (\<lambda>v. pl_leader (vh_link v) = 0) (tr_vehicles s) then s
     else
       let ahead = lanePredecessors s; pods = [0..<length (tr_vehicles s)];
           s1 = fold (\<lambda>i s. if pl_leader (vh_link (pod s i)) \<noteq> 0 then maintainLink env i (ahead ! i) s else s) pods s
       in if \<not> tr_platooning s then s1
          else fold (\<lambda>i s. if pl_leader (vh_link (pod s i)) = 0 \<and> ahead ! i \<noteq> 0 then tryLink env i (ahead ! i - 1) s else s)
            pods s1)"

section \<open>Caps and settings\<close>

text \<open>The cap of a follower; \<open>None\<close> is plus infinity.\<close>

definition platoonCap :: "traffic \<Rightarrow> nat \<Rightarrow> real option" where
  "platoonCap s i =
    (let v = pod s i; leader = pod s (pl_leader (vh_link v) - 1) in
      if vh_Activity leader \<noteq> Traveling then None
      else
        let limit = leaderPosition v leader (vh_link v) + stoppingDistance (vh_Speed leader) - pl_clearance (vh_link v);
            own = vh_distance v + stoppingDistance (vh_Speed v)
        in Some (max (min own limit) (limit - vh_Speed v * platoonReactionSeconds)))"

definition platoonCaps :: "traffic \<Rightarrow> real option list \<Rightarrow> real option list" where
  "platoonCaps s caps =
    map (\<lambda>(i, cap). if pl_leader (vh_link (pod s i)) = 0 then cap else platoonCap s i) (enumerate 0 caps)"

definition inLinkRun :: "traffic \<Rightarrow> nat \<Rightarrow> nat \<Rightarrow> bool" where
  "inLinkRun s i index =
    (let v = pod s i; behind = vh_link (pod s (vh_follower v - 1)) in
      if pl_leader (vh_link v) \<noteq> 0 \<and> index < pl_lane (vh_link v) + pl_lanes (vh_link v) then True
      else if vh_follower v = 0 then False
      else index < pl_leaderLane behind + pl_lanes behind)"

definition linked :: "vehicle \<Rightarrow> bool" where
  "linked v = (pl_leader (vh_link v) \<noteq> 0 \<or> vh_follower v \<noteq> 0)"

definition LinkedPods :: "traffic \<Rightarrow> nat" where
  "LinkedPods s = length (filter (\<lambda>v. vh_Activity v = Traveling \<and> linked v) (tr_vehicles s))"

definition SetPlatoonLimit :: "int \<Rightarrow> platoonEnv \<Rightarrow> platoonEnv option" where
  "SetPlatoonLimit limit env =
    (if limit < MinPlatoonLimit \<or> limit > MaxPlatoonLimit then None else Some (env\<lparr>pe_platoonLimit := limit\<rparr>))"

text \<open>The modes \<open>PlatooningOff\<close> and \<open>PlatooningVirtual\<close> are 0 and 1.\<close>

definition SetPlatooning :: "int \<Rightarrow> traffic \<Rightarrow> traffic option" where
  "SetPlatooning mode s = (if mode < 0 \<or> mode > 1 then None else Some (s\<lparr>tr_platooning := (mode = 1)\<rparr>))"

end
