(* ===== verification/Coast.thy ===== *)
theory Coast
  imports PlatoonRuns
begin

text \<open>
  The coast ceilings (\<open>internal/sim/coast.go\<close>): a pod that waits for the junction of a station diverge may hold
  back, so that it rolls into the junction when it frees. The pods read the state after the platoon caps.
  A coast ceiling and the other values that only the motion of a pod reads are its \<open>pacing\<close>, beside the
  fields of \<open>vehicle\<close> in the traffic state.
\<close>

section \<open>Pacing\<close>

record coastCap =
  cc_ceiling :: real
  cc_tick :: int
  cc_set :: bool

definition zeroCoast :: coastCap where
  "zeroCoast = \<lparr>cc_ceiling = 0, cc_tick = 0, cc_set = False\<rparr>"

definition coastAt :: "coastCap \<Rightarrow> int \<Rightarrow> real option" where
  "coastAt c tick = (if cc_set c \<and> cc_tick c = tick then Some (cc_ceiling c) else None)"

record reversal =
  rv_lane :: int
  rv_ticks :: int

definition clearReversal :: reversal where
  "clearReversal = \<lparr>rv_lane = 0, rv_ticks = 0\<rparr>"

text \<open>\<open>platoonCap\<close> is \<open>None\<close> for plus infinity.\<close>

record pacing =
  pa_platoonCap :: "real option"
  pa_coast :: coastCap
  pa_faultCap :: real
  pa_reversal :: reversal

section \<open>Speeds and times\<close>

text \<open>\<open>coastTravelTime\<close> gives \<open>None\<close> for plus infinity.\<close>

definition coastTravelTime :: "real \<Rightarrow> real \<Rightarrow> real \<Rightarrow> real option" where
  "coastTravelTime distance speed limit =
    (if distance \<le> 0 then Some 0
     else
       let peak = max limit speed in
       if peak \<le> 0 then None
       else
         let ramp = (peak * peak - speed * speed) / (2 * acceleration) in
         if distance \<le> ramp then Some ((sqrt (speed * speed + 2 * acceleration * distance) - speed) / acceleration)
         else Some ((peak - speed) / acceleration + (distance - ramp) / peak))"

definition stopSpeed :: "real \<Rightarrow> real" where
  "stopSpeed distance =
    (let step = acceleration * tickSeconds in sqrt (step * step + 2 * acceleration * max 0 distance) - step)"

definition keepSpeed :: "real \<Rightarrow> real" where
  "keepSpeed speed = (let step = acceleration * tickSeconds in sqrt (speed * speed + step * step) - step)"

section \<open>Releasers\<close>

definition retainsPast :: "traffic \<Rightarrow> nat \<Rightarrow> resource \<Rightarrow> bool" where
  "retainsPast s i r =
    (case map_of (vh_routeReleases (pod s i)) r of None \<Rightarrow> False | Some releaseAt \<Rightarrow> releaseAt > vh_distance (pod s i))"

definition coastReleaser :: "traffic \<Rightarrow> resourceOwner \<Rightarrow> resource \<Rightarrow> nat option" where
  "coastReleaser s owner r =
    (case findVehicle s (podID owner) of
       None \<Rightarrow> None
     | Some u \<Rightarrow>
         if map_of (vh_routeReleases (pod s u)) r = None then None
         else Some (fold (\<lambda>member p. if retainsPast s member r then member else p) (followers s u) u))"

text \<open>The loop over the resources of the span: the largest time so far and whether there is one, or no result.\<close>

fun releaseLoop :: "traffic \<Rightarrow> nat \<Rightarrow> resource list \<Rightarrow> real \<times> bool \<Rightarrow> (real \<times> bool) option" where
  "releaseLoop s i [] acc = Some acc"
| "releaseLoop s i (r # rest) acc =
    (let owner = ownerAt s r in
      if isZero owner \<or> isPod owner (vh_ID (pod s i)) then releaseLoop s i rest acc
      else case coastReleaser s owner r of
        None \<Rightarrow> None
      | Some p \<Rightarrow>
          let u = pod s p in
          if p = i \<or> vh_Activity u \<noteq> Traveling \<or> vh_faulted u \<or> vh_Speed u = 0 then None
          else
            let releaseAt = (case map_of (vh_routeReleases u) r of None \<Rightarrow> 0 | Some t \<Rightarrow> t);
                lane = routeLane (vh_blocks u) (vh_blockIndex u)
            in case coastTravelTime (releaseAt - vh_distance u) (vh_Speed u) (speedLimit (vh_blocks u) lane) of
                 None \<Rightarrow> None
               | Some t \<Rightarrow> releaseLoop s i rest (if \<not> snd acc \<or> t > fst acc then (t, True) else acc))"

definition deniedSpan :: "traffic \<Rightarrow> deniedRequest \<Rightarrow> resource list" where
  "deniedSpan s d = concat (spanResources (vh_blocks (pod s (in_index (dr_in d)))) (in_block (dr_in d)) (dr_through d + 1))"

definition coastRelease :: "traffic \<Rightarrow> deniedRequest \<Rightarrow> real option" where
  "coastRelease s d =
    (case releaseLoop s (in_index (dr_in d)) (deniedSpan s d) (0, False) of
       None \<Rightarrow> None | Some (release, found) \<Rightarrow> if found then Some release else None)"

section \<open>Ceilings\<close>

definition stationDiverges :: "Lane list \<Rightarrow> string \<Rightarrow> bool" where
  "stationDiverges lanes node = list_ex (\<lambda>lane. lane_StationRole lane = StationEntryRole \<and> lane_From lane = node) lanes"

definition divergeJunction :: "(string \<Rightarrow> bool) \<Rightarrow> traffic \<Rightarrow> deniedRequest \<Rightarrow> resource option" where
  "divergeJunction diverges s d = find (\<lambda>r. res_kind r = junctionResource \<and> diverges (res_id r)) (deniedSpan s d)"

text \<open>A rival of a denied request: another request at the diverge from a pod outside the platoon of its pod.\<close>

definition external :: "traffic \<Rightarrow> deniedRequest list \<Rightarrow> nat \<Rightarrow> nat \<Rightarrow> bool" where
  "external s denied k rival =
    (let v = in_index (dr_in (denied ! k)); u = in_index (dr_in (denied ! rival)) in
      rival \<noteq> k \<and> \<not> aheadInPlatoon s v (vh_ID (pod s u)) \<and> \<not> aheadInPlatoon s u (vh_ID (pod s v)))"

definition coastCeiling ::
  "(nat \<Rightarrow> bool) \<Rightarrow> int \<Rightarrow> traffic \<Rightarrow> deniedRequest list \<Rightarrow> nat \<Rightarrow> nat list \<Rightarrow> real option" where
  "coastCeiling emergency tick s denied k rivals =
    (let d = denied ! k; i = in_index (dr_in d); v = pod s i in
      if vh_Activity v \<noteq> Traveling \<or> vh_faulted v \<or> emergency i \<or> largeVehicleClass (vh_Class v) then None
      else if pl_leader (vh_link v) \<noteq> 0 \<and> linkedSpan s i (in_block (dr_in d)) (dr_through d) then None
      else if \<not> list_ex (external s denied k) rivals then None
      else
        let frontier = blockEnd (vh_blocks v) (nat (vh_reservedThrough v)) in
        if list_ex (\<lambda>(r, releaseAt). (res_kind r = nodeResource \<or> res_kind r = junctionResource) \<and>
            releaseAt > vh_distance v \<and> releaseAt \<le> frontier) (vh_routeReleases v)
        then None
        else case coastRelease s d of
          None \<Rightarrow> None
        | Some t \<Rightarrow>
            let release = t + tickSeconds;
                later = tick + \<lceil>release * 60\<rceil>;
                first = (\<not> list_ex (\<lambda>rival. external s denied k rival \<and>
                  compareAdmission (dr_in (denied ! rival)) (dr_in d) later < 0) rivals);
                limit = speedLimit (vh_blocks v) (routeLane (vh_blocks v) (in_block (dr_in d)));
                gap = max 0 (frontier - vh_distance v);
                hold = min (limit * limit / (4 * acceleration)) gap
            in if first \<and> release \<le> sqrt (hold / acceleration) then None
               else Some (max (stopSpeed (gap - hold)) (keepSpeed (vh_Speed v))))"

definition coastCeilings ::
  "(nat \<Rightarrow> bool) \<Rightarrow> (string \<Rightarrow> bool) \<Rightarrow> int \<Rightarrow> traffic \<Rightarrow> deniedRequest list \<Rightarrow> (nat \<times> real) list" where
  "coastCeilings emergency diverges tick s denied =
    (if \<not> tr_platooning s \<or> denied = [] then []
     else
       let junctions = map (divergeJunction diverges s) denied;
           rivals = (\<lambda>r. filter (\<lambda>k. junctions ! k = Some r) [0..<length denied])
       in concat (map (\<lambda>k. case junctions ! k of
             None \<Rightarrow> []
           | Some r \<Rightarrow> (case coastCeiling emergency tick s denied k (rivals r) of
               None \<Rightarrow> [] | Some bound \<Rightarrow> [(in_index (dr_in (denied ! k)), bound)]))
           [0..<length denied]))"

definition coastCaps ::
  "(nat \<Rightarrow> bool) \<Rightarrow> (string \<Rightarrow> bool) \<Rightarrow> int \<Rightarrow> traffic \<Rightarrow> pacing list \<Rightarrow> traffic \<times> pacing list" where
  "coastCaps emergency diverges tick s paces =
    (s\<lparr>tr_denied := []\<rparr>,
     fold (\<lambda>(i, bound) paces. paces[i := (paces ! i)\<lparr>pa_coast := \<lparr>cc_ceiling = bound, cc_tick = tick, cc_set = True\<rparr>\<rparr>])
       (coastCeilings emergency diverges tick s (tr_denied s)) paces)"


section \<open>Speeds\<close>

lemma stopSpeed_brake: "stopSpeed d = brakeSpeed 0 (max 0 d)"
  by (simp add: stopSpeed_def brakeSpeed_def Let_def)

lemma keepSpeed_brake: "keepSpeed v = brakeSpeed v 0"
  by (simp add: keepSpeed_def brakeSpeed_def Let_def add.commute)

lemma brakeSpeed_exact:
  assumes "0 \<le> x"
  shows "brakeSpeed 0 x * tickSeconds + stoppingDistance (brakeSpeed 0 x) = x"
proof -
  define y where "y = sqrt (2 * acceleration * x)"
  have y: "0 \<le> y" "y * y = 2 * acceleration * x" using assms by (simp_all add: y_def acceleration_def)
  then have "brakeSpeed 0 x = brakeSpeed y 0" by (simp add: brakeSpeed_def)
  then show ?thesis
    using brakeSpeed_stop(4) [OF y(1) refl] y(2) by (simp add: stoppingDistance_def acceleration_def)
qed

text \<open>
  C31. The two speeds of a coast are the ones that their comments name: after a tick at \<open>stopSpeed d\<close> a pod stops
  in exactly \<open>d\<close>, and after a tick at \<open>keepSpeed v\<close> it stops exactly where it would have stopped; the latter
  is between the speed less one tick of the design brake and the speed itself, so the stop point of a coasting pod
  never moves back and the pod brakes gently.
\<close>

theorem coast_speeds:
  assumes "0 \<le> v"
  shows "0 \<le> stopSpeed d \<and> stopSpeed d * tickSeconds + stoppingDistance (stopSpeed d) = max 0 d \<and>
    keepSpeed v * tickSeconds + stoppingDistance (keepSpeed v) = stoppingDistance v \<and>
    v - acceleration * tickSeconds \<le> keepSpeed v \<and> 0 \<le> keepSpeed v \<and> keepSpeed v \<le> v"
  using brakeSpeed_stop [OF _ refl, of v] brakeSpeed_ge [of 0 v v] brakeSpeed_nonneg [of "max 0 d" 0]
    brakeSpeed_exact [of "max 0 d"] assms
  by (auto simp: stopSpeed_brake keepSpeed_brake)

theorem coast_speeds_witness:
  "stopSpeed 9 * tickSeconds + stoppingDistance (stopSpeed 9) = 9 \<and> keepSpeed 4 \<le> 4"
  using coast_speeds [of 4 9] by simp

section \<open>Travel times\<close>

text \<open>The way of a pod in time \<open>t\<close>: it accelerates from \<open>speed\<close> to \<open>peak\<close>, then it keeps \<open>peak\<close>.\<close>

definition travelled :: "real \<Rightarrow> real \<Rightarrow> real \<Rightarrow> real" where
  "travelled speed peak t =
    (if t \<le> (peak - speed) / acceleration then speed * t + acceleration * t * t / 2
     else (peak * peak - speed * speed) / (2 * acceleration) + peak * (t - (peak - speed) / acceleration))"

lemma travelled_strict:
  assumes "0 \<le> speed" and "speed \<le> peak" and "0 < peak" and "0 \<le> t" and "t < u"
  shows "travelled speed peak t < travelled speed peak u"
proof -
  define ramp where "ramp = (peak - speed) / acceleration"
  have a: "acceleration = 2" by (simp add: acceleration_def)
  have ramp: "speed = peak - 2 * ramp" "0 \<le> ramp" using assms(2) by (simp_all add: ramp_def a field_simps)
  have way: "travelled speed peak x = (if x \<le> ramp then speed * x + x * x
      else speed * ramp + ramp * ramp + peak * (x - ramp))" for x
    unfolding travelled_def ramp_def [symmetric] a by (simp add: ramp(1) field_simps)
  have slow: "speed * x + x * x < speed * y + y * y" if "0 \<le> x" "x < y" for x y
    using that assms(1) by (intro add_le_less_mono mult_left_mono mult_strict_mono) auto
  consider "u \<le> ramp" | "t \<le> ramp" "ramp < u" | "ramp < t" by linarith
  then show ?thesis
  proof cases
    case 1
    then show ?thesis using slow [OF assms(4,5)] assms(5) by (simp add: way)
  next
    case 2
    have "speed * t + t * t \<le> speed * ramp + ramp * ramp"
      using assms(1,4) 2(1) by (intro add_mono mult_left_mono mult_mono) auto
    moreover have "0 < peak * (u - ramp)" using assms(3) 2(2) by simp
    ultimately show ?thesis using 2 by (simp add: way)
  next
    case 3
    then show ?thesis using assms(3,5) by (simp add: way)
  qed
qed

text \<open>
  C30. \<open>coastTravelTime\<close> is the inverse of the motion that it describes: for a positive distance it exists exactly
  when the pod moves or may move, the pod covers exactly the distance in that time, and no other time does.
\<close>

theorem coastTravelTime_inverse:
  assumes "0 < distance" and "0 \<le> speed" and "peak = max limit speed" and "0 \<le> t"
  shows "coastTravelTime distance speed limit = Some t \<longleftrightarrow> 0 < peak \<and> travelled speed peak t = distance"
proof (cases "0 < peak")
  case False
  then have "\<not> 0 < max limit speed" by (simp only: assms(3) not_False_eq_True)
  then show ?thesis using assms(1) False by (auto simp: coastTravelTime_def Let_def not_less)
next
  case peak: True
  have sp: "speed \<le> peak" using assms(3) by simp
  define ramp where "ramp = (peak * peak - speed * speed) / (2 * acceleration)"
  define u where "u = (if distance \<le> ramp then (sqrt (speed * speed + 2 * acceleration * distance) - speed) / acceleration
    else (peak - speed) / acceleration + (distance - ramp) / peak)"
  have some: "coastTravelTime distance speed limit = Some u"
    using assms(1) peak unfolding coastTravelTime_def Let_def assms(3) [symmetric] ramp_def [symmetric]
    by (simp add: u_def not_le)
  have a: "acceleration = 2" by (simp add: acceleration_def)
  have u: "0 \<le> u \<and> travelled speed peak u = distance"
  proof (cases "distance \<le> ramp")
    case True
    define q where "q = sqrt (speed * speed + 4 * distance)"
    have q2: "q * q = speed * speed + 4 * distance" using assms(1,2) by (simp add: q_def)
    have "speed * speed \<le> q * q" using q2 assms(1) by simp
    then have q1: "speed \<le> q" using assms(1,2) q_def by (metis abs_le_square_iff abs_of_nonneg power2_eq_square
          real_sqrt_ge_zero add_nonneg_nonneg less_imp_le mult_nonneg_nonneg zero_le_numeral)
    have "q * q \<le> peak * peak" using True by (simp add: q2 ramp_def a)
    then have q3: "q \<le> peak" using peak by (metis abs_le_square_iff abs_of_nonneg less_imp_le power2_eq_square abs_ge_self order_trans)
    have ueq: "u = (q - speed) / 2" using True by (simp add: u_def a q_def)
    have "u \<le> (peak - speed) / acceleration" using q3 by (simp add: ueq a)
    then have "travelled speed peak u = speed * u + u * u" by (simp add: travelled_def a)
    also have "\<dots> = (q * q - speed * speed) / 4" by (simp add: ueq field_simps)
    also have "\<dots> = distance" by (simp add: q2)
    finally show ?thesis using q1 by (simp add: ueq)
  next
    case False
    have ueq: "u = (peak - speed) / acceleration + (distance - ramp) / peak" using False by (simp add: u_def)
    have pos: "0 < (distance - ramp) / peak" using False peak by simp
    have "travelled speed peak u = ramp + peak * ((distance - ramp) / peak)"
      using pos by (simp add: travelled_def ueq ramp_def)
    then show ?thesis using peak pos sp by (simp add: ueq a add_nonneg_nonneg)
  qed
  have "t = u" if "travelled speed peak t = distance"
    using travelled_strict [OF assms(2) sp peak, of t u] travelled_strict [OF assms(2) sp peak, of u t] u that assms(4)
    by (metis less_irrefl linorder_neqE_linordered_idom)
  then show ?thesis using some u peak by auto
qed

section \<open>Ceilings of the refused pods\<close>

lemma coastCeiling_keeps: "coastCeiling emergency tick s denied k rivals = Some c \<Longrightarrow> keepSpeed (vh_Speed (pod s (in_index (dr_in (denied ! k))))) \<le> c"
  by (auto simp: coastCeiling_def Let_def split: if_splits option.splits)

definition sameDiverge :: "(string \<Rightarrow> bool) \<Rightarrow> traffic \<Rightarrow> deniedRequest list \<Rightarrow> resource \<Rightarrow> nat list" where
  "sameDiverge diverges s denied r = filter (\<lambda>k. map (divergeJunction diverges s) denied ! k = Some r) [0..<length denied]"

definition outside :: "traffic \<Rightarrow> deniedRequest \<Rightarrow> deniedRequest \<Rightarrow> bool" where
  "outside s d e =
    (let v = in_index (dr_in d); u = in_index (dr_in e) in
      e \<noteq> d \<and> \<not> aheadInPlatoon s v (vh_ID (pod s u)) \<and> \<not> aheadInPlatoon s u (vh_ID (pod s v)))"

lemma external_outside:
  assumes "distinct denied" and "k < length denied"
  shows "list_ex (\<lambda>j. external s denied k j \<and> P (denied ! j)) (sameDiverge diverges s denied r) \<longleftrightarrow>
    (\<exists>e\<in>set denied. divergeJunction diverges s e = Some r \<and> outside s (denied ! k) e \<and> P e)"
proof -
  have same: "external s denied k j \<longleftrightarrow> outside s (denied ! k) (denied ! j)" if "j < length denied" for j
    using nth_eq_iff_index_eq [OF assms(1) that assms(2)] by (auto simp: external_def outside_def Let_def)
  have "list_ex (\<lambda>j. external s denied k j \<and> P (denied ! j)) (sameDiverge diverges s denied r) \<longleftrightarrow>
      (\<exists>j<length denied. divergeJunction diverges s (denied ! j) = Some r \<and> outside s (denied ! k) (denied ! j) \<and> P (denied ! j))"
    unfolding list_ex_iff sameDiverge_def by (auto simp: same)
  then show ?thesis using in_set_conv_nth [of _ denied] by (simp only: Bex_def) metis
qed

lemma coastCeiling_reorder:
  assumes d: "distinct denied" "distinct denied'" and eq: "set denied' = set denied"
    and k: "k < length denied" "k' < length denied'" "denied' ! k' = denied ! k"
  shows "coastCeiling emergency tick s denied' k' (sameDiverge diverges s denied' r) =
    coastCeiling emergency tick s denied k (sameDiverge diverges s denied r)"
proof -
  have any: "list_ex (external s denied' k') (sameDiverge diverges s denied' r) =
      list_ex (external s denied k) (sameDiverge diverges s denied r)"
    using external_outside [OF d(2) k(2), of s "\<lambda>_. True" diverges r] external_outside [OF d(1) k(1), of s "\<lambda>_. True" diverges r]
    by (simp add: eq k(3) cong: list_ex_cong)
  have earlier: "list_ex (\<lambda>j. external s denied' k' j \<and> P (denied' ! j)) (sameDiverge diverges s denied' r) =
      list_ex (\<lambda>j. external s denied k j \<and> P (denied ! j)) (sameDiverge diverges s denied r)" for P
    by (simp only: external_outside [OF d(2) k(2)] external_outside [OF d(1) k(1)] eq k(3))
  show ?thesis
    unfolding coastCeiling_def k(3) any
    by (simp only: earlier [of "\<lambda>e. compareAdmission (dr_in e) (dr_in d) t < 0" for d t])
qed

lemma coastCeilings_member:
  "x \<in> set (coastCeilings emergency diverges tick s denied) \<longleftrightarrow> tr_platooning s \<and>
    (\<exists>k<length denied. \<exists>r c. divergeJunction diverges s (denied ! k) = Some r \<and>
      coastCeiling emergency tick s denied k (sameDiverge diverges s denied r) = Some c \<and>
      x = (in_index (dr_in (denied ! k)), c))"
proof -
  define go where "go = (\<lambda>k. case map (divergeJunction diverges s) denied ! k of
             None \<Rightarrow> []
           | Some r \<Rightarrow> (case coastCeiling emergency tick s denied k (sameDiverge diverges s denied r) of
               None \<Rightarrow> [] | Some bound \<Rightarrow> [(in_index (dr_in (denied ! k)), bound)]))"
  have turn: "x \<in> set (go k) \<longleftrightarrow> (\<exists>r c. divergeJunction diverges s (denied ! k) = Some r \<and>
      coastCeiling emergency tick s denied k (sameDiverge diverges s denied r) = Some c \<and>
      x = (in_index (dr_in (denied ! k)), c))" if "k < length denied" for k
    using that unfolding go_def
    by (cases "divergeJunction diverges s (denied ! k)"; simp)
      (cases "coastCeiling emergency tick s denied k (sameDiverge diverges s denied (the (divergeJunction diverges s (denied ! k))))"; simp)
  have "coastCeilings emergency diverges tick s denied =
      (if \<not> tr_platooning s \<or> denied = [] then [] else concat (map go [0..<length denied]))"
    unfolding coastCeilings_def sameDiverge_def Let_def go_def ..
  then have "x \<in> set (coastCeilings emergency diverges tick s denied) \<longleftrightarrow>
      tr_platooning s \<and> (\<exists>k<length denied. x \<in> set (go k))"
    by auto
  then show ?thesis using turn by (simp only: cong: conj_cong)
qed

text \<open>
  The coast ceilings do not depend on the order of the denied requests, as the comment of \<open>coastCeilings\<close> says:
  a pod has at most one request in a tick, and every order of the same requests gives each pod the same ceiling.
\<close>

lemma coastCeilings_order:
  assumes "distinct denied" and "mset denied' = mset denied"
  shows "set (coastCeilings emergency diverges tick s denied') = set (coastCeilings emergency diverges tick s denied)"
proof -
  have half: "set (coastCeilings emergency diverges tick s xs) \<subseteq> set (coastCeilings emergency diverges tick s ys)"
    if "distinct xs" "distinct ys" "set ys = set xs" for xs ys
  proof
    fix x assume "x \<in> set (coastCeilings emergency diverges tick s xs)"
    then obtain k r c where k: "tr_platooning s" "k < length xs" "divergeJunction diverges s (xs ! k) = Some r"
        "coastCeiling emergency tick s xs k (sameDiverge diverges s xs r) = Some c" "x = (in_index (dr_in (xs ! k)), c)"
      unfolding coastCeilings_member by blast
    have "xs ! k \<in> set ys" using k(2) that(3) by simp
    then obtain l where l: "l < length ys" "ys ! l = xs ! k" by (auto simp: in_set_conv_nth)
    have "coastCeiling emergency tick s ys l (sameDiverge diverges s ys r) = Some c"
      using coastCeiling_reorder [OF that k(2) l, of emergency tick s diverges r] k(4) by simp
    then show "x \<in> set (coastCeilings emergency diverges tick s ys)"
      unfolding coastCeilings_member using k(1,3,5) l by auto
  qed
  have "distinct denied'" using assms by (metis mset_eq_imp_distinct_iff)
  moreover have "set denied' = set denied" using assms(2) by (rule mset_eq_setD)
  ultimately show ?thesis using half [of denied denied'] half [of denied' denied] assms(1) by auto
qed

text \<open>From rest, a pod covers three metres in two seconds: one metre on the ramp to 2 m/s, and two metres at that speed.\<close>

theorem coastTravelTime_inverse_witness: "coastTravelTime 3 0 2 = Some 2"
  using coastTravelTime_inverse [of 3 0 2 2 2] by (simp add: travelled_def acceleration_def)

end
