(* ===== verification/PodMotion.thy ===== *)
theory PodMotion
  imports Coast TrafficHistory
begin

text \<open>
  The motion of one pod in a tick: \<open>Simulation.move\<close> of \<open>internal/sim/traffic.go\<close> over the motion
  kernel, with the cap of its platoon, its coast ceiling, its fault cap and the dwell where its route
  changes direction (\<open>internal/sim/reversal_dwell.go\<close>). The lemmas show that a pod that obeys its
  limits goes on to obey them and that its stop point never moves back.
\<close>

section \<open>The dwell at a reversal\<close>

definition reversalDwellTicks :: int where "reversalDwellTicks = TicksPerSecond"

text \<open>\<open>reverse\<close> has the IDs of the reverse lanes of the maneuver groups.\<close>

definition flips :: "string list \<Rightarrow> Lane list \<Rightarrow> nat \<Rightarrow> bool" where
  "flips reverse route k = ((lane_ID (route ! k) \<in> set reverse) \<noteq> (lane_ID (route ! (k - 1)) \<in> set reverse))"

fun firstFlip :: "string list \<Rightarrow> blockList \<Rightarrow> real \<Rightarrow> nat list \<Rightarrow> nat option" where
  "firstFlip reverse l limit [] = None"
| "firstFlip reverse l limit (k # ks) =
    (if laneStart l k > limit then None
     else if flips reverse (bl_route l) k then Some k
     else firstFlip reverse l limit ks)"

definition searchFrom :: "vehicle \<Rightarrow> nat \<Rightarrow> reversal \<Rightarrow> nat" where
  "searchFrom v current rv =
    max (if current > 0 \<and> vh_distance v = laneStart (vh_blocks v) current then current - 1 else current) (nat (- rv_lane rv))"

definition latched :: "string list \<Rightarrow> vehicle \<Rightarrow> nat \<Rightarrow> real \<Rightarrow> reversal \<Rightarrow> reversal option" where
  "latched reverse v current limit rv =
    (if rv_lane rv \<le> 0
     then map_option (\<lambda>k. \<lparr>rv_lane = int k, rv_ticks = 0\<rparr>)
       (firstFlip reverse (vh_blocks v) limit [searchFrom v current rv + 1..<length (vRoute v)])
     else Some rv)"

definition reversalLimit :: "string list \<Rightarrow> vehicle \<Rightarrow> nat \<Rightarrow> real \<Rightarrow> reversal \<Rightarrow> real \<times> reversal" where
  "reversalLimit reverse v current limit rv =
    (if reverse = [] then (limit, rv)
     else case latched reverse v current limit rv of
       None \<Rightarrow> (limit, rv)
     | Some latch \<Rightarrow>
         let point = laneStart (vh_blocks v) (nat (rv_lane latch)) in
         if vh_distance v = point \<and> vh_Speed v = 0 \<and> \<not> vh_faulted v then
           let latch' = latch\<lparr>rv_ticks := rv_ticks latch + 1\<rparr> in
           if rv_ticks latch' \<ge> reversalDwellTicks then (limit, \<lparr>rv_lane = - rv_lane latch, rv_ticks = 0\<rparr>)
           else (min limit point, latch')
         else (min limit point, latch))"

section \<open>The move\<close>

definition moveLimit :: "vehicle \<Rightarrow> pacing \<Rightarrow> real" where
  "moveLimit v p =
    (let limit = blockEnd (vh_blocks v) (nat (vh_reservedThrough v)) in
      if pl_leader (vh_link v) \<noteq> 0 then (case pa_platoonCap p of None \<Rightarrow> limit | Some c \<Rightarrow> if c < limit then c else limit)
      else limit)"

definition move :: "string list \<Rightarrow> int \<Rightarrow> vehicle \<Rightarrow> pacing \<Rightarrow> (real \<times> real) \<times> pacing" where
  "move reverse tick v p =
    (let blocks = vh_blocks v; current = currentLane v;
         (limit, rv) = reversalLimit reverse v current (moveLimit v p) (pa_reversal p);
         result =
           (if vh_faulted v then faultMoveStep blocks current (vh_distance v) (vh_Speed v) limit (pa_faultCap p)
            else case coastAt (pa_coast p) tick of
              Some bound \<Rightarrow> coastMoveStep blocks current (vh_distance v) (vh_Speed v) limit bound
            | None \<Rightarrow> ordinaryMoveStep blocks current (vh_distance v) (vh_Speed v) limit)
     in ((mr_distance result, mr_speed result), p\<lparr>pa_reversal := rv\<rparr>))"

section \<open>The stop point\<close>

definition stopPoint :: "vehicle \<Rightarrow> real" where
  "stopPoint v = vh_distance v + stoppingDistance (vh_Speed v)"

lemma stoppingDistance_nonneg [simp]: "0 \<le> stoppingDistance v"
  by (simp add: stoppingDistance_def acceleration_def)

lemma stoppingDistance_zero [simp]: "stoppingDistance 0 = 0"
  by (simp add: stoppingDistance_def)

text \<open>
  What a step of the kernel does to the distance and the speed of a pod: at the commanded speed \<open>c\<close>
  it goes on, or it comes to rest at its limit, at most a hundredth of a millimetre further. Its stop point does not move back.
\<close>

definition glide :: "real \<Rightarrow> real \<Rightarrow> real \<Rightarrow> real \<Rightarrow> bool" where
  "glide d v d' v' \<longleftrightarrow> d + stoppingDistance v \<le> d' + stoppingDistance v' \<and>
    (\<exists>c\<ge>0. d' = d + c * tickSeconds \<and> v' = c \<or>
      v' = 0 \<and> d + c * tickSeconds \<le> d' \<and> d' < d + c * tickSeconds + 1 / 100000 \<and> stoppingDistance c < 1 / 100000)"

lemma glide_forward: "glide d v d' v' \<Longrightarrow> d \<le> d' \<and> 0 \<le> v'"
proof -
  assume "glide d v d' v'"
  then obtain c where "0 \<le> c" "d' = d + c * tickSeconds \<and> v' = c \<or> v' = 0 \<and> d + c * tickSeconds \<le> d'"
    by (auto simp: glide_def)
  moreover from this(1) have "0 \<le> c * tickSeconds" by simp
  ultimately show ?thesis by (elim disjE conjE; intro conjI; linarith)
qed

lemma moveStep_glide:
  assumes g: "goodTrack l" and calm: "calm l lane d v" and stop: "d + stoppingDistance v \<le> limit"
    and bound: "0 \<le> bound" "brakeSpeed v 0 \<le> bound" and r: "r = moveStep l lane d bound limit"
  shows "glide d v (mr_distance r) (mr_speed r) \<and> mr_distance r + stoppingDistance (mr_speed r) \<le> limit \<and>
    brakeable l lane (mr_distance r) (mr_speed r) \<and> mr_speed r \<le> speedLimit l lane \<and> mr_speed r \<le> bound"
proof -
  define c where "c = mr_commandedSpeed r"
  have v: "0 \<le> v" and lane: "inLane l lane d" using calm by (simp_all add: calm_def)
  have d: "d \<le> limit" using stop stoppingDistance_nonneg [of v] by linarith
  note safe = moveStep_bounds [OF g lane bound(1) d r]
  note b = brakeSpeed_stop [OF v refl]
  have low: "brakeSpeed v 0 \<le> c"
    using command_lower [OF g calm stop bound(1) r] bound(2) by (simp add: c_def min_absorb2)
  have c: "0 \<le> c" using low b(1) by linarith
  have x: "0 \<le> limit - d" "max 0 (limit - d) = limit - d" using d by simp_all
  define most where "most = min bound (min (speedLimit l lane) (brakeSpeed 0 (limit - d)))"
  have run: "r = (let travel = min (limit - d) (speedBeforeLane l lane d most * tickSeconds)
     in if limit - (d + travel) < 1 / 100000
        then \<lparr>mr_commandedSpeed = speedBeforeLane l lane d most, mr_distance = limit, mr_speed = 0\<rparr>
        else \<lparr>mr_commandedSpeed = speedBeforeLane l lane d most, mr_distance = d + travel, mr_speed = speedBeforeLane l lane d most\<rparr>)"
    unfolding r moveStep_brake Let_def x(2) most_def ..
  have c_eq: "c = speedBeforeLane l lane d most" unfolding c_def run by (simp add: Let_def)
  have "c \<le> most" unfolding c_eq speedBeforeLane_def by (rule speedBeforeLoop_le)
  then have high: "c \<le> brakeSpeed 0 (limit - d)" by (simp add: most_def)
  have inside: "c * tickSeconds + stoppingDistance c \<le> limit - d" by (rule stop_after [OF x(1) c high])
  have res: "r = (if limit - (d + c * tickSeconds) < 1 / 100000
      then \<lparr>mr_commandedSpeed = c, mr_distance = limit, mr_speed = 0\<rparr>
      else \<lparr>mr_commandedSpeed = c, mr_distance = d + c * tickSeconds, mr_speed = c\<rparr>)"
  proof -
    have "min (limit - d) (c * tickSeconds) = c * tickSeconds"
      using inside stoppingDistance_nonneg [of c] by (intro min_absorb2) linarith
    then show ?thesis unfolding run c_eq [symmetric] by (simp add: Let_def)
  qed
  have keep: "stoppingDistance v \<le> c * tickSeconds + stoppingDistance c"
  proof -
    have "brakeSpeed v 0 * tickSeconds + stoppingDistance (brakeSpeed v 0) \<le> c * tickSeconds + stoppingDistance c"
      using low b(1) by (intro add_mono) (auto simp: stoppingDistance_def acceleration_def intro!: mult_mono divide_right_mono)
    then show ?thesis using b(4) by simp
  qed
  have "glide d v (mr_distance r) (mr_speed r)"
    unfolding glide_def
  proof (intro conjI exI [of _ c] c)
    show "d + stoppingDistance v \<le> mr_distance r + stoppingDistance (mr_speed r)"
      using keep stop by (simp add: res)
    show "mr_distance r = d + c * tickSeconds \<and> mr_speed r = c \<or>
        mr_speed r = 0 \<and> d + c * tickSeconds \<le> mr_distance r \<and> mr_distance r < d + c * tickSeconds + 1 / 100000 \<and>
        stoppingDistance c < 1 / 100000"
    proof (cases "limit - (d + c * tickSeconds) < 1 / 100000")
      case True
      then have "mr_distance r = limit" "mr_speed r = 0" by (simp_all add: res)
      then show ?thesis using True inside stoppingDistance_nonneg [of c] by (intro disjI2 conjI; linarith)
    next
      case False
      then show ?thesis by (simp add: res)
    qed
  qed
  then show ?thesis using safe by blast
qed

section \<open>Positions\<close>

text \<open>A route with lanes of at least a millimetre and speed limits that are not negative.\<close>

definition goodBlocks :: "blockList \<Rightarrow> bool" where
  "goodBlocks l \<longleftrightarrow> wf_blocks l \<and> (\<forall>k<length (bl_route l). 0 \<le> speedLimit l k \<and> 1 / 1000 \<le> rl_length (bl_lanes l ! k))"

lemma laneStart_next: "goodBlocks l \<Longrightarrow> k < length (bl_route l) \<Longrightarrow> laneStart l (Suc k) = laneStart l k + rl_length (bl_lanes l ! k)"
  by (simp add: goodBlocks_def wf_blocks_def laneStart_def)

lemma laneStart_later:
  assumes g: "goodBlocks l" and "i < j" and "j \<le> length (bl_route l)"
  shows "laneStart l i + rl_length (bl_lanes l ! i) \<le> laneStart l j"
  using assms(2,3)
proof (induction j)
  case (Suc j)
  have "1 / 1000 \<le> rl_length (bl_lanes l ! j)" using g Suc.prems by (simp add: goodBlocks_def)
  moreover have "laneStart l (Suc j) = laneStart l j + rl_length (bl_lanes l ! j)"
    using Suc.prems by (intro laneStart_next [OF g]) simp
  moreover have "i = j \<or> laneStart l i + rl_length (bl_lanes l ! i) \<le> laneStart l j" using Suc by fastforce
  ultimately show ?case by fastforce
qed simp

lemma laneStart_gap:
  "goodBlocks l \<Longrightarrow> i < j \<Longrightarrow> j < length (bl_route l) \<Longrightarrow> laneStart l i + 1 / 1000 \<le> laneStart l j"
proof -
  assume g: "goodBlocks l" and ij: "i < j" "j < length (bl_route l)"
  have "1 / 1000 \<le> rl_length (bl_lanes l ! i)" using g ij by (simp add: goodBlocks_def)
  then show ?thesis using laneStart_later [OF g ij(1)] ij(2) by simp
qed

lemma laneStart_mono: "goodBlocks l \<Longrightarrow> i \<le> j \<Longrightarrow> j < length (bl_route l) \<Longrightarrow> laneStart l i \<le> laneStart l j"
  using laneStart_gap [of l i j] by (cases "i = j") auto

lemma goodBlocks_track: "goodBlocks l \<Longrightarrow> goodTrack l"
  using laneStart_mono by (auto simp: goodTrack_def goodBlocks_def)

lemma block_in_lane:
  assumes g: "goodBlocks l" and i: "i < bl_blocks l"
  defines "k \<equiv> routeLane l i"
  shows "k < length (bl_route l)" and "laneStart l k \<le> blockStart l i" and "blockStart l i \<le> blockEnd l i"
    and "blockEnd l i \<le> laneStart l k + rl_length (bl_lanes l ! k)"
proof -
  have w: "wf_blocks l" using g by (simp add: goodBlocks_def)
  have k: "k = laneAt l i" by (simp add: k_def routeLane_laneAt [OF w i])
  have h: "k < length (bl_route l)" "laneFirst l k \<le> i" "i < laneFirst l (Suc k)"
    using laneAt_holds [OF w i] by (simp_all add: k holds_iff [OF w])
  then show "k < length (bl_route l)" by blast
  have len: "0 \<le> rl_length (bl_lanes l ! k)" using g h(1) by (force simp: goodBlocks_def)
  define n c where "n = laneFirst l (Suc k) - laneFirst l k" and "c = i - laneFirst l k"
  have c: "Suc c \<le> n" using h by (simp add: n_def c_def)
  have offset: "0 \<le> cellOffset a n d \<and> (a \<le> b \<longrightarrow> cellOffset a n d \<le> cellOffset b n d) \<and> (b \<le> n \<longrightarrow> cellOffset b n d \<le> d)"
    if "0 \<le> d" for a b d
    using that c by (auto simp: cellOffset_def divide_le_eq mult.commute [of d] intro: mult_right_mono divide_right_mono)
  show "laneStart l k \<le> blockStart l i" "blockStart l i \<le> blockEnd l i"
    "blockEnd l i \<le> laneStart l k + rl_length (bl_lanes l ! k)"
    using offset [OF len, of c "Suc c"] offset [OF len, of "Suc c" "Suc c"] c
    unfolding block_bounds [OF w i] k [symmetric] cellBounds_eq n_def [symmetric] c_def [symmetric] laneStart_def
    by simp_all
qed

text \<open>The pod is within its block, which is reserved.\<close>

definition placed :: "vehicle \<Rightarrow> bool" where
  "placed v \<longleftrightarrow> vh_blockIndex v < bl_blocks (vh_blocks v) \<and> int (vh_blockIndex v) \<le> vh_reservedThrough v \<and>
    vh_reservedThrough v < int (bl_blocks (vh_blocks v)) \<and> blockStart (vh_blocks v) (vh_blockIndex v) \<le> vh_distance v \<and>
    vh_distance v \<le> blockEnd (vh_blocks v) (vh_blockIndex v)"

lemma placed_inLane:
  assumes g: "goodBlocks (vh_blocks v)" and p: "placed v"
  shows "inLane (vh_blocks v) (currentLane v) (vh_distance v)"
proof -
  have i: "vh_blockIndex v < bl_blocks (vh_blocks v)" using p by (simp add: placed_def)
  note b = block_in_lane [OF g i, folded currentLane_def]
  have "vh_distance v \<le> laneStart (vh_blocks v) k" if "currentLane v < k" "k < length (vRoute v)" for k
    using laneStart_later [OF g that(1)] that(2) b(4) p by (simp add: placed_def)
  then show ?thesis using b p by (auto simp: inLane_def placed_def)
qed

lemma advanceBlocks_placed:
  "advanceBlocks v = (v', b) \<Longrightarrow> goodBlocks (vh_blocks v) \<Longrightarrow> vh_blockIndex v < bl_blocks (vh_blocks v) \<Longrightarrow>
    int (vh_blockIndex v) \<le> vh_reservedThrough v \<Longrightarrow> vh_reservedThrough v < int (bl_blocks (vh_blocks v)) \<Longrightarrow>
    blockStart (vh_blocks v) (vh_blockIndex v) \<le> vh_distance v \<Longrightarrow>
    vh_distance v \<le> blockEnd (vh_blocks v) (nat (vh_reservedThrough v)) \<Longrightarrow>
    placed v' \<and> vh_blockIndex v \<le> vh_blockIndex v' \<and>
    (b \<longrightarrow> blockEnd (vh_blocks v) (nat (vh_reservedThrough v)) \<le> vh_distance v)"
proof (induction v rule: advanceBlocks.induct)
  case (1 v)
  note prems = "1.prems"
  let ?i = "vh_blockIndex v"
  show ?case
  proof (cases "vh_distance v \<ge> blockEnd (vh_blocks v) ?i \<and> \<not> ?i + 1 \<ge> bl_blocks (vh_blocks v) \<and> int ?i \<noteq> vh_reservedThrough v")
    case True
    let ?u = "v\<lparr>vh_blockIndex := ?i + 1\<rparr>"
    have "advanceBlocks ?u = (v', b)" using prems(1) True by (subst (asm) advanceBlocks.simps) auto
    moreover have "blockStart (vh_blocks v) (?i + 1) = blockEnd (vh_blocks v) ?i"
      using True prems(2) by (intro blocks_adjoin) (auto simp: goodBlocks_def)
    ultimately have "placed v' \<and> vh_blockIndex ?u \<le> vh_blockIndex v' \<and>
        (b \<longrightarrow> blockEnd (vh_blocks ?u) (nat (vh_reservedThrough ?u)) \<le> vh_distance ?u)"
      using True prems by (intro "1.IH") auto
    then show ?thesis by simp
  next
    case False
    have v': "v' = v" using prems(1) False by (subst (asm) advanceBlocks.simps) (auto split: if_splits)
    have last: "nat (vh_reservedThrough v) = ?i" if "?i + 1 \<ge> bl_blocks (vh_blocks v) \<or> int ?i = vh_reservedThrough v"
      using that prems(3-5) by auto
    have "b \<Longrightarrow> vh_distance v \<ge> blockEnd (vh_blocks v) ?i \<and> ?i + 1 \<ge> bl_blocks (vh_blocks v)"
      using prems(1) False by (subst (asm) advanceBlocks.simps) (auto split: if_splits)
    moreover have "vh_distance v \<le> blockEnd (vh_blocks v) ?i" using False last prems(7) by fastforce
    ultimately show ?thesis using prems last by (auto simp: v' placed_def)
  qed
qed

section \<open>The dwell and the stop point\<close>

text \<open>The stop point lies at or before the next place where the pod has to dwell.\<close>

definition dwellAhead :: "string list \<Rightarrow> vehicle \<Rightarrow> reversal \<Rightarrow> bool" where
  "dwellAhead reverse v rv \<longleftrightarrow> reverse = [] \<or>
    (if rv_lane rv > 0
     then nat (rv_lane rv) < length (vRoute v) \<and> stopPoint v \<le> laneStart (vh_blocks v) (nat (rv_lane rv))
     else \<forall>k. searchFrom v (currentLane v) rv < k \<and> k < length (vRoute v) \<and> flips reverse (vRoute v) k \<longrightarrow>
       stopPoint v \<le> laneStart (vh_blocks v) k)"

lemma firstFlip_Some:
  "firstFlip reverse l limit ks = Some k \<Longrightarrow> k \<in> set ks \<and> flips reverse (bl_route l) k \<and> laneStart l k \<le> limit"
  by (induction ks) (auto split: if_splits)

lemma firstFlip_before:
  "firstFlip reverse l limit ks = Some k \<Longrightarrow> sorted ks \<Longrightarrow> j \<in> set ks \<Longrightarrow> flips reverse (bl_route l) j \<Longrightarrow> k \<le> j"
  by (induction ks) (auto split: if_splits)

lemma firstFlip_None:
  "firstFlip reverse l limit ks = None \<Longrightarrow> sorted (map (laneStart l) ks) \<Longrightarrow> j \<in> set ks \<Longrightarrow> flips reverse (bl_route l) j \<Longrightarrow>
    limit < laneStart l j"
  by (induction ks) (auto split: if_splits)

lemma searchFrom_mono:
  assumes g: "goodBlocks (vh_blocks v)" and same: "vh_blocks u = vh_blocks v" and d: "vh_distance v \<le> vh_distance u"
    and lane: "current \<le> current'" and inside: "inLane (vh_blocks v) current (vh_distance v)"
    and rv: "nat (- rv_lane rv) \<le> nat (- rv_lane rv')"
  shows "searchFrom v current rv \<le> searchFrom u current' rv'"
proof -
  have "current - 1 \<le> current' - 1" using lane by simp
  moreover have "vh_distance v = laneStart (vh_blocks v) current"
    if "vh_distance u = laneStart (vh_blocks v) current" using that d inside by (simp add: inLane_def)
  ultimately show ?thesis using lane rv same unfolding searchFrom_def by (cases "current = current'") (auto simp: max_def)
qed

lemma slow_stop: "0 \<le> c \<Longrightarrow> stoppingDistance c < 1 / 100000 \<Longrightarrow> c \<le> 1 / 150"
proof (rule ccontr)
  assume c: "0 \<le> c" "stoppingDistance c < 1 / 100000" "\<not> c \<le> 1 / 150"
  then have "1 / 150 * (1 / 150) \<le> c * c" by (intro mult_mono) auto
  with c(2) show False by (simp add: stoppingDistance_def acceleration_def)
qed

text \<open>A pod that starts from rest does not get past the next millimetre in a tick.\<close>

lemma glide_from_rest:
  assumes "glide d 0 d' v'" and "v' \<le> acceleration * tickSeconds"
  shows "d' + stoppingDistance v' \<le> d + 1 / 1000"
proof -
  obtain c where c: "0 \<le> c" "d' = d + c * tickSeconds \<and> v' = c \<or>
      v' = 0 \<and> d' < d + c * tickSeconds + 1 / 100000 \<and> stoppingDistance c < 1 / 100000"
    using assms(1) by (auto simp: glide_def)
  have step: "acceleration * tickSeconds = 1 / 30" by (simp add: acceleration_def tickSeconds_def)
  from c(2) show ?thesis
  proof (elim disjE conjE)
    assume m: "d' = d + c * tickSeconds" "v' = c"
    have "c * c \<le> 1 / 30 * (1 / 30)" using c(1) assms(2) m(2) step by (intro mult_mono) auto
    then have "stoppingDistance c \<le> 1 / 3600" by (simp add: stoppingDistance_def acceleration_def)
    moreover have "c * tickSeconds \<le> 1 / 1800" using assms(2) m(2) step by (simp add: tickSeconds_def)
    ultimately show ?thesis by (simp add: m)
  next
    assume m: "v' = 0" "d' < d + c * tickSeconds + 1 / 100000" "stoppingDistance c < 1 / 100000"
    have "c * tickSeconds \<le> 1 / 9000" using slow_stop [OF c(1) m(3)] by (simp add: tickSeconds_def)
    then show ?thesis using m by simp
  qed
qed

section \<open>One pod in a tick\<close>

definition steady :: "string list \<Rightarrow> vehicle \<Rightarrow> pacing \<Rightarrow> bool" where
  "steady reverse v p \<longleftrightarrow> goodBlocks (vh_blocks v) \<and> placed v \<and> calm (vh_blocks v) (currentLane v) (vh_distance v) (vh_Speed v) \<and>
    stopPoint v \<le> blockEnd (vh_blocks v) (nat (vh_reservedThrough v)) \<and> (vh_faulted v \<longrightarrow> stopPoint v \<le> pa_faultCap p) \<and>
    dwellAhead reverse v (pa_reversal p)"

text \<open>The caps of the tick do not ask for more than the design brake.\<close>

definition capped :: "int \<Rightarrow> vehicle \<Rightarrow> pacing \<Rightarrow> bool" where
  "capped tick v p \<longleftrightarrow> (pl_leader (vh_link v) \<noteq> 0 \<longrightarrow> (\<forall>c. pa_platoonCap p = Some c \<longrightarrow> stopPoint v \<le> c)) \<and>
    (\<forall>c. coastAt (pa_coast p) tick = Some c \<longrightarrow> keepSpeed (vh_Speed v) \<le> c)"

lemma moveLimit_stop:
  "steady reverse v p \<Longrightarrow> capped tick v p \<Longrightarrow> stopPoint v \<le> moveLimit v p"
  by (auto simp: steady_def capped_def moveLimit_def Let_def split: option.splits)

lemma moveLimit_block: "moveLimit v p \<le> blockEnd (vh_blocks v) (nat (vh_reservedThrough v))"
  by (auto simp: moveLimit_def Let_def split: option.splits)

lemma moveLimit_cap: "pl_leader (vh_link v) \<noteq> 0 \<Longrightarrow> pa_platoonCap p = Some c \<Longrightarrow> moveLimit v p \<le> c"
  by (auto simp: moveLimit_def Let_def)

lemma latched_point:
  assumes "dwellAhead reverse v rv" and "reverse \<noteq> []" and "latched reverse v (currentLane v) limit rv = Some latch"
  shows "0 < rv_lane latch" and "nat (rv_lane latch) < length (vRoute v)"
    and "stopPoint v \<le> laneStart (vh_blocks v) (nat (rv_lane latch))"
proof -
  have "0 < rv_lane latch \<and> nat (rv_lane latch) < length (vRoute v) \<and> stopPoint v \<le> laneStart (vh_blocks v) (nat (rv_lane latch))"
  proof (cases "rv_lane rv > 0")
    case True
    then show ?thesis using assms by (simp add: latched_def dwellAhead_def)
  next
    case False
    then obtain k where k: "latch = \<lparr>rv_lane = int k, rv_ticks = 0\<rparr>"
        "firstFlip reverse (vh_blocks v) limit [searchFrom v (currentLane v) rv + 1..<length (vRoute v)] = Some k"
      using assms(3) by (auto simp: latched_def)
    then show ?thesis using assms(1,2) False firstFlip_Some [OF k(2)] by (auto simp: dwellAhead_def)
  qed
  then show "0 < rv_lane latch" "nat (rv_lane latch) < length (vRoute v)"
    "stopPoint v \<le> laneStart (vh_blocks v) (nat (rv_lane latch))" by simp_all
qed

lemma reversalLimit_bounds:
  assumes "dwellAhead reverse v rv" and "stopPoint v \<le> limit" and "reversalLimit reverse v (currentLane v) limit rv = (limit', rv')"
  shows "stopPoint v \<le> limit' \<and> limit' \<le> limit"
proof (cases "reverse = []")
  case False
  then show ?thesis
    using assms latched_point(3) [OF assms(1) False]
    by (auto simp: reversalLimit_def Let_def split: option.splits if_splits)
qed (use assms in \<open>simp add: reversalLimit_def\<close>)

lemma dwell_kept:
  assumes g: "goodBlocks (vh_blocks v)" and inside: "inLane (vh_blocks v) (currentLane v) (vh_distance v)"
    and dwell: "dwellAhead reverse v rv"
    and run: "reversalLimit reverse v (currentLane v) limit rv = (limit', rv')"
    and same: "vh_blocks u = vh_blocks v" and lane: "currentLane v \<le> currentLane u"
    and gl: "glide (vh_distance v) (vh_Speed v) (vh_distance u) (vh_Speed u)" and stop: "stopPoint u \<le> limit'"
    and speed: "vh_Speed u \<le> vh_Speed v + acceleration * tickSeconds"
  shows "dwellAhead reverse u rv'"
proof (cases "reverse = []")
  case False
  have d: "vh_distance v \<le> vh_distance u" using glide_forward [OF gl] by blast
  note search = searchFrom_mono [OF g same d lane inside]
  show ?thesis
  proof (cases "latched reverse v (currentLane v) limit rv")
    case None
    then have rv: "rv' = rv" "limit' = limit" using run False by (simp_all add: reversalLimit_def)
    have low: "rv_lane rv \<le> 0" using None by (auto simp: latched_def split: if_splits)
    have none: "firstFlip reverse (vh_blocks v) limit [searchFrom v (currentLane v) rv + 1..<length (vRoute v)] = None"
      using None low by (simp add: latched_def)
    have "sorted (map (laneStart (vh_blocks v)) [searchFrom v (currentLane v) rv + 1..<length (vRoute v)])"
      using laneStart_mono [OF g] by (auto simp: sorted_iff_nth_mono)
    then have "limit < laneStart (vh_blocks v) k"
      if "searchFrom u (currentLane u) rv < k" "k < length (vRoute v)" "flips reverse (vRoute v) k" for k
      using firstFlip_None [OF none] search [of rv rv] that by simp
    then show ?thesis using low stop rv same by (force simp: dwellAhead_def)
  next
    case (Some latch)
    let ?k = "nat (rv_lane latch)"
    note point = latched_point [OF dwell False Some]
    define pt where "pt = laneStart (vh_blocks v) ?k"
    have "(limit', rv') = (if vh_distance v = pt \<and> vh_Speed v = 0 \<and> \<not> vh_faulted v then
           if rv_ticks latch + 1 \<ge> reversalDwellTicks then (limit, \<lparr>rv_lane = - rv_lane latch, rv_ticks = 0\<rparr>)
           else (min limit pt, latch\<lparr>rv_ticks := rv_ticks latch + 1\<rparr>)
         else (min limit pt, latch))"
      using False Some unfolding run [symmetric] reversalLimit_def pt_def by (simp add: Let_def)
    then consider (over) "vh_distance v = laneStart (vh_blocks v) ?k" "vh_Speed v = 0" "rv' = \<lparr>rv_lane = - rv_lane latch, rv_ticks = 0\<rparr>"
      | (stay) "limit' = min limit (laneStart (vh_blocks v) ?k)" "rv_lane rv' = rv_lane latch"
      unfolding pt_def [symmetric] by (simp split: if_splits)
    then show ?thesis
    proof cases
      case over
      have near: "stopPoint u \<le> vh_distance v + 1 / 1000"
        using glide_from_rest [of "vh_distance v" "vh_distance u" "vh_Speed u"] gl speed over(2) by (simp add: stopPoint_def)
      have "stopPoint u \<le> laneStart (vh_blocks v) k" if "searchFrom u (currentLane u) rv' < k" "k < length (vRoute v)" for k
      proof -
        have "?k < k" using that(1) point(1) by (auto simp: searchFrom_def over(3))
        then show ?thesis using laneStart_gap [OF g _ that(2)] near over(1) by force
      qed
      then show ?thesis using point(1) over(3) same by (simp add: dwellAhead_def)
    next
      case stay
      then show ?thesis using point stop same by (simp add: dwellAhead_def)
    qed
  qed
qed (simp add: dwellAhead_def)

lemma move_result:
  assumes st: "steady reverse v p" and cap: "capped tick v p" and m: "move reverse tick v p = ((d', s'), p')"
  shows "glide (vh_distance v) (vh_Speed v) d' s' \<and> d' + stoppingDistance s' \<le> moveLimit v p \<and>
    brakeable (vh_blocks v) (currentLane v) d' s' \<and> s' \<le> speedLimit (vh_blocks v) (currentLane v) \<and>
    s' \<le> vh_Speed v + acceleration * tickSeconds \<and> (vh_faulted v \<longrightarrow> d' + stoppingDistance s' \<le> pa_faultCap p) \<and>
    (\<exists>limit' rv'. reversalLimit reverse v (currentLane v) (moveLimit v p) (pa_reversal p) = (limit', rv') \<and>
      d' + stoppingDistance s' \<le> limit' \<and> p' = p\<lparr>pa_reversal := rv'\<rparr>)"
proof -
  let ?l = "vh_blocks v" and ?k = "currentLane v" and ?d = "vh_distance v" and ?v = "vh_Speed v"
  have g: "goodTrack ?l" and calm: "calm ?l ?k ?d ?v" and v: "0 \<le> ?v"
    using st goodBlocks_track by (auto simp: steady_def calm_def)
  obtain limit' rv' where run: "reversalLimit reverse v ?k (moveLimit v p) (pa_reversal p) = (limit', rv')"
    by (cases "reversalLimit reverse v ?k (moveLimit v p) (pa_reversal p)")
  have lim: "stopPoint v \<le> limit'" "limit' \<le> moveLimit v p"
    using reversalLimit_bounds [OF _ moveLimit_stop [OF st cap] run] st by (simp_all add: steady_def)
  have fault: "vh_faulted v \<Longrightarrow> stopPoint v \<le> pa_faultCap p" using st by (simp add: steady_def)
  define limit bound where "limit = (if vh_faulted v then min limit' (pa_faultCap p) else limit')"
    and "bound = (if vh_faulted v then ?v else case coastAt (pa_coast p) tick of
      Some b \<Rightarrow> min (?v + acceleration * tickSeconds) b | None \<Rightarrow> ?v + acceleration * tickSeconds)"
  define r where "r = moveStep ?l ?k ?d bound limit"
  have res: "d' = mr_distance r" "s' = mr_speed r" "p' = p\<lparr>pa_reversal := rv'\<rparr>"
    using m unfolding move_def Let_def run prod.case r_def bound_def limit_def
    by (auto simp: faultMoveStep_def coastMoveStep_def ordinaryMoveStep_def split: option.splits)
  have brake: "brakeSpeed ?v 0 \<le> ?v" "0 \<le> brakeSpeed ?v 0" using brakeSpeed_stop [OF v refl] by simp_all
  have coast: "brakeSpeed ?v 0 \<le> b" if "coastAt (pa_coast p) tick = Some b" for b
    using cap that by (simp add: capped_def keepSpeed_brake)
  have b: "brakeSpeed ?v 0 \<le> bound" "bound \<le> ?v + acceleration * tickSeconds"
    using brake coast add_increasing2 [OF accel_pos(5) brake(1)] by (auto simp: bound_def split: option.split)
  have stop: "?d + stoppingDistance ?v \<le> limit" using lim fault by (simp add: limit_def stopPoint_def)
  have b0: "0 \<le> bound" using b(1) brake(2) by linarith
  note step = moveStep_glide [OF g calm stop b0 b(1) r_def]
  have up: "limit \<le> limit'" "vh_faulted v \<longrightarrow> limit \<le> pa_faultCap p" by (simp_all add: limit_def)
  have to: "d' + stoppingDistance s' \<le> limit" using step by (simp add: res)
  show ?thesis
    using step to up lim(2) b(2) run unfolding res by (intro conjI exI [of _ limit'] exI [of _ rv']) auto
qed

lemma publish_traveling:
  assumes tr: "vh_Activity v = Traveling" and g: "goodBlocks (vh_blocks v)" and pl: "placed v"
    and d: "vh_distance v \<le> d'" and stop: "d' + stoppingDistance s' \<le> blockEnd (vh_blocks v) (nat (vh_reservedThrough v))"
    and u: "u = publishVehicleTravel wait d' s' v" and on: "vh_Activity u = Traveling"
  shows "placed u \<and> vh_distance u = d' \<and> vh_Speed u = s' \<and> vh_blocks u = vh_blocks v \<and> currentLane v \<le> currentLane u \<and>
    vh_link u = vh_link v \<and> vh_follower u = vh_follower v \<and> vh_reservedThrough u = vh_reservedThrough v \<and> vh_faulted u = vh_faulted v"
proof -
  let ?w = "v\<lparr>vh_distance := d', vh_Speed := s'\<rparr>"
  obtain w b where a: "advanceBlocks ?w = (w, b)" by (cases "advanceBlocks ?w")
  obtain k where w: "w = ?w\<lparr>vh_blockIndex := k\<rparr>" using advanceBlocks_same [OF a] by blast
  have end': "d' \<le> blockEnd (vh_blocks v) (nat (vh_reservedThrough v))" using stop stoppingDistance_nonneg [of s'] by linarith
  have adv: "placed w \<and> vh_blockIndex v \<le> k \<and> (b \<longrightarrow> blockEnd (vh_blocks v) (nat (vh_reservedThrough v)) \<le> d')"
    using advanceBlocks_placed [OF a] g pl d end' by (simp add: placed_def w)
  have rest: "s' = 0" if b
  proof -
    have "blockEnd (vh_blocks v) (nat (vh_reservedThrough v)) \<le> d'" using adv that by blast
    then have "stoppingDistance s' = 0" using stop stoppingDistance_nonneg [of s'] by linarith
    then show ?thesis by (simp add: stoppingDistance_def acceleration_def)
  qed
  have lane: "currentLane v \<le> currentLane w"
  proof -
    have wf: "wf_blocks (vh_blocks v)" using g by (simp add: goodBlocks_def)
    have k: "k < bl_blocks (vh_blocks v)" using adv by (simp add: placed_def w)
    have "laneAt (vh_blocks v) (vh_blockIndex v) \<le> laneAt (vh_blocks v) k" using adv k by (intro laneAt_mono [OF wf]) auto
    then show ?thesis using k pl wf by (simp add: currentLane_def w routeLane_laneAt placed_def)
  qed
  have arrive: "vh_Activity (arrivePod w) \<noteq> Traveling" by (simp add: arrivePod_def Let_def)
  have u': "u = (if b then (if berth_ID (vh_destination w) = []
        then w\<lparr>vh_Speed := 0, vh_WaitReason := (if vh_faulted w then vh_WaitReason w
          else if wait then ''No parking available'' else ''Berth occupied'')\<rparr> else arrivePod w)
      else let lane = routeLane (vh_blocks w) (vh_blockIndex w)
        in w\<lparr>vh_LaneID := lane_ID (bl_route (vh_blocks w) ! lane), vh_LaneDistance := vh_distance w - laneStart (vh_blocks w) lane\<rparr>)"
    unfolding u publishVehicleTravel_def a by (cases b) simp_all
  have same: "placed (w\<lparr>vh_LaneID := x, vh_LaneDistance := y\<rparr>) = placed w" "placed (w\<lparr>vh_Speed := z, vh_WaitReason := r\<rparr>) = placed w"
    "currentLane (w\<lparr>vh_LaneID := x, vh_LaneDistance := y\<rparr>) = currentLane w" "currentLane (w\<lparr>vh_Speed := z, vh_WaitReason := r\<rparr>) = currentLane w"
    for x y z r by (simp_all add: placed_def currentLane_def)
  show ?thesis
  proof (cases b)
    case True
    then have "u = w\<lparr>vh_Speed := 0, vh_WaitReason := (if vh_faulted w then vh_WaitReason w
          else if wait then ''No parking available'' else ''Berth occupied'')\<rparr>"
      using u' on arrive by (auto split: if_splits)
    then show ?thesis using adv lane rest [OF True] by (simp add: same) (simp add: w)
  next
    case False
    then show ?thesis unfolding u' using adv lane by (simp add: Let_def same) (simp add: w)
  qed
qed

lemma pod_step:
  assumes st: "steady reverse v p" and cap: "capped tick v p" and tr: "vh_Activity v = Traveling"
    and m: "move reverse tick v p = ((d', s'), p')" and u: "u = publishVehicleTravel wait d' s' v" and on: "vh_Activity u = Traveling"
  shows "glide (vh_distance v) (vh_Speed v) (vh_distance u) (vh_Speed u) \<and> stopPoint u \<le> moveLimit v p \<and> steady reverse u p' \<and>
    vh_blocks u = vh_blocks v \<and> vh_link u = vh_link v \<and> currentLane v \<le> currentLane u"
proof -
  have g: "goodBlocks (vh_blocks v)" and pl: "placed v" and dwell: "dwellAhead reverse v (pa_reversal p)"
    using st by (simp_all add: steady_def)
  note res = move_result [OF st cap m]
  have gl: "glide (vh_distance v) (vh_Speed v) d' s'" using res by blast
  have stop: "d' + stoppingDistance s' \<le> blockEnd (vh_blocks v) (nat (vh_reservedThrough v))"
    using res moveLimit_block [of v p] by linarith
  note pub = publish_traveling [OF tr g pl _ stop u on]
  have d: "vh_distance v \<le> d'" "0 \<le> s'" using glide_forward [OF gl] by auto
  have same: "placed u" "vh_distance u = d'" "vh_Speed u = s'" "vh_blocks u = vh_blocks v" "currentLane v \<le> currentLane u"
    "vh_link u = vh_link v" "vh_reservedThrough u = vh_reservedThrough v" "vh_faulted u = vh_faulted v"
    using pub [OF d(1)] by simp_all
  have "inLane (vh_blocks v) (currentLane u) d'" using placed_inLane [of u] same g by simp
  then have calm: "calm (vh_blocks v) (currentLane u) d' s'"
    using res d(2) same(5) goodBlocks_track [OF g] by (intro calm_moves [of _ "currentLane v"]) auto
  obtain limit' rv' where run: "reversalLimit reverse v (currentLane v) (moveLimit v p) (pa_reversal p) = (limit', rv')"
      "d' + stoppingDistance s' \<le> limit'" "p' = p\<lparr>pa_reversal := rv'\<rparr>" using res by blast
  have "dwellAhead reverse u rv'"
    using dwell_kept [OF g placed_inLane [OF g pl] dwell run(1) same(4,5)] gl run(2) res
    by (simp add: same stopPoint_def)
  then have "steady reverse u p'"
    using g calm stop res same run(3) by (simp add: steady_def stopPoint_def)
  then show ?thesis using gl res same by (simp add: stopPoint_def)
qed

end
