(* ===== verification/PlatoonGeometry.thy ===== *)
theory PlatoonGeometry
  imports PlatoonRuns
begin

text \<open>
  The geometry behind the clearance of a link. A path whose total turn is below a half circle keeps
  all its headings within one sector, so the straight distance of two of its points is at least their path
  distance times the cosine of half the turn. Lane points are pairs of real coordinates here.
\<close>

section \<open>Headings\<close>

fun turning :: "real list \<Rightarrow> real" where
  "turning (a # b # rest) = \<bar>mathRemainder (b - a) (2 * pi)\<bar> + turning (b # rest)"
| "turning [h] = 0"
| "turning [] = 0"

lemma turning_nonneg [simp]: "0 \<le> turning hs"
  by (induction hs rule: turning.induct) auto

lemma turning_append:
  "turning (xs @ ys) = turning xs + turning ys +
    (if xs = [] \<or> ys = [] then 0 else \<bar>mathRemainder (hd ys - last xs) (2 * pi)\<bar>)"
proof (induction xs rule: turning.induct)
  case (2 v)
  then show ?case by (cases ys) auto
qed auto

lemma remainder_multiple: "\<exists>n::int. mathRemainder x (2 * pi) = x - 2 * pi * real_of_int n"
  unfolding mathRemainder_def by blast

text \<open>All headings, moved by whole circles, fit into an interval as wide as the turn.\<close>

lemma headings_interval:
  "\<exists>lo hi. lo \<le> h \<and> h \<le> hi \<and> hi - lo \<le> turning (h # hs) \<and>
    (\<forall>x\<in>set (h # hs). \<exists>m::int. lo \<le> x + 2 * pi * m \<and> x + 2 * pi * m \<le> hi)"
proof (induction hs arbitrary: h)
  case Nil
  show ?case by (intro exI [of _ h]) (auto intro: exI [of _ 0])
next
  case (Cons g hs)
  obtain lo hi where i: "lo \<le> g" "g \<le> hi" "hi - lo \<le> turning (g # hs)"
    and all: "\<forall>x\<in>set (g # hs). \<exists>m::int. lo \<le> x + 2 * pi * m \<and> x + 2 * pi * m \<le> hi"
    using Cons by blast
  obtain n :: int where n: "mathRemainder (g - h) (2 * pi) = g - h - 2 * pi * n"
    using remainder_multiple by blast
  define s where "s = 2 * pi * real_of_int n"
  define lo' where "lo' = min h (lo - s)"
  define hi' where "hi' = max h (hi - s)"
  have "hi' - lo' \<le> hi - lo + \<bar>g - h - s\<bar>"
    unfolding lo'_def hi'_def using i(1,2) by linarith
  then have "hi' - lo' \<le> turning (h # g # hs)" using i(3) n by (simp add: s_def)
  moreover have "\<exists>m::int. lo' \<le> x + 2 * pi * m \<and> x + 2 * pi * m \<le> hi'" if inset: "x \<in> set (g # hs)" for x
  proof -
    obtain m :: int where "lo \<le> x + 2 * pi * m" "x + 2 * pi * m \<le> hi" using bspec [OF all inset] by (elim exE conjE)
    moreover have "x + 2 * pi * real_of_int (m - n) = x + 2 * pi * m - s" by (simp add: s_def algebra_simps)
    moreover have "lo' \<le> lo - s" "hi - s \<le> hi'" by (simp_all add: lo'_def hi'_def)
    ultimately show ?thesis by (intro exI [of _ "m - n"]) linarith
  qed
  moreover have "lo' \<le> h" "h \<le> hi'" by (simp_all add: lo'_def hi'_def)
  moreover have "\<exists>m::int. lo' \<le> h + 2 * pi * m \<and> h + 2 * pi * m \<le> hi'"
    using \<open>lo' \<le> h\<close> \<open>h \<le> hi'\<close> by (intro exI [of _ 0]) simp
  ultimately have "lo' \<le> h \<and> h \<le> hi' \<and> hi' - lo' \<le> turning (h # g # hs) \<and>
    (\<forall>x\<in>set (h # g # hs). \<exists>m::int. lo' \<le> x + 2 * pi * m \<and> x + 2 * pi * m \<le> hi')"
    unfolding list.set(2) [of h] by blast
  then show ?case by (intro exI)
qed

lemma near_middle: "lo \<le> y \<Longrightarrow> y \<le> hi \<Longrightarrow> hi - lo \<le> t \<Longrightarrow> \<bar>y - (lo + hi) / 2\<bar> \<le> t / 2" for y :: real
  by (auto simp: abs_le_iff field_simps)

lemma headings_sector:
  assumes "turning hs \<le> turn" and "turn \<le> 2 * pi"
  shows "\<exists>c. \<forall>h\<in>set hs. cos (turn / 2) \<le> cos (h - c)"
proof (cases hs)
  case (Cons h rest)
  obtain lo hi where i: "hi - lo \<le> turning hs"
    and all: "\<forall>x\<in>set hs. \<exists>m::int. lo \<le> x + 2 * pi * m \<and> x + 2 * pi * m \<le> hi"
    using headings_interval [of h rest] Cons by blast
  define c where "c = (lo + hi) / 2"
  have "cos (turn / 2) \<le> cos (x - c)" if x: "x \<in> set hs" for x
  proof -
    obtain m :: int where m: "lo \<le> x + 2 * pi * m" "x + 2 * pi * m \<le> hi" using all x by blast
    have "\<bar>x + 2 * pi * m - c\<bar> \<le> turn / 2" unfolding c_def using m i assms(1) by (intro near_middle) auto
    then have "cos (turn / 2) \<le> cos \<bar>x + 2 * pi * m - c\<bar>"
      using assms(2) by (intro cos_monotone_0_pi_le) auto
    also have "\<dots> = cos (x - c + 2 * pi * real_of_int m)" by (simp add: add_diff_eq diff_add_eq)
    also have "\<dots> = cos (x - c)" by (simp only: cos_add sin_int_2pin cos_int_2pin mult_1_right mult_zero_right diff_zero)
    finally show ?thesis .
  qed
  then show ?thesis by blast
qed simp

section \<open>Paths\<close>

fun headings :: "(real \<times> real) list \<Rightarrow> real list" where
  "headings (p # q # rest) =
    (if fst q - fst p = 0 \<and> snd q - snd p = 0 then headings (q # rest)
     else atan2 (snd q - snd p) (fst q - fst p) # headings (q # rest))"
| "headings [p] = []"
| "headings [] = []"

definition gap :: "real \<times> real \<Rightarrow> real \<times> real \<Rightarrow> real" where
  "gap p q = sqrt ((fst q - fst p)\<^sup>2 + (snd q - snd p)\<^sup>2)"

fun pathLen :: "(real \<times> real) list \<Rightarrow> real" where
  "pathLen (p # q # rest) = gap p q + pathLen (q # rest)"
| "pathLen [p] = 0"
| "pathLen [] = 0"

text \<open>The point of a path at a distance from its start.\<close>

fun pathPoint :: "(real \<times> real) list \<Rightarrow> real \<Rightarrow> real \<times> real" where
  "pathPoint (p # q # rest) d =
    (if d \<le> gap p q
     then (fst p + d / gap p q * (fst q - fst p), snd p + d / gap p q * (snd q - snd p))
     else pathPoint (q # rest) (d - gap p q))"
| "pathPoint [p] d = p"
| "pathPoint [] d = (0, 0)"

lemma gap_nonneg [simp]: "0 \<le> gap p q"
  by (simp add: gap_def)

lemma gap_zero: "gap p q = 0 \<longleftrightarrow> p = q"
  by (auto simp: gap_def prod_eq_iff sum_power2_eq_zero_iff)

lemma pathPoint_start [simp]: "pathPoint (p # rest) 0 = p"
  by (cases rest) auto

lemma segment_heading:
  "fst q - fst p = gap p q * cos (atan2 (snd q - snd p) (fst q - fst p))"
  "snd q - snd p = gap p q * sin (atan2 (snd q - snd p) (fst q - fst p))"
proof -
  let ?z = "Complex (fst q - fst p) (snd q - snd p)"
  have "rcis (cmod ?z) (Arg ?z) = ?z" by (rule rcis_cmod_Arg)
  moreover have "cmod ?z = gap p q" by (simp add: gap_def cmod_def)
  ultimately have "rcis (gap p q) (atan2 (snd q - snd p) (fst q - fst p)) = ?z" by (simp add: atan2_def)
  then show "fst q - fst p = gap p q * cos (atan2 (snd q - snd p) (fst q - fst p))"
    "snd q - snd p = gap p q * sin (atan2 (snd q - snd p) (fst q - fst p))"
    by (simp_all add: complex_eq_iff)
qed

definition along :: "real \<Rightarrow> real \<times> real \<Rightarrow> real" where
  "along c p = fst p * cos c + snd p * sin c"

lemma along_segment:
  assumes "p \<noteq> q \<Longrightarrow> k \<le> cos (atan2 (snd q - snd p) (fst q - fst p) - c)"
  shows "k * gap p q \<le> along c q - along c p"
proof (cases "p = q")
  case False
  define h where "h = atan2 (snd q - snd p) (fst q - fst p)"
  have "along c q - along c p = (fst q - fst p) * cos c + (snd q - snd p) * sin c"
    by (simp add: along_def algebra_simps)
  also have "\<dots> = gap p q * cos (h - c)"
    unfolding segment_heading(1) [of q p, folded h_def] segment_heading(2) [of q p, folded h_def]
    by (simp add: cos_diff algebra_simps)
  finally show ?thesis using mult_right_mono [OF assms [OF False] gap_nonneg [of p q]] by (simp add: h_def mult.commute)
qed (simp add: gap_zero [THEN iffD2])

text \<open>Along the middle heading of the sector a path only gains.\<close>

lemma along_path:
  assumes "\<forall>h\<in>set (headings points). k \<le> cos (h - c)" and "0 \<le> a" and "a \<le> b" and "b \<le> pathLen points"
  shows "k * (b - a) \<le> along c (pathPoint points b) - along c (pathPoint points a)"
  using assms
proof (induction points arbitrary: a b rule: headings.induct)
  case (1 p q rest)
  have seg: "k * gap p q \<le> along c q - along c p"
    using 1(3) by (intro along_segment) (auto simp: prod_eq_iff)
  have rest: "\<forall>h\<in>set (headings (q # rest)). k \<le> cos (h - c)" using 1(3) by (auto split: if_splits)
  have IH: "k * (b' - a') \<le> along c (pathPoint (q # rest) b') - along c (pathPoint (q # rest) a')"
    if "0 \<le> a'" "a' \<le> b'" "b' \<le> pathLen (q # rest)" for a' b'
    using 1(1,2) rest that by blast
  have inside: "k * d \<le> along c (fst p + (t + d) / gap p q * (fst q - fst p), snd p + (t + d) / gap p q * (snd q - snd p)) -
      along c (fst p + t / gap p q * (fst q - fst p), snd p + t / gap p q * (snd q - snd p))"
    if "0 \<le> d" "0 \<le> t" "t + d \<le> gap p q" for t d
  proof (cases "gap p q = 0")
    case True
    then have "d = 0" using that by simp
    then show ?thesis by simp
  next
    case False
    have "along c (fst p + (t + d) / gap p q * (fst q - fst p), snd p + (t + d) / gap p q * (snd q - snd p)) -
        along c (fst p + t / gap p q * (fst q - fst p), snd p + t / gap p q * (snd q - snd p)) =
      d / gap p q * (along c q - along c p)"
      by (simp add: along_def add_divide_distrib distrib_right distrib_left right_diff_distrib left_diff_distrib mult.assoc)
    moreover have "d / gap p q * (k * gap p q) \<le> d / gap p q * (along c q - along c p)"
      using seg that by (intro mult_left_mono) auto
    ultimately show ?thesis using False by (simp add: mult.commute)
  qed
  show ?case
  proof (cases "b \<le> gap p q")
    case True
    then show ?thesis using inside [of "b - a" a] 1(4,5) by simp
  next
    case b: False
    have tail: "k * (b - gap p q - 0) \<le> along c (pathPoint (q # rest) (b - gap p q)) - along c (pathPoint (q # rest) 0)"
      using b 1(6) by (intro IH) auto
    show ?thesis
    proof (cases "a \<le> gap p q")
      case True
      have one: "gap p q \<noteq> 0 \<Longrightarrow> gap p q / gap p q = 1" by simp
      have "k * (gap p q - a) \<le> along c q - along c (pathPoint (p # q # rest) a)"
        using inside [of "gap p q - a" a] 1(4) True gap_zero [of p q] by (cases "gap p q = 0") auto
      then show ?thesis using tail b by (simp add: algebra_simps)
    next
      case False
      then show ?thesis using IH [of "a - gap p q" "b - gap p q"] b 1(5,6) by simp
    qed
  qed
next
  case (2 p a b)
  then have "a = b" by simp
  then show ?case by simp
next
  case (3 a b)
  then have "a = b" by simp
  then show ?case by simp
qed

lemma component_le:
  fixes x y u w :: real
  shows "(x * u + y * w)\<^sup>2 \<le> (x\<^sup>2 + y\<^sup>2) * (w\<^sup>2 + u\<^sup>2)"
proof -
  have "(x\<^sup>2 + y\<^sup>2) * (w\<^sup>2 + u\<^sup>2) = (x * u + y * w)\<^sup>2 + (x * w - y * u)\<^sup>2"
    by (simp add: power2_eq_square algebra_simps)
  then show ?thesis by simp
qed

lemma along_gap: "along c q - along c p \<le> gap p q"
proof -
  define dx where "dx = fst q - fst p"
  define dy where "dy = snd q - snd p"
  have "(dx * cos c + dy * sin c)\<^sup>2 \<le> (dx\<^sup>2 + dy\<^sup>2) * ((sin c)\<^sup>2 + (cos c)\<^sup>2)"
    by (rule component_le)
  then have "(dx * cos c + dy * sin c)\<^sup>2 \<le> dx\<^sup>2 + dy\<^sup>2" by simp
  then have "dx * cos c + dy * sin c \<le> sqrt (dx\<^sup>2 + dy\<^sup>2)" by (rule real_le_rsqrt)
  moreover have "along c q - along c p = dx * cos c + dy * sin c"
    by (simp add: along_def dx_def dy_def algebra_simps)
  ultimately show ?thesis by (simp add: gap_def dx_def dy_def)
qed

lemma path_chord:
  assumes "turning (headings points) \<le> turn" and "turn \<le> 2 * pi" and "0 \<le> a" and "a \<le> b" and "b \<le> pathLen points"
  shows "cos (turn / 2) * (b - a) \<le> gap (pathPoint points a) (pathPoint points b)"
proof -
  obtain c where "\<forall>h\<in>set (headings points). cos (turn / 2) \<le> cos (h - c)"
    using headings_sector [OF assms(1,2)] by blast
  then show ?thesis
    using along_path [of points "cos (turn / 2)" c a b] along_gap assms(3-5) by (meson order_trans)
qed

section \<open>The turn of a run\<close>

lemma shapeLoop_spec:
  "ls_empty shape = False \<Longrightarrow> shapeLoop p rest shape =
    shape\<lparr>ls_end := last (ls_end shape # headings (p # rest)),
      ls_curve := ls_curve shape + turning (ls_end shape # headings (p # rest))\<rparr>"
proof (induction rest arbitrary: p shape)
  case (Cons q rest)
  then show ?case by (auto simp: Let_def)
qed simp

lemma newLaneShape_spec:
  "newLaneShape points = (if headings points = [] then emptyShape
    else \<lparr>ls_start = hd (headings points), ls_end = last (headings points), ls_curve = turning (headings points), ls_empty = False\<rparr>)"
proof (cases points)
  case (Cons p rest)
  have "shapeLoop p rest emptyShape = (if headings (p # rest) = [] then emptyShape
    else \<lparr>ls_start = hd (headings (p # rest)), ls_end = last (headings (p # rest)),
      ls_curve = turning (headings (p # rest)), ls_empty = False\<rparr>)"
  proof (induction rest arbitrary: p)
    case (Cons q rest)
    show ?case
    proof (cases "fst q - fst p = 0 \<and> snd q - snd p = 0")
      case True
      then show ?thesis using Cons [of q] by simp
    next
      case False
      then show ?thesis by (auto simp: Let_def emptyShape_def shapeLoop_spec simp del: shapeLoop.simps(2))
        (auto simp: shapeLoop_spec emptyShape_def Let_def)
    qed
  qed simp
  then show ?thesis using Cons by (simp add: newLaneShape_def)
qed (simp add: newLaneShape_def)

lemma headings_append:
  "xs \<noteq> [] \<Longrightarrow> ys \<noteq> [] \<Longrightarrow> last xs = hd ys \<Longrightarrow> headings (xs @ ys) = headings xs @ headings ys"
proof (induction xs rule: headings.induct)
  case (2 p)
  then show ?case by (cases ys) auto
qed auto

text \<open>The lanes of a run join: each starts where the one before it ends.\<close>

fun joined :: "(real \<times> real) list list \<Rightarrow> bool" where
  "joined (xs # ys # rest) = (xs \<noteq> [] \<and> ys \<noteq> [] \<and> last xs = hd ys \<and> joined (ys # rest))"
| "joined [xs] = (xs \<noteq> [])"
| "joined [] = True"

lemma joined_hd: "joined (xs # rest) \<Longrightarrow> xs \<noteq> [] \<and> hd (concat (xs # rest)) = hd xs"
  by (cases rest) auto

lemma headings_concat: "joined lanes \<Longrightarrow> headings (concat lanes) = concat (map headings lanes)"
proof (induction lanes rule: joined.induct)
  case (1 xs ys rest)
  have "concat (ys # rest) \<noteq> []" "hd (concat (ys # rest)) = hd ys" using 1(2) joined_hd [of ys rest] by auto
  then have "headings (xs @ concat (ys # rest)) = headings xs @ headings (concat (ys # rest))"
    using 1(2) by (intro headings_append) auto
  then show ?case using 1 by simp
qed auto

text \<open>The sum of the turns is the turning of the headings so far, and it remembers the last heading.\<close>

definition turn_ok :: "real list \<Rightarrow> turnSum \<Rightarrow> bool" where
  "turn_ok hs t = (ts_turn t = turning hs \<and> (ts_started t \<longleftrightarrow> hs \<noteq> []) \<and> (hs \<noteq> [] \<longrightarrow> ts_heading t = last hs))"

lemma turn_add_ok: "turn_ok hs t \<Longrightarrow> turn_ok (hs @ headings points) (turn_add t (newLaneShape points))"
  by (auto simp: turn_ok_def turn_add_def newLaneShape_spec emptyShape_def turning_append)

lemma turn_fold_ok:
  "turn_ok hs t \<Longrightarrow> turn_ok (hs @ concat (map headings lanes)) (foldl turn_add t (map newLaneShape lanes))"
proof (induction lanes arbitrary: hs t)
  case (Cons points lanes)
  then show ?case using Cons.IH [OF turn_add_ok [OF Cons.prems, of points]] by simp
qed simp

lemma runTurn_turning:
  assumes "joined lanes" and "map (\<lambda>lane. shapeOf env (lane_ID lane)) (drop i (take (j + 1) route)) = map newLaneShape lanes"
  shows "runTurn env route i j = turning (headings (concat lanes))"
proof -
  have "turn_ok [] zeroTurn" by (simp add: turn_ok_def zeroTurn_def)
  from turn_fold_ok [OF this, of lanes] show ?thesis
    unfolding runTurn_def assms(2) headings_concat [OF assms(1)] by (simp add: turn_ok_def)
qed

section \<open>The clearance of a link\<close>

text \<open>The cosine changes no faster than its angle.\<close>

lemma cos_slack:
  fixes t e :: real
  assumes "0 \<le> e" and "0 \<le> t" and "t + e \<le> pi"
  shows "cos t - e \<le> cos (t + e)"
proof -
  have "cos (t + e) = cos t - 2 * sin ((t + e + t) / 2) * sin (e / 2)"
    using cos_diff_cos [of t "t + e"] by (simp add: algebra_simps add_divide_distrib)
  moreover have "sin ((t + e + t) / 2) * sin (e / 2) \<le> 1 * (e / 2)"
    using assms by (intro mult_mono sin_x_le_x sin_ge_zero) auto
  ultimately show ?thesis by simp
qed

text \<open>A pod that comes to rest at its limit may close up by this much (\<open>PlatoonMotion\<close>).\<close>

definition restSlack :: real where "restSlack = 1 / 20000"

text \<open>
  The margin of the clearance covers the slack of the turn, as the comment of \<open>platoonTurnSlack\<close> says, and
  also \<open>restSlack\<close>.
\<close>

lemma clearance_covers_slack:
  assumes "0 \<le> turn" and "turn \<le> platoonMaxTurn" and "0 \<le> x" and "x \<le> turn + platoonTurnSlack"
  shows "Clearance \<le> cos (x / 2) * (linkClearance turn - restSlack)" and "0 < cos (x / 2)"
proof -
  define e where "e = platoonTurnSlack / 2"
  have e: "0 \<le> e" "e \<le> 1 / 10 ^ 9" by (simp_all add: e_def platoonTurnSlack_def)
  have p: "2 \<le> pi" by (rule pi_ge_two)
  have half: "turn / 2 \<le> pi / 3" using assms(2) by (simp add: platoonMaxTurn_def)
  have c: "1 / 2 \<le> cos (turn / 2)" using cos_monotone_0_pi_le [of "turn / 2" "pi / 3"] half assms(1) p by (simp add: cos_60)
  have "cos (turn / 2) - e \<le> cos (turn / 2 + e)" using assms(1) e half p by (intro cos_slack) auto
  also have "cos (turn / 2 + e) \<le> cos (x / 2)"
    using assms(3,4) e half p by (intro cos_monotone_0_pi_le) (auto simp: e_def field_simps)
  finally have low: "cos (turn / 2) - e \<le> cos (x / 2)" .
  then show "0 < cos (x / 2)" using c e by simp
  have "Clearance + platoonMargin * cos (turn / 2) - e * linkClearance turn = (cos (turn / 2) - e) * linkClearance turn"
  proof -
    have "cos (turn / 2) \<noteq> 0" using c by auto
    then have "cos (turn / 2) * (Clearance / cos (turn / 2)) = Clearance" by simp
    then have "cos (turn / 2) * linkClearance turn = Clearance + platoonMargin * cos (turn / 2)"
      by (simp add: linkClearance_def distrib_left mult.commute)
    then show ?thesis by (simp add: left_diff_distrib)
  qed
  also have "\<dots> \<le> cos (x / 2) * linkClearance turn"
    using low c by (intro mult_right_mono) (auto simp: linkClearance_def Clearance_def platoonMargin_def)
  finally have main: "Clearance + platoonMargin * cos (turn / 2) - e * linkClearance turn \<le> cos (x / 2) * linkClearance turn" .
  have "linkClearance turn \<le> 25"
  proof -
    have "Clearance / cos (turn / 2) \<le> Clearance / (1 / 2)" using c by (intro divide_left_mono) (auto simp: Clearance_def)
    then show ?thesis by (simp add: linkClearance_def Clearance_def platoonMargin_def)
  qed
  then have "e * linkClearance turn \<le> 1 / 10 ^ 9 * 25"
    using e c by (intro mult_mono) (auto simp: linkClearance_def Clearance_def platoonMargin_def)
  then have "e * linkClearance turn \<le> 1 / 1000" by (rule order_trans) simp
  moreover have "1 / 200 \<le> platoonMargin * cos (turn / 2)" using c by (simp add: platoonMargin_def)
  moreover have "cos (x / 2) * restSlack \<le> 1 / 20000"
    using mult_right_mono [OF cos_le_one, of restSlack "x / 2"] by (simp add: restSlack_def)
  ultimately show "Clearance \<le> cos (x / 2) * (linkClearance turn - restSlack)"
    using main unfolding right_diff_distrib by linarith
qed

lemma clearance_apart:
  assumes "joined lanes"
    and "map (\<lambda>lane. shapeOf env (lane_ID lane)) (drop i (take (j + 1) route)) = map newLaneShape lanes"
    and "runTurn env route i j \<le> turn + platoonTurnSlack" and "0 \<le> turn" and "turn \<le> platoonMaxTurn"
    and "0 \<le> a" and "a + linkClearance turn - restSlack \<le> b" and "b \<le> pathLen (concat lanes)"
  shows "Clearance \<le> gap (pathPoint (concat lanes) a) (pathPoint (concat lanes) b)"
proof -
  define x where "x = turning (headings (concat lanes))"
  have x: "0 \<le> x" "x \<le> turn + platoonTurnSlack" using assms(3) runTurn_turning [OF assms(1,2)] by (simp_all add: x_def)
  note cover = clearance_covers_slack [OF assms(4,5) x]
  have "0 < cos (x / 2) * (linkClearance turn - restSlack)" using cover(1) by (simp add: Clearance_def)
  then have clear: "0 \<le> linkClearance turn - restSlack" using cover(2) by (simp add: zero_less_mult_iff)
  have "Clearance \<le> cos (x / 2) * (linkClearance turn - restSlack)" by (rule cover(1))
  also have "\<dots> \<le> cos (x / 2) * (b - a)" using assms(7) cover(2) by (intro mult_left_mono) auto
  also have "\<dots> \<le> gap (pathPoint (concat lanes) a) (pathPoint (concat lanes) b)"
  proof (rule path_chord)
    show "x \<le> 2 * pi" using x(2) assms(5) pi_ge_two by (simp add: platoonMaxTurn_def platoonTurnSlack_def)
  qed (use assms clear x_def in auto)
  finally show ?thesis .
qed

text \<open>
  C12. The clearance of a link is enough: on a run of joined lanes whose turn is at most the turn of the link, up to
  the slack of the comparison of turns, two points that are the clearance of the link apart along the path, up to a
  twentieth of a millimetre, are at least \<open>Clearance\<close> apart in the plane.
\<close>

theorem link_clearance_apart:
  assumes "joined lanes"
    and "map (\<lambda>lane. shapeOf env (lane_ID lane)) (drop i (take (j + 1) route)) = map newLaneShape lanes"
    and "runTurn env route i j \<le> turn + platoonTurnSlack" and "0 \<le> turn" and "turn \<le> platoonMaxTurn"
    and "0 \<le> a" and "a + linkClearance turn - restSlack \<le> b" and "b \<le> pathLen (concat lanes)"
  shows "Clearance \<le> gap (pathPoint (concat lanes) a) (pathPoint (concat lanes) b)"
  using assms by (rule clearance_apart)

text \<open>A right-angled bend of two lanes, under the largest turn that a link may have.\<close>

definition bend :: "(real \<times> real) list list" where
  "bend = [[(0, 0), (100, 0)], [(100, 0), (100, 100)]]"

definition bendLane :: "string \<Rightarrow> Lane" where
  "bendLane i = \<lparr>lane_VehicleClasses = 0, lane_ID = i, lane_From = [], lane_To = [], lane_SpeedLimit = Fin 10,
    lane_SeparationGroup = [], lane_StationID = [], lane_StationRole = [], lane_Control = None\<rparr>"

definition bendEnv :: platoonEnv where
  "bendEnv = \<lparr>pe_shapes = [''a'' \<mapsto> newLaneShape (bend ! 0), ''b'' \<mapsto> newLaneShape (bend ! 1)], pe_stationLimits = Map.empty,
    pe_groupLane = (\<lambda>i. False), pe_depotLane = (\<lambda>i. False), pe_emergency = (\<lambda>p. False), pe_blocked = (\<lambda>r. False),
    pe_platoonLimit = 4\<rparr>"

lemma heading_axes: "0 < d \<Longrightarrow> atan2 0 d = 0" "0 < d \<Longrightarrow> atan2 d 0 = pi / 2"
proof -
  show "atan2 0 d = 0" if "0 < d"
    unfolding atan2_def using that by (intro cis_Arg_unique) (auto simp: sgn_eq complex_eq_iff cmod_def)
  show "atan2 d 0 = pi / 2" if "0 < d"
    unfolding atan2_def using that by (intro cis_Arg_unique) (auto simp: sgn_eq complex_eq_iff cmod_def)
qed

lemma bend_shapes:
  "newLaneShape (bend ! 0) = \<lparr>ls_start = 0, ls_end = 0, ls_curve = 0, ls_empty = False\<rparr>"
  "newLaneShape (bend ! 1) = \<lparr>ls_start = pi / 2, ls_end = pi / 2, ls_curve = 0, ls_empty = False\<rparr>"
  by (simp_all add: bend_def newLaneShape_def emptyShape_def heading_axes Let_def)

lemma quarter_turn: "mathRemainder (pi / 2) (2 * pi) = pi / 2"
  by (simp add: mathRemainder_def roundEven_def Let_def)

theorem link_clearance_apart_witness:
  "Clearance \<le> gap (pathPoint (concat bend) 0) (pathPoint (concat bend) 150)"
proof (rule link_clearance_apart [where lanes = bend and env = bendEnv and route = "[bendLane ''a'', bendLane ''b'']"
    and i = 0 and j = 1 and turn = platoonMaxTurn])
  show "runTurn bendEnv [bendLane ''a'', bendLane ''b''] 0 1 \<le> platoonMaxTurn + platoonTurnSlack"
  proof -
    have "runTurn bendEnv [bendLane ''a'', bendLane ''b''] 0 1 = pi / 2"
      by (simp add: runTurn_def shapeOf_def bendEnv_def bendLane_def bend_shapes [simplified] zeroTurn_def turn_add_def
          quarter_turn)
    moreover have "pi / 2 \<le> 2 * pi / 3 + (1 :: real) / 10 ^ 9"
      using pi_ge_zero by (simp add: field_simps)
    ultimately show ?thesis by (simp only: platoonMaxTurn_def platoonTurnSlack_def)
  qed
  have half: "platoonMaxTurn / 2 = pi / 3" by (simp add: platoonMaxTurn_def)
  show "0 + linkClearance platoonMaxTurn - restSlack \<le> 150"
    unfolding linkClearance_def half cos_60 by (simp add: Clearance_def platoonMargin_def restSlack_def)
  show "map (\<lambda>lane. shapeOf bendEnv (lane_ID lane)) (drop 0 (take (1 + 1) [bendLane ''a'', bendLane ''b''])) = map newLaneShape bend"
    by (simp add: shapeOf_def bendEnv_def bendLane_def bend_def)
qed (simp_all add: bend_def platoonMaxTurn_def gap_def)

end
