(* ===== verification/PlatoonMotion.thy ===== *)
theory PlatoonMotion
  imports PodMotion PlatoonGeometry
begin

text \<open>
  The motion of a tick for the whole fleet (\<open>Simulation.Step\<close> from \<open>platoonCaps\<close> on): the caps of the
  followers, the coast ceilings and then the move of each pod. A follower of a platoon keeps its stop point
  a clearance behind the stop point of its predecessor, and so the two pods stay apart.
\<close>

section \<open>Two pods\<close>

lemma near_kept:
  assumes f: "glide d v d' v'" and l: "glide e w e' w'"
    and spaced: "d' + stoppingDistance v' + clear \<le> off + e' + stoppingDistance w'"
    and near: "clear - restSlack \<le> off + e - d"
  shows "clear - restSlack \<le> off + e' - d'"
proof -
  obtain a where a: "0 \<le> a" "d' = d + a * tickSeconds \<and> v' = a \<or>
      v' = 0 \<and> d' < d + a * tickSeconds + 1 / 100000 \<and> stoppingDistance a < 1 / 100000"
    using f by (auto simp: glide_def)
  obtain b where b: "0 \<le> b" "e' = e + b * tickSeconds \<and> w' = b \<or> w' = 0"
    using l by (auto simp: glide_def)
  have mono: "stoppingDistance x \<le> stoppingDistance y" if "0 \<le> x" "x \<le> y" for x y
    using that by (auto simp: stoppingDistance_def acceleration_def intro!: mult_mono divide_right_mono)
  show ?thesis
  proof (cases "w' = 0")
    case True
    then have "stoppingDistance w' = 0" by simp
    then show ?thesis using spaced stoppingDistance_nonneg [of v'] unfolding restSlack_def by linarith
  next
    case False
    then have e': "e' = e + b * tickSeconds" "w' = b" using b(2) by simp_all
    from a(2) show ?thesis
    proof (elim disjE conjE)
      assume m: "d' = d + a * tickSeconds" "v' = a"
      show ?thesis
      proof (cases "a \<le> b")
        case True
        then have "a * tickSeconds \<le> b * tickSeconds" by (intro mult_right_mono) auto
        then show ?thesis using near unfolding m(1) e'(1) by linarith
      next
        case False
        then show ?thesis using spaced mono [OF b(1), of a] by (simp add: m e' restSlack_def)
      qed
    next
      assume m: "v' = 0" "d' < d + a * tickSeconds + 1 / 100000" "stoppingDistance a < 1 / 100000"
      have slow: "a \<le> 1 / 150" by (rule slow_stop [OF a(1) m(3)])
      show ?thesis
      proof (cases "b \<le> 1 / 100")
        case True
        have "stoppingDistance b \<le> stoppingDistance (1 / 100)" by (rule mono [OF b(1) True])
        then have "stoppingDistance b \<le> restSlack" by (simp add: stoppingDistance_def acceleration_def restSlack_def)
        then show ?thesis using spaced by (simp add: m(1) e')
      next
        case False
        then show ?thesis using near m(2) slow by (simp add: e' tickSeconds_def)
      qed
    qed
  qed
qed

text \<open>The run of a link is one path for both pods: each lane starts as far after the start of the run.\<close>

definition aligned :: "vehicle \<Rightarrow> vehicle \<Rightarrow> platoonLink \<Rightarrow> bool" where
  "aligned v leader link \<longleftrightarrow> 0 < pl_lanes link \<and>
    (\<forall>m<pl_lanes link. laneStart (vh_blocks v) (pl_lane link + m) - laneStart (vh_blocks leader) (pl_leaderLane link + m) =
      laneStart (vh_blocks v) (pl_lane link) - laneStart (vh_blocks leader) (pl_leaderLane link))"

lemma aligned_position:
  assumes "aligned v leader link"
  shows "leaderPosition v leader link =
    laneStart (vh_blocks v) (pl_lane link) - laneStart (vh_blocks leader) (pl_leaderLane link) + vh_distance leader"
proof -
  define k where "k = min (max (currentLane leader) (pl_leaderLane link)) (pl_leaderLane link + pl_lanes link - 1)"
  define m where "m = k - pl_leaderLane link"
  have "k = pl_leaderLane link + m" "m < pl_lanes link" using assms by (auto simp: k_def m_def aligned_def)
  moreover from this(2) have "laneStart (vh_blocks v) (pl_lane link + m) - laneStart (vh_blocks leader) (pl_leaderLane link + m) =
      laneStart (vh_blocks v) (pl_lane link) - laneStart (vh_blocks leader) (pl_leaderLane link)"
    using assms by (simp add: aligned_def)
  ultimately show ?thesis unfolding leaderPosition_def k_def [symmetric] Let_def by simp
qed

definition spaced :: "vehicle \<Rightarrow> vehicle \<Rightarrow> bool" where
  "spaced v leader \<longleftrightarrow> aligned v leader (vh_link v) \<and>
    stopPoint v + pl_clearance (vh_link v) \<le> leaderPosition v leader (vh_link v) + stoppingDistance (vh_Speed leader) \<and>
    pl_clearance (vh_link v) - restSlack \<le> leaderPosition v leader (vh_link v) - vh_distance v"

lemma pair_step:
  assumes sp: "spaced v leader"
    and f: "glide (vh_distance v) (vh_Speed v) (vh_distance v') (vh_Speed v')"
    and l: "glide (vh_distance leader) (vh_Speed leader) (vh_distance leader') (vh_Speed leader')"
    and same: "vh_blocks v' = vh_blocks v" "vh_link v' = vh_link v" "vh_blocks leader' = vh_blocks leader"
    and cap: "stopPoint v' \<le> leaderPosition v leader (vh_link v) + stoppingDistance (vh_Speed leader) - pl_clearance (vh_link v)"
  shows "spaced v' leader'"
proof -
  define off where "off = laneStart (vh_blocks v) (pl_lane (vh_link v)) - laneStart (vh_blocks leader) (pl_leaderLane (vh_link v))"
  have al: "aligned v leader (vh_link v)" using sp by (simp add: spaced_def)
  then have al': "aligned v' leader' (vh_link v)" by (simp add: aligned_def same)
  have pos: "leaderPosition v leader (vh_link v) = off + vh_distance leader"
    "leaderPosition v' leader' (vh_link v) = off + vh_distance leader'"
    by (simp_all add: aligned_position [OF al] aligned_position [OF al'] off_def same)
  have "vh_distance leader + stoppingDistance (vh_Speed leader) \<le> vh_distance leader' + stoppingDistance (vh_Speed leader')"
    using l by (simp add: glide_def)
  then have stop: "stopPoint v' + pl_clearance (vh_link v) \<le> off + vh_distance leader' + stoppingDistance (vh_Speed leader')"
    using cap by (simp add: pos)
  have "pl_clearance (vh_link v) - restSlack \<le> off + vh_distance leader' - vh_distance v'"
    by (rule near_kept [OF f l]) (use stop sp in \<open>simp_all add: spaced_def pos stopPoint_def\<close>)
  then show ?thesis using al' stop unfolding spaced_def same(2) pos(2) by simp
qed

section \<open>The motion of a tick\<close>

definition travelOf :: "string list \<Rightarrow> int \<Rightarrow> traffic \<Rightarrow> pacing list \<Rightarrow> (nat \<Rightarrow> bool) \<Rightarrow> nat \<Rightarrow> bool \<times> real \<times> real" where
  "travelOf reverse tick s paces wait i = (wait i, fst (move reverse tick (pod s i) (paces ! i)))"

definition movePaces :: "string list \<Rightarrow> int \<Rightarrow> traffic \<Rightarrow> pacing list \<Rightarrow> pacing list" where
  "movePaces reverse tick s paces =
    map (\<lambda>i. if vh_Activity (pod s i) = Traveling then snd (move reverse tick (pod s i) (paces ! i)) else paces ! i)
      [0..<length (tr_vehicles s)]"

definition setCaps :: "traffic \<Rightarrow> pacing list \<Rightarrow> pacing list" where
  "setCaps s paces = map2 (\<lambda>p c. p\<lparr>pa_platoonCap := c\<rparr>) paces (platoonCaps s (map pa_platoonCap paces))"

definition tickMotion ::
  "(nat \<Rightarrow> bool) \<Rightarrow> (string \<Rightarrow> bool) \<Rightarrow> string list \<Rightarrow> (nat \<Rightarrow> bool) \<Rightarrow> int \<Rightarrow> traffic \<Rightarrow> pacing list \<Rightarrow> traffic \<times> pacing list" where
  "tickMotion emergency diverges reverse wait tick s paces =
    (let (s', paces') = coastCaps emergency diverges tick s (setCaps s paces)
     in (fold (movePod (travelOf reverse tick s' paces' wait)) [0..<length (tr_vehicles s')] s', movePaces reverse tick s' paces'))"

section \<open>The fleet\<close>

text \<open>A pod that is on its way, or that leaves its berth in this tick.\<close>

definition moving :: "vehicle \<Rightarrow> bool" where
  "moving v \<longleftrightarrow> vh_Activity v = Traveling \<or>
    departs (vh_Activity v) \<and> vh_phaseTicks v = 0 \<and> 0 \<le> vh_reservedThrough v \<and> \<not> vh_faulted v"

definition fleet_steady :: "string list \<Rightarrow> traffic \<Rightarrow> pacing list \<Rightarrow> bool" where
  "fleet_steady reverse s paces \<longleftrightarrow> length paces = fleetSize s \<and>
    (\<forall>i<fleetSize s. moving (pod s i) \<longrightarrow> steady reverse (pod s i) (paces ! i))"

text \<open>Each follower on its way behind a pod on its way keeps its distance.\<close>

definition platoons_spaced :: "traffic \<Rightarrow> bool" where
  "platoons_spaced s \<longleftrightarrow> (\<forall>i<fleetSize s. \<forall>j<fleetSize s. leaderOf s i = Suc j \<and> vh_Activity (pod s i) = Traveling \<and>
    vh_Activity (pod s j) = Traveling \<longrightarrow> spaced (pod s i) (pod s j))"

lemma movePod_pod:
  "i < fleetSize s \<Longrightarrow> j < fleetSize s \<Longrightarrow> pod (movePod travel i s) j =
    (if j \<noteq> i then pod s j
     else if departs (vh_Activity (pod s i)) \<and> vh_phaseTicks (pod s i) = 0 \<and> vh_reservedThrough (pod s i) \<ge> 0 \<and> \<not> vh_faulted (pod s i)
     then departPod (pod s i)
     else if vh_Activity (pod s i) = Traveling
     then (case travel i of (wait, distance, speed) \<Rightarrow> publishVehicleTravel wait distance speed (pod s i))
     else pod s i)"
  by (cases "travel i") (auto simp: movePod_def Let_def pod_setPod)

lemma movePod_size: "fleetSize (movePod travel i s) = fleetSize s"
  by (cases "travel i") (auto simp: movePod_def Let_def setPod_def)

lemma fold_movePod:
  assumes "k \<le> fleetSize s"
  shows "fleetSize (fold (movePod travel) [0..<k] s) = fleetSize s \<and>
    (\<forall>j<fleetSize s. pod (fold (movePod travel) [0..<k] s) j = (if j < k then pod (movePod travel j s) j else pod s j))"
  using assms
proof (induction k)
  case (Suc k)
  let ?t = "fold (movePod travel) [0..<k] s"
  have ih: "fleetSize ?t = fleetSize s" "\<forall>j<fleetSize s. pod ?t j = (if j < k then pod (movePod travel j s) j else pod s j)"
    using Suc by simp_all
  have k: "k < fleetSize ?t" using Suc.prems ih(1) by simp
  have "pod (movePod travel k ?t) j = (if j < Suc k then pod (movePod travel j s) j else pod s j)" if "j < fleetSize s" for j
    using movePod_pod [OF k, of j travel] movePod_pod [of j s j travel] ih that by (auto simp: less_Suc_eq)
  then show ?case using ih(1) by (simp add: movePod_size)
qed simp

section \<open>The caps of the tick\<close>

lemma setCaps_nth:
  assumes "length paces = fleetSize s" and "i < fleetSize s"
  shows "setCaps s paces ! i = (paces ! i)\<lparr>pa_platoonCap := if leaderOf s i = 0 then pa_platoonCap (paces ! i) else platoonCap s i\<rparr>"
  using assms by (simp add: setCaps_def platoonCaps_def nth_enumerate_eq)

lemma setCaps_length: "length paces = fleetSize s \<Longrightarrow> length (setCaps s paces) = fleetSize s"
  by (simp add: setCaps_def platoonCaps_def)

lemma fold_coast:
  "length (fold (\<lambda>(i, bound) paces. paces[i := (paces ! i)\<lparr>pa_coast := \<lparr>cc_ceiling = bound, cc_tick = tick, cc_set = True\<rparr>\<rparr>]) xs ps) = length ps \<and>
    (\<forall>i<length ps. \<exists>k. fold (\<lambda>(i, bound) paces. paces[i := (paces ! i)\<lparr>pa_coast := \<lparr>cc_ceiling = bound, cc_tick = tick, cc_set = True\<rparr>\<rparr>]) xs ps ! i =
      (ps ! i)\<lparr>pa_coast := k\<rparr> \<and>
      (k = pa_coast (ps ! i) \<or> (\<exists>c. (i, c) \<in> set xs \<and> k = \<lparr>cc_ceiling = c, cc_tick = tick, cc_set = True\<rparr>)))"
  (is "length (fold ?f xs ps) = _ \<and> _")
proof (induction xs arbitrary: ps)
  case Nil
  have "\<exists>k. p = p\<lparr>pa_coast := k\<rparr> \<and> k = pa_coast p" for p :: pacing by (intro exI [of _ "pa_coast p"]) simp
  then show ?case by auto
next
  case (Cons x xs)
  obtain j c where x: "x = (j, c)" by (cases x)
  let ?ps = "ps[j := (ps ! j)\<lparr>pa_coast := \<lparr>cc_ceiling = c, cc_tick = tick, cc_set = True\<rparr>\<rparr>]"
  have step: "fold ?f (x # xs) ps = fold ?f xs ?ps" by (simp add: x)
  have len: "length (fold ?f xs ?ps) = length ps" using Cons [of ?ps] by simp
  have "\<exists>k. fold ?f xs ?ps ! i = (ps ! i)\<lparr>pa_coast := k\<rparr> \<and>
      (k = pa_coast (ps ! i) \<or> (\<exists>c. (i, c) \<in> set (x # xs) \<and> k = \<lparr>cc_ceiling = c, cc_tick = tick, cc_set = True\<rparr>))"
    if i: "i < length ps" for i
  proof -
    obtain k where k: "fold ?f xs ?ps ! i = (?ps ! i)\<lparr>pa_coast := k\<rparr>"
        "k = pa_coast (?ps ! i) \<or> (\<exists>c. (i, c) \<in> set xs \<and> k = \<lparr>cc_ceiling = c, cc_tick = tick, cc_set = True\<rparr>)"
      using Cons [of ?ps] i by auto
    then show ?thesis using i by (intro exI [of _ k]) (cases "i = j"; auto simp: x)
  qed
  then show ?case unfolding step len by blast
qed

lemma coastCaps_nth:
  assumes "coastCaps emergency diverges tick s ps = (s', ps')" and "i < length ps"
    and "\<not> (cc_set (pa_coast (ps ! i)) \<and> cc_tick (pa_coast (ps ! i)) = tick)"
  shows "length ps' = length ps" and "\<exists>k. ps' ! i = (ps ! i)\<lparr>pa_coast := k\<rparr> \<and>
    (\<forall>c. coastAt k tick = Some c \<longrightarrow> keepSpeed (vh_Speed (pod s i)) \<le> c)"
proof -
  let ?xs = "coastCeilings emergency diverges tick s (tr_denied s)"
  have ps': "ps' = fold (\<lambda>(i, bound) paces. paces[i := (paces ! i)\<lparr>pa_coast := \<lparr>cc_ceiling = bound, cc_tick = tick, cc_set = True\<rparr>\<rparr>]) ?xs ps"
    using assms(1) by (simp add: coastCaps_def)
  note fold = fold_coast [of tick ?xs ps, folded ps']
  show "length ps' = length ps" using fold by blast
  obtain k where k: "ps' ! i = (ps ! i)\<lparr>pa_coast := k\<rparr>"
      "k = pa_coast (ps ! i) \<or> (\<exists>c. (i, c) \<in> set ?xs \<and> k = \<lparr>cc_ceiling = c, cc_tick = tick, cc_set = True\<rparr>)"
    using fold assms(2) by blast
  have "keepSpeed (vh_Speed (pod s i)) \<le> c" if "coastAt k tick = Some c" for c
  proof -
    have "cc_set k \<and> cc_tick k = tick \<and> c = cc_ceiling k" using that by (simp add: coastAt_def split: if_splits)
    then have "(i, c) \<in> set ?xs" using k(2) assms(3) by (elim disjE exE conjE) simp_all
    then show ?thesis using coastCeiling_keeps by (fastforce simp: coastCeilings_member)
  qed
  then show "\<exists>k. ps' ! i = (ps ! i)\<lparr>pa_coast := k\<rparr> \<and> (\<forall>c. coastAt k tick = Some c \<longrightarrow> keepSpeed (vh_Speed (pod s i)) \<le> c)"
    using k(1) by blast
qed

lemma platoonCap_between:
  assumes sp: "spaced (pod s i) (pod s j)" and l: "leaderOf s i = Suc j" and on: "vh_Activity (pod s j) = Traveling"
    and v: "0 \<le> vh_Speed (pod s i)" and c: "platoonCap s i = Some c"
  shows "stopPoint (pod s i) \<le> c"
    and "c \<le> leaderPosition (pod s i) (pod s j) (vh_link (pod s i)) + stoppingDistance (vh_Speed (pod s j)) - pl_clearance (vh_link (pod s i))"
proof -
  define own where "own = stopPoint (pod s i)"
  define limit where "limit = leaderPosition (pod s i) (pod s j) (vh_link (pod s i)) + stoppingDistance (vh_Speed (pod s j)) -
    pl_clearance (vh_link (pod s i))"
  have "c = max (min own limit) (limit - vh_Speed (pod s i) * platoonReactionSeconds)"
    using c l on by (simp add: platoonCap_def Let_def own_def limit_def stopPoint_def)
  moreover have "own \<le> limit" using sp by (simp add: spaced_def own_def limit_def)
  moreover have "0 \<le> vh_Speed (pod s i) * platoonReactionSeconds" using v by (simp add: platoonReactionSeconds_def)
  ultimately show "own \<le> c" "c \<le> limit" by auto
qed

section \<open>A tick keeps the platoons\<close>

lemma steady_depart: "steady reverse (departPod v) p = steady reverse v p"
proof -
  have "dwellAhead reverse (departPod v) (pa_reversal p) = dwellAhead reverse v (pa_reversal p)"
    by (simp add: dwellAhead_def departPod_def searchFrom_def stopPoint_def currentLane_def)
  moreover have "stopPoint (departPod v) = stopPoint v" "placed (departPod v) = placed v" "currentLane (departPod v) = currentLane v"
    "vh_blocks (departPod v) = vh_blocks v" "vh_distance (departPod v) = vh_distance v" "vh_Speed (departPod v) = vh_Speed v"
    "vh_reservedThrough (departPod v) = vh_reservedThrough v" "vh_faulted (departPod v) = vh_faulted v"
    by (simp_all add: departPod_def stopPoint_def placed_def currentLane_def)
  ultimately show ?thesis by (simp only: steady_def)
qed

text \<open>Only pods on their way have links, and a coast ceiling of an earlier tick is out of date.\<close>

definition links_under_way :: "traffic \<Rightarrow> bool" where
  "links_under_way s \<longleftrightarrow> (\<forall>i<fleetSize s. \<forall>j<fleetSize s. leaderOf s i = Suc j \<longrightarrow>
    \<not> departs (vh_Activity (pod s i)) \<and> \<not> departs (vh_Activity (pod s j)))"

definition coasts_before :: "int \<Rightarrow> pacing list \<Rightarrow> bool" where
  "coasts_before tick paces \<longleftrightarrow> (\<forall>p\<in>set paces. cc_set (pa_coast p) \<longrightarrow> cc_tick (pa_coast p) < tick)"

lemma tick_pods:
  assumes w: "link_wf s" and st: "fleet_steady reverse s paces" and sp: "platoons_spaced s"
    and stale: "coasts_before tick paces" and run: "tickMotion emergency diverges reverse wait tick s paces = (s', paces')"
  shows "fleetSize s' = fleetSize s \<and> length paces' = fleetSize s \<and> (\<forall>i<fleetSize s.
    (vh_Activity (pod s i) = Traveling \<longrightarrow> vh_link (pod s' i) = vh_link (pod s i) \<and> vh_follower (pod s' i) = vh_follower (pod s i) \<and>
      vh_blocks (pod s' i) = vh_blocks (pod s i) \<and> (vh_Activity (pod s' i) = Traveling \<longrightarrow>
      glide (vh_distance (pod s i)) (vh_Speed (pod s i)) (vh_distance (pod s' i)) (vh_Speed (pod s' i)) \<and>
      steady reverse (pod s' i) (paces' ! i) \<and> currentLane (pod s i) \<le> currentLane (pod s' i) \<and>
      (\<forall>c. leaderOf s i \<noteq> 0 \<and> platoonCap s i = Some c \<longrightarrow> stopPoint (pod s' i) \<le> c))) \<and>
    (vh_Activity (pod s i) \<noteq> Traveling \<longrightarrow>
      pod s' i = (if moving (pod s i) then departPod (pod s i) else pod s i) \<and>
      pa_reversal (paces' ! i) = pa_reversal (paces ! i) \<and> pa_faultCap (paces' ! i) = pa_faultCap (paces ! i) \<and>
      (moving (pod s i) \<longrightarrow> steady reverse (pod s' i) (paces' ! i))))"
proof -
  obtain s1 ps where cc: "coastCaps emergency diverges tick s (setCaps s paces) = (s1, ps)"
    by (cases "coastCaps emergency diverges tick s (setCaps s paces)")
  have len: "length paces = fleetSize s" using st by (simp add: fleet_steady_def)
  have s1: "s1 = s\<lparr>tr_denied := []\<rparr>" using cc by (simp add: coastCaps_def)
  let ?travel = "travelOf reverse tick s1 ps wait"
  have s': "s' = fold (movePod ?travel) [0..<fleetSize s1] s1" and paces': "paces' = movePaces reverse tick s1 ps"
    using run unfolding tickMotion_def cc prod.case by simp_all
  note fold = fold_movePod [of "fleetSize s1" s1 ?travel, folded s']
  have size: "fleetSize s' = fleetSize s" using fold by (simp add: s1)
  have pod': "pod s' i = pod (movePod ?travel i s1) i" if "i < fleetSize s" for i using fold that by (simp add: s1)
  have caps: "\<exists>k. ps ! i = (setCaps s paces ! i)\<lparr>pa_coast := k\<rparr> \<and> (\<forall>c. coastAt k tick = Some c \<longrightarrow> keepSpeed (vh_Speed (pod s i)) \<le> c)"
    if i: "i < fleetSize s" for i
  proof (rule coastCaps_nth(2) [OF cc])
    show "i < length (setCaps s paces)" using i len by (simp add: setCaps_length)
    have "paces ! i \<in> set paces" using i len by simp
    then have "cc_set (pa_coast (paces ! i)) \<longrightarrow> cc_tick (pa_coast (paces ! i)) < tick" using stale by (simp add: coasts_before_def)
    then show "\<not> (cc_set (pa_coast (setCaps s paces ! i)) \<and> cc_tick (pa_coast (setCaps s paces ! i)) = tick)"
      using setCaps_nth [OF len i] by auto
  qed
  have steady': "steady reverse v (ps ! i)" if i: "i < fleetSize s" and v: "steady reverse v (paces ! i)" for i v
  proof -
    obtain k where "ps ! i = (setCaps s paces ! i)\<lparr>pa_coast := k\<rparr>" using caps [OF i] by blast
    then show ?thesis using v setCaps_nth [OF len i] by (simp add: steady_def)
  qed
  have one: "(vh_Activity (pod s i) = Traveling \<longrightarrow> vh_link (pod s' i) = vh_link (pod s i) \<and> vh_follower (pod s' i) = vh_follower (pod s i) \<and>
      vh_blocks (pod s' i) = vh_blocks (pod s i) \<and> (vh_Activity (pod s' i) = Traveling \<longrightarrow>
      glide (vh_distance (pod s i)) (vh_Speed (pod s i)) (vh_distance (pod s' i)) (vh_Speed (pod s' i)) \<and>
      steady reverse (pod s' i) (paces' ! i) \<and> currentLane (pod s i) \<le> currentLane (pod s' i) \<and>
      (\<forall>c. leaderOf s i \<noteq> 0 \<and> platoonCap s i = Some c \<longrightarrow> stopPoint (pod s' i) \<le> c))) \<and>
    (vh_Activity (pod s i) \<noteq> Traveling \<longrightarrow>
      pod s' i = (if moving (pod s i) then departPod (pod s i) else pod s i) \<and>
      pa_reversal (paces' ! i) = pa_reversal (paces ! i) \<and> pa_faultCap (paces' ! i) = pa_faultCap (paces ! i) \<and>
      (moving (pod s i) \<longrightarrow> steady reverse (pod s' i) (paces' ! i)))" if i: "i < fleetSize s" for i
  proof (cases "vh_Activity (pod s i) = Traveling")
    case True
    define v p where "v = pod s i" and "p = ps ! i"
    obtain d v' p' where m: "move reverse tick v p = ((d, v'), p')" by (metis surj_pair)
    have tr: "vh_Activity v = Traveling" and mv: "moving v" using True by (simp_all add: v_def moving_def)
    have stv: "steady reverse v p" using st i mv steady' [OF i] by (simp add: fleet_steady_def v_def p_def)
    obtain k where k: "p = (setCaps s paces ! i)\<lparr>pa_coast := k\<rparr>" "\<And>c. coastAt k tick = Some c \<Longrightarrow> keepSpeed (vh_Speed v) \<le> c"
      using caps [OF i] unfolding v_def p_def by blast
    have cap: "pa_platoonCap p = (if leaderOf s i = 0 then pa_platoonCap (paces ! i) else platoonCap s i)"
      using k(1) setCaps_nth [OF len i] by simp
    have speed: "0 \<le> vh_Speed v" using stv by (simp add: steady_def calm_def)
    have "stopPoint v \<le> c" if c: "leaderOf s i \<noteq> 0" "platoonCap s i = Some c" for c
    proof -
      obtain j where j: "leaderOf s i = Suc j" using c(1) by (cases "leaderOf s i") auto
      have jn: "j < fleetSize s" using link_wf_bound(1) [OF w] i j by (metis Suc_le_eq)
      have "vh_Activity (pod s j) = Traveling" using c(2) j by (auto simp: platoonCap_def Let_def split: if_splits)
      then show ?thesis using platoonCap_between(1) [OF _ j _ _ c(2)] sp i jn j True speed
        by (simp add: platoons_spaced_def v_def)
    qed
    then have capd: "capped tick v p" using k cap by (simp add: capped_def v_def)
    have pace: "paces' ! i = p'" using i True m by (simp add: paces' movePaces_def s1 v_def p_def)
    have tv: "?travel i = (wait i, d, v')" using m by (simp add: travelOf_def s1 v_def p_def)
    have u: "pod s' i = publishVehicleTravel (wait i) d v' v"
      using pod' [OF i] movePod_pod [of i s1 i ?travel] i True unfolding tv by (simp add: s1 v_def departs_def)
    have link: "vh_link (pod s' i) = vh_link v" "vh_follower (pod s' i) = vh_follower v" "vh_blocks (pod s' i) = vh_blocks v"
      using publish_moved [OF tr] by (simp_all add: u moved_def)
    have "vh_Activity (pod s' i) = Traveling \<Longrightarrow>
        glide (vh_distance v) (vh_Speed v) (vh_distance (pod s' i)) (vh_Speed (pod s' i)) \<and> stopPoint (pod s' i) \<le> moveLimit v p \<and>
        steady reverse (pod s' i) p' \<and> vh_blocks (pod s' i) = vh_blocks v \<and> vh_link (pod s' i) = vh_link v \<and>
        currentLane v \<le> currentLane (pod s' i)"
      by (rule pod_step [OF stv capd tr m u])
    moreover have "moveLimit v p \<le> c" if "leaderOf s i \<noteq> 0" "platoonCap s i = Some c" for c
      using that cap by (intro moveLimit_cap) (simp_all add: v_def)
    ultimately show ?thesis using True link pace by (auto simp: v_def intro: order_trans)
  next
    case False
    then have u: "pod s' i = (if moving (pod s i) then departPod (pod s i) else pod s i)"
      using pod' [OF i] movePod_pod [of i s1 i ?travel] i by (auto simp: s1 moving_def)
    have pace: "paces' ! i = ps ! i" using i False by (simp add: paces' movePaces_def s1)
    have "moving (pod s i) \<Longrightarrow> steady reverse (pod s i) (ps ! i)" using st i steady' [OF i] by (simp add: fleet_steady_def)
    moreover have "pa_reversal (ps ! i) = pa_reversal (paces ! i)" "pa_faultCap (ps ! i) = pa_faultCap (paces ! i)"
      using caps [OF i] setCaps_nth [OF len i] by auto
    ultimately show ?thesis using False u pace steady_depart by simp
  qed
  have "length paces' = fleetSize s" by (simp add: paces' movePaces_def s1)
  then show ?thesis using size one by blast
qed

lemma tick_publish:
  assumes run: "tickMotion emergency diverges reverse wait tick s paces = (s', paces')"
    and i: "i < fleetSize s" "vh_Activity (pod s i) = Traveling"
  shows "\<exists>w d v. pod s' i = publishVehicleTravel w d v (pod s i)"
proof -
  obtain s1 ps where cc: "coastCaps emergency diverges tick s (setCaps s paces) = (s1, ps)"
    by (cases "coastCaps emergency diverges tick s (setCaps s paces)")
  have s1: "s1 = s\<lparr>tr_denied := []\<rparr>" using cc by (simp add: coastCaps_def)
  let ?travel = "travelOf reverse tick s1 ps wait"
  obtain w d v where t: "?travel i = (w, d, v)" by (cases "?travel i")
  have s': "s' = fold (movePod ?travel) [0..<fleetSize s1] s1" using run unfolding tickMotion_def cc prod.case by simp
  have "pod s' i = publishVehicleTravel w d v (pod s i)"
    using fold_movePod [of "fleetSize s1" s1 ?travel, folded s'] movePod_pod [of i s1 i ?travel] i unfolding t
    by (simp add: s1 departs_def)
  then show ?thesis by blast
qed

lemma tick_departs:
  assumes "tickMotion emergency diverges reverse wait tick s paces = (s', paces')"
    and i: "i < fleetSize s" "vh_Activity (pod s i) = Traveling"
  shows "\<not> departs (vh_Activity (pod s' i))"
  using tick_publish [OF assms] publish_moved [OF i(2)] by (auto simp: moved_def)

lemma publish_rests:
  assumes "vh_Activity v = Traveling"
  shows "vh_Activity (publishVehicleTravel w d x v) = Traveling \<or> vh_Speed (publishVehicleTravel w d x v) = 0"
proof -
  obtain u b where a: "advanceBlocks (v\<lparr>vh_distance := d, vh_Speed := x\<rparr>) = (u, b)"
    by (cases "advanceBlocks (v\<lparr>vh_distance := d, vh_Speed := x\<rparr>)")
  obtain k where "u = v\<lparr>vh_distance := d, vh_Speed := x, vh_blockIndex := k\<rparr>" using advanceBlocks_same [OF a] by blast
  then have "vh_Activity u = Traveling" using assms by simp
  then show ?thesis by (cases b) (simp_all add: publishVehicleTravel_def a Let_def arrivePod_def)
qed

lemma tick_rests:
  assumes "tickMotion emergency diverges reverse wait tick s paces = (s', paces')"
    and i: "i < fleetSize s" "vh_Activity (pod s i) = Traveling"
  shows "vh_Activity (pod s' i) = Traveling \<or> vh_Speed (pod s' i) = 0"
  using tick_publish [OF assms] publish_rests [OF i(2)] by metis

lemma tick_coasts:
  assumes run: "tickMotion emergency diverges reverse wait tick s paces = (s', paces')"
    and len: "length paces = fleetSize s" and stale: "coasts_before tick paces"
  shows "coasts_before (tick + 1) paces'"
proof -
  obtain s1 ps where cc: "coastCaps emergency diverges tick s (setCaps s paces) = (s1, ps)"
    by (cases "coastCaps emergency diverges tick s (setCaps s paces)")
  have s1: "s1 = s\<lparr>tr_denied := []\<rparr>" using cc by (simp add: coastCaps_def)
  let ?xs = "coastCeilings emergency diverges tick s (tr_denied s)"
  have ps: "ps = fold (\<lambda>(i, bound) paces. paces[i := (paces ! i)\<lparr>pa_coast := \<lparr>cc_ceiling = bound, cc_tick = tick, cc_set = True\<rparr>\<rparr>]) ?xs (setCaps s paces)"
    using cc by (simp add: coastCaps_def)
  have old: "cc_tick (pa_coast (ps ! i)) \<le> tick" if i: "i < fleetSize s" "cc_set (pa_coast (ps ! i))" for i
  proof -
    have "\<exists>k. ps ! i = (setCaps s paces ! i)\<lparr>pa_coast := k\<rparr> \<and>
        (k = pa_coast (setCaps s paces ! i) \<or> (\<exists>c. (i, c) \<in> set ?xs \<and> k = \<lparr>cc_ceiling = c, cc_tick = tick, cc_set = True\<rparr>))"
      using fold_coast [of tick ?xs "setCaps s paces", folded ps] i(1) setCaps_length [OF len] by auto
    moreover have "cc_set (pa_coast (paces ! i)) \<longrightarrow> cc_tick (pa_coast (paces ! i)) < tick"
      using stale i(1) len by (simp add: coasts_before_def)
    ultimately show ?thesis using i setCaps_nth [OF len i(1)] by auto
  qed
  have "pa_coast (paces' ! i) = pa_coast (ps ! i)" if "i < fleetSize s" for i
  proof -
    have "paces' = movePaces reverse tick s1 ps" using run unfolding tickMotion_def cc prod.case by simp
    then show ?thesis using that by (simp add: movePaces_def s1 move_def Let_def split: prod.split)
  qed
  moreover have "length paces' = fleetSize s"
    using run unfolding tickMotion_def cc prod.case by (auto simp: movePaces_def s1)
  ultimately show ?thesis using old unfolding coasts_before_def by (fastforce simp: in_set_conv_nth)
qed

lemma tick_spaced:
  assumes "link_wf s" and "links_under_way s" and "fleet_steady reverse s paces" and "platoons_spaced s"
    and "coasts_before tick paces" and "tickMotion emergency diverges reverse wait tick s paces = (s', paces')"
  shows "fleet_steady reverse s' paces' \<and> platoons_spaced s'"
proof -
  note pods = tick_pods [OF assms(1,3,4,5,6)]
  have size: "fleetSize s' = fleetSize s" "length paces' = fleetSize s" using pods by blast+
  have pod_i: "\<And>i. i < fleetSize s \<Longrightarrow> vh_Activity (pod s i) = Traveling \<Longrightarrow> vh_link (pod s' i) = vh_link (pod s i)"
    "\<And>i. i < fleetSize s \<Longrightarrow> vh_Activity (pod s i) = Traveling \<Longrightarrow> vh_Activity (pod s' i) = Traveling \<Longrightarrow>
      glide (vh_distance (pod s i)) (vh_Speed (pod s i)) (vh_distance (pod s' i)) (vh_Speed (pod s' i)) \<and>
      steady reverse (pod s' i) (paces' ! i) \<and> vh_blocks (pod s' i) = vh_blocks (pod s i) \<and>
      (\<forall>c. leaderOf s i \<noteq> 0 \<and> platoonCap s i = Some c \<longrightarrow> stopPoint (pod s' i) \<le> c)"
    "\<And>i. i < fleetSize s \<Longrightarrow> vh_Activity (pod s i) \<noteq> Traveling \<Longrightarrow>
      pod s' i = (if moving (pod s i) then departPod (pod s i) else pod s i) \<and> (moving (pod s i) \<longrightarrow> steady reverse (pod s' i) (paces' ! i))"
    using pods by blast+
  have arrived: "\<not> departs (vh_Activity (pod s' i))" if i: "i < fleetSize s" "vh_Activity (pod s i) = Traveling" for i
    using tick_departs [OF assms(6) i] .
  have "steady reverse (pod s' i) (paces' ! i)" if i: "i < fleetSize s" "moving (pod s' i)" for i
  proof (cases "vh_Activity (pod s i) = Traveling")
    case True
    then have "vh_Activity (pod s' i) = Traveling" using i arrived [OF i(1) True] by (simp add: moving_def)
    then show ?thesis using pod_i(2) [OF i(1) True] by blast
  next
    case False
    then have "moving (pod s i)" using pod_i(3) [OF i(1) False] i(2) by (auto split: if_splits)
    then show ?thesis using pod_i(3) [OF i(1) False] by blast
  qed
  moreover have "spaced (pod s' i) (pod s' j)"
    if ij: "i < fleetSize s" "j < fleetSize s" "leaderOf s' i = Suc j" and on: "vh_Activity (pod s' i) = Traveling" "vh_Activity (pod s' j) = Traveling"
    for i j
  proof -
    have same_link: "leaderOf s k = leaderOf s' k" if "k < fleetSize s" for k
      using pod_i(1,3) [OF that] by (cases "vh_Activity (pod s k) = Traveling") (auto simp: departPod_def)
    have l: "leaderOf s i = Suc j" using same_link [OF ij(1)] ij(3) by simp
    have no: "\<not> departs (vh_Activity (pod s i))" "\<not> departs (vh_Activity (pod s j))"
      using assms(2) ij(1,2) l by (simp_all add: links_under_way_def)
    have before: "vh_Activity (pod s k) = Traveling" if "k < fleetSize s" "vh_Activity (pod s' k) = Traveling" "\<not> departs (vh_Activity (pod s k))" for k
    proof (rule ccontr)
      assume n: "vh_Activity (pod s k) \<noteq> Traveling"
      then have "\<not> moving (pod s k)" using that(3) by (simp add: moving_def)
      then show False using pod_i(3) [OF that(1) n] that(2) n by simp
    qed
    have ti: "vh_Activity (pod s i) = Traveling" and tj: "vh_Activity (pod s j) = Traveling"
      using before ij on no by blast+
    have sp: "spaced (pod s i) (pod s j)" using assms(4) ij(1,2) l ti tj by (simp add: platoons_spaced_def)
    note fi = pod_i(2) [OF ij(1) ti on(1)] and fj = pod_i(2) [OF ij(2) tj on(2)]
    have st: "steady reverse (pod s i) (paces ! i)" using assms(3) ij(1) ti by (simp add: fleet_steady_def moving_def)
    obtain c where c: "platoonCap s i = Some c" using l tj by (simp add: platoonCap_def Let_def)
    have v: "0 \<le> vh_Speed (pod s i)" using st by (simp add: steady_def calm_def)
    have "stopPoint (pod s' i) \<le> c" using fi c l by simp
    also note platoonCap_between(2) [OF sp l tj v c]
    finally show ?thesis using fi fj pod_i(1) [OF ij(1) ti] by (intro pair_step [OF sp]) auto
  qed
  ultimately show ?thesis using size by (simp add: fleet_steady_def platoons_spaced_def)
qed

text \<open>
  C4. A tick keeps every platoon safe. Let every pod on its way obey its speed limits, its reservation, its fault cap
  and its next dwell, and let every follower stop a clearance behind the stop point of its predecessor and be that
  clearance behind it, up to a twentieth of a millimetre. After \<open>platoonCaps\<close>, \<open>coastCaps\<close> and the moves of all
  pods the same holds again: no pod ever has to brake harder than the design, no reservation is overrun, and no
  follower comes closer.
\<close>

theorem tick_keeps_platoons:
  assumes "link_wf s" and "links_under_way s" and "fleet_steady reverse s paces" and "platoons_spaced s"
    and "coasts_before tick paces" and "tickMotion emergency diverges reverse wait tick s paces = (s', paces')"
  shows "fleet_steady reverse s' paces' \<and> platoons_spaced s'"
  using tick_spaced [OF assms] .

text \<open>On a run that the link certifies, the predecessor is \<open>Clearance\<close> away in the plane.\<close>

lemma platoon_pods_apart:
  assumes "fleet_steady reverse s paces" and "platoons_spaced s" and "i < fleetSize s" and "j < fleetSize s"
    and "leaderOf s i = Suc j" and "vh_Activity (pod s i) = Traveling" and "vh_Activity (pod s j) = Traveling"
    and "v = pod s i" and "link = vh_link v" and "k = currentLane v"
    and "runTurn env (vRoute v) k (lastRunLane link) \<le> pl_turn link + platoonTurnSlack"
    and "0 \<le> pl_turn link" and "pl_turn link \<le> platoonMaxTurn" and "pl_clearance link = linkClearance (pl_turn link)"
    and "joined lanes"
    and "map (\<lambda>lane. shapeOf env (lane_ID lane)) (drop k (take (lastRunLane link + 1) (vRoute v))) = map newLaneShape lanes"
    and "leaderPosition v (pod s j) link - laneStart (vh_blocks v) k \<le> pathLen (concat lanes)"
  shows "Clearance \<le> gap (pathPoint (concat lanes) (vh_distance v - laneStart (vh_blocks v) k))
    (pathPoint (concat lanes) (leaderPosition v (pod s j) link - laneStart (vh_blocks v) k))"
proof -
  have "steady reverse v (paces ! i)" using assms(1,3,6) by (simp add: fleet_steady_def moving_def assms(8))
  then have "laneStart (vh_blocks v) k \<le> vh_distance v"
    using placed_inLane [of v] by (simp add: steady_def inLane_def assms(10))
  moreover have "pl_clearance link - restSlack \<le> leaderPosition v (pod s j) link - vh_distance v"
    using assms(2-7) by (simp add: platoons_spaced_def spaced_def assms(8,9))
  ultimately show ?thesis using assms(14) by (intro clearance_apart [OF assms(15,16,11,12,13) _ _ assms(17)]) auto
qed

section \<open>A platoon of two pods\<close>

definition oneCell :: laneCells where
  "oneCell = \<lparr>lc_tail = 0, lc_fromTail = 0, lc_retention = 0, lc_resources = [], lc_ends = [0]\<rparr>"

definition twoLanes :: blockList where
  "twoLanes = \<lparr>bl_route = [bendLane ''a'', bendLane ''b''], bl_lanes =
     [\<lparr>rl_first = 0, rl_start = 0, rl_length = 100, rl_cells = oneCell\<rparr>,
      \<lparr>rl_first = 1, rl_start = 100, rl_length = 100, rl_cells = oneCell\<rparr>,
      \<lparr>rl_first = 2, rl_start = 200, rl_length = 0, rl_cells = noCells\<rparr>], bl_blocks = 2, bl_scan = 0\<rparr>"

definition nowhere :: Berth where
  "nowhere = \<lparr>berth_VehicleClasses = 0, berth_ID = [], berth_Node = [], berth_SeparationGroup = []\<rparr>"

definition runPod :: "string \<Rightarrow> real \<Rightarrow> platoonLink \<Rightarrow> nat \<Rightarrow> vehicle" where
  "runPod ident d link behind =
    \<lparr>vh_ID = ident, vh_Class = [], vh_Activity = Traveling, vh_StationID = [], vh_BerthID = [], vh_LaneID = ''a'',
     vh_LaneDistance = d, vh_Speed = 4, vh_Occupied = False, vh_WaitReason = [], vh_BlockedBy = [], vh_RelocatingTo = [],
     vh_RidersDone = [], vh_phaseTicks = 0, vh_blocks = twoLanes, vh_routeReleases = [], vh_blockIndex = 0,
     vh_reservedThrough = 1, vh_originReleased = True, vh_distance = d, vh_pending = - 1, vh_waitSince = 0,
     vh_origin = nowhere, vh_destination = nowhere, vh_destinationStation = ''s'', vh_nextRelease = None, vh_link = link,
     vh_follower = behind, vh_faulted = False, vh_depotArrived = False\<rparr>"

text \<open>The link of the bend: its turn is the largest that a link may have.\<close>

definition bendLink :: platoonLink where
  "bendLink = \<lparr>pl_leader = 2, pl_lane = 0, pl_leaderLane = 0, pl_lanes = 2, pl_end = 0, pl_turn = platoonMaxTurn,
    pl_clearance = linkClearance platoonMaxTurn, pl_draining = False\<rparr>"

definition runFleet :: traffic where
  "runFleet = \<lparr>tr_vehicles = [runPod ''p'' 40 bendLink 0, runPod ''q'' 90 noLink 1], tr_owners = Map.empty,
    tr_platooning = True, tr_groups = [], tr_stations = [], tr_faults = [], tr_denied = []\<rparr>"

definition runPaces :: "pacing list" where
  "runPaces = replicate 2 \<lparr>pa_platoonCap = None, pa_coast = zeroCoast, pa_faultCap = 0, pa_reversal = clearReversal\<rparr>"

lemma twoLanes_good: "goodBlocks twoLanes"
  by (auto simp: goodBlocks_def wf_blocks_def twoLanes_def oneCell_def lc_count_def laneFirst_def speedLimit_def bendLane_def
      less_Suc_eq numeral_2_eq_2)

lemma twoLanes_eval: "routeLane twoLanes 0 = 0" "blockStart twoLanes 0 = 0" "blockEnd twoLanes 0 = 100" "blockEnd twoLanes 1 = 200"
  "speedLimit twoLanes 0 = 10" "speedLimit twoLanes (Suc 0) = 10" "laneStart twoLanes 0 = 0" "laneStart twoLanes (Suc 0) = 100"
  "length (bl_route twoLanes) = 2" "bl_blocks twoLanes = 2" "blockEnd twoLanes (Suc 0) = 200"
  by code_simp+

lemma runPod_fields [simp]:
  "vh_blocks (runPod n d l b) = twoLanes" "vh_distance (runPod n d l b) = d" "vh_Speed (runPod n d l b) = 4"
  "vh_link (runPod n d l b) = l" "vh_follower (runPod n d l b) = b" "vh_blockIndex (runPod n d l b) = 0"
  "vh_reservedThrough (runPod n d l b) = 1" "vh_faulted (runPod n d l b) = False" "vh_Activity (runPod n d l b) = Traveling"
  by (simp_all add: runPod_def)

lemma bendLink_fields [simp]:
  "pl_leader bendLink = 2" "pl_lane bendLink = 0" "pl_leaderLane bendLink = 0" "pl_lanes bendLink = 2"
  "pl_turn bendLink = platoonMaxTurn" "pl_clearance bendLink = linkClearance platoonMaxTurn" "pl_leader noLink = 0"
  by (simp_all add: bendLink_def noLink_def)

lemma runPod_lane [simp]: "currentLane (runPod ident d link behind) = 0"
  by (simp add: currentLane_def twoLanes_eval)

lemma runPod_steady: "0 \<le> d \<Longrightarrow> d \<le> 90 \<Longrightarrow> steady [] (runPod ident d link behind) p"
  using twoLanes_good twoLanes_eval
  by (auto simp: steady_def placed_def calm_def inLane_def brakeable_def stopPoint_def stoppingDistance_def
      acceleration_def dwellAhead_def less_2_cases_iff)

lemma bendLink_clearance: "linkClearance platoonMaxTurn = 24 + 1 / 100"
proof -
  have "platoonMaxTurn / 2 = pi / 3" by (simp add: platoonMaxTurn_def)
  then have "cos (platoonMaxTurn / 2) = 1 / 2" by (simp only: cos_60)
  then show ?thesis unfolding linkClearance_def Clearance_def platoonMargin_def by (simp only:) simp
qed

lemma runFleet_aligned: "aligned (runPod ''p'' 40 bendLink 0) (runPod ''q'' 90 noLink 1) bendLink"
  by (simp add: aligned_def)

lemma runFleet_spaced: "spaced (runPod ''p'' 40 bendLink 0) (runPod ''q'' 90 noLink 1)"
  using runFleet_aligned
  by (simp add: spaced_def aligned_position bendLink_clearance stopPoint_def restSlack_def)

lemma runFleet_pods: "tr_vehicles runFleet = [runPod ''p'' 40 bendLink 0, runPod ''q'' 90 noLink 1]"
  by (simp add: runFleet_def)

lemma runFleet_ok: "link_wf runFleet" "links_under_way runFleet" "fleet_steady [] runFleet runPaces" "platoons_spaced runFleet"
  "coasts_before 1 runPaces"
proof -
  have rel: "link_rel (leaderOf runFleet) (fleetSize runFleet) = {(0, 1)}"
    by (auto simp: link_rel_def runFleet_pods less_2_cases_iff numeral_2_eq_2 less_Suc_eq)
  have "acyclic {(0::nat, 1::nat)}" by (simp add: acyclic_insert) (simp add: acyclic_def)
  then show "link_wf runFleet" unfolding link_wf_def rel
    by (auto simp: runFleet_pods less_Suc_eq numeral_2_eq_2)
  show "links_under_way runFleet"
    by (auto simp: links_under_way_def runFleet_pods departs_def less_Suc_eq numeral_2_eq_2)
  show "fleet_steady [] runFleet runPaces"
    by (auto simp: fleet_steady_def runFleet_pods runPaces_def runPod_steady less_Suc_eq numeral_2_eq_2)
  show "platoons_spaced runFleet"
    using runFleet_spaced by (auto simp: platoons_spaced_def runFleet_pods less_Suc_eq numeral_2_eq_2)
  show "coasts_before 1 runPaces" by (simp add: coasts_before_def runPaces_def zeroCoast_def)
qed

theorem tick_keeps_platoons_witness:
  "platoons_spaced (fst (tickMotion (\<lambda>p. False) (\<lambda>n. False) [] (\<lambda>i. False) 1 runFleet runPaces)) \<and> leaderOf runFleet 0 = 2"
  using tick_keeps_platoons [OF runFleet_ok surjective_pairing] by (simp add: runFleet_pods)

end
