(* ===== verification/PlatoonLinks.thy ===== *)
theory PlatoonLinks
  imports PlatoonMotion
begin

text \<open>
  The links that \<open>formPlatoons\<close> makes, grows and ends. A link certifies its run: one path of lanes that both
  routes share, whose turn is at most the turn of the link. A new link starts with its pods spaced, a link that grows
  keeps its turn and its clearance, and the links stay a set of chains.
\<close>

section \<open>The turn of a run\<close>

text \<open>The shapes of the index are those of the lanes; a lane without one has the zero value of a shape.\<close>

definition good_shapes :: "platoonEnv \<Rightarrow> bool" where
  "good_shapes env \<longleftrightarrow> (\<forall>i shape. pe_shapes env i = Some shape \<longrightarrow> (\<exists>points. shape = newLaneShape points))"

lemma shapeOf_points:
  assumes "good_shapes env"
  shows "\<exists>points. shapeOf env i = newLaneShape points"
proof (cases "pe_shapes env i")
  case None
  have "newLaneShape [(0, 0), (1, 0)] = shapeOf env i"
    using None heading_axes(1) [of 1] by (simp add: shapeOf_def newLaneShape_def emptyShape_def)
  then show ?thesis by metis
next
  case (Some shape)
  then show ?thesis using assms by (auto simp: good_shapes_def shapeOf_def)
qed

definition shapePoints :: "platoonEnv \<Rightarrow> Lane list \<Rightarrow> (real \<times> real) list list" where
  "shapePoints env route = map (\<lambda>lane. SOME points. shapeOf env (lane_ID lane) = newLaneShape points) route"

definition runHeadings :: "platoonEnv \<Rightarrow> Lane list \<Rightarrow> real list" where
  "runHeadings env route = concat (map headings (shapePoints env route))"

lemma shapePoints_shapes: "good_shapes env \<Longrightarrow> map newLaneShape (shapePoints env route) = map (\<lambda>lane. shapeOf env (lane_ID lane)) route"
proof -
  assume g: "good_shapes env"
  have "newLaneShape (SOME points. shapeOf env i = newLaneShape points) = shapeOf env i" for i
    using someI_ex [OF shapeOf_points [OF g]] by metis
  then show ?thesis by (simp add: shapePoints_def)
qed

lemma runHeadings_append: "runHeadings env (xs @ ys) = runHeadings env xs @ runHeadings env ys"
  by (simp add: runHeadings_def shapePoints_def)

lemma sum_headings:
  assumes "good_shapes env"
  shows "turn_ok (runHeadings env route) (foldl turn_add zeroTurn (map (\<lambda>lane. shapeOf env (lane_ID lane)) route))"
proof -
  have "turn_ok [] zeroTurn" by (simp add: turn_ok_def zeroTurn_def)
  from turn_fold_ok [OF this, of "shapePoints env route"] show ?thesis
    by (simp add: shapePoints_shapes [OF assms] runHeadings_def)
qed

lemma runTurn_headings:
  "good_shapes env \<Longrightarrow> runTurn env route i j = turning (runHeadings env (drop i (take (j + 1) route)))"
  using sum_headings by (simp add: runTurn_def turn_ok_def)

lemma turning_drop: "turning (runHeadings env ys) \<le> turning (runHeadings env (xs @ ys))"
  by (simp add: runHeadings_append turning_append)

text \<open>The pod that moves on along the run has less of its turn left.\<close>

lemma runTurn_forward:
  assumes g: "good_shapes env" and "i \<le> i'"
  shows "runTurn env route i' j \<le> runTurn env route i j"
proof -
  let ?r = "take (j + 1) route"
  have "drop i ?r = take (i' - i) (drop i ?r) @ drop i' ?r"
    using append_take_drop_id [of "i' - i" "drop i ?r"] assms(2) by simp
  then show ?thesis using turning_drop [of env "drop i' ?r"] by (metis runTurn_headings [OF g])
qed

lemma runTurn_nonneg: "good_shapes env \<Longrightarrow> 0 \<le> runTurn env route i j"
  by (simp add: runTurn_headings)

section \<open>Planning a run\<close>

lemma sharedLane_lengths:
  "sharedLane env s v leader lane leaderLane \<Longrightarrow> lane + 1 < length (vRoute v) \<and> leaderLane + 1 < length (vRoute leader) \<and>
    lane_ID (vRoute v ! lane) = lane_ID (vRoute leader ! leaderLane)"
  by (auto simp: sharedLane_def Let_def split: if_splits)

text \<open>The lanes of a run as far as the two routes share them.\<close>

definition sharedRun :: "vehicle \<Rightarrow> vehicle \<Rightarrow> nat \<Rightarrow> nat \<Rightarrow> nat \<Rightarrow> bool" where
  "sharedRun v leader lane leaderLane n \<longleftrightarrow> lane + n < length (vRoute v) \<and> leaderLane + n < length (vRoute leader) \<and>
    (\<forall>m<n. lane_ID (vRoute v ! (lane + m)) = lane_ID (vRoute leader ! (leaderLane + m)))"

lemma sharedRun_Suc:
  "sharedRun v leader lane leaderLane n \<Longrightarrow> sharedLane env s v leader (lane + n) (leaderLane + n) \<Longrightarrow>
    sharedRun v leader lane leaderLane (Suc n)"
  using sharedLane_lengths [of env s v leader "lane + n" "leaderLane + n"] by (auto simp: sharedRun_def less_Suc_eq)

lemma planLanes_spec:
  "planLanes env s v leader lane leaderLane bound lanes acc = (n, acc') \<Longrightarrow>
    acc = foldl turn_add zeroTurn (map (\<lambda>l. shapeOf env (lane_ID l)) (drop lane (take (lane + lanes) (vRoute v)))) \<Longrightarrow>
    lanes = 0 \<or> sharedRun v leader lane leaderLane lanes \<and> ts_turn acc \<le> bound \<Longrightarrow>
    acc' = foldl turn_add zeroTurn (map (\<lambda>l. shapeOf env (lane_ID l)) (drop lane (take (lane + n) (vRoute v)))) \<and>
    (n = 0 \<or> sharedRun v leader lane leaderLane n \<and> ts_turn acc' \<le> bound)"
proof (induction env s v leader lane leaderLane bound lanes acc rule: planLanes.induct)
  case (1 env s v leader lane leaderLane bound lanes acc)
  define grown where "grown = turn_add acc (shapeOf env (lane_ID (vRoute v ! (lane + lanes))))"
  show ?case
  proof (cases "sharedLane env s v leader (lane + lanes) (leaderLane + lanes) \<and>
      \<not> (lanes > 1 \<and> laneStart (vh_blocks v) (lane + lanes) - vh_distance v > platoonHorizon) \<and> ts_turn grown \<le> bound")
    case True
    have rec: "planLanes env s v leader lane leaderLane bound (lanes + 1) grown = (n, acc')"
      using "1.prems"(1) True by (subst (asm) planLanes.simps) (auto simp: grown_def Let_def)
    have len: "lane + lanes < length (vRoute v)" using True sharedLane_lengths by fastforce
    have "drop lane (take (lane + (lanes + 1)) (vRoute v)) = drop lane (take (lane + lanes) (vRoute v)) @ [vRoute v ! (lane + lanes)]"
      using len by (simp add: take_Suc_conv_app_nth)
    then have acc: "grown = foldl turn_add zeroTurn (map (\<lambda>l. shapeOf env (lane_ID l)) (drop lane (take (lane + (lanes + 1)) (vRoute v))))"
      using "1.prems"(2) by (simp add: grown_def)
    have "sharedRun v leader lane leaderLane (lanes + 1)"
    proof (cases "lanes = 0")
      case True
      have "sharedRun v leader lane leaderLane 0"
        using \<open>sharedLane _ _ _ _ _ _ \<and> _\<close> True sharedLane_lengths [of env s v leader lane leaderLane] by (auto simp: sharedRun_def)
      then show ?thesis using \<open>sharedLane _ _ _ _ _ _ \<and> _\<close> True sharedRun_Suc by fastforce
    next
      case False
      then show ?thesis using "1.prems"(3) True sharedRun_Suc by fastforce
    qed
    then show ?thesis using "1.IH" [OF _ _ grown_def _ rec acc] True by (auto simp: grown_def)
  next
    case False
    then have "n = lanes \<and> acc' = acc"
      using "1.prems"(1) by (subst (asm) planLanes.simps) (auto simp: grown_def Let_def split: if_splits)
    then show ?thesis using "1.prems" by simp
  qed
qed

lemma entryRunTurn_le: "entryRunTurn env v i \<le> platoonMaxTurn"
proof -
  have "entryTurnLoop env v i ks \<le> platoonMaxTurn" for ks
    using pi_ge_zero by (induction ks) (auto simp: Let_def platoonMaxTurn_def)
  then show ?thesis by (simp add: entryRunTurn_def)
qed

section \<open>Certified links\<close>

definition certified :: "platoonEnv \<Rightarrow> vehicle \<Rightarrow> vehicle \<Rightarrow> platoonLink \<Rightarrow> bool" where
  "certified env v leader link \<longleftrightarrow> 0 < pl_lanes link \<and> sharedRun v leader (pl_lane link) (pl_leaderLane link) (pl_lanes link) \<and>
    0 \<le> pl_turn link \<and> pl_turn link \<le> platoonMaxTurn \<and> pl_clearance link = linkClearance (pl_turn link) \<and>
    runTurn env (vRoute v) (currentLane v) (lastRunLane link) \<le> pl_turn link + platoonTurnSlack"

text \<open>A lane is as long in one route as in another.\<close>

definition lanes_agree :: "traffic \<Rightarrow> bool" where
  "lanes_agree s \<longleftrightarrow> (\<forall>i<fleetSize s. \<forall>j<fleetSize s. \<forall>a<length (vRoute (pod s i)). \<forall>b<length (vRoute (pod s j)).
    lane_ID (vRoute (pod s i) ! a) = lane_ID (vRoute (pod s j) ! b) \<longrightarrow>
    rl_length (bl_lanes (vh_blocks (pod s i)) ! a) = rl_length (bl_lanes (vh_blocks (pod s j)) ! b))"

lemma lanes_agreeD:
  "lanes_agree s \<Longrightarrow> i < fleetSize s \<Longrightarrow> j < fleetSize s \<Longrightarrow> a < length (vRoute (pod s i)) \<Longrightarrow> b < length (vRoute (pod s j)) \<Longrightarrow>
    lane_ID (vRoute (pod s i) ! a) = lane_ID (vRoute (pod s j) ! b) \<Longrightarrow>
    rl_length (bl_lanes (vh_blocks (pod s i)) ! a) = rl_length (bl_lanes (vh_blocks (pod s j)) ! b)"
  unfolding lanes_agree_def by meson

lemma sharedRun_aligned:
  assumes g: "goodBlocks (vh_blocks v)" "goodBlocks (vh_blocks leader)" and run: "sharedRun v leader (pl_lane link) (pl_leaderLane link) (pl_lanes link)"
    and lanes: "0 < pl_lanes link"
    and agree: "\<forall>a<length (vRoute v). \<forall>b<length (vRoute leader). lane_ID (vRoute v ! a) = lane_ID (vRoute leader ! b) \<longrightarrow>
      rl_length (bl_lanes (vh_blocks v) ! a) = rl_length (bl_lanes (vh_blocks leader) ! b)"
  shows "aligned v leader link"
proof -
  have "laneStart (vh_blocks v) (pl_lane link + m) - laneStart (vh_blocks leader) (pl_leaderLane link + m) =
      laneStart (vh_blocks v) (pl_lane link) - laneStart (vh_blocks leader) (pl_leaderLane link)" if "m \<le> pl_lanes link" for m
    using that
  proof (induction m)
    case (Suc m)
    have "pl_lane link + m < length (vRoute v)" "pl_leaderLane link + m < length (vRoute leader)"
      "lane_ID (vRoute v ! (pl_lane link + m)) = lane_ID (vRoute leader ! (pl_leaderLane link + m))"
      using run Suc.prems by (auto simp: sharedRun_def)
    then show ?case
      using Suc agree laneStart_next [OF g(1), of "pl_lane link + m"] laneStart_next [OF g(2), of "pl_leaderLane link + m"] by simp
  qed simp
  then show ?thesis using lanes by (auto simp: aligned_def)
qed

lemma planLink_certified:
  assumes shapes: "good_shapes env" and plan: "planLink env s v leader (currentLane v) leaderLane turn fixed = Some link"
    and turn: "0 \<le> turn" "turn \<le> platoonMaxTurn"
  shows "certified env v leader link" and "pl_clearance link \<le> leaderPosition v leader link - vh_distance v"
    and "stopPoint v + pl_clearance link \<le> leaderPosition v leader link + stoppingDistance (vh_Speed leader)"
proof -
  let ?lane = "currentLane v"
  obtain n acc where run: "planLanes env s v leader ?lane leaderLane (turnBound turn fixed) 0 zeroTurn = (n, acc)"
    by (cases "planLanes env s v leader ?lane leaderLane (turnBound turn fixed) 0 zeroTurn")
  define t where "t = (if fixed then turn else max (ts_turn acc) (entryRunTurn env v ?lane))"
  define link0 where "link0 = noLink\<lparr>pl_lane := ?lane, pl_leaderLane := leaderLane, pl_lanes := n, pl_turn := t, pl_clearance := linkClearance t\<rparr>"
  define link1 where "link1 = link0\<lparr>pl_end := snd (linkEnds s v link0)\<rparr>"
  have n: "n \<noteq> 0" and link: "link = link1"
    and near: "\<not> leaderPosition v leader link1 - vh_distance v < pl_clearance link1"
    and stop: "\<not> vh_distance v + stoppingDistance (vh_Speed v) + pl_clearance link1 > leaderPosition v leader link1 + stoppingDistance (vh_Speed leader)"
    using plan unfolding planLink_def run Let_def prod.case t_def [symmetric] link0_def [symmetric] link1_def [symmetric]
    by (auto split: if_splits)
  have spec: "acc = foldl turn_add zeroTurn (map (\<lambda>l. shapeOf env (lane_ID l)) (drop ?lane (take (?lane + n) (vRoute v))))"
    "sharedRun v leader ?lane leaderLane n" "ts_turn acc \<le> turnBound turn fixed"
    using planLanes_spec [OF run] n by auto
  have last: "lastRunLane link1 + 1 = ?lane + n" using n by (simp add: link1_def link0_def lastRunLane_def)
  have total: "runTurn env (vRoute v) ?lane (lastRunLane link1) = ts_turn acc"
    unfolding runTurn_def last spec(1) ..
  then have "0 \<le> ts_turn acc" using runTurn_nonneg [OF shapes] by metis
  then have t: "0 \<le> t" "t \<le> platoonMaxTurn" "ts_turn acc \<le> t + platoonTurnSlack"
    using turn spec(3) entryRunTurn_le [of env v ?lane] by (auto simp: t_def turnBound_def platoonTurnSlack_def)
  show "certified env v leader link"
    using n spec(2) t total unfolding link certified_def by (simp add: link1_def link0_def)
  show "pl_clearance link \<le> leaderPosition v leader link - vh_distance v" using near by (simp add: link)
  show "stopPoint v + pl_clearance link \<le> leaderPosition v leader link + stoppingDistance (vh_Speed leader)"
    using stop by (simp add: link stopPoint_def)
qed

lemma extendLoop_certified:
  "certified env v leader link \<Longrightarrow> certified env v leader (extendLoop env s v leader link) \<and>
    pl_leader (extendLoop env s v leader link) = pl_leader link \<and> pl_lane (extendLoop env s v leader link) = pl_lane link \<and>
    pl_leaderLane (extendLoop env s v leader link) = pl_leaderLane link \<and> pl_turn (extendLoop env s v leader link) = pl_turn link \<and>
    pl_clearance (extendLoop env s v leader link) = pl_clearance link"
proof (induction env s v leader link rule: extendLoop.induct)
  case (1 env s v leader link)
  define link' where "link' = link\<lparr>pl_lanes := pl_lanes link + 1\<rparr>"
  define e where "e = snd (linkEnds s v link')"
  define link'' where "link'' = (if e > pl_end link' then link'\<lparr>pl_end := e, pl_draining := False\<rparr> else link')"
  show ?case
  proof (cases "(pl_end link \<ge> 0 \<and>
        (vh_reservedThrough v \<ge> int (laneFirst (vh_blocks v) (routeLane (vh_blocks v) (nat (pl_end link)))) \<or>
         entryRequest v (pl_end link))) \<and> sharedLane env s v leader (pl_lane link + pl_lanes link) (pl_leaderLane link + pl_lanes link) \<and>
        \<not> runTurn env (vRoute v) (currentLane v) (pl_lane link + pl_lanes link) > pl_turn link + platoonTurnSlack")
    case True
    have eq: "extendLoop env s v leader link = extendLoop env s v leader link''"
      using True by (subst extendLoop.simps) (simp add: Let_def link'_def e_def link''_def)
    have "certified env v leader link''"
      using "1.prems" True sharedRun_Suc [of v leader "pl_lane link" "pl_leaderLane link" "pl_lanes link" env s]
      by (auto simp: certified_def link''_def link'_def lastRunLane_def)
    moreover have "pl_leader link'' = pl_leader link" "pl_lane link'' = pl_lane link" "pl_leaderLane link'' = pl_leaderLane link"
      "pl_turn link'' = pl_turn link" "pl_clearance link'' = pl_clearance link"
      by (simp_all add: link''_def link'_def)
    ultimately show ?thesis unfolding eq using "1.IH" True by (auto simp: link'_def e_def link''_def)
  next
    case False
    then have "extendLoop env s v leader link = link" by (subst extendLoop.simps) (auto simp: Let_def)
    then show ?thesis using "1.prems" by simp
  qed
qed

section \<open>The links of a fleet\<close>

definition link_ok :: "platoonEnv \<Rightarrow> traffic \<Rightarrow> nat \<Rightarrow> nat \<Rightarrow> bool" where
  "link_ok env s i j \<longleftrightarrow> spaced (pod s i) (pod s j) \<and> certified env (pod s i) (pod s j) (vh_link (pod s i))"

text \<open>Each link of two pods on their way is certified and spaced, and every link has the turn of a link.\<close>

definition platoons_ok :: "platoonEnv \<Rightarrow> traffic \<Rightarrow> bool" where
  "platoons_ok env s \<longleftrightarrow> link_wf s \<and>
    (\<forall>i<fleetSize s. leaderOf s i \<noteq> 0 \<longrightarrow> 0 \<le> pl_turn (vh_link (pod s i)) \<and> pl_turn (vh_link (pod s i)) \<le> platoonMaxTurn) \<and>
    (\<forall>i<fleetSize s. \<forall>j<fleetSize s. leaderOf s i = Suc j \<and> vh_Activity (pod s i) = Traveling \<and>
      vh_Activity (pod s j) = Traveling \<longrightarrow> link_ok env s i j)"

text \<open>Two states with the same pods except for their links.\<close>

definition same_pods :: "traffic \<Rightarrow> traffic \<Rightarrow> bool" where
  "same_pods s s' \<longleftrightarrow> fleetSize s' = fleetSize s \<and> tr_owners s' = tr_owners s \<and> tr_platooning s' = tr_platooning s \<and>
    tr_stations s' = tr_stations s \<and>
    (\<forall>i<fleetSize s. \<exists>link behind. pod s' i = (pod s i)\<lparr>vh_link := link, vh_follower := behind\<rparr>)"

lemma same_pods_refl: "same_pods s s"
proof -
  have "\<exists>link behind. v = v\<lparr>vh_link := link, vh_follower := behind\<rparr>" for v :: vehicle
    by (rule exI [of _ "vh_link v"], rule exI [of _ "vh_follower v"]) (cases v, simp)
  then show ?thesis unfolding same_pods_def by blast
qed

lemma same_pods_trans: "same_pods s t \<Longrightarrow> same_pods t u \<Longrightarrow> same_pods s u"
proof -
  assume a: "same_pods s t" and b: "same_pods t u"
  have "\<exists>link behind. pod u i = (pod s i)\<lparr>vh_link := link, vh_follower := behind\<rparr>" if i: "i < fleetSize s" for i
  proof -
    have "\<exists>l f. pod t i = (pod s i)\<lparr>vh_link := l, vh_follower := f\<rparr>" using a i unfolding same_pods_def by blast
    then obtain l f where t: "pod t i = (pod s i)\<lparr>vh_link := l, vh_follower := f\<rparr>" by blast
    have "i < fleetSize t" using a i unfolding same_pods_def by (elim conjE) simp
    then have "\<exists>l' f'. pod u i = (pod t i)\<lparr>vh_link := l', vh_follower := f'\<rparr>" using b unfolding same_pods_def by blast
    then obtain l' f' where u: "pod u i = (pod t i)\<lparr>vh_link := l', vh_follower := f'\<rparr>" by blast
    show ?thesis unfolding u t by (rule exI [of _ l'], rule exI [of _ f']) simp
  qed
  moreover have "fleetSize u = fleetSize s" "tr_owners u = tr_owners s" "tr_platooning u = tr_platooning s" "tr_stations u = tr_stations s"
    using a b unfolding same_pods_def by (elim conjE; simp)+
  ultimately show ?thesis unfolding same_pods_def by blast
qed

lemma same_pods_fields:
  assumes "same_pods s t" and "i < fleetSize s"
  shows "vh_blocks (pod t i) = vh_blocks (pod s i)" "vh_Activity (pod t i) = vh_Activity (pod s i)"
    "vh_distance (pod t i) = vh_distance (pod s i)" "vh_Speed (pod t i) = vh_Speed (pod s i)"
    "vh_blockIndex (pod t i) = vh_blockIndex (pod s i)" "vh_LaneID (pod t i) = vh_LaneID (pod s i)"
    "currentLane (pod t i) = currentLane (pod s i)"
proof -
  have "\<exists>l f. pod t i = (pod s i)\<lparr>vh_link := l, vh_follower := f\<rparr>" using assms unfolding same_pods_def by blast
  then obtain l f where "pod t i = (pod s i)\<lparr>vh_link := l, vh_follower := f\<rparr>" by blast
  then show "vh_blocks (pod t i) = vh_blocks (pod s i)" "vh_Activity (pod t i) = vh_Activity (pod s i)"
    "vh_distance (pod t i) = vh_distance (pod s i)" "vh_Speed (pod t i) = vh_Speed (pod s i)"
    "vh_blockIndex (pod t i) = vh_blockIndex (pod s i)" "vh_LaneID (pod t i) = vh_LaneID (pod s i)"
    "currentLane (pod t i) = currentLane (pod s i)"
    by (simp_all add: currentLane_def)
qed

text \<open>What a link needs of its two pods does not depend on their links.\<close>

lemma leaderPosition_links:
  assumes "vh_blocks v' = vh_blocks v" "vh_blocks u' = vh_blocks u" "vh_distance u' = vh_distance u" "currentLane u' = currentLane u"
  shows "leaderPosition v' u' link = leaderPosition v u link"
  using assms by (simp add: leaderPosition_def)

lemma link_ok_same:
  assumes same: "same_pods s t" and ij: "i < fleetSize s" "j < fleetSize s"
    and al: "aligned (pod s i) (pod s j) link"
    and near: "pl_clearance link - restSlack \<le> leaderPosition (pod s i) (pod s j) link - vh_distance (pod s i)"
    and stop: "stopPoint (pod s i) + pl_clearance link \<le> leaderPosition (pod s i) (pod s j) link + stoppingDistance (vh_Speed (pod s j))"
    and cert: "certified env (pod s i) (pod s j) link"
    and link: "vh_link (pod t i) = link\<lparr>pl_leader := l\<rparr>"
  shows "link_ok env t i j"
proof -
  note fi = same_pods_fields [OF same ij(1)] and fj = same_pods_fields [OF same ij(2)]
  have pos: "leaderPosition (pod t i) (pod t j) (link\<lparr>pl_leader := l\<rparr>) = leaderPosition (pod s i) (pod s j) link"
    by (simp add: leaderPosition_def fi fj Let_def)
  have "spaced (pod t i) (pod t j)"
    using al near stop unfolding spaced_def link pos by (simp add: aligned_def stopPoint_def fi fj)
  moreover have "certified env (pod t i) (pod t j) (link\<lparr>pl_leader := l\<rparr>)"
    using cert by (simp add: certified_def sharedRun_def lastRunLane_def fi fj)
  ultimately show ?thesis by (simp add: link_ok_def link)
qed

definition routes_ok :: "traffic \<Rightarrow> bool" where
  "routes_ok s \<longleftrightarrow> lanes_agree s \<and> (\<forall>i<fleetSize s. vh_Activity (pod s i) = Traveling \<longrightarrow> goodBlocks (vh_blocks (pod s i)))"

lemma routes_ok_same: "same_pods s t \<Longrightarrow> routes_ok s \<Longrightarrow> routes_ok t"
proof -
  assume same: "same_pods s t" and ok: "routes_ok s"
  have size: "fleetSize t = fleetSize s" using same unfolding same_pods_def by blast
  note fields = same_pods_fields(1,2) [OF same]
  have "lanes_agree t" unfolding lanes_agree_def size
  proof (intro allI impI)
    fix i j a b
    assume i: "i < fleetSize s" and j: "j < fleetSize s"
      and a: "a < length (vRoute (pod t i))" "b < length (vRoute (pod t j))"
        "lane_ID (vRoute (pod t i) ! a) = lane_ID (vRoute (pod t j) ! b)"
    have "lanes_agree s" using ok by (simp add: routes_ok_def)
    then show "rl_length (bl_lanes (vh_blocks (pod t i)) ! a) = rl_length (bl_lanes (vh_blocks (pod t j)) ! b)"
      unfolding fields(1) [OF i] fields(1) [OF j]
      by (rule lanes_agreeD [OF _ i j]) (use a in \<open>simp_all only: fields(1) [OF i] fields(1) [OF j]\<close>)
  qed
  moreover have "\<forall>i<fleetSize t. vh_Activity (pod t i) = Traveling \<longrightarrow> goodBlocks (vh_blocks (pod t i))"
    using ok fields unfolding routes_ok_def size by metis
  ultimately show ?thesis by (simp add: routes_ok_def)
qed

lemma routes_aligned:
  assumes ok: "routes_ok s" and ij: "i < fleetSize s" "j < fleetSize s"
    and on: "vh_Activity (pod s i) = Traveling" "vh_Activity (pod s j) = Traveling"
    and cert: "certified env (pod s i) (pod s j) link"
  shows "aligned (pod s i) (pod s j) link"
proof (rule sharedRun_aligned)
  show "\<forall>a<length (vRoute (pod s i)). \<forall>b<length (vRoute (pod s j)). lane_ID (vRoute (pod s i) ! a) = lane_ID (vRoute (pod s j) ! b) \<longrightarrow>
      rl_length (bl_lanes (vh_blocks (pod s i)) ! a) = rl_length (bl_lanes (vh_blocks (pod s j)) ! b)"
    using ok ij unfolding routes_ok_def lanes_agree_def by blast
qed (use ok ij on cert in \<open>auto simp: routes_ok_def certified_def\<close>)

text \<open>Each link points forward in one order of the pods, and so does the pod ahead on a lane.\<close>

definition ranked :: "(nat \<Rightarrow> real) \<Rightarrow> traffic \<Rightarrow> bool" where
  "ranked rank s \<longleftrightarrow> (\<forall>i<fleetSize s. \<forall>j<fleetSize s. leaderOf s i = Suc j \<longrightarrow> rank i < rank j)"

lemma ahead_ranked:
  assumes w: "link_wf s" and r: "ranked rank s" and a: "(i, k) \<in> ahead s"
  shows "rank i < rank k"
proof -
  have one: "rank y < rank z" if yz: "(y, z) \<in> link_rel (leaderOf s) (fleetSize s)" for y z
  proof -
    from yz have "y < fleetSize s" "leaderOf s y = Suc z" by (simp_all add: link_rel_def)
    moreover from this have "z < fleetSize s" using link_wf_bound(1) [OF w] by (metis Suc_le_eq)
    ultimately show ?thesis using r by (simp add: ranked_def)
  qed
  from a show ?thesis unfolding ahead_def
    by (induction rule: trancl_induct) (auto dest: one intro: less_trans)
qed

definition links_ok :: "platoonEnv \<Rightarrow> (nat \<Rightarrow> real) \<Rightarrow> traffic \<Rightarrow> bool" where
  "links_ok env rank s \<longleftrightarrow> platoons_ok env s \<and> routes_ok s \<and> ranked rank s \<and> links_under_way s"

lemma setLink_same: "i < fleetSize s \<Longrightarrow> same_pods s (setLink i link s)"
proof -
  assume i: "i < fleetSize s"
  have "\<exists>l f. pod (setLink i link s) j = (pod s j)\<lparr>vh_link := l, vh_follower := f\<rparr>" if "j < fleetSize s" for j
    using that i
    by (intro exI [of _ "vh_link (pod (setLink i link s) j)"] exI [of _ "vh_follower (pod s j)"])
      (simp add: setLink_def pod_setPod)
  then show ?thesis unfolding same_pods_def by (simp add: setLink_def setPod_def)
qed

lemma setLink_pods:
  "i < fleetSize s \<Longrightarrow> j < fleetSize s \<Longrightarrow> vh_link (pod (setLink i link s) j) = (if j = i then link else vh_link (pod s j))"
  "i < fleetSize s \<Longrightarrow> j < fleetSize s \<Longrightarrow> followerOf (setLink i link s) j = followerOf s j"
  by (auto simp: setLink_def pod_setPod)

lemma setLink_ok:
  assumes ok: "links_ok env rank s" and i: "i < fleetSize s"
    and keep: "pl_leader link = leaderOf s i" "pl_turn link = pl_turn (vh_link (pod s i))"
    and new: "\<And>j. j < fleetSize s \<Longrightarrow> leaderOf s i = Suc j \<Longrightarrow> vh_Activity (pod s i) = Traveling \<Longrightarrow>
      vh_Activity (pod s j) = Traveling \<Longrightarrow> link_ok env s i j \<Longrightarrow> link_ok env (setLink i link s) i j"
  shows "links_ok env rank (setLink i link s)"
proof -
  let ?t = "setLink i link s"
  note same = setLink_same [OF i, of link] and pods = setLink_pods [OF i, of _ link]
  note fields = same_pods_fields [OF same]
  have size: "fleetSize ?t = fleetSize s" by (simp add: setLink_def setPod_def)
  have lead: "leaderOf ?t j = leaderOf s j" if "j < fleetSize s" for j using pods(1) [OF that] keep(1) by simp
  have w: "link_wf s" using ok by (simp add: links_ok_def platoons_ok_def)
  have rel: "link_rel (leaderOf ?t) (fleetSize s) = link_rel (leaderOf s) (fleetSize s)" using lead by (auto simp: link_rel_def)
  have "link_wf ?t" using w unfolding link_wf_def size rel by (simp add: lead pods(2))
  moreover have "0 \<le> pl_turn (vh_link (pod ?t k)) \<and> pl_turn (vh_link (pod ?t k)) \<le> platoonMaxTurn"
    if "k < fleetSize s" "leaderOf ?t k \<noteq> 0" for k
    using ok that lead pods(1) keep(2) by (auto simp: links_ok_def platoons_ok_def)
  moreover have "link_ok env ?t k j"
    if kj: "k < fleetSize s" "j < fleetSize s" "leaderOf ?t k = Suc j" "vh_Activity (pod ?t k) = Traveling" "vh_Activity (pod ?t j) = Traveling" for k j
  proof -
    have old: "link_ok env s k j" using ok kj lead fields(2) by (simp add: links_ok_def platoons_ok_def)
    show ?thesis
    proof (cases "k = i")
      case True
      then show ?thesis using new [OF kj(2)] kj lead fields(2) old by simp
    next
      case False
      then have l: "vh_link (pod ?t k) = (vh_link (pod s k))\<lparr>pl_leader := leaderOf s k\<rparr>" using pods(1) [OF kj(1)] by simp
      show ?thesis using old by (intro link_ok_same [OF same kj(1,2) _ _ _ _ l]) (simp_all add: link_ok_def spaced_def)
    qed
  qed
  moreover have "ranked rank ?t" using ok lead unfolding ranked_def links_ok_def size by simp
  moreover have "links_under_way ?t" using ok lead fields(2) unfolding links_under_way_def links_ok_def size by simp
  ultimately show ?thesis
    using ok routes_ok_same [OF same] unfolding links_ok_def platoons_ok_def size by blast
qed

lemma unlink_keeps:
  assumes ok: "links_ok env rank s" and i: "i < fleetSize s" and a: "leaderOf s i = Suc a"
  shows "links_ok env rank (unlink i s)" and "same_pods s (unlink i s)"
proof -
  let ?t = "unlink i s"
  have w: "link_wf s" using ok by (simp add: links_ok_def platoons_ok_def)
  note size = unlink_pods(3) [OF w i a] and pods = unlink_pods(4) [OF w i a]
  have "\<exists>l f. pod ?t j = (pod s j)\<lparr>vh_link := l, vh_follower := f\<rparr>" if "j < fleetSize s" for j
    unfolding pods [OF that]
    by (intro exI [of _ "vh_link (pod ?t j)"] exI [of _ "vh_follower (pod ?t j)"]) (simp add: pods [OF that])
  then show same: "same_pods s ?t" unfolding same_pods_def size by (simp add: unlink_def setPod_def)
  note fields = same_pods_fields [OF same]
  have lead: "leaderOf ?t j = (if j = i then 0 else leaderOf s j)" if "j < fleetSize s" for j
    using pods [OF that] by (simp add: noLink_def)
  have old: "vh_link (pod ?t j) = vh_link (pod s j)" if "j < fleetSize s" "j \<noteq> i" for j using pods [OF that(1)] that(2) by simp
  have "link_ok env ?t k j"
    if kj: "k < fleetSize s" "j < fleetSize s" "leaderOf ?t k = Suc j" "vh_Activity (pod ?t k) = Traveling" "vh_Activity (pod ?t j) = Traveling" for k j
  proof -
    have k: "k \<noteq> i" using kj(3) lead [OF kj(1)] by auto
    then have "link_ok env s k j" using ok kj lead fields(2) by (simp add: links_ok_def platoons_ok_def)
    moreover have l: "vh_link (pod ?t k) = (vh_link (pod s k))\<lparr>pl_leader := leaderOf s k\<rparr>" using old [OF kj(1) k] by simp
    ultimately show ?thesis by (intro link_ok_same [OF same kj(1,2) _ _ _ _ l]) (simp_all add: link_ok_def spaced_def)
  qed
  moreover have "0 \<le> pl_turn (vh_link (pod ?t k)) \<and> pl_turn (vh_link (pod ?t k)) \<le> platoonMaxTurn"
    if "k < fleetSize s" "leaderOf ?t k \<noteq> 0" for k
    using ok that lead [OF that(1)] old [OF that(1)] by (auto simp: links_ok_def platoons_ok_def split: if_splits)
  moreover have "ranked rank ?t" using ok lead unfolding ranked_def links_ok_def size by simp
  moreover have "links_under_way ?t" using ok lead fields(2) unfolding links_under_way_def links_ok_def size by simp
  ultimately show "links_ok env rank ?t"
    using ok unlink_wf [OF w i a] routes_ok_same [OF same] unfolding links_ok_def platoons_ok_def size by blast
qed

lemma linkPods_keeps:
  assumes ok: "links_ok env rank s" and i: "i < fleetSize s" and a: "a < fleetSize s"
    and free: "leaderOf s i = 0" "followerOf s a = 0" and rank: "rank i < rank a"
    and on: "vh_Activity (pod s i) = Traveling" "vh_Activity (pod s a) = Traveling"
    and cert: "certified env (pod s i) (pod s a) link"
    and near: "pl_clearance link \<le> leaderPosition (pod s i) (pod s a) link - vh_distance (pod s i)"
    and stop: "stopPoint (pod s i) + pl_clearance link \<le> leaderPosition (pod s i) (pod s a) link + stoppingDistance (vh_Speed (pod s a))"
  shows "links_ok env rank (linkPods i a link s)" and "same_pods s (linkPods i a link s)"
proof -
  let ?t = "linkPods i a link s"
  have ne: "i \<noteq> a" using rank by auto
  have w: "link_wf s" and r: "ranked rank s" and routes: "routes_ok s" using ok by (simp_all add: links_ok_def platoons_ok_def)
  have far: "a \<notin> set (followers s i)"
    using ahead_ranked [OF w r, of a i] rank by (auto simp: set_followers [OF w i])
  have size: "fleetSize ?t = fleetSize s" by (simp add: linkPods_def setPod_def)
  have pods: "pod ?t j = (if j = i then (pod s i)\<lparr>vh_link := link\<lparr>pl_leader := Suc a\<rparr>\<rparr>
      else if j = a then (pod s a)\<lparr>vh_follower := Suc i\<rparr> else pod s j)" if "j < fleetSize s" for j
    using that ne by (simp add: linkPods_def pod_setPod)
  have "\<exists>l f. pod ?t j = (pod s j)\<lparr>vh_link := l, vh_follower := f\<rparr>" if "j < fleetSize s" for j
    unfolding pods [OF that]
    by (intro exI [of _ "vh_link (pod ?t j)"] exI [of _ "vh_follower (pod ?t j)"]) (simp add: pods [OF that])
  then show same: "same_pods s ?t" unfolding same_pods_def size by (simp add: linkPods_def setPod_def)
  note fields = same_pods_fields [OF same]
  have lead: "leaderOf ?t j = (if j = i then Suc a else leaderOf s j)" if "j < fleetSize s" for j
    using pods [OF that] by simp
  have old: "vh_link (pod ?t j) = vh_link (pod s j)" if "j < fleetSize s" "j \<noteq> i" for j using pods [OF that(1)] that(2) by simp
  have slack: "0 \<le> restSlack" by (simp add: restSlack_def)
  have "link_ok env ?t k j"
    if kj: "k < fleetSize s" "j < fleetSize s" "leaderOf ?t k = Suc j" "vh_Activity (pod ?t k) = Traveling" "vh_Activity (pod ?t j) = Traveling" for k j
  proof (cases "k = i")
    case True
    then have j: "j = a" using lead [OF kj(1)] kj(3) by simp
    have l: "vh_link (pod ?t i) = link\<lparr>pl_leader := Suc a\<rparr>" using pods [OF i] by simp
    show ?thesis unfolding True j
      by (rule link_ok_same [OF same i a routes_aligned [OF routes i a on cert] _ stop cert l]) (use near slack in linarith)
  next
    case False
    then have "link_ok env s k j" using ok kj lead [OF kj(1)] fields(2) by (simp add: links_ok_def platoons_ok_def)
    moreover have l: "vh_link (pod ?t k) = (vh_link (pod s k))\<lparr>pl_leader := leaderOf s k\<rparr>" using old [OF kj(1) False] by simp
    ultimately show ?thesis by (intro link_ok_same [OF same kj(1,2) _ _ _ _ l]) (simp_all add: link_ok_def spaced_def)
  qed
  moreover have "0 \<le> pl_turn (vh_link (pod ?t k)) \<and> pl_turn (vh_link (pod ?t k)) \<le> platoonMaxTurn"
    if "k < fleetSize s" "leaderOf ?t k \<noteq> 0" for k
    using ok that lead [OF that(1)] old [OF that(1)] cert pods [OF i]
    by (cases "k = i") (auto simp: links_ok_def platoons_ok_def certified_def)
  moreover have "ranked rank ?t" using r lead rank unfolding ranked_def size by auto
  moreover have "links_under_way ?t"
    using ok lead fields(2) on i a unfolding links_under_way_def links_ok_def size by (auto simp: departs_def)
  ultimately show "links_ok env rank ?t"
    using linkPods_wf [OF w i a ne free far] routes_ok_same [OF same routes] unfolding links_ok_def platoons_ok_def size by blast
qed

lemma maintainLink_keeps:
  assumes ok: "links_ok env rank s" and i: "i < fleetSize s" and a: "leaderOf s i = Suc a"
  shows "links_ok env rank (maintainLink env i near s)" and "same_pods s (maintainLink env i near s)"
proof -
  define v leader where "v = pod s i" and "leader = pod s a"
  define emergency where "emergency = (pe_emergency env i \<or> pe_emergency env a)"
  define link where "link = (if emergency then (vh_link v)\<lparr>pl_draining := True\<rparr> else vh_link v)"
  define over where "over = (\<not> tr_platooning s \<or> vh_Activity v \<noteq> Traveling \<or> vh_Activity leader \<noteq> Traveling \<or>
    near \<noteq> 0 \<and> near \<noteq> pl_leader link)"
  define grown where "grown = (if emergency then link else extendLoop env s v leader link)"
  define link' where "link' = (if over then link else grown\<lparr>pl_draining := pl_draining grown \<or> vh_reservedThrough v \<ge> pl_end grown\<rparr>)"
  define s' where "s' = setLink i link' s"
  define over' where "over' = (over \<or> pl_draining link' \<or> leaderPosition v leader link' \<ge> runGeometry (vh_blocks v) link' + Clearance)"
  have eq: "maintainLink env i near s = (if over' \<and> \<not> holdsPending s' i then unlink i s' else s')"
    unfolding maintainLink_def Let_def a diff_Suc_1 unfolding v_def [symmetric] leader_def [symmetric] emergency_def [symmetric]
      link_def [symmetric] over_def [symmetric] grown_def [symmetric] link'_def [symmetric] s'_def [symmetric] over'_def [symmetric] ..
  have w: "link_wf s" and routes: "routes_ok s" using ok by (simp_all add: links_ok_def platoons_ok_def)
  have an: "a < fleetSize s" using link_wf_bound(1) [OF w] i a by (metis Suc_le_eq)
  have draining: "certified env v leader (l\<lparr>pl_draining := b\<rparr>) = certified env v leader l" for l b
    by (simp add: certified_def lastRunLane_def)
  have old: "link_ok env s i a" if "vh_Activity v = Traveling" "vh_Activity leader = Traveling"
    using ok i an a that by (simp add: links_ok_def platoons_ok_def v_def leader_def)
  have cert_link: "certified env v leader link" if "vh_Activity v = Traveling" "vh_Activity leader = Traveling"
    using old [OF that] draining by (simp add: link_def link_ok_def v_def leader_def)
  have kept: "pl_leader l = leaderOf s i \<and> pl_turn l = pl_turn (vh_link v) \<and> pl_clearance l = pl_clearance (vh_link v) \<and>
      pl_lane l = pl_lane (vh_link v) \<and> pl_leaderLane l = pl_leaderLane (vh_link v)" if "l = link \<or> \<not> over \<and> l = grown" for l
    using that extendLoop_certified [OF cert_link] by (auto simp: grown_def link_def over_def v_def)
  have keep: "pl_leader link' = leaderOf s i" "pl_turn link' = pl_turn (vh_link v)" "pl_clearance link' = pl_clearance (vh_link v)"
    "pl_lane link' = pl_lane (vh_link v)" "pl_leaderLane link' = pl_leaderLane (vh_link v)"
    by (cases over; use kept [of link] kept [of grown] in \<open>simp add: link'_def\<close>)+
  have cert: "certified env v leader link'" if t: "vh_Activity v = Traveling" "vh_Activity leader = Traveling"
    using cert_link [OF t] extendLoop_certified [OF cert_link [OF t]] by (simp add: link'_def grown_def draining)
  note same = setLink_same [OF i, of link', folded s'_def]
  have s'_ok: "links_ok env rank s'"
    unfolding s'_def
  proof (rule setLink_ok [OF ok i keep(1) keep(2) [unfolded v_def]])
    fix j assume j: "j < fleetSize s" "leaderOf s i = Suc j" "vh_Activity (pod s i) = Traveling" "vh_Activity (pod s j) = Traveling"
      "link_ok env s i j"
    have ja: "j = a" using j(2) a by simp
    have c: "certified env (pod s i) (pod s a) link'" using cert j(3,4) ja by (simp add: v_def leader_def)
    have al: "aligned (pod s i) (pod s a) link'" by (rule routes_aligned [OF routes i an _ _ c]) (use j ja in simp_all)
    have al0: "aligned (pod s i) (pod s a) (vh_link (pod s i))" and sp: "spaced (pod s i) (pod s a)"
      using j(5) ja by (simp_all add: link_ok_def spaced_def)
    have pos: "leaderPosition (pod s i) (pod s a) link' = leaderPosition (pod s i) (pod s a) (vh_link (pod s i))"
      unfolding aligned_position [OF al] aligned_position [OF al0] using keep by (simp add: v_def)
    have l: "vh_link (pod s' i) = link'\<lparr>pl_leader := pl_leader link'\<rparr>" using setLink_pods(1) [OF i i, of link'] by (simp add: s'_def)
    show "link_ok env (setLink i link' s) i j"
      unfolding ja s'_def [symmetric]
      by (rule link_ok_same [OF same i an al _ _ c l]) (use sp keep in \<open>simp_all add: pos spaced_def v_def\<close>)
  qed
  have i': "i < fleetSize s'" using i by (simp add: s'_def setLink_def setPod_def)
  have a': "leaderOf s' i = Suc a" using setLink_pods(1) [OF i i, of link'] keep(1) a by (simp add: s'_def)
  show "links_ok env rank (maintainLink env i near s)" unfolding eq using s'_ok unlink_keeps(1) [OF s'_ok i' a'] by simp
  show "same_pods s (maintainLink env i near s)"
    unfolding eq using same same_pods_trans [OF same unlink_keeps(2) [OF s'_ok i' a']] by simp
qed

lemma tryLink_keeps:
  assumes ok: "links_ok env rank s" and shapes: "good_shapes env" and i: "i < fleetSize s" and a: "a < fleetSize s"
    and free: "leaderOf s i = 0" and rank: "rank i < rank a"
    and on: "vh_Activity (pod s i) = Traveling" "vh_Activity (pod s a) = Traveling"
  shows "links_ok env rank (tryLink env i a s)" and "same_pods s (tryLink env i a s)"
proof -
  have w: "link_wf s" using ok by (simp add: links_ok_def platoons_ok_def)
  have "tryLink env i a s = s \<or> (\<exists>link. tryLink env i a s = linkPods i a link s \<and> followerOf s a = 0 \<and>
    certified env (pod s i) (pod s a) link \<and>
    pl_clearance link \<le> leaderPosition (pod s i) (pod s a) link - vh_distance (pod s i) \<and>
    stopPoint (pod s i) + pl_clearance link \<le> leaderPosition (pod s i) (pod s a) link + stoppingDistance (vh_Speed (pod s a)))"
  proof (cases "tryLink env i a s = s")
    case False
    define v leader where "v = pod s i" and "leader = pod s a"
    define fixed where "fixed = (pl_leader (vh_link leader) \<noteq> 0)"
    define turn where "turn = (if fixed then pl_turn (vh_link leader) else platoonMaxTurn)"
    define behind where "behind = pl_turn (vh_link (pod s (vh_follower v - 1)))"
    define turn' where "turn' = (if vh_follower v \<noteq> 0 then behind else turn)"
    define fixed' where "fixed' = (fixed \<or> vh_follower v \<noteq> 0)"
    obtain link where link: "planLink env s v leader (currentLane v) (currentLane leader) turn' fixed' = Some link"
        "tryLink env i a s = linkPods i a link s" "vh_follower leader = 0"
      using False unfolding tryLink_def Let_def v_def [symmetric] leader_def [symmetric] fixed_def [symmetric]
        turn_def [symmetric] behind_def [symmetric] turn'_def [symmetric] fixed'_def [symmetric]
      by (auto split: if_splits option.splits)
    have bound: "0 \<le> pl_turn (vh_link (pod s k)) \<and> pl_turn (vh_link (pod s k)) \<le> platoonMaxTurn" if "k < fleetSize s" "leaderOf s k \<noteq> 0" for k
      using ok that by (simp add: links_ok_def platoons_ok_def)
    have "0 \<le> behind \<and> behind \<le> platoonMaxTurn" if f: "vh_follower v \<noteq> 0"
    proof -
      obtain k where k: "followerOf s i = Suc k" using f by (cases "followerOf s i") (auto simp: v_def)
      have kn: "k < fleetSize s" using link_wf_bound(2) [OF w] i k by (metis Suc_le_eq)
      then have "leaderOf s k = Suc i" using w i k by (simp add: link_wf_def)
      then show ?thesis using bound [OF kn] k by (simp add: behind_def v_def)
    qed
    moreover have "0 \<le> turn \<and> turn \<le> platoonMaxTurn"
      using bound [OF a] pi_ge_zero by (auto simp: turn_def fixed_def leader_def platoonMaxTurn_def)
    ultimately have t: "0 \<le> turn'" "turn' \<le> platoonMaxTurn" by (auto simp: turn'_def)
    show ?thesis using planLink_certified [OF shapes link(1) t] link(2,3) by (auto simp: v_def leader_def)
  qed simp
  then have "links_ok env rank (tryLink env i a s) \<and> same_pods s (tryLink env i a s)"
  proof (elim disjE exE conjE)
    assume "tryLink env i a s = s"
    then show ?thesis by (simp only: ok same_pods_refl simp_thms)
  next
    fix link
    assume l: "tryLink env i a s = linkPods i a link s" and f: "followerOf s a = 0"
      and c: "certified env (pod s i) (pod s a) link"
        "pl_clearance link \<le> leaderPosition (pod s i) (pod s a) link - vh_distance (pod s i)"
        "stopPoint (pod s i) + pl_clearance link \<le> leaderPosition (pod s i) (pod s a) link + stoppingDistance (vh_Speed (pod s a))"
    show ?thesis unfolding l using linkPods_keeps [OF ok i a free f rank on c] by blast
  qed
  then show "links_ok env rank (tryLink env i a s)" "same_pods s (tryLink env i a s)" by blast+
qed

section \<open>The pods ahead\<close>

lemma fold_pairs:
  "fold (\<lambda>k ahead. if P k then ahead[order ! k := order ! (k - 1) + 1] else ahead) ks xs ! i = Suc a \<Longrightarrow> i < length xs \<Longrightarrow>
    xs ! i = Suc a \<or> (\<exists>k\<in>set ks. P k \<and> order ! k = i \<and> order ! (k - 1) = a)"
proof (induction ks arbitrary: xs)
  case (Cons k ks)
  define ys where "ys = (if P k then xs[order ! k := order ! (k - 1) + 1] else xs)"
  have "ys ! i = Suc a \<or> (\<exists>k\<in>set ks. P k \<and> order ! k = i \<and> order ! (k - 1) = a)"
    using Cons.IH [of ys] Cons.prems by (simp add: ys_def [symmetric]) (simp add: ys_def)
  moreover have "xs ! i = Suc a \<or> P k \<and> order ! k = i \<and> order ! (k - 1) = a" if "ys ! i = Suc a"
    using that Cons.prems(2) by (cases "order ! k = i"; cases "P k") (simp_all add: ys_def)
  ultimately show ?case by auto
qed simp

lemma fold_pairs_length:
  "length (fold (\<lambda>k ahead. if P k then ahead[order ! k := order ! (k - 1) + 1] else ahead) ks xs) = length xs"
  by (induction ks arbitrary: xs) auto

lemma lanePredecessors_spec:
  assumes "lanePredecessors s ! i = Suc a" and "i < fleetSize s"
  shows "a < fleetSize s \<and> a \<noteq> i \<and> vh_Activity (pod s i) = Traveling \<and> vh_Activity (pod s a) = Traveling \<and>
    vh_LaneID (pod s i) = vh_LaneID (pod s a)"
proof -
  define lanes where "lanes = map vh_LaneID (filter (\<lambda>v. vh_Activity v = Traveling \<and> vh_LaneID v \<noteq> [] \<and>
           (pl_leader (vh_link v) \<noteq> 0 \<or> canLink s v)) (tr_vehicles s))"
  define order where "order = sort_key (\<lambda>i. (vh_LaneID (pod s i), - vh_LaneDistance (pod s i), i))
           (filter (\<lambda>i. vh_Activity (pod s i) = Traveling \<and> vh_LaneID (pod s i) \<in> set lanes) [0..<fleetSize s])"
  have eq: "lanePredecessors s = fold (\<lambda>k ahead. if vh_LaneID (pod s (order ! k)) = vh_LaneID (pod s (order ! (k - 1)))
          then ahead[order ! k := order ! (k - 1) + 1] else ahead) [1..<length order] (replicate (fleetSize s) 0)"
    unfolding lanePredecessors_def Let_def lanes_def [symmetric] order_def [symmetric] by simp
  obtain k where k: "k \<in> set [1..<length order]" "vh_LaneID (pod s (order ! k)) = vh_LaneID (pod s (order ! (k - 1)))"
      "order ! k = i" "order ! (k - 1) = a"
    using fold_pairs [OF assms(1) [unfolded eq]] assms(2) by auto
  have "distinct order" "set order \<subseteq> {j. j < fleetSize s \<and> vh_Activity (pod s j) = Traveling}" by (auto simp: order_def)
  moreover have "k < length order" "k - 1 < length order" "k - 1 \<noteq> k" using k(1) by auto
  ultimately show ?thesis
    using k nth_eq_iff_index_eq [of order "k - 1" k] nth_mem [of k order] nth_mem [of "k - 1" order] by auto
qed

text \<open>
  The order of the pods on the track: each predecessor is before its follower, and the pod ahead on a lane is before
  the pod behind it. The pods do not overtake, so the code relies on it without a check.
\<close>

definition in_order :: "(nat \<Rightarrow> real) \<Rightarrow> traffic \<Rightarrow> bool" where
  "in_order rank s \<longleftrightarrow> ranked rank s \<and>
    (\<forall>i<fleetSize s. \<forall>a. lanePredecessors s ! i = Suc a \<longrightarrow> rank i < rank a)"

lemma maintain_step:
  assumes "links_ok env rank t \<and> same_pods s t" and "i < fleetSize s"
  shows "links_ok env rank (if pl_leader (vh_link (pod t i)) \<noteq> 0 then maintainLink env i (near ! i) t else t) \<and>
    same_pods s (if pl_leader (vh_link (pod t i)) \<noteq> 0 then maintainLink env i (near ! i) t else t)"
proof (cases "leaderOf t i")
  case (Suc a)
  have "i < fleetSize t" using assms unfolding same_pods_def by (elim conjE) simp
  then show ?thesis using maintainLink_keeps [of env rank t i a] Suc assms(1) same_pods_trans [of s t] by simp
qed (use assms(1) in simp)

lemma fold_maintain:
  assumes "links_ok env rank s"
  shows "links_ok env rank (fold (\<lambda>i t. if pl_leader (vh_link (pod t i)) \<noteq> 0 then maintainLink env i (near ! i) t else t)
      [0..<fleetSize s] s) \<and>
    same_pods s (fold (\<lambda>i t. if pl_leader (vh_link (pod t i)) \<noteq> 0 then maintainLink env i (near ! i) t else t)
      [0..<fleetSize s] s)"
  by (rule fold_invariant [where Q = "\<lambda>i. i < fleetSize s" and P = "\<lambda>t. links_ok env rank t \<and> same_pods s t"])
    (use assms same_pods_refl in \<open>simp_all only: set_upt atLeastLessThan_iff simp_thms\<close>, rule maintain_step, assumption+)

lemma try_step:
  assumes shapes: "good_shapes env"
    and ahd: "\<And>a. near ! i = Suc a \<Longrightarrow> a < fleetSize s \<and>
      vh_Activity (pod s i) = Traveling \<and> vh_Activity (pod s a) = Traveling \<and> rank i < rank a"
    and t: "links_ok env rank t \<and> same_pods s t" and i: "i < fleetSize s"
  shows "links_ok env rank (if pl_leader (vh_link (pod t i)) = 0 \<and> near ! i \<noteq> 0 then tryLink env i (near ! i - 1) t else t) \<and>
    same_pods s (if pl_leader (vh_link (pod t i)) = 0 \<and> near ! i \<noteq> 0 then tryLink env i (near ! i - 1) t else t)"
proof (cases "leaderOf t i = 0 \<and> near ! i \<noteq> 0")
  case True
  then obtain a where a: "near ! i = Suc a" by (cases "near ! i") auto
  note same = t [THEN conjunct2]
  have size: "fleetSize t = fleetSize s" using same unfolding same_pods_def by blast
  note act = same_pods_fields(2) [OF same]
  have "vh_Activity (pod t i) = Traveling" "vh_Activity (pod t a) = Traveling" "a < fleetSize t" "i < fleetSize t"
    using ahd [OF a] act [OF i] act [of a] i size by simp_all
  then have "links_ok env rank (tryLink env i a t) \<and> same_pods t (tryLink env i a t)"
    using tryLink_keeps [OF t [THEN conjunct1] shapes, of i a] True ahd [OF a] by simp
  then show ?thesis using True a same_pods_trans [OF same] by simp
next
  case False
  then have "(if pl_leader (vh_link (pod t i)) = 0 \<and> near ! i \<noteq> 0 then tryLink env i (near ! i - 1) t else t) = t" by auto
  then show ?thesis using t by (simp only:)
qed

lemma fold_try:
  assumes shapes: "good_shapes env"
    and ahd: "\<And>i a. i < fleetSize s \<Longrightarrow> near ! i = Suc a \<Longrightarrow> a < fleetSize s \<and>
      vh_Activity (pod s i) = Traveling \<and> vh_Activity (pod s a) = Traveling \<and> rank i < rank a"
    and "links_ok env rank t \<and> same_pods s t"
  shows "links_ok env rank (fold (\<lambda>i t. if pl_leader (vh_link (pod t i)) = 0 \<and> near ! i \<noteq> 0
        then tryLink env i (near ! i - 1) t else t) [0..<fleetSize s] t) \<and>
    same_pods s (fold (\<lambda>i t. if pl_leader (vh_link (pod t i)) = 0 \<and> near ! i \<noteq> 0
        then tryLink env i (near ! i - 1) t else t) [0..<fleetSize s] t)"
proof (rule fold_invariant [where Q = "\<lambda>i. i < fleetSize s" and P = "\<lambda>t. links_ok env rank t \<and> same_pods s t"])
  fix i t
  assume "i < fleetSize s" "links_ok env rank t \<and> same_pods s t"
  then show "links_ok env rank (if pl_leader (vh_link (pod t i)) = 0 \<and> near ! i \<noteq> 0 then tryLink env i (near ! i - 1) t else t) \<and>
    same_pods s (if pl_leader (vh_link (pod t i)) = 0 \<and> near ! i \<noteq> 0 then tryLink env i (near ! i - 1) t else t)"
    using try_step [OF shapes, of near i s rank t] ahd by blast
qed (use assms(3) in simp_all)

section \<open>A linked pair on one lane\<close>

definition laneLink :: platoonLink where
  "laneLink = bendLink\<lparr>pl_lanes := 1\<rparr>"

definition laneFleet :: traffic where
  "laneFleet = \<lparr>tr_vehicles = [runPod ''p'' 40 laneLink 0, runPod ''q'' 90 noLink 1], tr_owners = Map.empty,
    tr_platooning = True, tr_groups = [], tr_stations = [], tr_faults = [], tr_denied = []\<rparr>"

lemma laneLink_fields [simp]:
  "pl_leader laneLink = 2" "pl_lane laneLink = 0" "pl_leaderLane laneLink = 0" "pl_lanes laneLink = 1"
  "pl_turn laneLink = platoonMaxTurn" "pl_clearance laneLink = linkClearance platoonMaxTurn"
  by (simp_all add: laneLink_def)

lemma laneFleet_pods: "tr_vehicles laneFleet = [runPod ''p'' 40 laneLink 0, runPod ''q'' 90 noLink 1]"
  by (simp add: laneFleet_def)

lemma bendEnv_shapes: "good_shapes bendEnv"
  by (auto simp: good_shapes_def bendEnv_def split: if_splits)

lemma laneFleet_certified: "certified bendEnv (runPod ''p'' 40 laneLink 0) (runPod ''q'' 90 noLink 1) laneLink"
proof -
  have "runTurn bendEnv (vRoute (runPod ''p'' 40 laneLink 0)) 0 0 = 0"
    by (simp add: runTurn_def shapeOf_def bendEnv_def bendLane_def twoLanes_def bend_shapes zeroTurn_def turn_add_def)
  moreover have "0 \<le> platoonMaxTurn" using pi_ge_zero by (simp add: platoonMaxTurn_def)
  ultimately show ?thesis
    by (simp add: certified_def sharedRun_def lastRunLane_def twoLanes_def platoonTurnSlack_def)
qed

lemma laneFleet_spaced: "spaced (runPod ''p'' 40 laneLink 0) (runPod ''q'' 90 noLink 1)"
proof -
  have "aligned (runPod ''p'' 40 laneLink 0) (runPod ''q'' 90 noLink 1) laneLink" by (simp add: aligned_def)
  then show ?thesis by (simp add: spaced_def aligned_position bendLink_clearance stopPoint_def restSlack_def)
qed

lemma laneFleet_ok: "platoons_ok bendEnv laneFleet"
proof -
  have rel: "link_rel (leaderOf laneFleet) (fleetSize laneFleet) = {(0, 1)}"
    by (auto simp: link_rel_def laneFleet_pods less_2_cases_iff numeral_2_eq_2 less_Suc_eq)
  have "acyclic {(0::nat, 1::nat)}" by (simp add: acyclic_insert) (simp add: acyclic_def)
  then have "link_wf laneFleet" unfolding link_wf_def rel
    by (auto simp: laneFleet_pods less_Suc_eq numeral_2_eq_2)
  moreover have "0 \<le> platoonMaxTurn" using pi_ge_zero by (simp add: platoonMaxTurn_def)
  moreover have "link_ok bendEnv laneFleet 0 1"
    using laneFleet_spaced laneFleet_certified by (simp add: link_ok_def laneFleet_pods)
  ultimately show ?thesis by (auto simp: platoons_ok_def laneFleet_pods less_Suc_eq numeral_2_eq_2)
qed

lemma laneFleet_routes: "routes_ok laneFleet"
  using twoLanes_good by (auto simp: routes_ok_def lanes_agree_def laneFleet_pods less_Suc_eq numeral_2_eq_2 twoLanes_def bendLane_def)

lemma laneFleet_ahead: "lanePredecessors laneFleet = [2, 0]"
proof -
  have lane: "vh_LaneID (runPod n d l b) = ''a''" "vh_LaneDistance (runPod n d l b) = d" for n d l b
    by (simp_all add: runPod_def)
  show ?thesis
    by (simp add: lanePredecessors_def laneFleet_pods lane Let_def upt_rec numeral_2_eq_2)
qed

lemma laneFleet_order: "in_order (\<lambda>i. real i) laneFleet"
  by (auto simp: in_order_def ranked_def laneFleet_ahead laneFleet_pods less_Suc_eq numeral_2_eq_2)

lemma formPlatoons_ok:
  assumes "platoons_ok env s" and "routes_ok s" and "links_under_way s" and "in_order rank s" and "good_shapes env"
  shows "links_ok env rank (formPlatoons env s)" and "same_pods s (formPlatoons env s)"
proof -
  have ok: "links_ok env rank s" using assms(1-4) by (simp add: links_ok_def in_order_def)
  define s1 where "s1 = fold (\<lambda>i t. if pl_leader (vh_link (pod t i)) \<noteq> 0
      then maintainLink env i (lanePredecessors s ! i) t else t) [0..<fleetSize s] s"
  define s2 where "s2 = fold (\<lambda>i t. if pl_leader (vh_link (pod t i)) = 0 \<and> lanePredecessors s ! i \<noteq> 0
      then tryLink env i (lanePredecessors s ! i - 1) t else t) [0..<fleetSize s] s1"
  have one: "links_ok env rank s1 \<and> same_pods s s1" unfolding s1_def by (rule fold_maintain [OF ok])
  have "a < fleetSize s \<and> vh_Activity (pod s i) = Traveling \<and> vh_Activity (pod s a) = Traveling \<and> rank i < rank a"
    if "i < fleetSize s" "lanePredecessors s ! i = Suc a" for i a
    using lanePredecessors_spec [OF that(2,1)] assms(4) that by (simp add: in_order_def)
  then have two: "links_ok env rank s2 \<and> same_pods s s2" unfolding s2_def by (intro fold_try [OF assms(5) _ one]) blast
  have "formPlatoons env s = s \<or> formPlatoons env s = s1 \<or> formPlatoons env s = s2"
    unfolding formPlatoons_def Let_def s1_def s2_def by simp
  then have "links_ok env rank (formPlatoons env s) \<and> same_pods s (formPlatoons env s)"
    using ok one two same_pods_refl by (elim disjE) (simp_all only: simp_thms)
  then show "links_ok env rank (formPlatoons env s)" "same_pods s (formPlatoons env s)" by blast+
qed


lemma laneFleet_under_way: "links_under_way laneFleet"
  by (auto simp: links_under_way_def laneFleet_pods departs_def less_Suc_eq numeral_2_eq_2)


end
