(* ===== verification/PlatoonSteps.thy ===== *)
theory PlatoonSteps
  imports PlatoonLinks
begin

text \<open>
  The run of a fleet as steps, in the units of \<open>Simulation.Step\<close>: \<open>formPlatoons\<close>, a grant of
  \<open>admit\<close>, the motion of a tick, the release of track, and the pods that leave and reach their berths. Every
  sequence of them keeps the platoons and the pods safe.
\<close>

section \<open>Claims do not move pods\<close>

text \<open>
  What a claim or a release changes in a pod: its records of the track and its reservation, which only grows, and
  not while the pod is faulted.
\<close>

definition rides :: "vehicle \<Rightarrow> vehicle \<Rightarrow> bool" where
  "rides v v' \<longleftrightarrow> v' = v\<lparr>vh_routeReleases := vh_routeReleases v', vh_nextRelease := vh_nextRelease v',
      vh_originReleased := vh_originReleased v', vh_depotArrived := vh_depotArrived v', vh_WaitReason := vh_WaitReason v',
      vh_BlockedBy := vh_BlockedBy v', vh_pending := vh_pending v', vh_reservedThrough := vh_reservedThrough v'\<rparr> \<and>
    (vh_reservedThrough v' = vh_reservedThrough v \<or>
      \<not> vh_faulted v \<and> 0 \<le> vh_reservedThrough v' \<and> vh_reservedThrough v \<le> vh_reservedThrough v' \<and>
      vh_reservedThrough v' < int (bl_blocks (vh_blocks v)))"

lemma rides_same:
  assumes "rides v v'"
  shows "vh_blocks v' = vh_blocks v" "vh_link v' = vh_link v" "vh_follower v' = vh_follower v" "vh_distance v' = vh_distance v"
    "vh_Speed v' = vh_Speed v" "vh_Activity v' = vh_Activity v" "vh_blockIndex v' = vh_blockIndex v" "vh_faulted v' = vh_faulted v"
    "vh_reservedThrough v' = vh_reservedThrough v \<or> \<not> vh_faulted v \<and> 0 \<le> vh_reservedThrough v' \<and>
      vh_reservedThrough v \<le> vh_reservedThrough v' \<and> vh_reservedThrough v' < int (bl_blocks (vh_blocks v))"
  using assms unfolding rides_def by (cases v', cases v, simp)+

lemma rides_refl [simp]: "rides v v"
  by (simp add: rides_def)

lemma rides_trans: "rides u v \<Longrightarrow> rides v w \<Longrightarrow> rides u w"
  unfolding rides_def by (cases u, cases v, cases w) auto

lemma rides_recorded: "recorded v v' \<Longrightarrow> rides v v'"
  unfolding rides_def recorded_def by (cases v, cases v') auto

lemma rides_waiting: "waiting v v' \<Longrightarrow> rides v v'"
  unfolding rides_def waiting_def by (cases v, cases v') auto

definition claims :: "traffic \<Rightarrow> traffic \<Rightarrow> bool" where
  "claims s s' \<longleftrightarrow> fleetSize s' = fleetSize s \<and> (\<forall>i<fleetSize s. rides (pod s i) (pod s' i))"

lemma claims_refl [simp]: "claims s s"
  by (simp add: claims_def)

lemma claims_trans: "claims s t \<Longrightarrow> claims t u \<Longrightarrow> claims s u"
  unfolding claims_def by (elim conjE) (auto intro: rides_trans)

lemma claims_owners: "claims s (s\<lparr>tr_owners := owners\<rparr>)"
  by (simp add: claims_def)

lemma claims_setPod: "(\<And>v. recorded v (f v)) \<Longrightarrow> claims s (setPod i f s)"
  by (auto simp: claims_def pod_setPod intro: rides_recorded)

lemma claims_fold: "(\<And>x s. claims s (f x s)) \<Longrightarrow> claims s (fold f xs s)"
  by (rule fold_invariant [where Q = "\<lambda>x. True" and P = "claims s"]) (auto intro: claims_trans)

section \<open>Releases\<close>

lemma releaseRouteResource_claims: "claims s (releaseRouteResource i r s)"
  by (simp add: releaseRouteResource_def claims_owners split: option.split)

lemma releaseOwned_claims: "claims s (releaseOwned i r s)"
proof -
  have "claims s (setPod i (\<lambda>v. v\<lparr>vh_nextRelease := Some 0\<rparr>) (releaseRouteResource i r s))"
    by (rule claims_trans [OF releaseRouteResource_claims claims_setPod]) (simp add: recorded_def)
  then show ?thesis by (simp add: releaseOwned_def)
qed

lemma passedLoop_claims: "passedLoop i c rs s kept nxt = (s', kept', nxt') \<Longrightarrow> claims s s'"
proof (induction i c rs s kept nxt rule: passedLoop.induct)
  case (2 i c r a rest s kept nxt)
  define t where "t = (if ownerAt s r = podOwner s i then releaseRouteResource i r s else s)"
  have t: "claims s t" by (simp add: t_def releaseRouteResource_claims)
  show ?case
  proof (cases "c \<and> \<not> isPod (ownerAt s r) (vh_ID (pod s i)) \<and> \<not> ownerAheadInPlatoon s i (ownerAt s r)")
    case True
    then show ?thesis using 2 by (simp add: Let_def)
  next
    case own: False
    show ?thesis
    proof (cases "a \<le> vh_distance (pod s i)")
      case True
      then have "passedLoop i c rest t kept nxt = (s', kept', nxt')" using 2(4) own by (simp add: Let_def t_def)
      then have "claims t s'" using 2(2) [OF refl own True] by (simp add: t_def)
      then show ?thesis by (rule claims_trans [OF t])
    next
      case False
      then show ?thesis using 2(3) [OF refl own False] 2(4) own by (simp add: Let_def)
    qed
  qed
qed simp

lemma releasePassed_claims: "claims s (releasePassedResources i s)"
proof -
  obtain s' kept nxt where run: "passedLoop i (vh_nextRelease (pod s i) = Some 0) (vh_routeReleases (pod s i)) s [] None = (s', kept, nxt)"
    by (metis surj_pair)
  have "claims s (setPod i (\<lambda>v. v\<lparr>vh_routeReleases := kept, vh_nextRelease := nxt\<rparr>) s')"
    by (intro claims_trans [OF passedLoop_claims [OF run]] claims_setPod) (simp add: recorded_def)
  then show ?thesis by (simp add: releasePassedResources_def Let_def run)
qed

lemma releaseExcept_claims: "claims s (releaseRouteResourcesExcept i retained s)"
  unfolding releaseRouteResourcesExcept_def
proof (rule claims_trans [OF claims_fold claims_setPod])
  show "claims s ((\<lambda>(r, _) s. if r \<in> set retained then s else releaseOwned i r s) x s)" for x s
    by (cases x) (simp add: releaseOwned_claims)
qed (simp add: recorded_def)

lemma releaseOrigin_claims: "claims s (releaseOrigin i s)"
  unfolding releaseOrigin_def
proof (rule claims_trans [OF claims_fold claims_setPod])
  show "claims s (case map_of (vh_routeReleases (pod s i)) r of None \<Rightarrow> releaseOwned i r s
      | Some releaseAt \<Rightarrow> if releaseAt \<le> vh_distance (pod s i) then releaseOwned i r s else s)" for r s
    by (simp add: releaseOwned_claims split: option.split)
qed (simp add: recorded_def)

lemma releaseDepotOrigin_claims: "claims s (releaseDepotOrigin i s)"
proof -
  let ?s = "setPod i (\<lambda>v. v\<lparr>vh_depotArrived := False\<rparr>) s"
  let ?f = "fold (\<lambda>r s. if r \<in> set (berthResources (vh_destination (pod ?s i))) then s else releaseOwned i r s)
      (berthResources (vh_origin (pod ?s i))) ?s"
  have one: "claims s ?s" by (intro claims_setPod) (simp add: recorded_def)
  have two: "claims ?s ?f" by (rule claims_fold) (simp add: releaseOwned_claims)
  have three: "claims ?f (setPod i (\<lambda>v. v\<lparr>vh_originReleased := True\<rparr>) ?f)" by (intro claims_setPod) (simp add: recorded_def)
  have "releaseDepotOrigin i s = ?s \<or> releaseDepotOrigin i s = setPod i (\<lambda>v. v\<lparr>vh_originReleased := True\<rparr>) ?f"
    unfolding releaseDepotOrigin_def Let_def by simp
  then show ?thesis using one claims_trans [OF one claims_trans [OF two three]] by (elim disjE) (simp_all only:)
qed

lemma releaseVehicle_claims: "claims s (releaseVehicleResources i s)"
proof -
  have "claims s (if vh_depotArrived (pod s i) then releaseDepotOrigin i s else s)" by (simp add: releaseDepotOrigin_claims)
  then show ?thesis
    unfolding releaseVehicleResources_def Let_def
    by (auto intro: claims_trans releaseExcept_claims releasePassed_claims releaseOrigin_claims)
qed

lemma releaseCleared_claims: "claims s (releaseCleared s)"
  unfolding releaseCleared_def by (rule claims_fold) (rule releaseVehicle_claims)

section \<open>Grants\<close>

lemma rides_granted:
  assumes "granted v u" and "\<not> vh_faulted v" and "0 \<le> t" and "vh_reservedThrough v \<le> t" and "t < int (bl_blocks (vh_blocks v))"
  shows "rides v (u\<lparr>vh_reservedThrough := t, vh_pending := p\<rparr>)"
  using assms unfolding rides_def granted_def by (cases v, cases u) auto

lemma grant_claims:
  assumes w: "wf_blocks (vh_blocks (pod s (in_index q)))" and q: "valid_request s q"
  shows "claims s (grant q s)"
proof -
  let ?i = "in_index q"
  have i: "?i < fleetSize s" and fault: "\<not> vh_faulted (pod s ?i)" and start: "int (in_block q) = vh_reservedThrough (pod s ?i) + 1"
    and b: "in_block q < bl_blocks (vh_blocks (pod s ?i))"
    using q by (simp_all add: valid_request_def Let_def)
  from w b show ?thesis
  proof (cases rule: grant_cases)
    case deny
    then show ?thesis by (simp add: denied_def claims_def rides_waiting)
  next
    case (take linked through)
    note pods = takeZone_pods [OF i]
    have "rides (pod s ?i) (pod (takeZone linked ?i (in_block q) through s) ?i)"
      unfolding pods(4) using start take(2,3) fault by (intro rides_granted [OF retainAll_granted]) auto
    moreover have "pod (takeZone linked ?i (in_block q) through s) j = pod s j" if "j < fleetSize s" "j \<noteq> ?i" for j
      by (rule pods(3) [OF that])
    ultimately show ?thesis unfolding take(5) claims_def pods(1) by (metis rides_refl)
  qed
qed

section \<open>Pods at their berths and on their way\<close>

text \<open>A later block ends further on.\<close>

lemma blockEnd_mono: "goodBlocks l \<Longrightarrow> i \<le> j \<Longrightarrow> j < bl_blocks l \<Longrightarrow> blockEnd l i \<le> blockEnd l j"
proof (induction j)
  case (Suc j)
  show ?case
  proof (cases "i = Suc j")
    case False
    have w: "wf_blocks l" using Suc.prems(1) by (simp add: goodBlocks_def)
    have "blockEnd l i \<le> blockEnd l j" using Suc False by simp
    also have "\<dots> = blockStart l (Suc j)" using blocks_adjoin [OF w, of j] Suc.prems(3) by simp
    also have "\<dots> \<le> blockEnd l (Suc j)" by (rule block_in_lane(3) [OF Suc.prems(1,3)])
    finally show ?thesis .
  qed simp
qed simp

lemma first_block:
  assumes g: "goodBlocks l"
  shows "0 < bl_blocks l" and "blockStart l 0 = 0" and "routeLane l 0 = 0" and "laneStart l 0 = 0"
proof -
  have w: "wf_blocks l" using g by (simp add: goodBlocks_def)
  have m: "0 < length (bl_route l)" using w by (simp add: wf_blocks_def)
  show pos: "0 < bl_blocks l" using wf_mono [OF w m] w by (simp add: wf_blocks_def)
  have "holds l 0 0" using w m wf_mono [OF w, of 0 1] by (simp add: holds_iff [OF w] wf_blocks_def)
  then have zero: "laneAt l 0 = 0" using laneAt_eq [OF w pos] by simp
  then show "routeLane l 0 = 0" by (simp add: routeLane_laneAt [OF w pos])
  show "blockStart l 0 = 0" using w by (simp add: block_bounds [OF w pos] zero cellBounds_def Let_def wf_blocks_def)
  show "laneStart l 0 = 0" using w by (simp add: laneStart_def wf_blocks_def)
qed

text \<open>
  A pod that is not on its way is at rest. A pod that is about to leave is at the start of its route with no
  reversal latched, and as soon as it has its first reservation it may leave.
\<close>

definition berthed :: "string list \<Rightarrow> vehicle \<Rightarrow> pacing \<Rightarrow> bool" where
  "berthed reverse v p \<longleftrightarrow> vh_Activity v \<noteq> Traveling \<longrightarrow>
    vh_Speed v = 0 \<and> (departs (vh_Activity v) \<longrightarrow>
      (if vh_reservedThrough v < 0
       then goodBlocks (vh_blocks v) \<and> vh_blockIndex v = 0 \<and> vh_distance v = 0 \<and> rv_lane (pa_reversal p) = 0
       else steady reverse v p))"

definition fleet_ok :: "string list \<Rightarrow> traffic \<Rightarrow> pacing list \<Rightarrow> bool" where
  "fleet_ok reverse s paces \<longleftrightarrow> length paces = fleetSize s \<and>
    (\<forall>i<fleetSize s. (vh_Activity (pod s i) = Traveling \<longrightarrow> steady reverse (pod s i) (paces ! i)) \<and>
      berthed reverse (pod s i) (paces ! i))"

lemma fleet_ok_steady: "fleet_ok reverse s paces \<Longrightarrow> fleet_steady reverse s paces"
  by (auto simp: fleet_ok_def fleet_steady_def berthed_def moving_def)

text \<open>What the claims on the track and the bookkeeping of the tick cannot break.\<close>

lemma steady_cong:
  assumes "vh_blocks v' = vh_blocks v" "vh_distance v' = vh_distance v" "vh_Speed v' = vh_Speed v"
    "vh_blockIndex v' = vh_blockIndex v" "vh_faulted v' = vh_faulted v" "vh_reservedThrough v' = vh_reservedThrough v"
    "pa_reversal p' = pa_reversal p" "pa_faultCap p' = pa_faultCap p"
  shows "steady reverse v' p' = steady reverse v p"
  using assms by (simp add: steady_def placed_def stopPoint_def currentLane_def dwellAhead_def searchFrom_def)

lemma steady_reserves:
  assumes st: "steady reverse v p" and r: "rides v v'"
  shows "steady reverse v' p"
proof -
  note same = rides_same [OF r]
  have g: "goodBlocks (vh_blocks v)" using st by (simp add: steady_def)
  have "vh_reservedThrough v \<le> vh_reservedThrough v'" "vh_reservedThrough v' < int (bl_blocks (vh_blocks v))" "0 \<le> vh_reservedThrough v"
    using same(9) st by (auto simp: steady_def placed_def)
  moreover from this have "blockEnd (vh_blocks v) (nat (vh_reservedThrough v)) \<le> blockEnd (vh_blocks v) (nat (vh_reservedThrough v'))"
    by (intro blockEnd_mono [OF g]) auto
  ultimately show ?thesis
    using st unfolding steady_def placed_def stopPoint_def currentLane_def dwellAhead_def searchFrom_def
    by (auto simp: same(1,4,5,7,8))
qed

lemma steady_start:
  assumes g: "goodBlocks (vh_blocks v)" and v: "vh_blockIndex v = 0" "vh_distance v = 0" "vh_Speed v = 0" "\<not> vh_faulted v"
    and p: "rv_lane (pa_reversal p) = 0" and r: "0 \<le> vh_reservedThrough v" "vh_reservedThrough v < int (bl_blocks (vh_blocks v))"
  shows "steady reverse v p"
proof -
  let ?l = "vh_blocks v"
  note first = first_block [OF g]
  have end0: "0 \<le> blockEnd ?l 0" using block_in_lane(3) [OF g first(1)] first(2) by simp
  have pos: "0 \<le> laneStart ?l k" if "k < length (bl_route ?l)" for k
    using laneStart_mono [OF g, of 0 k] that first(4) by simp
  have len: "0 < length (bl_route ?l)" using g by (simp add: goodBlocks_def wf_blocks_def)
  have limit: "0 \<le> speedLimit ?l k" if "k < length (bl_route ?l)" for k using g that by (simp add: goodBlocks_def)
  have "placed v" using v r first(1,2) end0 by (simp add: placed_def)
  moreover have "calm ?l (currentLane v) (vh_distance v) (vh_Speed v)"
    using pos len limit first(3,4) by (simp add: calm_def inLane_def brakeable_def currentLane_def v)
  moreover have "0 \<le> blockEnd ?l (nat (vh_reservedThrough v))"
    using blockEnd_mono [OF g, of 0 "nat (vh_reservedThrough v)"] end0 r by (simp add: nat_less_iff)
  moreover have "dwellAhead reverse v (pa_reversal p)"
    using pos p by (simp add: dwellAhead_def stopPoint_def v)
  ultimately show ?thesis using g v by (simp add: steady_def stopPoint_def)
qed

lemma fleet_ok_claims:
  assumes ok: "fleet_ok reverse s paces" and c: "claims s s'"
  shows "fleet_ok reverse s' paces"
proof -
  have size: "fleetSize s' = fleetSize s" using c unfolding claims_def by blast
  have "(vh_Activity (pod s' i) = Traveling \<longrightarrow> steady reverse (pod s' i) (paces ! i)) \<and> berthed reverse (pod s' i) (paces ! i)"
    if i: "i < fleetSize s" for i
  proof -
    let ?v = "pod s i" and ?v' = "pod s' i" and ?p = "paces ! i"
    have r: "rides ?v ?v'" using c i by (simp add: claims_def)
    note same = rides_same [OF r]
    have old: "vh_Activity ?v = Traveling \<longrightarrow> steady reverse ?v ?p" "berthed reverse ?v ?p"
      using ok i by (simp_all add: fleet_ok_def)
    have "steady reverse ?v' ?p" if "departs (vh_Activity ?v)" "0 \<le> vh_reservedThrough ?v'" "vh_Activity ?v \<noteq> Traveling"
    proof (cases "vh_reservedThrough ?v < 0")
      case True
      then have start: "goodBlocks (vh_blocks ?v)" "vh_blockIndex ?v = 0" "vh_distance ?v = 0" "rv_lane (pa_reversal ?p) = 0" "vh_Speed ?v = 0"
        using old(2) that by (simp_all add: berthed_def)
      have "vh_reservedThrough ?v' < int (bl_blocks (vh_blocks ?v))" "\<not> vh_faulted ?v" using same(9) True that(2) by auto
      then show ?thesis using start that(2) by (intro steady_start) (simp_all add: same(1-8))
    next
      case False
      then show ?thesis using old(2) that by (intro steady_reserves [OF _ r]) (simp add: berthed_def)
    qed
    moreover have "vh_reservedThrough ?v' < 0 \<Longrightarrow> vh_reservedThrough ?v < 0" using same(9) by auto
    ultimately show ?thesis
      using old steady_reserves [OF _ r] unfolding berthed_def same(1-8) by auto
  qed
  then show ?thesis using ok size by (simp add: fleet_ok_def)
qed

section \<open>Links in steps without motion\<close>

text \<open>Pods stay where they are, and no pod leaves its berth.\<close>

definition stays :: "vehicle \<Rightarrow> vehicle \<Rightarrow> bool" where
  "stays v v' \<longleftrightarrow> vh_blocks v' = vh_blocks v \<and> vh_link v' = vh_link v \<and> vh_follower v' = vh_follower v \<and>
    vh_distance v' = vh_distance v \<and> vh_Speed v' = vh_Speed v \<and> vh_blockIndex v' = vh_blockIndex v \<and>
    (vh_Activity v' = Traveling \<longrightarrow> vh_Activity v = Traveling) \<and> (departs (vh_Activity v') \<longrightarrow> departs (vh_Activity v))"

lemma stays_link:
  assumes "stays v v'" and "stays u u'"
  shows "spaced v' u' = spaced v u" and "certified env v' u' l = certified env v u l"
  using assms
  by (simp_all add: stays_def spaced_def aligned_def leaderPosition_def stopPoint_def certified_def sharedRun_def currentLane_def)

lemma lanes_agree_cong:
  assumes agree: "lanes_agree s" and size: "fleetSize s' = fleetSize s"
    and same: "\<And>i. i < fleetSize s \<Longrightarrow> vh_blocks (pod s' i) = vh_blocks (pod s i)"
  shows "lanes_agree s'"
  unfolding lanes_agree_def size
proof (intro allI impI)
  fix i j a b
  assume i: "i < fleetSize s" and j: "j < fleetSize s"
    and ab: "a < length (vRoute (pod s' i))" "b < length (vRoute (pod s' j))"
      "lane_ID (vRoute (pod s' i) ! a) = lane_ID (vRoute (pod s' j) ! b)"
  show "rl_length (bl_lanes (vh_blocks (pod s' i)) ! a) = rl_length (bl_lanes (vh_blocks (pod s' j)) ! b)"
    unfolding same [OF i] same [OF j]
    by (rule lanes_agreeD [OF agree i j ab [unfolded same [OF i] same [OF j]]])
qed

lemma links_stay:
  assumes size: "fleetSize s' = fleetSize s" and st: "\<And>i. i < fleetSize s \<Longrightarrow> stays (pod s i) (pod s' i)"
    and ok: "platoons_ok env s" "routes_ok s" "links_under_way s"
  shows "platoons_ok env s'" and "routes_ok s'" and "links_under_way s'"
proof -
  have link: "vh_link (pod s' i) = vh_link (pod s i)" "vh_follower (pod s' i) = vh_follower (pod s i)"
    "vh_blocks (pod s' i) = vh_blocks (pod s i)" if "i < fleetSize s" for i
    using st [OF that] by (simp_all add: stays_def)
  have act: "vh_Activity (pod s' i) = Traveling \<Longrightarrow> vh_Activity (pod s i) = Traveling"
    "departs (vh_Activity (pod s' i)) \<Longrightarrow> departs (vh_Activity (pod s i))" if "i < fleetSize s" for i
    using st [OF that] by (simp_all add: stays_def)
  have "link_wf s" using ok(1) by (simp add: platoons_ok_def)
  moreover have "link_rel (leaderOf s') (fleetSize s) = link_rel (leaderOf s) (fleetSize s)" using link(1) by (auto simp: link_rel_def)
  ultimately have w: "link_wf s'" unfolding link_wf_def size by (simp add: link)
  have "link_ok env s' i j" if ij: "i < fleetSize s" "j < fleetSize s" "leaderOf s' i = Suc j"
      "vh_Activity (pod s' i) = Traveling" "vh_Activity (pod s' j) = Traveling" for i j
  proof -
    have "link_ok env s i j" using ok(1) ij act(1) link(1) by (simp add: platoons_ok_def)
    then show ?thesis using stays_link [OF st [OF ij(1)] st [OF ij(2)]] link(1) [OF ij(1)] by (simp add: link_ok_def)
  qed
  then show "platoons_ok env s'" using w ok(1) unfolding platoons_ok_def size by (simp add: link)
  have "\<not> departs (vh_Activity (pod s' i)) \<and> \<not> departs (vh_Activity (pod s' j))"
    if "i < fleetSize s" "j < fleetSize s" "leaderOf s' i = Suc j" for i j
    using ok(3) act(2) [OF that(1)] act(2) [OF that(2)] link(1) [OF that(1)] that by (auto simp: links_under_way_def)
  then show "links_under_way s'" by (simp add: links_under_way_def size)
  have "lanes_agree s'" using ok(2) by (intro lanes_agree_cong [OF _ size link(3)]) (simp_all add: routes_ok_def)
  moreover have "goodBlocks (vh_blocks (pod s' i))" if "i < fleetSize s" "vh_Activity (pod s' i) = Traveling" for i
    using ok(2) that act(1) link(3) by (simp add: routes_ok_def)
  ultimately show "routes_ok s'" by (simp add: routes_ok_def size)
qed

lemma rides_stays: "rides v v' \<Longrightarrow> stays v v'"
  unfolding stays_def by (simp add: rides_same)

section \<open>Links in motion\<close>

lemma tick_keeps_links:
  assumes shapes: "good_shapes env" and ok: "platoons_ok env s" "routes_ok s" "links_under_way s"
    and st: "fleet_ok reverse s paces" and stale: "coasts_before tick paces"
    and run: "tickMotion emergency diverges reverse wait tick s paces = (s', paces')"
  shows "platoons_ok env s'" and "routes_ok s'" and "links_under_way s'" and "fleet_ok reverse s' paces'"
proof -
  have w: "link_wf s" and sp: "platoons_spaced s"
    using ok(1) by (simp_all add: platoons_ok_def platoons_spaced_def link_ok_def)
  note steady = fleet_ok_steady [OF st]
  note pods = tick_pods [OF w steady sp stale run] and after = tick_spaced [OF w ok(3) steady sp stale run]
  have size: "fleetSize s' = fleetSize s" "length paces' = fleetSize s" using pods by blast+
  have on: "vh_link (pod s' i) = vh_link (pod s i)" "vh_follower (pod s' i) = vh_follower (pod s i)" "vh_blocks (pod s' i) = vh_blocks (pod s i)"
    "vh_Activity (pod s' i) = Traveling \<Longrightarrow> currentLane (pod s i) \<le> currentLane (pod s' i)"
    if "i < fleetSize s" "vh_Activity (pod s i) = Traveling" for i
    using pods that by blast+
  have off: "pod s' i = (if moving (pod s i) then departPod (pod s i) else pod s i)"
    "pa_reversal (paces' ! i) = pa_reversal (paces ! i)" "pa_faultCap (paces' ! i) = pa_faultCap (paces ! i)"
    if "i < fleetSize s" "vh_Activity (pod s i) \<noteq> Traveling" for i
    using pods that by blast+
  have same: "vh_link (pod s' i) = vh_link (pod s i)" "vh_follower (pod s' i) = vh_follower (pod s i)" "vh_blocks (pod s' i) = vh_blocks (pod s i)"
    if "i < fleetSize s" for i
    using on [OF that] off(1) [OF that] by (cases "vh_Activity (pod s i) = Traveling"; simp add: departPod_def)+
  have departs': "departs (vh_Activity (pod s i))" if i: "i < fleetSize s" "departs (vh_Activity (pod s' i))" for i
    using tick_departs [OF run i(1)] off(1) [OF i(1)] i(2) by (cases "vh_Activity (pod s i) = Traveling") (auto split: if_splits simp: departPod_def departs_def)
  have travel: "vh_Activity (pod s i) = Traveling"
    if i: "i < fleetSize s" "vh_Activity (pod s' i) = Traveling" "\<not> departs (vh_Activity (pod s i))" for i
    using off(1) [OF i(1)] i by (cases "vh_Activity (pod s i) = Traveling") (auto simp: moving_def split: if_splits)
  have "link_rel (leaderOf s') (fleetSize s) = link_rel (leaderOf s) (fleetSize s)" using same(1) by (auto simp: link_rel_def)
  then have w': "link_wf s'" using w unfolding link_wf_def size by (simp add: same)
  have "\<not> departs (vh_Activity (pod s' i)) \<and> \<not> departs (vh_Activity (pod s' j))"
    if "i < fleetSize s" "j < fleetSize s" "leaderOf s' i = Suc j" for i j
    using ok(3) departs' [OF that(1)] departs' [OF that(2)] same(1) [OF that(1)] that by (auto simp: links_under_way_def)
  then show "links_under_way s'" by (simp add: links_under_way_def size)
  have "link_ok env s' i j" if ij: "i < fleetSize s" "j < fleetSize s" "leaderOf s' i = Suc j"
      "vh_Activity (pod s' i) = Traveling" "vh_Activity (pod s' j) = Traveling" for i j
  proof -
    have l: "leaderOf s i = Suc j" using ij(1,3) same(1) by simp
    then have t: "vh_Activity (pod s i) = Traveling" "vh_Activity (pod s j) = Traveling"
      using ok(3) ij travel unfolding links_under_way_def by blast+
    have c: "certified env (pod s i) (pod s j) (vh_link (pod s i))"
      using ok(1) ij l t by (simp add: platoons_ok_def link_ok_def)
    note further = runTurn_forward [OF shapes on(4) [OF ij(1) t(1) ij(4)]]
    have "certified env (pod s' i) (pod s' j) (vh_link (pod s' i))"
      using c further [of "vRoute (pod s i)" "lastRunLane (vh_link (pod s i))"] same [OF ij(1)] same [OF ij(2)]
      unfolding certified_def sharedRun_def by simp
    moreover have "spaced (pod s' i) (pod s' j)" using after ij by (simp add: platoons_spaced_def size)
    ultimately show ?thesis by (simp add: link_ok_def)
  qed
  then show "platoons_ok env s'" using w' ok(1) unfolding platoons_ok_def size by (simp add: same)
  have steady': "steady reverse (pod s' i) (paces' ! i)" if "i < fleetSize s" "vh_Activity (pod s' i) = Traveling" for i
    using after that by (simp add: fleet_steady_def moving_def size)
  have "lanes_agree s'" using ok(2) by (intro lanes_agree_cong [OF _ size(1) same(3)]) (simp_all add: routes_ok_def)
  then show "routes_ok s'" using steady' by (simp add: routes_ok_def size steady_def)
  have "berthed reverse (pod s' i) (paces' ! i)" if i: "i < fleetSize s" for i
  proof (cases "vh_Activity (pod s i) = Traveling")
    case True
    then show ?thesis using tick_rests [OF run i] tick_departs [OF run i] by (auto simp: berthed_def)
  next
    case False
    have "steady reverse (pod s i) (paces' ! i) = steady reverse (pod s i) (paces ! i)"
      using off(2,3) [OF i False] by (intro steady_cong) simp_all
    then show ?thesis using st i off [OF i False] by (auto simp: fleet_ok_def berthed_def departPod_def split: if_splits)
  qed
  then show "fleet_ok reverse s' paces'" using steady' size by (simp add: fleet_ok_def)
qed

section \<open>Steps\<close>

text \<open>The step counter of the simulation is part of the state. The index of shapes does not change in a run.\<close>

inductive fleetStep ::
  "platoonEnv \<Rightarrow> string list \<Rightarrow> traffic \<times> pacing list \<times> int \<Rightarrow> traffic \<times> pacing list \<times> int \<Rightarrow> bool" for env reverse where
  platoons: "pe_shapes env' = pe_shapes env \<Longrightarrow> in_order rank s \<Longrightarrow>
    fleetStep env reverse (s, paces, tick) (formPlatoons env' s, paces, tick)"
| admit: "valid_request s q \<Longrightarrow> fleetStep env reverse (s, paces, tick) (grant q s, paces, tick)"
| motion: "tickMotion emergency diverges reverse wait tick s paces = (s', paces') \<Longrightarrow>
    fleetStep env reverse (s, paces, tick) (s', paces', tick + 1)"
| release: "fleetStep env reverse (s, paces, tick) (releaseCleared s, paces, tick)"
| board: "i < fleetSize s \<Longrightarrow> vh_Activity (pod s i) = Idle \<Longrightarrow> \<not> linked (pod s i) \<Longrightarrow> goodBlocks blocks \<Longrightarrow>
    lanes_agree (setPod i (boardRoute blocks from_berth station) s) \<Longrightarrow>
    fleetStep env reverse (s, paces, tick) (setPod i (boardRoute blocks from_berth station) s,
      paces[i := (paces ! i)\<lparr>pa_reversal := clearReversal\<rparr>], tick)"
| unloaded: "vh_Activity (pod s i) = Unloading \<Longrightarrow> fleetStep env reverse (s, paces, tick) (setPod i endUnloading s, paces, tick)"
| phase: "fleetStep env reverse (s, paces, tick) (setPod i phaseTurn s, paces, tick)"

inductive_cases fleetStepE: "fleetStep env reverse s s'"

definition fleet_inv :: "platoonEnv \<Rightarrow> string list \<Rightarrow> traffic \<times> pacing list \<times> int \<Rightarrow> bool" where
  "fleet_inv env reverse = (\<lambda>(s, paces, tick). platoons_ok env s \<and> routes_ok s \<and> links_under_way s \<and>
    fleet_ok reverse s paces \<and> coasts_before tick paces)"

text \<open>The environment of a link is its shapes.\<close>

lemma env_shapes:
  assumes "pe_shapes env' = pe_shapes env"
  shows "platoons_ok env' s = platoons_ok env s" and "good_shapes env' = good_shapes env"
proof -
  have "runTurn env' = runTurn env" by (intro ext) (simp add: runTurn_def shapeOf_def assms)
  then show "platoons_ok env' s = platoons_ok env s" by (simp add: platoons_ok_def link_ok_def certified_def)
qed (simp add: good_shapes_def assms)

lemma fleet_ok_pod:
  assumes ok: "fleet_ok reverse s paces" and i: "i < fleetSize s"
    and new: "vh_Activity (f (pod s i)) \<noteq> Traveling" "berthed reverse (f (pod s i)) p"
  shows "fleet_ok reverse (setPod i f s) (paces[i := p])"
  using assms by (auto simp: fleet_ok_def pod_setPod nth_list_update)

lemma admit_wf:
  assumes "routes_ok s" and "fleet_ok reverse s paces" and "valid_request s q"
  shows "wf_blocks (vh_blocks (pod s (in_index q)))"
proof -
  let ?v = "pod s (in_index q)"
  have i: "in_index q < fleetSize s" "onTrack ?v" using assms(3) by (simp_all add: valid_request_def Let_def)
  then have "berthed reverse ?v (paces ! in_index q)" using assms(2) by (simp add: fleet_ok_def)
  then have "goodBlocks (vh_blocks ?v)"
    using i assms(1) by (cases "vh_Activity ?v = Traveling") (auto simp: routes_ok_def onTrack_def berthed_def steady_def split: if_splits)
  then show ?thesis by (simp add: goodBlocks_def)
qed

lemma board_links:
  assumes ok: "platoons_ok env s" "routes_ok s" "links_under_way s" and i: "i < fleetSize s" "\<not> linked (pod s i)"
    and agree: "lanes_agree (setPod i (boardRoute blocks from_berth station) s)"
  shows "platoons_ok env (setPod i (boardRoute blocks from_berth station) s)"
    and "routes_ok (setPod i (boardRoute blocks from_berth station) s)"
    and "links_under_way (setPod i (boardRoute blocks from_berth station) s)"
proof -
  let ?t = "setPod i (boardRoute blocks from_berth station) s"
  have pods: "pod ?t j = (if j = i then boardRoute blocks from_berth station (pod s i) else pod s j)" if "j < fleetSize s" for j
    using that by (simp add: pod_setPod)
  have free: "leaderOf s i = 0" "followerOf s i = 0" using i(2) by (simp_all add: linked_def)
  have links: "vh_link (pod ?t j) = vh_link (pod s j)" "vh_follower (pod ?t j) = vh_follower (pod s j)" if "j < fleetSize s" for j
    using pods [OF that] by (simp_all add: boardRoute_def)
  have w: "link_wf s" using ok(1) by (simp add: platoons_ok_def)
  have other: "j \<noteq> i \<and> k \<noteq> i" if "j < fleetSize s" "k < fleetSize s" "leaderOf s j = Suc k" for j k
    using that w free by (auto simp: link_wf_def)
  have "link_rel (leaderOf ?t) (fleetSize s) = link_rel (leaderOf s) (fleetSize s)" using links(1) by (auto simp: link_rel_def)
  then have "link_wf ?t" using w unfolding link_wf_def setPod_simps by (simp add: links)
  moreover have "link_ok env ?t j k"
    if "j < fleetSize s" "k < fleetSize s" "leaderOf ?t j = Suc k" "vh_Activity (pod ?t j) = Traveling" "vh_Activity (pod ?t k) = Traveling" for j k
    using that ok(1) other [of j k] links(1) [OF that(1)] pods [OF that(1)] pods [OF that(2)]
    by (simp add: platoons_ok_def link_ok_def)
  ultimately show "platoons_ok env ?t" using ok(1) unfolding platoons_ok_def setPod_simps by (simp add: links)
  have "\<not> departs (vh_Activity (pod ?t j)) \<and> \<not> departs (vh_Activity (pod ?t k))"
    if "j < fleetSize s" "k < fleetSize s" "leaderOf ?t j = Suc k" for j k
    using that ok(3) other [of j k] links(1) [OF that(1)] pods [OF that(1)] pods [OF that(2)] by (simp add: links_under_way_def)
  then show "links_under_way ?t" by (simp add: links_under_way_def)
  have "goodBlocks (vh_blocks (pod ?t j))" if "j < fleetSize s" "vh_Activity (pod ?t j) = Traveling" for j
    using that pods [OF that(1)] ok(2) by (auto simp: routes_ok_def boardRoute_def split: if_splits)
  then show "routes_ok ?t" using agree by (simp add: routes_ok_def)
qed

lemma fleet_ok_same:
  assumes ok: "fleet_ok reverse s paces" and same: "same_pods s s'"
  shows "fleet_ok reverse s' paces"
proof -
  have size: "fleetSize s' = fleetSize s" using same unfolding same_pods_def by blast
  have "(vh_Activity (pod s' i) = Traveling \<longrightarrow> steady reverse (pod s' i) (paces ! i)) \<and> berthed reverse (pod s' i) (paces ! i)"
    if i: "i < fleetSize s" for i
  proof -
    obtain l f where p: "pod s' i = (pod s i)\<lparr>vh_link := l, vh_follower := f\<rparr>" using same i unfolding same_pods_def by blast
    have "steady reverse (pod s' i) (paces ! i) = steady reverse (pod s i) (paces ! i)" by (rule steady_cong) (simp_all add: p)
    then show ?thesis using ok i by (simp add: fleet_ok_def berthed_def p)
  qed
  then show ?thesis using ok size by (simp add: fleet_ok_def)
qed

lemma phase_stays: "stays v (phaseTurn v)" "vh_Activity v = Unloading \<Longrightarrow> stays v (endUnloading v)"
  by (simp_all add: stays_def phaseTurn_def endUnloading_def departs_def)

lemma phase_berthed:
  assumes ok: "fleet_ok reverse s paces" and f: "\<And>v. f v = phaseTurn v \<or> vh_Activity v = Unloading \<and> f v = endUnloading v \<or> f v = v"
  shows "fleet_ok reverse (setPod i f s) paces"
proof -
  have "steady reverse (f v) p = steady reverse v p" for v p
    using f [of v] by (intro steady_cong) (auto simp: phaseTurn_def endUnloading_def split: if_splits)
  moreover have "vh_Activity (f v) = vh_Activity v \<or> vh_Activity v = Unloading \<and> vh_Activity (f v) = Idle"
    "vh_Speed (f v) = vh_Speed v" "vh_reservedThrough (f v) = vh_reservedThrough v" "vh_blocks (f v) = vh_blocks v"
    "vh_blockIndex (f v) = vh_blockIndex v" "vh_distance (f v) = vh_distance v" for v
    using f [of v] by (auto simp: phaseTurn_def endUnloading_def split: if_splits)
  ultimately have "(vh_Activity (f v) = Traveling \<longrightarrow> steady reverse (f v) p) \<and> berthed reverse (f v) p"
    if "(vh_Activity v = Traveling \<longrightarrow> steady reverse v p) \<and> berthed reverse v p" for v p
    using that unfolding berthed_def departs_def by (metis Activity.distinct)
  then show ?thesis using ok by (auto simp: fleet_ok_def pod_setPod)
qed

lemma fleetStep_inv:
  assumes "fleetStep env reverse c c'" and shapes: "good_shapes env"
  shows "fleet_inv env reverse c \<Longrightarrow> fleet_inv env reverse c'"
  using assms(1)
proof (induction rule: fleetStep.induct)
  case (platoons env' rank s paces tick)
  note env = env_shapes [OF platoons(1)]
  have ok: "platoons_ok env' s" "routes_ok s" "links_under_way s" "good_shapes env'" "fleet_ok reverse s paces" "coasts_before tick paces"
    using platoons(3) shapes env by (simp_all add: fleet_inv_def)
  note form = formPlatoons_ok [OF ok(1-3) platoons(2) ok(4)]
  show ?case
    using form(1) fleet_ok_same [OF ok(5) form(2)] ok(6) env(1) by (simp add: fleet_inv_def links_ok_def)
next
  case (admit s q paces tick)
  have ok: "platoons_ok env s" "routes_ok s" "links_under_way s" "fleet_ok reverse s paces" "coasts_before tick paces"
    using admit(2) by (simp_all add: fleet_inv_def)
  have c: "claims s (grant q s)" by (rule grant_claims [OF admit_wf [OF ok(2,4) admit(1)] admit(1)])
  have "fleetSize (grant q s) = fleetSize s" "\<And>i. i < fleetSize s \<Longrightarrow> stays (pod s i) (pod (grant q s) i)"
    using c by (auto simp: claims_def rides_stays)
  from links_stay [OF this ok(1-3)] show ?case using fleet_ok_claims [OF ok(4) c] ok(5) by (simp add: fleet_inv_def)
next
  case (motion emergency diverges wait tick s paces s' paces')
  have ok: "platoons_ok env s" "routes_ok s" "links_under_way s" "fleet_ok reverse s paces" "coasts_before tick paces"
    using motion(2) by (simp_all add: fleet_inv_def)
  have "length paces = fleetSize s" using ok(4) by (simp add: fleet_ok_def)
  then show ?case
    using tick_keeps_links [OF shapes ok motion(1)] tick_coasts [OF motion(1) _ ok(5)] by (simp add: fleet_inv_def)
next
  case (release s paces tick)
  have ok: "platoons_ok env s" "routes_ok s" "links_under_way s" "fleet_ok reverse s paces" "coasts_before tick paces"
    using release by (simp_all add: fleet_inv_def)
  note c = releaseCleared_claims [of s]
  have "fleetSize (releaseCleared s) = fleetSize s" "\<And>i. i < fleetSize s \<Longrightarrow> stays (pod s i) (pod (releaseCleared s) i)"
    using c by (auto simp: claims_def rides_stays)
  from links_stay [OF this ok(1-3)] show ?case using fleet_ok_claims [OF ok(4) c] ok(5) by (simp add: fleet_inv_def)
next
  case (board i s blocks from_berth station paces tick)
  have ok: "platoons_ok env s" "routes_ok s" "links_under_way s" "fleet_ok reverse s paces" "coasts_before tick paces"
    using board(6) by (simp_all add: fleet_inv_def)
  have "vh_Speed (pod s i) = 0" "i < length paces" using ok(4) board(1,2) by (simp_all add: fleet_ok_def berthed_def)
  then have "fleet_ok reverse (setPod i (boardRoute blocks from_berth station) s) (paces[i := (paces ! i)\<lparr>pa_reversal := clearReversal\<rparr>])"
    using board(4) by (intro fleet_ok_pod [OF ok(4) board(1)]) (simp_all add: boardRoute_def berthed_def departs_def clearReversal_def)
  moreover have "coasts_before tick (paces[i := (paces ! i)\<lparr>pa_reversal := clearReversal\<rparr>])"
    using ok(5) set_update_subset_insert [of paces i "(paces ! i)\<lparr>pa_reversal := clearReversal\<rparr>"] \<open>i < length paces\<close>
    by (auto simp: coasts_before_def)
  ultimately show ?case using board_links [OF ok(1-3) board(1,3,5)] by (simp add: fleet_inv_def)
next
  case (unloaded s i paces tick)
  have ok: "platoons_ok env s" "routes_ok s" "links_under_way s" "fleet_ok reverse s paces" "coasts_before tick paces"
    using unloaded(2) by (simp_all add: fleet_inv_def)
  let ?f = "\<lambda>v. if vh_Activity v = Unloading then endUnloading v else v"
  have eq: "setPod i endUnloading s = setPod i ?f s" using unloaded(1) by (simp add: setPod_def)
  have "fleetSize (setPod i ?f s) = fleetSize s" "\<And>j. j < fleetSize s \<Longrightarrow> stays (pod s j) (pod (setPod i ?f s) j)"
    using phase_stays(2) by (auto simp: pod_setPod stays_def)
  from links_stay [OF this ok(1-3)] show ?case
    unfolding eq using phase_berthed [OF ok(4), of ?f i] ok(5) by (simp add: fleet_inv_def)
next
  case (phase s paces tick i)
  have ok: "platoons_ok env s" "routes_ok s" "links_under_way s" "fleet_ok reverse s paces" "coasts_before tick paces"
    using phase by (simp_all add: fleet_inv_def)
  have "fleetSize (setPod i phaseTurn s) = fleetSize s" "\<And>j. j < fleetSize s \<Longrightarrow> stays (pod s j) (pod (setPod i phaseTurn s) j)"
    using phase_stays(1) by (auto simp: pod_setPod stays_def)
  from links_stay [OF this ok(1-3)] show ?case
    using phase_berthed [OF ok(4), of phaseTurn i] ok(5) by (simp add: fleet_inv_def)
qed

interpretation fleet: step_invariant "fleetStep env reverse" "\<lambda>c. good_shapes env \<and> fleet_inv env reverse c" for env reverse
  by unfold_locales (use fleetStep_inv in blast)

text \<open>A fleet before its first trip.\<close>

definition parked :: "traffic \<Rightarrow> pacing list \<Rightarrow> int \<Rightarrow> bool" where
  "parked s paces tick \<longleftrightarrow> length paces = fleetSize s \<and> lanes_agree s \<and> coasts_before tick paces \<and>
    (\<forall>i<fleetSize s. vh_Activity (pod s i) = Idle \<and> vh_Speed (pod s i) = 0 \<and> \<not> linked (pod s i))"

lemma parked_inv:
  assumes "parked s paces tick"
  shows "fleet_inv env reverse (s, paces, tick)"
proof -
  have pods: "vh_Activity (pod s i) = Idle" "vh_Speed (pod s i) = 0" "leaderOf s i = 0" "followerOf s i = 0" if "i < fleetSize s" for i
    using assms that by (simp_all add: parked_def linked_def)
  have "link_rel (leaderOf s) (fleetSize s) = {}" by (auto simp: link_rel_def pods)
  then have "link_wf s" by (simp add: link_wf_def pods acyclic_def)
  then show ?thesis
    using assms
    by (simp add: fleet_inv_def platoons_ok_def routes_ok_def links_under_way_def fleet_ok_def berthed_def departs_def parked_def pods)
qed



section \<open>Two pods of a fleet\<close>

definition parkedPod :: "string \<Rightarrow> vehicle" where
  "parkedPod ident = (runPod ident 0 noLink 0)\<lparr>vh_Activity := Idle, vh_Speed := 0\<rparr>"

definition parkedFleet :: traffic where
  "parkedFleet = laneFleet\<lparr>tr_vehicles := [parkedPod ''p'', parkedPod ''q'']\<rparr>"

lemma parkedFleet_pods: "tr_vehicles parkedFleet = [parkedPod ''p'', parkedPod ''q'']"
  by (simp add: parkedFleet_def)

lemma twoLanes_agree:
  assumes "\<And>i. i < fleetSize s \<Longrightarrow> vh_blocks (pod s i) = twoLanes"
  shows "lanes_agree s"
  using assms by (auto simp: lanes_agree_def twoLanes_def bendLane_def less_Suc_eq numeral_2_eq_2)

lemma parkedFleet_parked: "parked parkedFleet runPaces 1"
proof -
  have "lanes_agree parkedFleet" by (rule twoLanes_agree) (auto simp: parkedFleet_pods parkedPod_def less_Suc_eq numeral_2_eq_2)
  then show ?thesis
    using runFleet_ok(5) by (auto simp: parked_def parkedFleet_pods parkedPod_def linked_def runPaces_def less_Suc_eq numeral_2_eq_2)
qed


lemma laneFleet_inv: "fleet_inv bendEnv [] (laneFleet, runPaces, 1)"
  using laneFleet_ok laneFleet_routes laneFleet_under_way runFleet_ok(5)
  by (auto simp: fleet_inv_def fleet_ok_def laneFleet_pods runPaces_def runPod_steady berthed_def less_Suc_eq numeral_2_eq_2)


end
