(* ===== verification/ParkRide.thy ===== *)
theory ParkRide
  imports NetworkModel Admission ClassSets "HOL-Library.List_Lexorder" "HOL-Library.Char_ord"
begin

text \<open>
  The plan of a park-and-ride run (\<open>internal/parkride/plan.go\<close>): lots, itineraries, the storage
  bound, the checks of \<open>normalizePlan\<close> and the compiled times. An \<open>int64\<close> is an \<open>int\<close>; the code
  guards every sum and product that could leave the width, and the guards are part of the model.
  The JSON decoder is a library: a token that it reads is given by the parts of its stack pointer
  and by its kind. The lists are sorted by ID with the byte order of \<open>strings.Compare\<close>.
\<close>

section \<open>Data\<close>

definition storageLimit :: int where "storageLimit = 256 * 2 ^ 20"
definition itineraryBytes :: int where "itineraryBytes = 4096"
definition lotBytes :: int where "lotBytes = 512"
definition MaxPlanBytes :: int where "MaxPlanBytes = 10 * 2 ^ 20"
definition MaxHorizonTicks :: int where "MaxHorizonTicks = 86400 * TicksPerSecond"
definition MaxQueueLimit :: int where "MaxQueueLimit = 1000000"

record Lot =
  lot_ID :: string
  lot_Hub :: string
  lot_Capacity :: int

record Itinerary =
  it_ID :: string
  it_CarID :: string
  it_Lot :: string
  it_Destination :: string
  it_CarSeats :: int
  it_PartySize :: int
  it_SharingConsent :: string
  it_DepartureSeconds :: int
  it_OutwardSeconds :: int
  it_ReturnNotBeforeSeconds :: int
  it_ActivitySeconds :: int
  it_RetrievalSeconds :: int
  it_HomeboundSeconds :: int
  it_OutwardRefusal :: string
  it_ReturnRefusal :: string

record Plan =
  pl_Lots :: "Lot list"
  pl_Itineraries :: "Itinerary list"

record carTimes =
  tm_departure :: int
  tm_arrival :: int
  tm_notBefore :: int
  tm_activity :: int
  tm_retrieval :: int
  tm_homebound :: int

datatype plan_error =
    PlanTooLarge | PlanStorage | PlanDecoder
  | PlanNeeds string
  | InvalidLot string
  | InvalidItinerary string
  | PartyDoesNotFit string
  | UnknownConsent
  | UnknownRefusal
  | TimeRange
  | TickOverflow

section \<open>The storage bound\<close>

definition fitsStorage :: "int \<Rightarrow> int \<Rightarrow> bool" where
  "fitsStorage lots itineraries =
    (lots \<ge> 0 \<and> itineraries \<ge> 0 \<and> lots \<le> storageLimit div lotBytes \<and>
     itineraries \<le> (storageLimit - lots * lotBytes) div itineraryBytes)"

text \<open>\<open>Token parts ends\<close>: the stack pointer split at each slash, and whether the token closes a value.\<close>

datatype plan_token = Token "string list" bool | TokenError

fun scanStorage :: "plan_token list \<Rightarrow> int \<Rightarrow> int \<Rightarrow> (plan_error, unit) result" where
  "scanStorage [] lots itineraries = Inr ()"
| "scanStorage (TokenError # rest) lots itineraries = Inl PlanDecoder"
| "scanStorage (Token parts ends # rest) lots itineraries =
    (if length parts = 3 \<and> \<not> ends then
       let lots' = (if parts ! 1 = ''lots'' then lots + 1 else lots);
           itineraries' = (if parts ! 1 \<noteq> ''lots'' \<and> parts ! 1 = ''itineraries'' then itineraries + 1 else itineraries)
       in if \<not> fitsStorage lots' itineraries' then Inl PlanStorage else scanStorage rest lots' itineraries'
     else scanStorage rest lots itineraries)"

section \<open>Times\<close>

definition addTicks :: "int \<Rightarrow> int \<Rightarrow> (plan_error, int) result" where
  "addTicks a b = (if a < 0 \<or> b < 0 \<or> b > MaxInt64 - a then Inl TickOverflow else Inr (a + b))"

fun compileValues :: "int list \<Rightarrow> (plan_error, int list) result" where
  "compileValues [] = Inr []"
| "compileValues (seconds # rest) =
    (if seconds < 0 \<or> seconds > MaxInt64 div TicksPerSecond then Inl TimeRange
     else case compileValues rest of
       Inl e \<Rightarrow> Inl e
     | Inr values \<Rightarrow> Inr (seconds * TicksPerSecond # values))"

definition compileTimes :: "Itinerary \<Rightarrow> (plan_error, carTimes) result" where
  "compileTimes itinerary =
    (case compileValues [it_DepartureSeconds itinerary, it_OutwardSeconds itinerary,
        it_ReturnNotBeforeSeconds itinerary, it_ActivitySeconds itinerary, it_RetrievalSeconds itinerary,
        it_HomeboundSeconds itinerary] of
       Inl e \<Rightarrow> Inl e
     | Inr values \<Rightarrow>
    (case addTicks (values ! 0) (values ! 1) of
       Inl e \<Rightarrow> Inl e
     | Inr arrival \<Rightarrow>
    (case addTicks (max MaxHorizonTicks arrival) (values ! 3) of
       Inl e \<Rightarrow> Inl e
     | Inr latest \<Rightarrow>
    (case addTicks (max latest (values ! 2)) (values ! 4) of
       Inl e \<Rightarrow> Inl e
     | Inr latest \<Rightarrow>
    (case addTicks latest (values ! 5) of
       Inl e \<Rightarrow> Inl e
     | Inr _ \<Rightarrow> Inr \<lparr>tm_departure = values ! 0, tm_arrival = arrival, tm_notBefore = values ! 2,
         tm_activity = values ! 3, tm_retrieval = values ! 4, tm_homebound = values ! 5\<rparr>)))))"

section \<open>The checks of a plan\<close>

definition validID :: "string \<Rightarrow> bool" where
  "validID i = (i \<noteq> [] \<and> length i \<le> 64 \<and> ValidIDText i)"

text \<open>The map \<open>stations\<close>: a later station of the same ID overwrites an earlier one.\<close>

definition passengerStation :: "Network \<Rightarrow> string \<Rightarrow> bool" where
  "passengerStation n i =
    (fold (\<lambda>st m. m(st_ID st \<mapsto> \<not> st_ParkingOnly st)) (net_Stations n) Map.empty i = Some True)"

fun checkLots :: "(string \<Rightarrow> bool) \<Rightarrow> Lot list \<Rightarrow> (string \<rightharpoonup> Lot) \<Rightarrow> (plan_error, string \<rightharpoonup> Lot) result" where
  "checkLots stations [] lots = Inr lots"
| "checkLots stations (lot # rest) lots =
    (if \<not> validID (lot_ID lot) \<or> lots (lot_ID lot) \<noteq> None \<or> \<not> stations (lot_Hub lot) \<or> lot_Capacity lot < 0
     then Inl (InvalidLot (lot_ID lot))
     else checkLots stations rest (lots(lot_ID lot \<mapsto> lot)))"

definition consented :: "Itinerary \<Rightarrow> Itinerary" where
  "consented itinerary =
    (if it_SharingConsent itinerary = [] then itinerary\<lparr>it_SharingConsent := PrivateConsent\<rparr> else itinerary)"

fun checkItineraries ::
  "(string \<Rightarrow> bool) \<Rightarrow> (string \<rightharpoonup> Lot) \<Rightarrow> Itinerary list \<Rightarrow> string set \<Rightarrow> string set \<Rightarrow>
    (plan_error, Itinerary list) result" where
  "checkItineraries stations lots [] ids cars = Inr []"
| "checkItineraries stations lots (given # rest) ids cars =
    (if \<not> validID (it_ID given) \<or> it_ID given \<in> ids \<or> \<not> validID (it_CarID given) \<or> it_CarID given \<in> cars \<or>
       (case lots (it_Lot given) of
          None \<Rightarrow> True
        | Some lot \<Rightarrow> \<not> stations (it_Destination given) \<or> it_Destination given = lot_Hub lot)
     then Inl (InvalidItinerary (it_ID given))
     else if it_CarSeats given < 1 \<or> it_PartySize given < 1 \<or> it_PartySize given > MaxNewPartySize \<or>
       it_PartySize given > it_CarSeats given
     then Inl (PartyDoesNotFit (it_ID given))
     else
       let itinerary = consented given in
       if it_SharingConsent itinerary \<noteq> PrivateConsent \<and> it_SharingConsent itinerary \<noteq> SharedConsent
       then Inl UnknownConsent
       else if it_OutwardRefusal itinerary \<noteq> ''drive-home'' \<or> it_ReturnRefusal itinerary \<noteq> ''retain-car''
       then Inl UnknownRefusal
       else case compileTimes itinerary of
         Inl e \<Rightarrow> Inl e
       | Inr _ \<Rightarrow>
           (case checkItineraries stations lots rest (insert (it_ID itinerary) ids) (insert (it_CarID itinerary) cars) of
              Inl e \<Rightarrow> Inl e
            | Inr itineraries \<Rightarrow> Inr (itinerary # itineraries)))"

definition normalizePlan :: "Plan \<Rightarrow> Network \<Rightarrow> (plan_error, Plan) result" where
  "normalizePlan plan n =
    (if \<not> fitsStorage (int (length (pl_Lots plan))) (int (length (pl_Itineraries plan))) then Inl PlanStorage
     else case checkLots (passengerStation n) (pl_Lots plan) Map.empty of
       Inl e \<Rightarrow> Inl e
     | Inr lots \<Rightarrow>
         (case checkItineraries (passengerStation n) lots (pl_Itineraries plan) {} {} of
            Inl e \<Rightarrow> Inl e
          | Inr itineraries \<Rightarrow>
              Inr \<lparr>pl_Lots = sort_key lot_ID (pl_Lots plan), pl_Itineraries = sort_key it_ID itineraries\<rparr>))"

section \<open>What an accepted plan satisfies\<close>

text \<open>
  The declarative form of the checks. It does not depend on the order of the lists, so an
  accepted plan is accepted again after the sort.
\<close>

definition lot_valid :: "Network \<Rightarrow> Lot \<Rightarrow> bool" where
  "lot_valid n lot = (validID (lot_ID lot) \<and> passengerStation n (lot_Hub lot) \<and> 0 \<le> lot_Capacity lot)"

definition trip_valid :: "Network \<Rightarrow> Lot set \<Rightarrow> Itinerary \<Rightarrow> bool" where
  "trip_valid n lots it =
    (validID (it_ID it) \<and> validID (it_CarID it) \<and> passengerStation n (it_Destination it) \<and>
     (\<exists>lot\<in>lots. lot_ID lot = it_Lot it \<and> lot_Hub lot \<noteq> it_Destination it) \<and>
     1 \<le> it_PartySize it \<and> it_PartySize it \<le> MaxNewPartySize \<and> it_PartySize it \<le> it_CarSeats it \<and>
     it_SharingConsent (consented it) \<in> {PrivateConsent, SharedConsent} \<and>
     it_OutwardRefusal it = ''drive-home'' \<and> it_ReturnRefusal it = ''retain-car'' \<and>
     is_ok (compileTimes it))"

definition plan_valid :: "Network \<Rightarrow> Plan \<Rightarrow> bool" where
  "plan_valid n plan =
    (fitsStorage (int (length (pl_Lots plan))) (int (length (pl_Itineraries plan))) \<and>
     distinct (map lot_ID (pl_Lots plan)) \<and> (\<forall>lot\<in>set (pl_Lots plan). lot_valid n lot) \<and>
     distinct (map it_ID (pl_Itineraries plan)) \<and> distinct (map it_CarID (pl_Itineraries plan)) \<and>
     (\<forall>it\<in>set (pl_Itineraries plan). trip_valid n (set (pl_Lots plan)) it))"

definition sorted_plan :: "Plan \<Rightarrow> Plan" where
  "sorted_plan plan =
    \<lparr>pl_Lots = sort_key lot_ID (pl_Lots plan),
     pl_Itineraries = sort_key it_ID (map consented (pl_Itineraries plan))\<rparr>"

lemma consented_fields [simp]:
  "it_ID (consented it) = it_ID it" "it_CarID (consented it) = it_CarID it"
  "it_Lot (consented it) = it_Lot it" "it_Destination (consented it) = it_Destination it"
  "it_CarSeats (consented it) = it_CarSeats it" "it_PartySize (consented it) = it_PartySize it"
  "it_OutwardRefusal (consented it) = it_OutwardRefusal it"
  "it_ReturnRefusal (consented it) = it_ReturnRefusal it"
  "compileTimes (consented it) = compileTimes it" "consented (consented it) = consented it"
  by (auto simp: consented_def compileTimes_def PrivateConsent_def)

lemma trip_valid_consented [simp]: "trip_valid n lots (consented it) = trip_valid n lots it"
  by (simp add: trip_valid_def)

fun lotMap :: "Lot list \<Rightarrow> (string \<rightharpoonup> Lot) \<Rightarrow> (string \<rightharpoonup> Lot)" where
  "lotMap [] m = m"
| "lotMap (lot # rest) m = lotMap rest (m(lot_ID lot \<mapsto> lot))"

lemma image_notin: "y \<notin> f ` A \<longleftrightarrow> (\<forall>x\<in>A. f x \<noteq> y)"
  by auto

lemma checkLots_iff:
  "checkLots stations lots m = Inr m' \<longleftrightarrow>
    distinct (map lot_ID lots) \<and> m' = lotMap lots m \<and>
    (\<forall>lot\<in>set lots. validID (lot_ID lot) \<and> m (lot_ID lot) = None \<and> stations (lot_Hub lot) \<and> 0 \<le> lot_Capacity lot)"
proof (induction lots arbitrary: m)
  case (Cons lot lots)
  have "checkLots stations (lot # lots) m = Inr m' \<longleftrightarrow>
    (validID (lot_ID lot) \<and> m (lot_ID lot) = None \<and> stations (lot_Hub lot) \<and> 0 \<le> lot_Capacity lot) \<and>
    checkLots stations lots (m(lot_ID lot \<mapsto> lot)) = Inr m'"
    by (auto simp: not_less)
  then show ?case
    unfolding Cons.IH by (auto simp: image_notin)
qed auto

lemma lots_of_distinct:
  "distinct (map lot_ID lots) \<Longrightarrow>
    lotMap lots m i = Some lot \<longleftrightarrow>
      lot \<in> set lots \<and> lot_ID lot = i \<or> i \<notin> lot_ID ` set lots \<and> m i = Some lot"
proof (induction lots arbitrary: m)
  case (Cons x lots)
  then show ?case by (cases "lot_ID x = i") (auto simp: image_notin)
qed simp

definition trip_checked ::
  "(string \<Rightarrow> bool) \<Rightarrow> (string \<rightharpoonup> Lot) \<Rightarrow> Itinerary \<Rightarrow> bool" where
  "trip_checked stations lots it =
    (validID (it_ID it) \<and> validID (it_CarID it) \<and>
      (\<exists>lot. lots (it_Lot it) = Some lot \<and> stations (it_Destination it) \<and> it_Destination it \<noteq> lot_Hub lot) \<and>
      1 \<le> it_CarSeats it \<and> 1 \<le> it_PartySize it \<and> it_PartySize it \<le> MaxNewPartySize \<and>
      it_PartySize it \<le> it_CarSeats it \<and> it_SharingConsent (consented it) \<in> {PrivateConsent, SharedConsent} \<and>
      it_OutwardRefusal it = ''drive-home'' \<and> it_ReturnRefusal it = ''retain-car'' \<and> is_ok (compileTimes it))"

lemma checkItineraries_Cons:
  "checkItineraries stations lots (it # its) ids cars = Inr its' \<longleftrightarrow>
    trip_checked stations lots it \<and> it_ID it \<notin> ids \<and> it_CarID it \<notin> cars \<and>
    (\<exists>rest. checkItineraries stations lots its (insert (it_ID it) ids) (insert (it_CarID it) cars) = Inr rest \<and>
      its' = consented it # rest)"
  by (simp add: Let_def trip_checked_def isl_def split: option.split sum.split) (auto simp: not_less)

lemma checkItineraries_iff:
  "checkItineraries stations lots its ids cars = Inr its' \<longleftrightarrow>
    distinct (map it_ID its) \<and> distinct (map it_CarID its) \<and> its' = map consented its \<and>
    (\<forall>it\<in>set its. trip_checked stations lots it \<and> it_ID it \<notin> ids \<and> it_CarID it \<notin> cars)"
proof (induction its arbitrary: ids cars its')
  case (Cons it its)
  show ?case
    unfolding checkItineraries_Cons Cons.IH by (auto simp: image_notin)
qed auto

text \<open>A party that fits its car gives the car a seat, so the first test on the seats adds nothing.\<close>

lemma trip_checked_valid:
  "distinct (map lot_ID lots) \<Longrightarrow>
    trip_checked (passengerStation n) (lotMap lots Map.empty) it = trip_valid n (set lots) it"
  unfolding trip_checked_def trip_valid_def lots_of_distinct by (auto simp: eq_commute)

lemma normalizePlan_cases:
  "normalizePlan plan n = Inr p \<longleftrightarrow> plan_valid n plan \<and> p = sorted_plan plan"
proof -
  have "normalizePlan plan n = Inr p \<longleftrightarrow>
    fitsStorage (int (length (pl_Lots plan))) (int (length (pl_Itineraries plan))) \<and>
    (\<exists>m its. checkLots (passengerStation n) (pl_Lots plan) Map.empty = Inr m \<and>
      checkItineraries (passengerStation n) m (pl_Itineraries plan) {} {} = Inr its \<and>
      p = \<lparr>pl_Lots = sort_key lot_ID (pl_Lots plan), pl_Itineraries = sort_key it_ID its\<rparr>)"
    by (auto simp: normalizePlan_def split: sum.splits)
  also have "\<dots> \<longleftrightarrow> plan_valid n plan \<and> p = sorted_plan plan"
    unfolding checkLots_iff checkItineraries_iff plan_valid_def sorted_plan_def lot_valid_def
    by (auto simp: trip_checked_valid)
  finally show ?thesis .
qed

lemma sorted_plan_idem [simp]: "sorted_plan (sorted_plan plan) = sorted_plan plan"
proof -
  have "map consented (sort_key it_ID (map consented its)) = sort_key it_ID (map consented its)" for its
    by (rule map_idI) auto
  then show ?thesis
    by (simp add: sorted_plan_def sort_key_id_if_sorted)
qed

lemma distinct_sort_key [simp]: "distinct (map f (sort_key g xs)) \<longleftrightarrow> distinct (map f xs)"
  by (rule mset_eq_imp_distinct_iff) (simp add: mset_map)

lemma plan_valid_sorted [simp]: "plan_valid n (sorted_plan plan) = plan_valid n plan"
  by (auto simp: plan_valid_def sorted_plan_def comp_def)

section \<open>Times that never overflow\<close>

definition times_fit :: "carTimes \<Rightarrow> bool" where
  "times_fit tm =
    (0 \<le> tm_departure tm \<and> tm_departure tm \<le> tm_arrival tm \<and> 0 \<le> tm_notBefore tm \<and> 0 \<le> tm_activity tm \<and>
     0 \<le> tm_retrieval tm \<and> 0 \<le> tm_homebound tm \<and>
     max (max MaxHorizonTicks (tm_arrival tm) + tm_activity tm) (tm_notBefore tm) + tm_retrieval tm + tm_homebound tm
       \<le> MaxInt64)"

lemma compileValues_iff:
  "compileValues xs = Inr ys \<longleftrightarrow>
    (\<forall>x\<in>set xs. 0 \<le> x \<and> x \<le> MaxInt64 div TicksPerSecond) \<and> ys = map (\<lambda>x. x * TicksPerSecond) xs"
proof (induction xs arbitrary: ys)
  case (Cons x xs)
  have "compileValues (x # xs) = Inr ys \<longleftrightarrow> 0 \<le> x \<and> x \<le> MaxInt64 div TicksPerSecond \<and>
    (\<exists>zs. compileValues xs = Inr zs \<and> ys = x * TicksPerSecond # zs)"
    by (auto simp: not_less split: sum.splits)
  then show ?case unfolding Cons.IH by auto
qed auto

lemma addTicks_iff: "addTicks a b = Inr c \<longleftrightarrow> 0 \<le> a \<and> 0 \<le> b \<and> a + b \<le> MaxInt64 \<and> c = a + b"
  by (auto simp: addTicks_def)

lemma chain_fits:
  assumes "0 \<le> a" "0 \<le> b" "0 \<le> c" "0 \<le> d" "0 \<le> e" "0 \<le> f" and h: "0 \<le> h"
  shows "a + b \<le> M \<and> max h (a + b) + d \<le> M \<and> max (max h (a + b) + d) c + e \<le> M \<and>
      max (max h (a + b) + d) c + e + f \<le> M \<longleftrightarrow> max (max h (a + b) + d) c + e + f \<le> (M::int)"
  using assms by (auto simp: max_def split: if_splits)

lemma compileTimes_iff:
  "compileTimes it = Inr tm \<longleftrightarrow>
    (\<forall>x\<in>{it_DepartureSeconds it, it_OutwardSeconds it, it_ReturnNotBeforeSeconds it, it_ActivitySeconds it,
        it_RetrievalSeconds it, it_HomeboundSeconds it}. 0 \<le> x \<and> x \<le> MaxInt64 div TicksPerSecond) \<and>
    tm = \<lparr>tm_departure = it_DepartureSeconds it * TicksPerSecond,
      tm_arrival = it_DepartureSeconds it * TicksPerSecond + it_OutwardSeconds it * TicksPerSecond,
      tm_notBefore = it_ReturnNotBeforeSeconds it * TicksPerSecond, tm_activity = it_ActivitySeconds it * TicksPerSecond,
      tm_retrieval = it_RetrievalSeconds it * TicksPerSecond, tm_homebound = it_HomeboundSeconds it * TicksPerSecond\<rparr> \<and>
    times_fit tm" (is "?compiled \<longleftrightarrow> ?range \<and> tm = ?tm \<and> times_fit tm")
proof (cases ?range)
  case False
  then obtain err where "compileValues [it_DepartureSeconds it, it_OutwardSeconds it, it_ReturnNotBeforeSeconds it,
      it_ActivitySeconds it, it_RetrievalSeconds it, it_HomeboundSeconds it] = Inl err"
    by (cases "compileValues [it_DepartureSeconds it, it_OutwardSeconds it, it_ReturnNotBeforeSeconds it,
      it_ActivitySeconds it, it_RetrievalSeconds it, it_HomeboundSeconds it]") (auto simp only: compileValues_iff list.set insert_iff)
  then have "\<not> ?compiled" unfolding compileTimes_def by simp
  with False show ?thesis by blast
next
  case True
  define a b c d e f where "a = it_DepartureSeconds it * TicksPerSecond" and "b = it_OutwardSeconds it * TicksPerSecond"
    and "c = it_ReturnNotBeforeSeconds it * TicksPerSecond" and "d = it_ActivitySeconds it * TicksPerSecond"
    and "e = it_RetrievalSeconds it * TicksPerSecond" and "f = it_HomeboundSeconds it * TicksPerSecond"
  note vs = this
  have pos: "0 \<le> a" "0 \<le> b" "0 \<le> c" "0 \<le> d" "0 \<le> e" "0 \<le> f"
    using True TicksPerSecond_pos unfolding vs by (simp_all add: TicksPerSecond_def)
  have h: "0 \<le> MaxHorizonTicks" by (simp add: MaxHorizonTicks_def TicksPerSecond_def)
  define tm' where "tm' = \<lparr>tm_departure = a, tm_arrival = a + b, tm_notBefore = c, tm_activity = d,
    tm_retrieval = e, tm_homebound = f\<rparr>"
  have list: "compileValues [it_DepartureSeconds it, it_OutwardSeconds it, it_ReturnNotBeforeSeconds it,
      it_ActivitySeconds it, it_RetrievalSeconds it, it_HomeboundSeconds it] = Inr [a, b, c, d, e, f]"
    using True unfolding compileValues_iff by (auto simp: vs)
  have "?compiled \<longleftrightarrow> (\<exists>arrival. addTicks a b = Inr arrival \<and>
    (\<exists>latest. addTicks (max MaxHorizonTicks arrival) d = Inr latest \<and>
    (\<exists>ready. addTicks (max latest c) e = Inr ready \<and> (\<exists>home. addTicks ready f = Inr home) \<and>
     tm = \<lparr>tm_departure = a, tm_arrival = arrival, tm_notBefore = c, tm_activity = d,
       tm_retrieval = e, tm_homebound = f\<rparr>)))"
    unfolding compileTimes_def list by (auto split: sum.splits)
  also have "\<dots> \<longleftrightarrow> tm = tm' \<and> a + b \<le> MaxInt64 \<and> max MaxHorizonTicks (a + b) + d \<le> MaxInt64 \<and>
      max (max MaxHorizonTicks (a + b) + d) c + e \<le> MaxInt64 \<and>
      max (max MaxHorizonTicks (a + b) + d) c + e + f \<le> MaxInt64"
    unfolding addTicks_iff tm'_def using pos h by auto
  also have "\<dots> \<longleftrightarrow> tm = tm' \<and> times_fit tm"
    unfolding chain_fits [OF pos h] using pos by (auto simp: times_fit_def tm'_def)
  also have "tm' = ?tm" by (simp add: tm'_def vs)
  finally show ?thesis using True by blast
qed

end
