(* ===== verification/ParkRideLedger.thy ===== *)
theory ParkRideLedger
  imports ParkRide GoHeap
begin

text \<open>
  The car ledger of a park-and-ride run (\<open>internal/parkride/ledger.go\<close>) and the run around it
  (\<open>run.go\<close>): every car departs, takes a slot of its lot, offers a pod leg out and a pod leg back,
  is retrieved and drives home. The pods are the interface \<open>podService\<close> of the code: a record of
  two functions on a state of any type. A method of the code returns an error beside the changed
  ledger, so an operation of the model returns both.
\<close>

section \<open>Data\<close>

record Leg =
  leg_RequestID :: int
  leg_OfferedTick :: int
  leg_AlightedTick :: int
  leg_Reason :: string

record Record =
  cr_Itinerary :: Itinerary
  cr_Stage :: string
  cr_Outcome :: string
  cr_Held :: bool
  cr_CarArrivalTick :: int
  cr_Outward :: Leg
  cr_Return :: Leg
  cr_ReturnEligibleTick :: int
  cr_CarReleaseTick :: int
  cr_HomeArrivalTick :: int
  cr_DoorToDoorTicks :: "int option"

record LotState =
  ls_Lot :: Lot
  ls_Occupancy :: int
  ls_Peak :: int

datatype event = Event (ev_tick: int) (ev_index: nat) (ev_kind: string)

instantiation event :: linorder
begin

definition less_event :: "event \<Rightarrow> event \<Rightarrow> bool" where
  "less_event a b =
    (ev_tick a < ev_tick b \<or> ev_tick a = ev_tick b \<and>
      (ev_index a < ev_index b \<or> ev_index a = ev_index b \<and> ev_kind a < ev_kind b))"

definition less_eq_event :: "event \<Rightarrow> event \<Rightarrow> bool" where
  "less_eq_event a b = (a = b \<or> a < b)"

instance
proof
  fix a b :: event
  show "a \<le> b \<or> b \<le> a"
    by (cases a; cases b) (auto simp: less_event_def less_eq_event_def)
qed (auto simp: less_event_def less_eq_event_def)

end

record binding =
  bd_index :: nat
  bd_returning :: bool

record CarCompletion =
  cc_RequestID :: int
  cc_AlightedTick :: int

record 's podService =
  PendingCount :: "'s \<Rightarrow> int"
  SubmitTripOptions :: "TripOptions \<Rightarrow> 's \<Rightarrow> (string, int) result \<times> 's"

record ledger =
  lg_records :: "Record list"
  lg_lots :: "LotState list"
  lg_lotIndexes :: "string \<rightharpoonup> nat"
  lg_times :: "carTimes list"
  lg_bindings :: "int \<rightharpoonup> binding"
  lg_carEvents :: "event list"
  lg_returns :: "event list"
  lg_arrivals :: "nat list"
  lg_cursor :: nat
  lg_lastTick :: int
  lg_terminal :: int
  lg_queueLimit :: int
  lg_horizon :: int

datatype car_error =
    TickOutsideRun
  | AlreadyOffered
  | NativeSubmission string string
  | InvalidRequestID
  | InvalidUnloadingTick
  | NoHeldSlot
  | NegativeOccupancy
  | UnknownCarEvent
  | TickSum

type_synonym step = "car_error option \<times> ledger"

section \<open>A new ledger\<close>

definition blankLeg :: Leg where
  "blankLeg = \<lparr>leg_RequestID = 0, leg_OfferedTick = - 1, leg_AlightedTick = - 1, leg_Reason = []\<rparr>"

definition plannedRecord :: "Itinerary \<Rightarrow> Record" where
  "plannedRecord itinerary =
    \<lparr>cr_Itinerary = itinerary, cr_Stage = ''planned'', cr_Outcome = [], cr_Held = False, cr_CarArrivalTick = - 1,
     cr_Outward = blankLeg, cr_Return = blankLeg, cr_ReturnEligibleTick = - 1, cr_CarReleaseTick = - 1,
     cr_HomeArrivalTick = - 1, cr_DoorToDoorTicks = None\<rparr>"

text \<open>\<open>compileTimes\<close> of an itinerary of a normalized plan cannot fail; the code drops its error.\<close>

definition zeroTimes :: carTimes where
  "zeroTimes = \<lparr>tm_departure = 0, tm_arrival = 0, tm_notBefore = 0, tm_activity = 0, tm_retrieval = 0, tm_homebound = 0\<rparr>"

definition compiledTimes :: "Itinerary \<Rightarrow> carTimes" where
  "compiledTimes itinerary = (case compileTimes itinerary of Inl _ \<Rightarrow> zeroTimes | Inr t \<Rightarrow> t)"

fun indexLots :: "nat \<Rightarrow> Lot list \<Rightarrow> (string \<rightharpoonup> nat) \<Rightarrow> (string \<rightharpoonup> nat)" where
  "indexLots i [] m = m"
| "indexLots i (lot # rest) m = indexLots (Suc i) rest (m(lot_ID lot \<mapsto> i))"

definition newLedger :: "Plan \<Rightarrow> int \<Rightarrow> int \<Rightarrow> ledger" where
  "newLedger plan queueLimit horizon =
    (let times = map compiledTimes (pl_Itineraries plan); n = length times in
     \<lparr>lg_records = map plannedRecord (pl_Itineraries plan),
      lg_lots = map (\<lambda>lot. \<lparr>ls_Lot = lot, ls_Occupancy = 0, ls_Peak = 0\<rparr>) (pl_Lots plan),
      lg_lotIndexes = indexLots 0 (pl_Lots plan) Map.empty,
      lg_times = times, lg_bindings = Map.empty,
      lg_carEvents = heap_init (map (\<lambda>i. Event (tm_departure (times ! i)) i ''departure'') [0..<n]),
      lg_returns = [], lg_arrivals = sort_key (\<lambda>i. tm_arrival (times ! i)) [0..<n], lg_cursor = 0, lg_lastTick = - 1,
      lg_terminal = 0, lg_queueLimit = queueLimit, lg_horizon = horizon\<rparr>)"

section \<open>Records and lots\<close>

definition onRecord :: "nat \<Rightarrow> (Record \<Rightarrow> Record) \<Rightarrow> ledger \<Rightarrow> ledger" where
  "onRecord i f l = l\<lparr>lg_records := (lg_records l)[i := f (lg_records l ! i)]\<rparr>"

definition lotIndex :: "ledger \<Rightarrow> nat \<Rightarrow> nat" where
  "lotIndex l i = (case lg_lotIndexes l (it_Lot (cr_Itinerary (lg_records l ! i))) of Some k \<Rightarrow> k | None \<Rightarrow> 0)"

definition onLot :: "nat \<Rightarrow> (LotState \<Rightarrow> LotState) \<Rightarrow> ledger \<Rightarrow> ledger" where
  "onLot k f l = l\<lparr>lg_lots := (lg_lots l)[k := f (lg_lots l ! k)]\<rparr>"

definition legOf :: "bool \<Rightarrow> Record \<Rightarrow> Leg" where
  "legOf returning r = (if returning then cr_Return r else cr_Outward r)"

definition onLeg :: "bool \<Rightarrow> (Leg \<Rightarrow> Leg) \<Rightarrow> Record \<Rightarrow> Record" where
  "onLeg returning f r =
    (if returning then r\<lparr>cr_Return := f (cr_Return r)\<rparr> else r\<lparr>cr_Outward := f (cr_Outward r)\<rparr>)"

definition finish :: "nat \<Rightarrow> string \<Rightarrow> ledger \<Rightarrow> ledger" where
  "finish i outcome l =
    (onRecord i (\<lambda>r. r\<lparr>cr_Stage := ''terminal'', cr_Outcome := outcome\<rparr>) l)\<lparr>lg_terminal := lg_terminal l + 1\<rparr>"

definition pushCar :: "event \<Rightarrow> ledger \<Rightarrow> ledger" where
  "pushCar e l = l\<lparr>lg_carEvents := heap_push e (lg_carEvents l)\<rparr>"

definition pushReturn :: "event \<Rightarrow> ledger \<Rightarrow> ledger" where
  "pushReturn e l = l\<lparr>lg_returns := heap_push e (lg_returns l)\<rparr>"

section \<open>Operations\<close>

definition startRetrieval :: "nat \<Rightarrow> int \<Rightarrow> ledger \<Rightarrow> step" where
  "startRetrieval i tick l =
    (case addTicks tick (tm_retrieval (lg_times l ! i)) of
       Inl _ \<Rightarrow> (Some TickSum, l)
     | Inr release \<Rightarrow>
         (None, pushCar (Event release i ''release'') (onRecord i (cr_Stage_update (\<lambda>_. ''retrieval'')) l)))"

definition complete :: "int \<Rightarrow> CarCompletion \<Rightarrow> ledger \<Rightarrow> step" where
  "complete tick completion l =
    (case lg_bindings l (cc_RequestID completion) of
       None \<Rightarrow> (None, l)
     | Some receipt \<Rightarrow>
         let i = bd_index receipt; leg = legOf (bd_returning receipt) (lg_records l ! i) in
         if cc_AlightedTick completion < leg_OfferedTick leg \<or> cc_AlightedTick completion > tick
         then (Some InvalidUnloadingTick, l)
         else if leg_AlightedTick leg \<ge> 0 then (None, l)
         else
           let l1 = onRecord i (onLeg (bd_returning receipt) (leg_AlightedTick_update (\<lambda>_. cc_AlightedTick completion))) l;
               l2 = l1\<lparr>lg_bindings := (lg_bindings l1)(cc_RequestID completion := None)\<rparr> in
           if bd_returning receipt then startRetrieval i (cc_AlightedTick completion) l2
           else case addTicks (cc_AlightedTick completion) (tm_activity (lg_times l2 ! i)) of
             Inl _ \<Rightarrow> (Some TickSum, l2)
           | Inr ready \<Rightarrow>
               let eligible = max ready (tm_notBefore (lg_times l2 ! i)) in
               (None, pushReturn (Event eligible i ''return'')
                 (onRecord i (\<lambda>r. r\<lparr>cr_ReturnEligibleTick := eligible, cr_Stage := ''activity''\<rparr>) l2)))"

definition offerOptions :: "ledger \<Rightarrow> nat \<Rightarrow> bool \<Rightarrow> TripOptions" where
  "offerOptions l i returning =
    (let it = cr_Itinerary (lg_records l ! i); hub = lot_Hub (ls_Lot (lg_lots l ! lotIndex l i)) in
     \<lparr>opt_From = (if returning then it_Destination it else hub), opt_To = (if returning then hub else it_Destination it),
      opt_PartySize = it_PartySize it, opt_SharingConsent = it_SharingConsent it, opt_Service = [], opt_ServiceID = []\<rparr>)"

definition refuseLeg :: "nat \<Rightarrow> bool \<Rightarrow> string \<Rightarrow> ledger \<Rightarrow> ledger" where
  "refuseLeg i returning reason = onRecord i (onLeg returning (leg_Reason_update (\<lambda>_. reason)))"

definition offer ::
  "'s podService \<Rightarrow> int \<Rightarrow> nat \<Rightarrow> bool \<Rightarrow> ledger \<times> 's \<Rightarrow> car_error option \<times> ledger \<times> 's" where
  "offer pods tick i returning = (\<lambda>(l, s).
    (if leg_OfferedTick (legOf returning (lg_records l ! i)) \<ge> 0 then (Some AlreadyOffered, l, s)
     else
       let options = offerOptions l i returning;
           l1 = onRecord i (onLeg returning (leg_OfferedTick_update (\<lambda>_. tick))) l in
       if PendingCount pods s \<ge> lg_queueLimit l1 then
         let l2 = refuseLeg i returning ''queue-limit'' l1 in
         if returning then (None, finish i ''stranded'' l2, s)
         else case startRetrieval i tick l2 of (e, l3) \<Rightarrow> (e, l3, s)
       else case SubmitTripOptions pods options s of
         (Inl e, s') \<Rightarrow>
           (Some (NativeSubmission (it_ID (cr_Itinerary (lg_records l ! i))) e),
            finish i ''error'' (refuseLeg i returning ''submission-error'' l1), s')
       | (Inr n, s') \<Rightarrow>
           if n \<le> 0 \<or> lg_bindings l1 n \<noteq> None
           then (Some InvalidRequestID, finish i ''error'' (refuseLeg i returning ''invalid-receipt'' l1), s')
           else
             let l2 = onRecord i (onLeg returning (leg_RequestID_update (\<lambda>_. n))) l1;
                 l3 = l2\<lparr>lg_bindings := (lg_bindings l2)(n \<mapsto> \<lparr>bd_index = i, bd_returning = returning\<rparr>)\<rparr> in
             (None, onRecord i (cr_Stage_update (\<lambda>_. if returning then ''return-pod'' else ''outward-pod'')) l3, s')))"

text \<open>The body of the loop of \<open>finishCars\<close> for one event that left the heap.\<close>

definition finishCar :: "event \<Rightarrow> ledger \<Rightarrow> step" where
  "finishCar e l =
    (let i = ev_index e; record = lg_records l ! i in
     if ev_kind e = ''departure'' then (None, onRecord i (cr_Stage_update (\<lambda>_. ''car-out'')) l)
     else if ev_kind e = ''release'' then
       (if \<not> cr_Held record then (Some NoHeldSlot, l)
        else
          let k = lotIndex l i in
          if ls_Occupancy (lg_lots l ! k) < 1 then (Some NegativeOccupancy, l)
          else case addTicks (ev_tick e) (tm_homebound (lg_times l ! i)) of
            Inl _ \<Rightarrow> (Some TickSum, l)
          | Inr home \<Rightarrow>
              (None, pushCar (Event home i ''home'')
                (onRecord i (\<lambda>r. r\<lparr>cr_Held := False, cr_CarReleaseTick := ev_tick e, cr_Stage := ''car-home''\<rparr>)
                  (onLot k (\<lambda>lot. lot\<lparr>ls_Occupancy := ls_Occupancy lot - 1\<rparr>) l))))
     else if ev_kind e = ''home'' then
       (let l1 = onRecord i (cr_HomeArrivalTick_update (\<lambda>_. ev_tick e)) l in
        if leg_Reason (cr_Outward record) \<noteq> [] then (None, finish i ''recovered-refusal'' l1)
        else (None, finish i ''completed''
          (onRecord i (cr_DoorToDoorTicks_update (\<lambda>_. Some (ev_tick e - tm_departure (lg_times l ! i)))) l1)))
     else (Some UnknownCarEvent, l))"

text \<open>A release puts one home event back, so the pending work still shrinks.\<close>

definition carWork :: "event list \<Rightarrow> nat" where
  "carWork events = sum_mset (image_mset (\<lambda>e. if ev_kind e = ''release'' then 2 else 1) (mset events))"

lemma carWork_pop: "heap_pop xs = Some (e, ys) \<Longrightarrow> carWork xs = carWork ys + (if ev_kind e = ''release'' then 2 else 1)"
  by (simp add: carWork_def mset_heap_pop)

lemma carWork_finishCar:
  "carWork (lg_carEvents (snd (finishCar e l))) < carWork (lg_carEvents l) + (if ev_kind e = ''release'' then 2 else 1)"
  by (auto simp: finishCar_def Let_def carWork_def pushCar_def onRecord_def onLot_def finish_def split: sum.split)

function finishCars :: "int \<Rightarrow> ledger \<Rightarrow> step" where
  "finishCars tick l =
    (case heap_peek (lg_carEvents l) of
       None \<Rightarrow> (None, l)
     | Some first \<Rightarrow>
         if ev_tick first > tick then (None, l)
         else case heap_pop (lg_carEvents l) of
           None \<Rightarrow> (None, l)
         | Some (e, rest) \<Rightarrow>
             let r = finishCar e (l\<lparr>lg_carEvents := rest\<rparr>) in
             if fst r \<noteq> None then r else finishCars tick (snd r))"
  by pat_completeness auto
termination
proof (relation "measure (\<lambda>(tick, l). carWork (lg_carEvents l))")
  fix tick l first p e rest r
  assume "heap_pop (lg_carEvents l) = Some p" "(e, rest) = p" "r = finishCar e (l\<lparr>lg_carEvents := rest\<rparr>)"
  then show "((tick, snd r), tick, l) \<in> measure (\<lambda>(tick, l). carWork (lg_carEvents l))"
    using carWork_finishCar [of e "l\<lparr>lg_carEvents := rest\<rparr>"] by (auto dest: carWork_pop)
qed simp

declare finishCars.simps [simp del]

text \<open>
  The due returns leave the heap first; then each is offered in the order of the itineraries.
\<close>

function drainReturns :: "int \<Rightarrow> ledger \<Rightarrow> nat list \<Rightarrow> ledger \<times> nat list" where
  "drainReturns tick l due =
    (case heap_peek (lg_returns l) of
       None \<Rightarrow> (l, due)
     | Some first \<Rightarrow>
         if ev_tick first > tick then (l, due)
         else case heap_pop (lg_returns l) of
           None \<Rightarrow> (l, due)
         | Some (e, rest) \<Rightarrow> drainReturns tick (l\<lparr>lg_returns := rest\<rparr>) (due @ [ev_index e]))"
  by pat_completeness auto
termination
  by (relation "measure (\<lambda>(tick, l, due). length (lg_returns l))") (auto dest: length_heap_pop)

declare drainReturns.simps [simp del]

fun offerAll ::
  "'s podService \<Rightarrow> int \<Rightarrow> nat list \<Rightarrow> ledger \<times> 's \<Rightarrow> car_error option \<times> ledger \<times> 's" where
  "offerAll pods tick [] ls = (None, ls)"
| "offerAll pods tick (i # rest) ls =
    (let r = offer pods tick i True ls in if fst r \<noteq> None then r else offerAll pods tick rest (snd r))"

definition takeSlot :: "nat \<Rightarrow> ledger \<Rightarrow> ledger" where
  "takeSlot i l =
    onRecord i (\<lambda>r. r\<lparr>cr_Held := True, cr_Stage := ''at-hub''\<rparr>)
      (onLot (lotIndex l i)
        (\<lambda>lot. lot\<lparr>ls_Occupancy := ls_Occupancy lot + 1, ls_Peak := max (ls_Peak lot) (ls_Occupancy lot + 1)\<rparr>) l)"

definition isFull :: "LotState \<Rightarrow> bool" where
  "isFull lot = (ls_Occupancy lot \<ge> lot_Capacity (ls_Lot lot))"

text \<open>One turn of the arrival loop, for the car at the cursor.\<close>

definition arriveCar ::
  "'s podService \<Rightarrow> int \<Rightarrow> bool \<Rightarrow> nat \<Rightarrow> ledger \<times> 's \<Rightarrow> car_error option \<times> ledger \<times> 's" where
  "arriveCar pods tick offers i = (\<lambda>(l, s).
    (let l1 = onRecord i (cr_CarArrivalTick_update (\<lambda>_. tm_arrival (lg_times l ! i))) (l\<lparr>lg_cursor := lg_cursor l + 1\<rparr>) in
     if isFull (lg_lots l1 ! lotIndex l1 i) then (None, finish i ''full-lot'' l1, s)
     else
       let l2 = takeSlot i l1 in
       if \<not> offers then (None, l2, s)
       else case offer pods tick i False (l2, s) of
         (Some e, ls) \<Rightarrow> (Some e, ls)
       | (None, l3, s3) \<Rightarrow> (case finishCars tick l3 of (e, l4) \<Rightarrow> (e, l4, s3))))"

text \<open>The loop ends because every turn moves the cursor; \<open>fuel\<close> counts the cars after it.\<close>

fun arriveCars ::
  "'s podService \<Rightarrow> int \<Rightarrow> bool \<Rightarrow> nat \<Rightarrow> ledger \<times> 's \<Rightarrow> car_error option \<times> ledger \<times> 's" where
  "arriveCars pods tick offers 0 ls = (None, ls)"
| "arriveCars pods tick offers (Suc fuel) (l, s) =
    (if lg_cursor l < length (lg_arrivals l) \<and>
       tm_arrival (lg_times l ! (lg_arrivals l ! lg_cursor l)) \<le> tick then
       let r = arriveCar pods tick offers (lg_arrivals l ! lg_cursor l) (l, s) in
       if fst r \<noteq> None then r else arriveCars pods tick offers fuel (snd r)
     else (None, l, s))"

fun completeAll :: "int \<Rightarrow> CarCompletion list \<Rightarrow> ledger \<Rightarrow> step" where
  "completeAll tick [] l = (None, l)"
| "completeAll tick (completion # rest) l =
    (let r = complete tick completion l in if fst r \<noteq> None then r else completeAll tick rest (snd r))"

definition offerReturns ::
  "'s podService \<Rightarrow> int \<Rightarrow> ledger \<times> 's \<Rightarrow> car_error option \<times> ledger \<times> 's" where
  "offerReturns pods tick = (\<lambda>(l, s).
    (case drainReturns tick l [] of (l', due) \<Rightarrow> offerAll pods tick (sort due) (l', s)))"

definition carsAfterCursor :: "ledger \<Rightarrow> nat" where
  "carsAfterCursor l = length (lg_arrivals l) - lg_cursor l"

definition advance ::
  "'s podService \<Rightarrow> int \<Rightarrow> CarCompletion list \<Rightarrow> ledger \<times> 's \<Rightarrow> car_error option \<times> ledger \<times> 's" where
  "advance pods tick completions = (\<lambda>(l, s).
    (if tick < lg_lastTick l \<or> tick > lg_lastTick l + 1 \<or> tick < 0 \<or> tick > lg_horizon l then (Some TickOutsideRun, l, s)
     else
       let offers = tick < lg_horizon l; r1 = completeAll tick completions (l\<lparr>lg_lastTick := tick\<rparr>) in
       if fst r1 \<noteq> None then (fst r1, snd r1, s)
       else
         let r2 = finishCars tick (snd r1) in
         if fst r2 \<noteq> None then (fst r2, snd r2, s)
         else
           let r3 = (if offers then offerReturns pods tick (snd r2, s) else (None, snd r2, s)) in
           if fst r3 \<noteq> None then r3
           else arriveCars pods tick offers (carsAfterCursor (fst (snd r3))) (snd r3)))"

section \<open>Reports and the run\<close>

definition reports :: "ledger \<Rightarrow> Record list \<times> LotState list" where
  "reports l =
    (map (\<lambda>r. if cr_Outcome r = [] then r\<lparr>cr_Outcome := ''censored''\<rparr> else r) (lg_records l), lg_lots l)"

text \<open>
  A run without the optional continuation receipts. The native simulation is a record of its
  operations on a state of any type; \<open>StepCompletions\<close> are the unloadings of its last tick.
\<close>

record 's nativePods =
  np_Tick :: "'s \<Rightarrow> int"
  np_Step :: "'s \<Rightarrow> 's"
  np_StepCompletions :: "'s \<Rightarrow> CarCompletion list"
  np_service :: "'s podService"

datatype run_fault = LedgerFault car_error | NoSingleTick

record 's Run =
  run_pods :: 's
  run_ledger :: ledger
  run_horizonTicks :: int
  run_fault :: "run_fault option"

definition Done :: "'s nativePods \<Rightarrow> 's Run \<Rightarrow> bool" where
  "Done native r =
    (run_fault r \<noteq> None \<or> lg_terminal (run_ledger r) = int (length (lg_records (run_ledger r))) \<or>
     np_Tick native (run_pods r) \<ge> run_horizonTicks r)"

definition runAdvance :: "'s nativePods \<Rightarrow> CarCompletion list \<Rightarrow> 's Run \<Rightarrow> 's Run" where
  "runAdvance native completions r =
    (case advance (np_service native) (np_Tick native (run_pods r)) completions (run_ledger r, run_pods r) of
       (e, l, s) \<Rightarrow> r\<lparr>run_ledger := l, run_pods := s, run_fault := map_option LedgerFault e\<rparr>)"

definition Step :: "'s nativePods \<Rightarrow> 's Run \<Rightarrow> run_fault option \<times> 's Run" where
  "Step native r =
    (case run_fault r of
       Some fault \<Rightarrow> (Some fault, r)
     | None \<Rightarrow>
         if Done native r then (None, r)
         else
           let before = np_Tick native (run_pods r); r1 = r\<lparr>run_pods := np_Step native (run_pods r)\<rparr> in
           if np_Tick native (run_pods r1) \<noteq> before + 1
           then (Some NoSingleTick, r1\<lparr>run_fault := Some NoSingleTick\<rparr>)
           else let r2 = runAdvance native (np_StepCompletions native (run_pods r1)) r1 in (run_fault r2, r2))"

datatype run_error = HorizonRange | QueueRange | PlanError plan_error | Preflight string string

text \<open>
  \<open>preflight\<close> submits both legs of every itinerary to a copy of the pods; \<open>checked\<close> holds the
  options that already passed.
\<close>

definition preflightLeg ::
  "'s podService \<Rightarrow> 's \<Rightarrow> string \<Rightarrow> TripOptions \<Rightarrow> TripOptions set \<Rightarrow> (run_error, TripOptions set) result" where
  "preflightLeg pods s i options checked =
    (if options \<in> checked then Inr checked
     else case fst (SubmitTripOptions pods options s) of
       Inl e \<Rightarrow> Inl (Preflight i e)
     | Inr _ \<Rightarrow> Inr (insert options checked))"

fun preflight ::
  "'s podService \<Rightarrow> 's \<Rightarrow> (string \<rightharpoonup> Lot) \<Rightarrow> Itinerary list \<Rightarrow> TripOptions set \<Rightarrow> (run_error, unit) result" where
  "preflight pods s lots [] checked = Inr ()"
| "preflight pods s lots (it # rest) checked =
    (let hub = (case lots (it_Lot it) of Some lot \<Rightarrow> lot_Hub lot | None \<Rightarrow> []);
         out = \<lparr>opt_From = hub, opt_To = it_Destination it, opt_PartySize = it_PartySize it,
           opt_SharingConsent = it_SharingConsent it, opt_Service = [], opt_ServiceID = []\<rparr>;
         back = out\<lparr>opt_From := opt_To out, opt_To := opt_From out\<rparr>
     in case preflightLeg pods s (it_ID it) out checked of
          Inl e \<Rightarrow> Inl e
        | Inr checked' \<Rightarrow>
            (case preflightLeg pods s (it_ID it) back checked' of
               Inl e \<Rightarrow> Inl e
             | Inr checked'' \<Rightarrow> preflight pods s lots rest checked''))"

text \<open>
  \<open>NewRun\<close> from the validated project network and a built fleet \<open>pods\<close> on: the range checks, the
  plan, the ledger, and the events of tick 0.
\<close>

definition NewRun ::
  "'s nativePods \<Rightarrow> 's \<Rightarrow> Plan \<Rightarrow> Network \<Rightarrow> int \<Rightarrow> int \<Rightarrow> (run_error, 's Run) result" where
  "NewRun native pods given n horizonTicks queueLimit =
    (if horizonTicks < 1 \<or> horizonTicks > MaxHorizonTicks then Inl HorizonRange
     else if queueLimit < 1 \<or> queueLimit > MaxQueueLimit then Inl QueueRange
     else case normalizePlan given n of
       Inl e \<Rightarrow> Inl (PlanError e)
     | Inr plan \<Rightarrow>
    (case preflight (np_service native) pods (lotMap (pl_Lots plan) Map.empty) (pl_Itineraries plan) {} of
       Inl e \<Rightarrow> Inl e
     | Inr _ \<Rightarrow>
         let r = \<lparr>run_pods = pods, run_ledger = newLedger plan queueLimit horizonTicks,
                  run_horizonTicks = horizonTicks, run_fault = None\<rparr>
         in (case advance (np_service native) 0 [] (run_ledger r, run_pods r) of
              (e, l, s) \<Rightarrow> Inr (r\<lparr>run_ledger := l, run_pods := s, run_fault := map_option LedgerFault e\<rparr>))))"

end
