(* ===== verification/ParkRideBooks.thy ===== *)
theory ParkRideBooks
  imports ParkRideLedger
begin

text \<open>
  The books of the car ledger: every car is in one phase of its journey, and the event heaps, the
  bindings and the arrival list hold exactly what that phase asks for. The lots count the held
  cars. Each operation keeps the books, and none of the internal errors of the code can occur.
\<close>

section \<open>The frame that no operation changes\<close>

definition frame :: "ledger \<Rightarrow> Itinerary list \<times> Lot list \<times> (string \<rightharpoonup> nat) \<times> carTimes list \<times> nat list \<times> int \<times> int" where
  "frame l = (map cr_Itinerary (lg_records l), map ls_Lot (lg_lots l), lg_lotIndexes l, lg_times l,
    lg_arrivals l, lg_queueLimit l, lg_horizon l)"

definition carCount :: "ledger \<Rightarrow> nat" where
  "carCount l = length (lg_records l)"

lemma frame_onRecord [simp]:
  "(\<And>r. cr_Itinerary (f r) = cr_Itinerary r) \<Longrightarrow> frame (onRecord i f l) = frame l"
  by (cases "i < length (lg_records l)") (auto simp: frame_def onRecord_def map_update list_update_same_conv list_update_beyond)

lemma frame_onLot [simp]: "(\<And>lot. ls_Lot (f lot) = ls_Lot lot) \<Longrightarrow> frame (onLot k f l) = frame l"
  by (cases "k < length (lg_lots l)") (auto simp: frame_def onLot_def map_update list_update_same_conv list_update_beyond)

lemma frame_fields [simp]:
  "frame (pushCar e l) = frame l" "frame (pushReturn e l) = frame l" "frame (finish i outcome l) = frame l"
  "frame (l\<lparr>lg_bindings := b\<rparr>) = frame l" "frame (l\<lparr>lg_carEvents := es\<rparr>) = frame l"
  "frame (l\<lparr>lg_returns := es\<rparr>) = frame l" "frame (l\<lparr>lg_cursor := n\<rparr>) = frame l"
  "frame (l\<lparr>lg_lastTick := t\<rparr>) = frame l" "frame (l\<lparr>lg_terminal := c\<rparr>) = frame l"
proof -
  show "frame (finish i outcome l) = frame l"
    using frame_onRecord [of "\<lambda>r. r\<lparr>cr_Stage := ''terminal'', cr_Outcome := outcome\<rparr>" i l]
    by (simp add: finish_def frame_def)
qed (simp_all add: frame_def pushCar_def pushReturn_def)

lemma onLeg_itinerary [simp]: "cr_Itinerary (onLeg returning f r) = cr_Itinerary r"
  by (simp add: onLeg_def)

lemma frame_refuseLeg [simp]: "frame (refuseLeg i returning reason l) = frame l"
  by (simp add: refuseLeg_def)

lemma frame_startRetrieval [simp]: "frame (snd (startRetrieval i tick l)) = frame l"
  by (simp add: startRetrieval_def split: sum.split)

lemma frame_complete [simp]: "frame (snd (complete tick completion l)) = frame l"
  by (simp add: complete_def Let_def split: option.split sum.split)

lemma frame_offer [simp]: "frame (fst (snd (offer pods tick i returning ls))) = frame (fst ls)"
proof -
  have start: "frame l' = frame l" if "startRetrieval i tick l = (e, l')" for e l l'
    using frame_startRetrieval [of i tick l] that by simp
  show ?thesis
    by (simp add: offer_def Let_def split: prod.split sum.split) (auto dest: start)
qed

lemma frame_finishCar [simp]: "frame (snd (finishCar e l)) = frame l"
  by (simp add: finishCar_def Let_def split: sum.split)

lemma frame_finishCars [simp]: "frame (snd (finishCars tick l)) = frame l"
proof (induction tick l rule: finishCars.induct)
  case (1 tick l)
  then show ?case
    by (subst finishCars.simps) (auto simp: Let_def split: option.split)
qed

lemma frame_takeSlot [simp]: "frame (takeSlot i l) = frame l"
  by (simp add: takeSlot_def)

section \<open>The work of one car\<close>

definition cars :: "ledger \<Rightarrow> nat \<Rightarrow> event multiset" where
  "cars l i = filter_mset (\<lambda>e. ev_index e = i) (mset (lg_carEvents l))"

definition rets :: "ledger \<Rightarrow> nat \<Rightarrow> event multiset" where
  "rets l i = filter_mset (\<lambda>e. ev_index e = i) (mset (lg_returns l))"

definition boundTo :: "(int \<rightharpoonup> binding) \<Rightarrow> nat \<Rightarrow> (int \<times> bool) set" where
  "boundTo m i = {(n, returning). m n = Some \<lparr>bd_index = i, bd_returning = returning\<rparr>}"

definition binds :: "ledger \<Rightarrow> nat \<Rightarrow> (int \<times> bool) set" where
  "binds l i = boundTo (lg_bindings l) i"

definition waits :: "ledger \<Rightarrow> nat \<Rightarrow> bool" where
  "waits l i = (i \<in> set (drop (lg_cursor l) (lg_arrivals l)))"

named_theorems view_simps \<open>how a primitive change of the ledger shows in the work of a car\<close>

lemma records_views [view_simps]:
  "lg_records (onRecord i f l) = (lg_records l)[i := f (lg_records l ! i)]"
  "lg_records (onLot k g l) = lg_records l" "lg_records (pushCar e l) = lg_records l"
  "lg_records (pushReturn e l) = lg_records l"
  "lg_records (finish i outcome l) =
    (lg_records l)[i := (lg_records l ! i)\<lparr>cr_Stage := ''terminal'', cr_Outcome := outcome\<rparr>]"
  "lg_records (refuseLeg i returning reason l) =
    (lg_records l)[i := onLeg returning (leg_Reason_update (\<lambda>_. reason)) (lg_records l ! i)]"
  by (simp_all add: onRecord_def onLot_def pushCar_def pushReturn_def finish_def refuseLeg_def)

lemma cars_views [view_simps]:
  "cars (onRecord i f l) j = cars l j" "cars (onLot k g l) j = cars l j"
  "cars (pushCar e l) j = (if ev_index e = j then add_mset e (cars l j) else cars l j)"
  "cars (pushReturn e l) j = cars l j" "cars (finish i outcome l) j = cars l j"
  "cars (refuseLeg i returning reason l) j = cars l j"
  "cars (l\<lparr>lg_bindings := b\<rparr>) j = cars l j" "cars (l\<lparr>lg_returns := es\<rparr>) j = cars l j"
  "cars (l\<lparr>lg_cursor := n\<rparr>) j = cars l j" "cars (l\<lparr>lg_lastTick := t\<rparr>) j = cars l j"
  by (simp_all add: cars_def onRecord_def onLot_def pushCar_def pushReturn_def finish_def refuseLeg_def)

lemma rets_views [view_simps]:
  "rets (onRecord i f l) j = rets l j" "rets (onLot k g l) j = rets l j"
  "rets (pushReturn e l) j = (if ev_index e = j then add_mset e (rets l j) else rets l j)"
  "rets (pushCar e l) j = rets l j" "rets (finish i outcome l) j = rets l j"
  "rets (refuseLeg i returning reason l) j = rets l j"
  "rets (l\<lparr>lg_bindings := b\<rparr>) j = rets l j" "rets (l\<lparr>lg_carEvents := es\<rparr>) j = rets l j"
  "rets (l\<lparr>lg_cursor := n\<rparr>) j = rets l j" "rets (l\<lparr>lg_lastTick := t\<rparr>) j = rets l j"
  by (simp_all add: rets_def onRecord_def onLot_def pushCar_def pushReturn_def finish_def refuseLeg_def)

lemma binds_views [view_simps]:
  "binds (onRecord i f l) j = binds l j" "binds (onLot k g l) j = binds l j"
  "binds (pushReturn e l) j = binds l j" "binds (pushCar e l) j = binds l j"
  "binds (finish i outcome l) j = binds l j" "binds (refuseLeg i returning reason l) j = binds l j"
  "binds (l\<lparr>lg_carEvents := es\<rparr>) j = binds l j" "binds (l\<lparr>lg_returns := es\<rparr>) j = binds l j"
  "binds (l\<lparr>lg_cursor := n\<rparr>) j = binds l j" "binds (l\<lparr>lg_lastTick := t\<rparr>) j = binds l j"
  "binds (l\<lparr>lg_bindings := m\<rparr>) j = boundTo m j"
  by (simp_all add: binds_def onRecord_def onLot_def pushCar_def pushReturn_def finish_def refuseLeg_def)

lemma waits_views [view_simps]:
  "waits (onRecord i f l) j = waits l j" "waits (onLot k g l) j = waits l j"
  "waits (pushReturn e l) j = waits l j" "waits (pushCar e l) j = waits l j"
  "waits (finish i outcome l) j = waits l j" "waits (refuseLeg i returning reason l) j = waits l j"
  "waits (l\<lparr>lg_carEvents := es\<rparr>) j = waits l j" "waits (l\<lparr>lg_returns := es\<rparr>) j = waits l j"
  "waits (l\<lparr>lg_bindings := b\<rparr>) j = waits l j" "waits (l\<lparr>lg_lastTick := t\<rparr>) j = waits l j"
  by (simp_all add: waits_def onRecord_def onLot_def pushCar_def pushReturn_def finish_def refuseLeg_def)

lemma other_views [view_simps]:
  "lg_carEvents (onRecord i f l) = lg_carEvents l" "lg_carEvents (onLot k g l) = lg_carEvents l"
  "lg_carEvents (pushCar e l) = heap_push e (lg_carEvents l)" "lg_carEvents (pushReturn e l) = lg_carEvents l"
  "lg_carEvents (finish i outcome l) = lg_carEvents l" "lg_carEvents (refuseLeg i returning reason l) = lg_carEvents l"
  "lg_returns (onRecord i f l) = lg_returns l" "lg_returns (onLot k g l) = lg_returns l"
  "lg_returns (pushCar e l) = lg_returns l" "lg_returns (pushReturn e l) = heap_push e (lg_returns l)"
  "lg_returns (finish i outcome l) = lg_returns l" "lg_returns (refuseLeg i returning reason l) = lg_returns l"
  "lg_times (onRecord i f l) = lg_times l" "lg_times (onLot k g l) = lg_times l"
  "lg_times (pushCar e l) = lg_times l" "lg_times (pushReturn e l) = lg_times l"
  "lg_times (finish i outcome l) = lg_times l" "lg_times (refuseLeg i returning reason l) = lg_times l"
  "lg_lots (onRecord i f l) = lg_lots l" "lg_lots (onLot k g l) = (lg_lots l)[k := g (lg_lots l ! k)]"
  "lg_lots (pushCar e l) = lg_lots l" "lg_lots (pushReturn e l) = lg_lots l"
  "lg_lots (finish i outcome l) = lg_lots l" "lg_lots (refuseLeg i returning reason l) = lg_lots l"
  "lg_terminal (onRecord i f l) = lg_terminal l" "lg_terminal (onLot k g l) = lg_terminal l"
  "lg_terminal (pushCar e l) = lg_terminal l" "lg_terminal (pushReturn e l) = lg_terminal l"
  "lg_terminal (finish i outcome l) = lg_terminal l + 1" "lg_terminal (refuseLeg i returning reason l) = lg_terminal l"
  "lg_bindings (onRecord i f l) = lg_bindings l" "lg_bindings (onLot k g l) = lg_bindings l"
  "lg_bindings (pushCar e l) = lg_bindings l" "lg_bindings (pushReturn e l) = lg_bindings l"
  "lg_bindings (finish i outcome l) = lg_bindings l" "lg_bindings (refuseLeg i returning reason l) = lg_bindings l"
  by (simp_all add: onRecord_def onLot_def pushCar_def pushReturn_def finish_def refuseLeg_def)

section \<open>The phases of a journey\<close>

definition out_done :: "carTimes \<Rightarrow> int \<Rightarrow> Record \<Rightarrow> bool" where
  "out_done tm T r =
    (cr_CarArrivalTick r = tm_arrival tm \<and> tm_arrival tm \<le> leg_OfferedTick (cr_Outward r) \<and>
     leg_OfferedTick (cr_Outward r) \<le> leg_AlightedTick (cr_Outward r) \<and> leg_AlightedTick (cr_Outward r) \<le> T \<and>
     leg_Reason (cr_Outward r) = [] \<and>
     cr_ReturnEligibleTick r = max (leg_AlightedTick (cr_Outward r) + tm_activity tm) (tm_notBefore tm))"

definition out_refused :: "carTimes \<Rightarrow> int \<Rightarrow> Record \<Rightarrow> bool" where
  "out_refused tm T r =
    (cr_CarArrivalTick r = tm_arrival tm \<and> tm_arrival tm \<le> leg_OfferedTick (cr_Outward r) \<and>
     leg_OfferedTick (cr_Outward r) \<le> T \<and> leg_Reason (cr_Outward r) = ''queue-limit'' \<and> cr_Return r = blankLeg)"

definition ret_done :: "int \<Rightarrow> Record \<Rightarrow> bool" where
  "ret_done T r =
    (cr_ReturnEligibleTick r \<le> leg_OfferedTick (cr_Return r) \<and>
     leg_OfferedTick (cr_Return r) \<le> leg_AlightedTick (cr_Return r) \<and> leg_AlightedTick (cr_Return r) \<le> T \<and>
     leg_Reason (cr_Return r) = [])"

definition retrieval_start :: "Record \<Rightarrow> int" where
  "retrieval_start r =
    (if leg_Reason (cr_Outward r) \<noteq> [] then leg_OfferedTick (cr_Outward r) else leg_AlightedTick (cr_Return r))"

definition journey_over :: "carTimes \<Rightarrow> int \<Rightarrow> Record \<Rightarrow> bool" where
  "journey_over tm T r = (out_refused tm T r \<or> out_done tm T r \<and> ret_done T r)"

definition driven_home :: "carTimes \<Rightarrow> Record \<Rightarrow> bool" where
  "driven_home tm r =
    (cr_CarReleaseTick r = retrieval_start r + tm_retrieval tm \<and>
     cr_HomeArrivalTick r = cr_CarReleaseTick r + tm_homebound tm)"

definition settled_outcome :: "carTimes \<Rightarrow> int \<Rightarrow> Record \<Rightarrow> bool" where
  "settled_outcome tm T r =
    (if cr_Outcome r = ''full-lot''
     then \<not> cr_Held r \<and> cr_CarArrivalTick r = tm_arrival tm \<and> cr_Outward r = blankLeg \<and> cr_Return r = blankLeg
     else if cr_Outcome r = ''stranded''
     then cr_Held r \<and> out_done tm T r \<and> leg_Reason (cr_Return r) = ''queue-limit'' \<and> leg_AlightedTick (cr_Return r) = - 1
     else if cr_Outcome r = ''recovered-refusal''
     then \<not> cr_Held r \<and> out_refused tm T r \<and> driven_home tm r
     else if cr_Outcome r = ''completed''
     then \<not> cr_Held r \<and> out_done tm T r \<and> ret_done T r \<and> driven_home tm r \<and>
       cr_DoorToDoorTicks r = Some (cr_HomeArrivalTick r - tm_departure tm)
     else cr_Outcome r = ''error'' \<and> cr_Held r)"

definition ahead_of_hub :: "Record \<Rightarrow> bool" where
  "ahead_of_hub r = (\<not> cr_Held r \<and> cr_Outcome r = [] \<and> cr_Outward r = blankLeg \<and> cr_Return r = blankLeg)"

datatype work = Work (wk_cars: "event multiset") (wk_rets: "event multiset") (wk_binds: "(int \<times> bool) set")
  (wk_waits: bool) (wk_due: bool)

definition phase :: "carTimes \<Rightarrow> int \<Rightarrow> nat \<Rightarrow> Record \<Rightarrow> work \<Rightarrow> bool" where
  "phase tm T i r w =
    (cr_Stage r = ''planned'' \<and>
       ahead_of_hub r \<and> w = Work {#Event (tm_departure tm) i ''departure''#} {#} {} True False \<or>
     cr_Stage r = ''car-out'' \<and> ahead_of_hub r \<and> w = Work {#} {#} {} True False \<or>
     cr_Stage r = ''at-hub'' \<and>
       cr_Held r \<and> cr_Outcome r = [] \<and> cr_CarArrivalTick r = tm_arrival tm \<and> cr_Outward r = blankLeg \<and> cr_Return r = blankLeg \<and>
       w = Work {#} {#} {} False False \<or>
     cr_Stage r = ''outward-pod'' \<and>
       cr_Held r \<and> cr_Outcome r = [] \<and> cr_CarArrivalTick r = tm_arrival tm \<and> tm_arrival tm \<le> leg_OfferedTick (cr_Outward r) \<and>
       leg_OfferedTick (cr_Outward r) \<le> T \<and> leg_Reason (cr_Outward r) = [] \<and> leg_AlightedTick (cr_Outward r) = - 1 \<and>
       cr_Return r = blankLeg \<and> w = Work {#} {#} {(leg_RequestID (cr_Outward r), False)} False False \<or>
     cr_Stage r = ''activity'' \<and>
       cr_Held r \<and> cr_Outcome r = [] \<and> out_done tm T r \<and> cr_Return r = blankLeg \<and>
       (w = Work {#} {#Event (cr_ReturnEligibleTick r) i ''return''#} {} False False \<or>
        cr_ReturnEligibleTick r \<le> T \<and> w = Work {#} {#} {} False True) \<or>
     cr_Stage r = ''return-pod'' \<and>
       cr_Held r \<and> cr_Outcome r = [] \<and> out_done tm T r \<and> cr_ReturnEligibleTick r \<le> leg_OfferedTick (cr_Return r) \<and>
       leg_OfferedTick (cr_Return r) \<le> T \<and> leg_Reason (cr_Return r) = [] \<and> leg_AlightedTick (cr_Return r) = - 1 \<and>
       w = Work {#} {#} {(leg_RequestID (cr_Return r), True)} False False \<or>
     cr_Stage r = ''retrieval'' \<and>
       cr_Held r \<and> cr_Outcome r = [] \<and> journey_over tm T r \<and>
       w = Work {#Event (retrieval_start r + tm_retrieval tm) i ''release''#} {#} {} False False \<or>
     cr_Stage r = ''car-home'' \<and>
       \<not> cr_Held r \<and> cr_Outcome r = [] \<and> journey_over tm T r \<and>
       cr_CarReleaseTick r = retrieval_start r + tm_retrieval tm \<and>
       w = Work {#Event (cr_CarReleaseTick r + tm_homebound tm) i ''home''#} {#} {} False False \<or>
     cr_Stage r = ''terminal'' \<and> settled_outcome tm T r \<and> w = Work {#} {#} {} False False)"

definition work_of :: "nat set \<Rightarrow> ledger \<Rightarrow> nat \<Rightarrow> work" where
  "work_of D l i = Work (cars l i) (rets l i) (binds l i) (waits l i) (i \<in> D)"

lemmas history_defs = out_done_def out_refused_def ret_done_def journey_over_def settled_outcome_def driven_home_def

lemma out_done_mono: "out_done tm T r \<Longrightarrow> T \<le> T' \<Longrightarrow> out_done tm T' r"
  by (simp add: out_done_def)

lemma out_refused_mono: "out_refused tm T r \<Longrightarrow> T \<le> T' \<Longrightarrow> out_refused tm T' r"
  by (simp add: out_refused_def)

lemma ret_done_mono: "ret_done T r \<Longrightarrow> T \<le> T' \<Longrightarrow> ret_done T' r"
  by (simp add: ret_done_def)

lemma journey_over_mono: "journey_over tm T r \<Longrightarrow> T \<le> T' \<Longrightarrow> journey_over tm T' r"
  by (auto simp: journey_over_def intro: out_done_mono out_refused_mono ret_done_mono)

lemma settled_mono: "settled_outcome tm T r \<Longrightarrow> T \<le> T' \<Longrightarrow> settled_outcome tm T' r"
  unfolding settled_outcome_def by (auto intro: out_done_mono out_refused_mono ret_done_mono split: if_splits)

lemma phase_mono: "phase tm T i r w \<Longrightarrow> T \<le> T' \<Longrightarrow> phase tm T' i r w"
  unfolding phase_def
  by (elim disjE conjE) (simp_all add: out_done_mono journey_over_mono settled_mono)

section \<open>The books\<close>

definition slots_ok :: "ledger \<Rightarrow> nat \<Rightarrow> bool" where
  "slots_ok l k =
    (let lot = lg_lots l ! k in
     ls_Occupancy lot = tally (\<lambda>r. cr_Held r \<and> it_Lot (cr_Itinerary r) = lot_ID (ls_Lot lot)) (lg_records l) \<and>
     ls_Occupancy lot \<le> ls_Peak lot \<and> ls_Peak lot \<le> lot_Capacity (ls_Lot lot))"

definition frame_ok :: "ledger \<Rightarrow> bool" where
  "frame_ok l =
    (length (lg_times l) = carCount l \<and> (\<forall>i<carCount l. times_fit (lg_times l ! i)) \<and>
     distinct (map (lot_ID \<circ> ls_Lot) (lg_lots l)) \<and>
     (\<forall>i<carCount l. lotIndex l i < length (lg_lots l) \<and>
       lot_ID (ls_Lot (lg_lots l ! lotIndex l i)) = it_Lot (cr_Itinerary (lg_records l ! i))) \<and>
     distinct (lg_arrivals l) \<and> set (lg_arrivals l) \<subseteq> {..<carCount l} \<and>
     sorted (map (\<lambda>i. tm_arrival (lg_times l ! i)) (lg_arrivals l)) \<and>
     0 \<le> lg_horizon l \<and> lg_horizon l \<le> MaxHorizonTicks)"

definition car_ok :: "int \<Rightarrow> nat set \<Rightarrow> ledger \<Rightarrow> nat \<Rightarrow> bool" where
  "car_ok T D l i =
    (if i < carCount l then phase (lg_times l ! i) T i (lg_records l ! i) (work_of D l i)
     else work_of D l i = Work {#} {#} {} False False)"

definition books :: "int \<Rightarrow> nat set \<Rightarrow> ledger \<Rightarrow> bool" where
  "books T D l =
    (frame_ok l \<and> T \<le> MaxHorizonTicks \<and> heap_inv (lg_carEvents l) \<and> heap_inv (lg_returns l) \<and>
     (\<forall>i. car_ok T D l i) \<and> (\<forall>k<length (lg_lots l). slots_ok l k) \<and>
     lg_terminal l = tally (\<lambda>r. cr_Stage r = ''terminal'') (lg_records l))"

lemma frame_ok_cong:
  assumes "frame l' = frame l"
  shows "frame_ok l' = frame_ok l" "carCount l' = carCount l" "lg_times l' = lg_times l"
    "length (lg_lots l') = length (lg_lots l)" "i < carCount l \<Longrightarrow> lotIndex l' i = lotIndex l i"
    "lg_horizon l' = lg_horizon l" "lg_arrivals l' = lg_arrivals l"
proof -
  have its: "map cr_Itinerary (lg_records l') = map cr_Itinerary (lg_records l)"
    and lots: "map ls_Lot (lg_lots l') = map ls_Lot (lg_lots l)"
    and same: "lg_lotIndexes l' = lg_lotIndexes l" "lg_times l' = lg_times l" "lg_arrivals l' = lg_arrivals l"
      "lg_horizon l' = lg_horizon l"
    using assms by (simp_all add: frame_def)
  have n: "carCount l' = carCount l" using its unfolding carCount_def by (metis length_map)
  have m: "length (lg_lots l') = length (lg_lots l)" using lots by (metis length_map)
  have it: "cr_Itinerary (lg_records l' ! i) = cr_Itinerary (lg_records l ! i)" if "i < carCount l" for i
    using its n that unfolding carCount_def by (metis nth_map)
  have lot: "ls_Lot (lg_lots l' ! k) = ls_Lot (lg_lots l ! k)" if "k < length (lg_lots l)" for k
    using lots m that by (metis nth_map)
  have index: "lotIndex l' i = lotIndex l i" if "i < carCount l" for i
    using it [OF that] same by (simp add: lotIndex_def)
  have ids: "map (lot_ID \<circ> ls_Lot) (lg_lots l') = map (lot_ID \<circ> ls_Lot) (lg_lots l)"
    using lots by (metis map_map)
  have "(lotIndex l' i < length (lg_lots l') \<and>
      lot_ID (ls_Lot (lg_lots l' ! lotIndex l' i)) = it_Lot (cr_Itinerary (lg_records l' ! i))) =
    (lotIndex l i < length (lg_lots l) \<and>
      lot_ID (ls_Lot (lg_lots l ! lotIndex l i)) = it_Lot (cr_Itinerary (lg_records l ! i)))" if "i < carCount l" for i
    using index [OF that] it [OF that] m by (auto simp: lot)
  then show "frame_ok l' = frame_ok l"
    unfolding frame_ok_def n same ids by auto
  show "carCount l' = carCount l" "length (lg_lots l') = length (lg_lots l)" "lg_times l' = lg_times l"
    "lg_horizon l' = lg_horizon l" "lg_arrivals l' = lg_arrivals l"
    by (fact n m same)+
  show "i < carCount l \<Longrightarrow> lotIndex l' i = lotIndex l i" by (rule index)
qed

lemma car_ok_other:
  assumes "frame l' = frame l" and "lg_records l' ! j = lg_records l ! j" and "work_of D' l' j = work_of D l j"
    and "car_ok T D l j"
  shows "car_ok T D' l' j"
  using assms frame_ok_cong [OF assms(1)] by (simp add: car_ok_def)

text \<open>The rule behind every operation: it changes the record and the work of one car.\<close>

lemma books_change:
  assumes books: "books T D l" and i: "i < carCount l" and fr: "frame l' = frame l"
    and recs: "lg_records l' = (lg_records l)[i := r']"
    and heaps: "heap_inv (lg_carEvents l')" "heap_inv (lg_returns l')"
    and others: "\<And>j. j \<noteq> i \<Longrightarrow> work_of D' l' j = work_of D l j"
    and here: "phase (lg_times l ! i) T i r' (work_of D' l' i)"
    and lots: "\<And>k. k < length (lg_lots l) \<Longrightarrow> slots_ok l' k"
    and terminal: "lg_terminal l' = lg_terminal l + (if cr_Stage r' = ''terminal'' then 1 else 0) -
      (if cr_Stage (lg_records l ! i) = ''terminal'' then 1 else 0)"
  shows "books T D' l'"
proof -
  note same = frame_ok_cong [OF fr]
  have b: "frame_ok l" "T \<le> MaxHorizonTicks" "\<And>j. car_ok T D l j"
    "lg_terminal l = tally (\<lambda>r. cr_Stage r = ''terminal'') (lg_records l)"
    using books by (auto simp: books_def)
  have i': "i < length (lg_records l)" using i by (simp add: carCount_def)
  have "car_ok T D' l' j" for j
  proof (cases "j = i")
    case True
    then show ?thesis using here i i' same recs by (simp add: car_ok_def)
  next
    case False
    then show ?thesis by (intro car_ok_other [OF fr _ others [OF False] b(3)]) (simp add: recs)
  qed
  then have "\<forall>j. car_ok T D' l' j" by (rule allI)
  moreover have "lg_terminal l' = tally (\<lambda>r. cr_Stage r = ''terminal'') (lg_records l')"
    using terminal b(4) i' by (simp add: recs tally_update)
  ultimately show ?thesis
    using b(1,2) heaps lots same unfolding books_def by simp
qed

lemma slots_same:
  assumes "slots_ok l k" and "lg_lots l' = lg_lots l" and "lg_records l' = (lg_records l)[i := r']"
    and "i < length (lg_records l)" and "cr_Held r' = cr_Held (lg_records l ! i)"
    and "cr_Itinerary r' = cr_Itinerary (lg_records l ! i)"
  shows "slots_ok l' k"
  using assms by (simp add: slots_ok_def Let_def tally_update)

text \<open>The common case: the lots stay, and the record keeps its slot.\<close>

lemma books_same:
  assumes books: "books T D l" and i: "i < carCount l" and fr: "frame l' = frame l"
    and recs: "lg_records l' = (lg_records l)[i := r']" and lots: "lg_lots l' = lg_lots l"
    and held: "cr_Held r' = cr_Held (lg_records l ! i)" "cr_Itinerary r' = cr_Itinerary (lg_records l ! i)"
    and heaps: "heap_inv (lg_carEvents l')" "heap_inv (lg_returns l')"
    and terminal: "lg_terminal l' = lg_terminal l + (if cr_Stage r' = ''terminal'' then 1 else 0) -
      (if cr_Stage (lg_records l ! i) = ''terminal'' then 1 else 0)"
    and others: "\<And>j. j \<noteq> i \<Longrightarrow> work_of D' l' j = work_of D l j"
    and here: "phase (lg_times l ! i) T i r' (work_of D' l' i)"
  shows "books T D' l'"
proof (rule books_change [OF books i fr recs heaps others here _ terminal])
  fix k assume "k < length (lg_lots l)"
  then have slots: "slots_ok l k" using books by (simp add: books_def)
  have "i < length (lg_records l)" using i by (simp add: carCount_def)
  then show "slots_ok l' k" by (rule slots_same [OF slots lots recs _ held])
qed

lemma books_phase:
  "books T D l \<Longrightarrow> i < carCount l \<Longrightarrow> phase (lg_times l ! i) T i (lg_records l ! i) (work_of D l i)"
  unfolding books_def car_ok_def by metis

lemma books_frame: "books T D l \<Longrightarrow> frame_ok l"
  by (simp add: books_def)

lemma books_times: "books T D l \<Longrightarrow> i < carCount l \<Longrightarrow> times_fit (lg_times l ! i)"
  by (simp add: books_def frame_ok_def)

lemma books_idle: "books T D l \<Longrightarrow> \<not> i < carCount l \<Longrightarrow> work_of D l i = Work {#} {#} {} False False"
  unfolding books_def car_ok_def by metis

lemma books_heaps: "books T D l \<Longrightarrow> heap_inv (lg_carEvents l)" "books T D l \<Longrightarrow> heap_inv (lg_returns l)"
  by (simp_all add: books_def)

lemma books_slots: "books T D l \<Longrightarrow> k < length (lg_lots l) \<Longrightarrow> slots_ok l k"
  by (simp add: books_def)

lemma books_bound: "books T D l \<Longrightarrow> T \<le> MaxHorizonTicks"
  by (simp add: books_def)

lemma boundTo_delete:
  "lg_bindings l n = Some \<lparr>bd_index = i, bd_returning = b\<rparr> \<Longrightarrow>
    boundTo ((lg_bindings l)(n := None)) j = (if j = i then binds l i - {(n, b)} else binds l j)"
  by (auto simp: binds_def boundTo_def split: if_splits)

lemma boundTo_add:
  "lg_bindings l n = None \<Longrightarrow>
    boundTo ((lg_bindings l)(n \<mapsto> \<lparr>bd_index = i, bd_returning = b\<rparr>)) j =
      (if j = i then insert (n, b) (binds l i) else binds l j)"
  by (auto simp: binds_def boundTo_def split: if_splits)

text \<open>The sums of a plan stay in the width for every tick up to the horizon.\<close>

lemma times_fit_sums:
  assumes "times_fit tm" and "0 \<le> tick" and "tick \<le> MaxHorizonTicks"
  shows "addTicks tick (tm_retrieval tm) = Inr (tick + tm_retrieval tm)"
    and "addTicks tick (tm_activity tm) = Inr (tick + tm_activity tm)"
    and "addTicks (tick + tm_retrieval tm) (tm_homebound tm) = Inr (tick + tm_retrieval tm + tm_homebound tm)"
proof -
  have "0 \<le> tm_retrieval tm" "0 \<le> tm_activity tm" "0 \<le> tm_homebound tm"
    and "max (max MaxHorizonTicks (tm_arrival tm) + tm_activity tm) (tm_notBefore tm) + tm_retrieval tm + tm_homebound tm
       \<le> MaxInt64"
    using assms(1) by (simp_all add: times_fit_def)
  moreover have "tick + tm_activity tm \<le> max (max MaxHorizonTicks (tm_arrival tm) + tm_activity tm) (tm_notBefore tm)"
    using assms(3) by linarith
  ultimately show "addTicks tick (tm_retrieval tm) = Inr (tick + tm_retrieval tm)"
    and "addTicks tick (tm_activity tm) = Inr (tick + tm_activity tm)"
    and "addTicks (tick + tm_retrieval tm) (tm_homebound tm) = Inr (tick + tm_retrieval tm + tm_homebound tm)"
    using assms(2) unfolding addTicks_iff by linarith+
qed

lemma startRetrieval_fits:
  assumes "times_fit (lg_times l ! i)" and "0 \<le> tick" and "tick \<le> MaxHorizonTicks"
  shows "startRetrieval i tick l =
    (None, pushCar (Event (tick + tm_retrieval (lg_times l ! i)) i ''release'')
      (onRecord i (cr_Stage_update (\<lambda>_. ''retrieval'')) l))"
  by (simp add: startRetrieval_def times_fit_sums [OF assms])

lemma phase_binds:
  assumes "phase tm T i r w" and "(n, b) \<in> wk_binds w"
  shows "if b then cr_Stage r = ''return-pod'' \<and> leg_RequestID (cr_Return r) = n
    else cr_Stage r = ''outward-pod'' \<and> leg_RequestID (cr_Outward r) = n"
  using assms unfolding phase_def by (elim disjE conjE) auto

lemma phase_return_pod:
  "phase tm T i r w \<Longrightarrow> cr_Stage r = ''return-pod'' \<Longrightarrow>
    cr_Held r \<and> cr_Outcome r = [] \<and> out_done tm T r \<and> cr_ReturnEligibleTick r \<le> leg_OfferedTick (cr_Return r) \<and>
       leg_OfferedTick (cr_Return r) \<le> T \<and> leg_Reason (cr_Return r) = [] \<and> leg_AlightedTick (cr_Return r) = - 1 \<and>
       w = Work {#} {#} {(leg_RequestID (cr_Return r), True)} False False"
  unfolding phase_def by simp

lemma phase_outward_pod:
  "phase tm T i r w \<Longrightarrow> cr_Stage r = ''outward-pod'' \<Longrightarrow>
       cr_Held r \<and> cr_Outcome r = [] \<and> cr_CarArrivalTick r = tm_arrival tm \<and> tm_arrival tm \<le> leg_OfferedTick (cr_Outward r) \<and>
       leg_OfferedTick (cr_Outward r) \<le> T \<and> leg_Reason (cr_Outward r) = [] \<and> leg_AlightedTick (cr_Outward r) = - 1 \<and>
       cr_Return r = blankLeg \<and> w = Work {#} {#} {(leg_RequestID (cr_Outward r), False)} False False"
  unfolding phase_def by simp

lemma times_fit_pos: "times_fit tm \<Longrightarrow> 0 \<le> tm_arrival tm" "times_fit tm \<Longrightarrow> 0 \<le> tm_activity tm"
  by (simp_all add: times_fit_def)

section \<open>Every operation keeps the books\<close>

lemma complete_books:
  assumes books: "books T D l"
  shows "books T D (snd (complete T c l)) \<and> fst (complete T c l) \<in> {None, Some InvalidUnloadingTick}"
proof (cases "lg_bindings l (cc_RequestID c)")
  case None
  then show ?thesis using books by (simp add: complete_def)
next
  case (Some receipt)
  obtain i b where receipt: "receipt = \<lparr>bd_index = i, bd_returning = b\<rparr>" by (cases receipt)
  define n where "n = cc_RequestID c"
  define a where "a = cc_AlightedTick c"
  define r where "r = lg_records l ! i"
  define tm where "tm = lg_times l ! i"
  have bound: "lg_bindings l n = Some \<lparr>bd_index = i, bd_returning = b\<rparr>" using Some receipt by (simp add: n_def)
  then have in_binds: "(n, b) \<in> wk_binds (work_of D l i)" by (simp add: work_of_def binds_def boundTo_def)
  have i: "i < carCount l" by (rule ccontr) (use books_idle [OF books] in_binds in auto)
  have len: "i < length (lg_records l)" using i by (simp add: carCount_def)
  note ph = books_phase [OF books i, folded r_def tm_def]
  note fit = books_times [OF books i, folded tm_def]
  note stage = phase_binds [OF ph in_binds]
  show ?thesis
  proof (cases "a < leg_OfferedTick (legOf b r) \<or> a > T")
    case True
    then show ?thesis using books bound by (simp add: complete_def Let_def a_def n_def r_def)
  next
    case False
    show ?thesis
    proof (cases b)
      case b: True
      have st: "cr_Stage r = ''return-pod''" "leg_RequestID (cr_Return r) = n" using stage b by simp_all
      note facts = phase_return_pod [OF ph st(1)]
      have a: "0 \<le> a" "a \<le> MaxHorizonTicks"
        using False facts fit books_bound [OF books] b times_fit_pos [OF fit] by (auto simp: legOf_def out_done_def)
      define r' where "r' = r\<lparr>cr_Return := (cr_Return r)\<lparr>leg_AlightedTick := a\<rparr>, cr_Stage := ''retrieval''\<rparr>"
      define l' where "l' = snd (complete T c l)"
      define e where "e = Event (a + tm_retrieval tm) i ''release''"
      define l2 where "l2 = (onRecord i (onLeg True (leg_AlightedTick_update (\<lambda>_. a))) l)
        \<lparr>lg_bindings := (lg_bindings l)(n := None)\<rparr>"
      have eq: "complete T c l = (None, pushCar e (onRecord i (cr_Stage_update (\<lambda>_. ''retrieval'')) l2))"
        using False bound facts b startRetrieval_fits [of l2 i a] fit a
        by (simp add: complete_def Let_def legOf_def l2_def e_def view_simps tm_def flip: r_def n_def a_def)
      have "books T D (pushCar e (onRecord i (cr_Stage_update (\<lambda>_. ''retrieval'')) l2))" (is "books T D ?l")
      proof (rule books_same [OF books i, where r' = r'])
        show "work_of D ?l j = work_of D l j" if "j \<noteq> i" for j
          using that bound by (simp add: work_of_def view_simps l2_def boundTo_delete e_def)
        have "work_of D ?l i = Work {#e#} {#} {} False False"
          using facts bound st b by (simp add: work_of_def view_simps l2_def boundTo_delete e_def)
        then show "phase (lg_times l ! i) T i r' (work_of D ?l i)"
          using facts st(1) False b unfolding phase_def
          by (auto simp: r'_def e_def journey_over_def out_done_def ret_done_def retrieval_start_def legOf_def simp flip: tm_def)
      qed (use len st books_heaps [OF books] in
        \<open>simp_all add: l2_def view_simps r'_def r_def onLeg_def heap_push_inv\<close>)
      then show ?thesis by (simp add: eq)
    next
      case b: False
      have st: "cr_Stage r = ''outward-pod''" "leg_RequestID (cr_Outward r) = n" using stage b by simp_all
      note facts = phase_outward_pod [OF ph st(1)]
      have a: "0 \<le> a" "a \<le> MaxHorizonTicks"
        using False facts fit books_bound [OF books] b times_fit_pos [OF fit] by (auto simp: legOf_def)
      define eligible where "eligible = max (a + tm_activity tm) (tm_notBefore tm)"
      define e where "e = Event eligible i ''return''"
      define l2 where "l2 = (onRecord i (onLeg False (leg_AlightedTick_update (\<lambda>_. a))) l)
        \<lparr>lg_bindings := (lg_bindings l)(n := None)\<rparr>"
      define l3 where "l3 = pushReturn e (onRecord i (\<lambda>r. r\<lparr>cr_ReturnEligibleTick := eligible, cr_Stage := ''activity''\<rparr>) l2)"
      define r' where "r' = r\<lparr>cr_Outward := (cr_Outward r)\<lparr>leg_AlightedTick := a\<rparr>, cr_ReturnEligibleTick := eligible,
        cr_Stage := ''activity''\<rparr>"
      have eq: "complete T c l = (None, l3)"
        using False bound facts b times_fit_sums [OF fit a]
        by (simp add: complete_def Let_def legOf_def l2_def l3_def e_def view_simps eligible_def flip: r_def n_def a_def tm_def)
      have "books T D l3"
      proof (rule books_same [OF books i, where r' = r'])
        show "work_of D l3 j = work_of D l j" if "j \<noteq> i" for j
          using that bound by (simp add: work_of_def view_simps l2_def l3_def boundTo_delete e_def)
        have "work_of D l3 i = Work {#} {#e#} {} False False"
          using facts bound st b by (simp add: work_of_def view_simps l2_def l3_def boundTo_delete e_def)
        then show "phase (lg_times l ! i) T i r' (work_of D l3 i)"
          using facts st(1) False b unfolding phase_def
          by (simp add: r'_def e_def out_done_def legOf_def eligible_def flip: tm_def)
      qed (use len st books_heaps [OF books] in
        \<open>simp_all add: l2_def l3_def view_simps r'_def r_def onLeg_def heap_push_inv\<close>)
      then show ?thesis by (simp add: eq)
    qed
  qed
qed

lemma completeAll_books:
  "books T D l \<Longrightarrow>
    books T D (snd (completeAll T cs l)) \<and> fst (completeAll T cs l) \<in> {None, Some InvalidUnloadingTick}"
proof (induction cs arbitrary: l)
  case (Cons c cs)
  show ?case
    using complete_books [OF Cons.prems, of c] Cons.IH [of "snd (complete T c l)"] by (auto simp: Let_def)
qed simp

text \<open>One car event.\<close>

lemma phase_cars:
  assumes "phase tm T i r w" and "e \<in># wk_cars w"
  shows "ev_kind e = ''departure'' \<and> cr_Stage r = ''planned'' \<and> e = Event (tm_departure tm) i ''departure'' \<or>
    ev_kind e = ''release'' \<and> cr_Stage r = ''retrieval'' \<and> e = Event (retrieval_start r + tm_retrieval tm) i ''release'' \<or>
    ev_kind e = ''home'' \<and> cr_Stage r = ''car-home'' \<and> e = Event (cr_CarReleaseTick r + tm_homebound tm) i ''home''"
  using assms unfolding phase_def by (elim disjE conjE) auto

lemma finishCar_books:
  assumes books: "books T D l" and pop: "heap_pop (lg_carEvents l) = Some (e, rest)"
  shows "books T D (snd (finishCar e (l\<lparr>lg_carEvents := rest\<rparr>))) \<and> fst (finishCar e (l\<lparr>lg_carEvents := rest\<rparr>)) = None"
proof -
  define l0 where "l0 = l\<lparr>lg_carEvents := rest\<rparr>"
  define i where "i = ev_index e"
  define r where "r = lg_records l ! i"
  define tm where "tm = lg_times l ! i"
  have ms: "mset (lg_carEvents l) = add_mset e (mset rest)" using pop by (rule mset_heap_pop)
  have cars: "cars l j = (if j = i then add_mset e (cars l0 i) else cars l0 j)" for j
    by (simp add: cars_def l0_def ms i_def)
  then have in_cars: "e \<in># wk_cars (work_of D l i)" by (simp add: work_of_def)
  have i: "i < carCount l" by (rule ccontr) (use books_idle [OF books] in_cars in auto)
  have len: "i < length (lg_records l)" using i by (simp add: carCount_def)
  note ph = books_phase [OF books i, folded r_def tm_def]
  note fit = books_times [OF books i, folded tm_def]
  have same: "rets l0 j = rets l j" "binds l0 j = binds l j" "waits l0 j = waits l j" "lg_records l0 = lg_records l"
    "lg_lots l0 = lg_lots l" "lg_terminal l0 = lg_terminal l" "lg_times l0 = lg_times l" "lg_returns l0 = lg_returns l"
    "lg_carEvents l0 = rest" "frame l0 = frame l" for j
    by (simp_all add: l0_def view_simps)
  have heaps: "heap_inv rest" "heap_inv (lg_returns l)"
    using books_heaps [OF books] heap_pop_inv [OF _ pop] by simp_all
  consider (departure) "ev_kind e = ''departure''" "cr_Stage r = ''planned''"
    | (release) "ev_kind e = ''release''" "cr_Stage r = ''retrieval''" "e = Event (retrieval_start r + tm_retrieval tm) i ''release''"
    | (home) "ev_kind e = ''home''" "cr_Stage r = ''car-home''" "e = Event (cr_CarReleaseTick r + tm_homebound tm) i ''home''"
    using phase_cars [OF ph in_cars] by blast
  then show ?thesis
  proof cases
    case departure
    have facts: "ahead_of_hub r" "work_of D l i = Work {#Event (tm_departure tm) i ''departure''#} {#} {} True False"
      using ph departure(2) unfolding phase_def by simp_all
    define l' where "l' = onRecord i (cr_Stage_update (\<lambda>_. ''car-out'')) l0"
    define r' where "r' = r\<lparr>cr_Stage := ''car-out''\<rparr>"
    have eq: "finishCar e l0 = (None, l')"
      using departure by (simp add: finishCar_def Let_def l'_def flip: i_def)
    have "books T D l'"
    proof (rule books_same [OF books i, where r' = r'])
      show "work_of D l' j = work_of D l j" if "j \<noteq> i" for j
        using that by (simp add: work_of_def l'_def view_simps same cars)
      have "work_of D l' i = Work {#} {#} {} True False"
        using facts(2) cars [of i] by (simp add: work_of_def l'_def view_simps same)
      then show "phase (lg_times l ! i) T i r' (work_of D l' i)"
        using facts(1) by (simp add: phase_def r'_def ahead_of_hub_def)
    qed (use len heaps departure in \<open>simp_all add: l'_def r'_def same view_simps flip: r_def\<close>)
    then show ?thesis by (simp add: eq flip: l0_def)
  next
    case release
    have facts: "cr_Held r" "cr_Outcome r = []" "journey_over tm T r"
      "work_of D l i = Work {#Event (retrieval_start r + tm_retrieval tm) i ''release''#} {#} {} False False"
      using ph release(2) unfolding phase_def by simp_all
    define k where "k = lotIndex l i"
    define lot where "lot = lg_lots l ! k"
    have k: "k < length (lg_lots l)" "lot_ID (ls_Lot lot) = it_Lot (cr_Itinerary r)"
      using books_frame [OF books] i by (simp_all add: frame_ok_def k_def lot_def r_def)
    have slots: "slots_ok l k" using books_slots [OF books k(1)] .
    have "r \<in> set (lg_records l)" using len by (simp add: r_def)
    then have occupied: "1 \<le> ls_Occupancy lot"
      using slots facts(1) k(2) tally_pos [of r "lg_records l" "\<lambda>r. cr_Held r \<and> it_Lot (cr_Itinerary r) = lot_ID (ls_Lot lot)"]
      by (simp add: slots_ok_def Let_def flip: lot_def)
    have start: "0 \<le> retrieval_start r" "retrieval_start r \<le> MaxHorizonTicks"
      using facts(3) times_fit_pos [OF fit] books_bound [OF books]
      by (auto simp: retrieval_start_def journey_over_def out_done_def out_refused_def ret_done_def)
    define home where "home = ev_tick e + tm_homebound tm"
    have sum: "addTicks (ev_tick e) (tm_homebound tm) = Inr home"
      using times_fit_sums(3) [OF fit start] release(3) by (simp add: home_def)
    define r' where "r' = r\<lparr>cr_Held := False, cr_CarReleaseTick := ev_tick e, cr_Stage := ''car-home''\<rparr>"
    define l1 where "l1 = onLot k (\<lambda>lot. lot\<lparr>ls_Occupancy := ls_Occupancy lot - 1\<rparr>) l0"
    define l' where "l' = pushCar (Event home i ''home'')
      (onRecord i (\<lambda>r. r\<lparr>cr_Held := False, cr_CarReleaseTick := ev_tick e, cr_Stage := ''car-home''\<rparr>) l1)"
    have "lotIndex l0 i = k" by (simp add: k_def lotIndex_def l0_def)
    then have eq: "finishCar e l0 = (None, l')"
      using release facts(1) occupied sum
      by (simp add: finishCar_def Let_def l'_def l1_def same flip: i_def r_def tm_def lot_def)
    have recs: "lg_records l' = (lg_records l)[i := r']"
      by (simp add: l'_def l1_def r'_def same view_simps flip: r_def)
    have "books T D l'"
    proof (rule books_change [OF books i _ recs])
      show "work_of D l' j = work_of D l j" if "j \<noteq> i" for j
        using that by (simp add: work_of_def l'_def l1_def view_simps same cars)
      have "work_of D l' i = Work {#Event home i ''home''#} {#} {} False False"
        using facts(4) cars [of i] by (simp add: work_of_def l'_def l1_def view_simps same)
      then show "phase (lg_times l ! i) T i r' (work_of D l' i)"
        using facts release(3) unfolding phase_def
        by (simp add: r'_def home_def journey_over_def out_done_def ret_done_def out_refused_def retrieval_start_def flip: tm_def)
      show "slots_ok l' q" if q: "q < length (lg_lots l)" for q
      proof (cases "q = k")
        case True
        then show ?thesis
          using slots k facts(1) len
          by (simp add: slots_ok_def Let_def recs tally_update r'_def l'_def l1_def view_simps same flip: lot_def r_def)
      next
        case False
        have "distinct (map (lot_ID \<circ> ls_Lot) (lg_lots l))" using books_frame [OF books] by (simp add: frame_ok_def)
        then have "lot_ID (ls_Lot (lg_lots l ! q)) \<noteq> lot_ID (ls_Lot lot)"
          using False q k(1) by (simp add: distinct_conv_nth lot_def)
        then show ?thesis
          using books_slots [OF books q] False k facts(1) len
          by (simp add: slots_ok_def Let_def recs tally_update r'_def l'_def l1_def view_simps same flip: r_def)
      qed
    qed (use len heaps release in \<open>simp_all add: l'_def l1_def r'_def same view_simps heap_push_inv flip: r_def\<close>)
    then show ?thesis by (simp add: eq flip: l0_def)
  next
    case home
    have facts: "\<not> cr_Held r" "cr_Outcome r = []" "journey_over tm T r"
      "cr_CarReleaseTick r = retrieval_start r + tm_retrieval tm"
      "work_of D l i = Work {#Event (cr_CarReleaseTick r + tm_homebound tm) i ''home''#} {#} {} False False"
      using ph home(2) unfolding phase_def by simp_all
    define refused where "refused = (leg_Reason (cr_Outward r) \<noteq> [])"
    define r' where "r' = (if refused then r\<lparr>cr_HomeArrivalTick := ev_tick e, cr_Stage := ''terminal'', cr_Outcome := ''recovered-refusal''\<rparr>
      else r\<lparr>cr_HomeArrivalTick := ev_tick e, cr_DoorToDoorTicks := Some (ev_tick e - tm_departure tm),
        cr_Stage := ''terminal'', cr_Outcome := ''completed''\<rparr>)"
    define l1 where "l1 = onRecord i (cr_HomeArrivalTick_update (\<lambda>_. ev_tick e)) l0"
    define l' where "l' = (if refused then finish i ''recovered-refusal'' l1
      else finish i ''completed'' (onRecord i (cr_DoorToDoorTicks_update (\<lambda>_. Some (ev_tick e - tm_departure tm))) l1))"
    have eq: "finishCar e l0 = (None, l')"
      using home by (simp add: finishCar_def Let_def l'_def l1_def same refused_def flip: i_def r_def tm_def)
    have recs: "lg_records l' = (lg_records l)[i := r']"
      using len by (simp add: l'_def l1_def r'_def same view_simps flip: r_def)
    have "books T D l'"
    proof (rule books_same [OF books i _ recs])
      show "work_of D l' j = work_of D l j" if "j \<noteq> i" for j
        using that by (simp add: work_of_def l'_def l1_def view_simps same cars)
      have "work_of D l' i = Work {#} {#} {} False False"
        using facts(5) cars [of i] by (simp add: work_of_def l'_def l1_def view_simps same)
      then show "phase (lg_times l ! i) T i r' (work_of D l' i)"
        using facts home(3) unfolding phase_def
        by (auto simp: r'_def refused_def settled_outcome_def driven_home_def journey_over_def out_done_def ret_done_def out_refused_def
          retrieval_start_def simp flip: tm_def)
    qed (use len heaps home in \<open>simp_all add: l'_def l1_def r'_def same view_simps flip: r_def\<close>)
    then show ?thesis by (simp add: eq flip: l0_def)
  qed
qed

lemma finishCars_books:
  "books T D l \<Longrightarrow> books T D (snd (finishCars tick l)) \<and> fst (finishCars tick l) = None"
proof (induction tick l rule: finishCars.induct)
  case (1 tick l)
  show ?case
  proof (cases "heap_pop (lg_carEvents l)")
    case None
    then show ?thesis using 1(2) by (subst (1 2) finishCars.simps) (simp add: heap_peek_def)
  next
    case (Some p)
    obtain e rest where p: "heap_pop (lg_carEvents l) = Some (e, rest)" using Some by (cases p) simp
    show ?thesis
    proof (cases "ev_tick e > tick")
      case True
      then show ?thesis using 1(2) p by (subst (1 2) finishCars.simps) (simp add: heap_peek_pop)
    next
      case False
      have "books T D (snd (finishCar e (l\<lparr>lg_carEvents := rest\<rparr>)))" "fst (finishCar e (l\<lparr>lg_carEvents := rest\<rparr>)) = None"
        using finishCar_books [OF 1(2) p] by simp_all
      then show ?thesis
        using 1(1) [of e "(e, rest)" e rest "finishCar e (l\<lparr>lg_carEvents := rest\<rparr>)"] p False
        by (subst (1 2) finishCars.simps) (simp add: heap_peek_pop Let_def)
    qed
  qed
qed

end
