(* ===== verification/ParkRideHistory.thy ===== *)
theory ParkRideHistory
  imports ParkRideBooks
begin

text \<open>
  The rest of a tick of the car ledger: the due returns, the offers and the arrivals keep the
  books, so every ledger that successful ticks reach has them. A tick leaves no event behind.
\<close>

section \<open>Returns and offers\<close>

text \<open>A due return leaves the heap and joins the due cars \<open>D\<close>.\<close>

lemma phase_rets:
  assumes "phase tm T i r w" and "e \<in># wk_rets w"
  shows "cr_Stage r = ''activity'' \<and> e = Event (cr_ReturnEligibleTick r) i ''return''"
  using assms unfolding phase_def by (elim disjE conjE) auto

lemma phase_activity:
  "phase tm T i r w \<Longrightarrow> cr_Stage r = ''activity'' \<Longrightarrow>
    cr_Held r \<and> cr_Outcome r = [] \<and> out_done tm T r \<and> cr_Return r = blankLeg \<and>
       (w = Work {#} {#Event (cr_ReturnEligibleTick r) i ''return''#} {} False False \<or>
        cr_ReturnEligibleTick r \<le> T \<and> w = Work {#} {#} {} False True)"
  unfolding phase_def by simp

lemma phase_at_hub:
  "phase tm T i r w \<Longrightarrow> cr_Stage r = ''at-hub'' \<Longrightarrow>
    cr_Held r \<and> cr_Outcome r = [] \<and> cr_CarArrivalTick r = tm_arrival tm \<and> cr_Outward r = blankLeg \<and> cr_Return r = blankLeg \<and>
       w = Work {#} {#} {} False False"
  unfolding phase_def by simp

lemma phase_terminal:
  "cr_Stage r = ''terminal'' \<Longrightarrow> phase tm T i r w \<longleftrightarrow> settled_outcome tm T r \<and> w = Work {#} {#} {} False False"
  by (simp add: phase_def)

lemma phase_due: "phase tm T i r w \<Longrightarrow> wk_due w \<Longrightarrow> cr_Stage r = ''activity''"
  unfolding phase_def by (elim disjE conjE) auto

lemma popReturn_books:
  assumes books: "books T D l" and pop: "heap_pop (lg_returns l) = Some (e, rest)" and due: "ev_tick e \<le> T"
  shows "ev_index e \<notin> D \<and> books T (insert (ev_index e) D) (l\<lparr>lg_returns := rest\<rparr>)"
proof -
  define l0 where "l0 = l\<lparr>lg_returns := rest\<rparr>"
  define i where "i = ev_index e"
  define r where "r = lg_records l ! i"
  have ms: "mset (lg_returns l) = add_mset e (mset rest)" using pop by (rule mset_heap_pop)
  have rets: "rets l j = (if j = i then add_mset e (rets l0 i) else rets l0 j)" for j
    by (simp add: rets_def l0_def ms i_def)
  then have in_rets: "e \<in># wk_rets (work_of D l i)" by (simp add: work_of_def)
  have i: "i < carCount l" by (rule ccontr) (use books_idle [OF books] in_rets in auto)
  have len: "i < length (lg_records l)" using i by (simp add: carCount_def)
  note ph = books_phase [OF books i, folded r_def]
  have st: "cr_Stage r = ''activity''" "e = Event (cr_ReturnEligibleTick r) i ''return''"
    using phase_rets [OF ph in_rets] by simp_all
  note facts = phase_activity [OF ph st(1)]
  have i_notin: "i \<notin> D" and ret: "rets l i = {#e#}" and rest_empty: "cars l i = {#}" "binds l i = {}" "\<not> waits l i"
    using facts in_rets st(2) by (auto simp: work_of_def)
  have same: "cars l0 j = cars l j" "binds l0 j = binds l j" "waits l0 j = waits l j" "lg_records l0 = lg_records l"
    "lg_lots l0 = lg_lots l" "lg_terminal l0 = lg_terminal l" "lg_returns l0 = rest" "lg_carEvents l0 = lg_carEvents l"
    "frame l0 = frame l" for j
    by (simp_all add: l0_def view_simps)
  have "books T (insert i D) l0"
  proof (rule books_same [OF books i, where r' = r])
    show "work_of (insert i D) l0 j = work_of D l j" if "j \<noteq> i" for j
      using that rets [of j] by (simp add: work_of_def same)
    have "work_of (insert i D) l0 i = Work {#} {#} {} False True"
      using ret rets [of i] rest_empty by (simp add: work_of_def same)
    then show "phase (lg_times l ! i) T i r (work_of (insert i D) l0 i)"
      using facts st due by (simp add: phase_def)
  qed (use len books_heaps [OF books] heap_pop_inv [OF _ pop] in \<open>simp_all add: same r_def\<close>)
  with i_notin show ?thesis by (simp add: l0_def i_def)
qed

lemma drainReturns_books:
  assumes "books T D l" and "tick \<le> T" and "distinct due" and "set due = D"
  shows "books T (set (snd (drainReturns tick l due))) (fst (drainReturns tick l due)) \<and>
    distinct (snd (drainReturns tick l due))"
  using assms
proof (induction tick l due arbitrary: D rule: drainReturns.induct)
  case (1 tick l due)
  show ?case
  proof (cases "heap_pop (lg_returns l)")
    case None
    then show ?thesis using "1.prems" by (subst (1 2 3) drainReturns.simps) (simp add: heap_peek_def)
  next
    case (Some p)
    obtain e rest where p: "heap_pop (lg_returns l) = Some (e, rest)" using Some by (cases p) simp
    show ?thesis
    proof (cases "ev_tick e > tick")
      case True
      then show ?thesis using "1.prems" p by (subst (1 2 3) drainReturns.simps) (simp add: heap_peek_pop)
    next
      case False
      have "ev_index e \<notin> D" "books T (insert (ev_index e) D) (l\<lparr>lg_returns := rest\<rparr>)"
        using popReturn_books [OF "1.prems"(1) p] False "1.prems"(2) by simp_all
      then show ?thesis
        using "1.IH" [of e "(e, rest)" e rest "insert (ev_index e) D"] p False "1.prems"
        by (subst (1 2 3) drainReturns.simps) (simp add: heap_peek_pop)
    qed
  qed
qed

text \<open>The errors that the pods or their receipts bring in.\<close>

definition pod_error :: "car_error option \<Rightarrow> bool" where
  "pod_error e = (case e of Some (NativeSubmission _ _) \<Rightarrow> True | Some InvalidRequestID \<Rightarrow> True | _ \<Rightarrow> False)"

lemma onLeg_fields [simp]:
  "cr_Stage (onLeg b f r) = cr_Stage r" "cr_Held (onLeg b f r) = cr_Held r" "cr_Outcome (onLeg b f r) = cr_Outcome r"
  "cr_CarArrivalTick (onLeg b f r) = cr_CarArrivalTick r" "cr_ReturnEligibleTick (onLeg b f r) = cr_ReturnEligibleTick r"
  "legOf b (onLeg b f r) = f (legOf b r)" "onLeg b f (onLeg b g r) = onLeg b (f \<circ> g) r"
  "cr_Outward (onLeg True f r) = cr_Outward r" "cr_Return (onLeg False f r) = cr_Return r"
  "cr_Return (onLeg True f r) = f (cr_Return r)" "cr_Outward (onLeg False f r) = f (cr_Outward r)"
  by (simp_all add: onLeg_def legOf_def)

lemma offer_books:
  assumes books: "books T D l" and T: "0 \<le> T" and i: "i < carCount l"
    and ready: "if returning then i \<in> D else cr_Stage (lg_records l ! i) = ''at-hub'' \<and> tm_arrival (lg_times l ! i) \<le> T"
    and result: "offer pods T i returning (l, s) = (e, l', s')"
  shows "books T (D - {i}) l' \<and> (e = None \<or> pod_error e)"
proof -
  define r where "r = lg_records l ! i"
  define tm where "tm = lg_times l ! i"
  define l1 where "l1 = onRecord i (onLeg returning (leg_OfferedTick_update (\<lambda>_. T))) l"
  have len: "i < length (lg_records l)" using i by (simp add: carCount_def)
  note ph = books_phase [OF books i, folded r_def tm_def]
  note fit = books_times [OF books i, folded tm_def]
  note heaps = books_heaps [OF books]
  have due: "returning \<Longrightarrow> wk_due (work_of D l i)" using ready by (simp add: work_of_def)
  have st: "cr_Stage r = (if returning then ''activity'' else ''at-hub'')"
    using phase_due [OF ph due] ready by (simp add: r_def)
  have work: "work_of D l i = Work {#} {#} {} False returning"
    and leg: "legOf returning r = blankLeg" and held: "cr_Held r" "cr_Outcome r = []"
    and ret: "cr_Return r = blankLeg"
    and out: "returning \<Longrightarrow> out_done tm T r \<and> cr_ReturnEligibleTick r \<le> T"
    and arr: "\<not> returning \<Longrightarrow> cr_CarArrivalTick r = tm_arrival tm \<and> tm_arrival tm \<le> T"
    using phase_activity [OF ph] phase_at_hub [OF ph] st due ready
    by (auto simp: legOf_def tm_def split: if_splits)
  have cars: "cars l i = {#}" "rets l i = {#}" "binds l i = {}" "\<not> waits l i" "(i \<in> D) = returning"
    using work by (simp_all add: work_of_def)
  have ended: "books T (D - {i}) (finish i outcome (refuseLeg i returning reason l1))"
    if "outcome = ''error'' \<or> returning \<and> outcome = ''stranded'' \<and> reason = ''queue-limit''" for outcome reason
  proof (rule books_same [OF books i])
    show "lg_records (finish i outcome (refuseLeg i returning reason l1)) = (lg_records l)[i :=
      (onLeg returning (\<lambda>leg. leg\<lparr>leg_OfferedTick := T, leg_Reason := reason\<rparr>) r)\<lparr>cr_Stage := ''terminal'', cr_Outcome := outcome\<rparr>]"
      using len by (simp add: view_simps l1_def r_def comp_def)
    show "work_of (D - {i}) (finish i outcome (refuseLeg i returning reason l1)) j = work_of D l j" if "j \<noteq> i" for j
      using that by (simp add: work_of_def view_simps l1_def)
    have "work_of (D - {i}) (finish i outcome (refuseLeg i returning reason l1)) i = Work {#} {#} {} False False"
      using cars by (simp add: work_of_def view_simps l1_def)
    then show "phase (lg_times l ! i) T i ((onLeg returning (\<lambda>leg. leg\<lparr>leg_OfferedTick := T, leg_Reason := reason\<rparr>) r)
        \<lparr>cr_Stage := ''terminal'', cr_Outcome := outcome\<rparr>)
      (work_of (D - {i}) (finish i outcome (refuseLeg i returning reason l1)) i)"
      using that held out ret
      by (cases "outcome = ''error''")
        (simp_all add: phase_terminal settled_outcome_def out_done_def blankLeg_def flip: tm_def)
  qed (use len heaps st in \<open>simp_all add: view_simps l1_def r_def\<close>)
  have e0: "\<not> leg_OfferedTick (legOf returning (lg_records l ! i)) \<ge> 0"
    using leg by (simp add: blankLeg_def flip: r_def)
  show ?thesis
  proof (cases "PendingCount pods s \<ge> lg_queueLimit l1")
    case full: True
    show ?thesis
    proof (cases returning)
      case True
      then have "e = None" "l' = finish i ''stranded'' (refuseLeg i returning ''queue-limit'' l1)"
        using result full e0 by (simp_all add: offer_def Let_def l1_def)
      then show ?thesis using ended [of "''stranded''" "''queue-limit''"] True by simp
    next
      case out: False
      define l2 where "l2 = refuseLeg i False ''queue-limit'' l1"
      define l3 where "l3 = pushCar (Event (T + tm_retrieval tm) i ''release'') (onRecord i (cr_Stage_update (\<lambda>_. ''retrieval'')) l2)"
      have "lg_times l2 = lg_times l" by (simp add: l2_def l1_def view_simps)
      then have "startRetrieval i T l2 = (None, l3)"
        using startRetrieval_fits [of l2 i T] fit T books_bound [OF books] by (simp add: tm_def l3_def)
      then have eq: "e = None" "l' = l3"
        using result full e0 out by (simp_all add: offer_def Let_def l2_def l1_def)
      define r' where "r' = r\<lparr>cr_Outward := blankLeg\<lparr>leg_OfferedTick := T, leg_Reason := ''queue-limit''\<rparr>, cr_Stage := ''retrieval''\<rparr>"
      have "books T (D - {i}) l3"
      proof (rule books_same [OF books i, where r' = r'])
        show "lg_records l3 = (lg_records l)[i := r']"
          using len leg out by (simp add: l3_def l2_def l1_def view_simps r'_def onLeg_def legOf_def flip: r_def)
        show "work_of (D - {i}) l3 j = work_of D l j" if "j \<noteq> i" for j
          using that by (simp add: work_of_def view_simps l3_def l2_def l1_def)
        have "work_of (D - {i}) l3 i = Work {#Event (T + tm_retrieval tm) i ''release''#} {#} {} False False"
          using cars by (simp add: work_of_def view_simps l3_def l2_def l1_def)
        then show "phase (lg_times l ! i) T i r' (work_of (D - {i}) l3 i)"
          using held arr [OF out] ret unfolding phase_def
          by (simp add: r'_def journey_over_def out_refused_def retrieval_start_def flip: tm_def)
      qed (use len heaps st out held in \<open>simp_all add: view_simps l3_def l2_def l1_def r'_def heap_push_inv flip: r_def\<close>)
      then show ?thesis by (simp add: eq)
    qed
  next
    case space: False
    obtain reply s2 where reply: "SubmitTripOptions pods (offerOptions l i returning) s = (reply, s2)" by fastforce
    show ?thesis
    proof (cases reply)
      case (Inl m)
      then have "pod_error e" "l' = finish i ''error'' (refuseLeg i returning ''submission-error'' l1)"
        using result space e0 reply by (auto simp: offer_def Let_def pod_error_def l1_def)
      then show ?thesis using ended [of "''error''"] by simp
    next
      case (Inr n)
      show ?thesis
      proof (cases "n \<le> 0 \<or> lg_bindings l1 n \<noteq> None")
        case True
        then have "pod_error e" "l' = finish i ''error'' (refuseLeg i returning ''invalid-receipt'' l1)"
          using result space e0 reply Inr by (auto simp: offer_def Let_def pod_error_def l1_def)
        then show ?thesis using ended [of "''error''"] by simp
      next
        case False
        define stage where "stage = (if returning then ''return-pod'' else ''outward-pod'')"
        define l2 where "l2 = onRecord i (onLeg returning (leg_RequestID_update (\<lambda>_. n))) l1"
        define l3 where "l3 = onRecord i (cr_Stage_update (\<lambda>_. stage))
          (l2\<lparr>lg_bindings := (lg_bindings l)(n \<mapsto> \<lparr>bd_index = i, bd_returning = returning\<rparr>)\<rparr>)"
        have free: "lg_bindings l n = None" using False by (simp add: l1_def view_simps)
        have same: "lg_bindings l2 = lg_bindings l" by (simp add: l2_def l1_def view_simps)
        have eq: "e = None" "l' = l3"
          using result space e0 reply Inr False
          by (auto simp: offer_def Let_def l3_def stage_def same simp flip: l1_def l2_def)
        define r' where "r' = (onLeg returning (\<lambda>leg. leg\<lparr>leg_OfferedTick := T, leg_RequestID := n\<rparr>) r)\<lparr>cr_Stage := stage\<rparr>"
        have "books T (D - {i}) l3"
        proof (rule books_same [OF books i, where r' = r'])
          show "lg_records l3 = (lg_records l)[i := r']"
            using len by (simp add: l3_def l2_def l1_def view_simps r'_def comp_def flip: r_def)
          show "work_of (D - {i}) l3 j = work_of D l j" if "j \<noteq> i" for j
            using that free by (simp add: work_of_def view_simps l3_def l2_def l1_def boundTo_add)
          have "work_of (D - {i}) l3 i = Work {#} {#} {(n, returning)} False False"
            using cars free by (simp add: work_of_def view_simps l3_def l2_def l1_def boundTo_add)
          then show "phase (lg_times l ! i) T i r' (work_of (D - {i}) l3 i)"
            using held out arr ret leg unfolding phase_def
            by (cases returning) (auto simp: r'_def stage_def out_done_def blankLeg_def legOf_def simp flip: tm_def)
        qed (use len heaps st held in \<open>simp_all add: view_simps l3_def l2_def l1_def r'_def stage_def flip: r_def\<close>)
        then show ?thesis by (simp add: eq)
      qed
    qed
  qed
qed

lemma offerAll_books:
  assumes "books T (set js) l" and "0 \<le> T" and "distinct js" and "offerAll pods T js (l, s) = (e, l', s')"
  shows "\<exists>D. books T D l' \<and> (e = None \<and> D = {} \<or> pod_error e)"
  using assms
proof (induction js arbitrary: l s)
  case (Cons i js)
  obtain e1 l1 s1 where r: "offer pods T i True (l, s) = (e1, l1, s1)" by (metis prod_cases3)
  have i: "i < carCount l"
    by (rule ccontr) (use books_idle [OF Cons.prems(1)] in \<open>auto simp: work_of_def\<close>)
  have step: "books T (set (i # js) - {i}) l1 \<and> (e1 = None \<or> pod_error e1)"
    using offer_books [OF Cons.prems(1,2) i _ r] by simp
  have rest: "set (i # js) - {i} = set js" using Cons.prems(3) by auto
  show ?case
  proof (cases e1)
    case None
    then have "offerAll pods T js (l1, s1) = (e, l', s')" using Cons.prems(4) r by (simp add: Let_def)
    with step rest Cons.prems show ?thesis by (intro Cons.IH) auto
  next
    case (Some x)
    then have "e = e1" "l' = l1" using Cons.prems(4) r by (simp_all add: Let_def)
    with step Some show ?thesis by auto
  qed
qed auto

definition kept :: "ledger \<Rightarrow> nat \<times> int \<times> event list" where
  "kept l = (lg_cursor l, lg_lastTick l, lg_returns l)"

lemma kept_fields [simp]:
  "kept (onRecord i f l) = kept l" "kept (onLot k g l) = kept l" "kept (pushCar e l) = kept l"
  "kept (finish i outcome l) = kept l" "kept (l\<lparr>lg_bindings := b\<rparr>) = kept l"
  "kept (l\<lparr>lg_carEvents := es\<rparr>) = kept l" "kept (refuseLeg i returning reason l) = kept l"
  "kept (takeSlot i l) = kept l"
  by (simp_all add: kept_def onRecord_def onLot_def pushCar_def finish_def refuseLeg_def takeSlot_def)

lemma kept_startRetrieval [simp]: "kept (snd (startRetrieval i tick l)) = kept l"
  by (simp add: startRetrieval_def split: sum.split)

lemma kept_offer [simp]: "kept (fst (snd (offer pods tick i returning ls))) = kept (fst ls)"
proof -
  have start: "kept l' = kept l" if "startRetrieval i tick l = (e, l')" for e l l'
    using kept_startRetrieval [of i tick l] that by simp
  show ?thesis
    by (simp add: offer_def Let_def split: prod.split sum.split) (auto dest: start)
qed

lemma kept_finishCar [simp]: "kept (snd (finishCar e l)) = kept l"
  by (simp add: finishCar_def Let_def split: sum.split)

lemma kept_finishCars [simp]: "kept (snd (finishCars tick l)) = kept l"
proof (induction tick l rule: finishCars.induct)
  case (1 tick l)
  then show ?case
    by (subst finishCars.simps) (auto simp: Let_def split: option.split)
qed

lemma event_le_tick: "e \<le> x \<Longrightarrow> ev_tick e \<le> ev_tick x"
  by (auto simp: less_eq_event_def less_event_def)

definition car_none_due :: "int \<Rightarrow> ledger \<Rightarrow> bool" where
  "car_none_due tick l = (\<forall>e\<in>set (lg_carEvents l). tick < ev_tick e)"

lemma finishCars_none_due:
  "books T D l \<Longrightarrow> car_none_due tick (snd (finishCars tick l))"
proof (induction tick l rule: finishCars.induct)
  case (1 tick l)
  note heap = books_heaps(1) [OF 1(2)]
  show ?case
  proof (cases "heap_pop (lg_carEvents l)")
    case None
    then show ?thesis by (subst finishCars.simps) (simp add: heap_peek_def car_none_due_def)
  next
    case (Some p)
    obtain e rest where p: "heap_pop (lg_carEvents l) = Some (e, rest)" using Some by (cases p) simp
    show ?thesis
    proof (cases "ev_tick e > tick")
      case True
      have "tick < ev_tick x" if "x \<in> set (lg_carEvents l)" for x
        using event_le_tick [OF heap_pop_min [OF heap p that]] True by simp
      then show ?thesis using True p by (subst finishCars.simps) (simp add: heap_peek_pop car_none_due_def)
    next
      case False
      have "books T D (snd (finishCar e (l\<lparr>lg_carEvents := rest\<rparr>)))" "fst (finishCar e (l\<lparr>lg_carEvents := rest\<rparr>)) = None"
        using finishCar_books [OF 1(2) p] by simp_all
      then show ?thesis
        using 1(1) [of e "(e, rest)" e rest "finishCar e (l\<lparr>lg_carEvents := rest\<rparr>)"] p False
        by (subst finishCars.simps) (simp add: heap_peek_pop Let_def)
    qed
  qed
qed

lemma drainReturns_none_due:
  assumes "heap_inv (lg_returns l)"
  shows "\<forall>e\<in>set (lg_returns (fst (drainReturns tick l due))). tick < ev_tick e"
  using assms
proof (induction tick l due rule: drainReturns.induct)
  case (1 tick l due)
  show ?case
  proof (cases "heap_pop (lg_returns l)")
    case None
    then show ?thesis by (subst drainReturns.simps) (simp add: heap_peek_def)
  next
    case (Some p)
    obtain e rest where p: "heap_pop (lg_returns l) = Some (e, rest)" using Some by (cases p) simp
    show ?thesis
    proof (cases "ev_tick e > tick")
      case True
      have "tick < ev_tick x" if "x \<in> set (lg_returns l)" for x
        using event_le_tick [OF heap_pop_min [OF "1.prems" p that]] True by simp
      then show ?thesis using True p by (subst drainReturns.simps) (simp add: heap_peek_pop)
    next
      case False
      then show ?thesis
        using "1.IH" [of e "(e, rest)" e rest] p heap_pop_inv [OF "1.prems" p]
        by (subst drainReturns.simps) (simp add: heap_peek_pop)
    qed
  qed
qed
section \<open>Arrivals\<close>

lemma phase_waits:
  assumes "phase tm T i r w" and "wk_waits w"
  shows "ahead_of_hub r \<and> (cr_Stage r = ''planned'' \<and> w = Work {#Event (tm_departure tm) i ''departure''#} {#} {} True False \<or>
    cr_Stage r = ''car-out'' \<and> w = Work {#} {#} {} True False)"
  using assms unfolding phase_def by (elim disjE conjE) auto

lemma arriving_car:
  assumes books: "books T {} l" and due: "car_none_due T l" and at: "lg_cursor l < length (lg_arrivals l)"
    and i: "i = lg_arrivals l ! lg_cursor l" and arrival: "tm_arrival (lg_times l ! i) \<le> T"
  shows "i < carCount l" and "ahead_of_hub (lg_records l ! i)" and "cr_Stage (lg_records l ! i) = ''car-out''"
    and "cars l i = {#}" and "rets l i = {#}" and "binds l i = {}"
    and "waits (l\<lparr>lg_cursor := lg_cursor l + 1\<rparr>) j = (j \<noteq> i \<and> waits l j)"
proof -
  have frame: "set (lg_arrivals l) \<subseteq> {..<carCount l}" "distinct (lg_arrivals l)"
    using books_frame [OF books] by (simp_all add: frame_ok_def)
  have split: "drop (lg_cursor l) (lg_arrivals l) = i # drop (Suc (lg_cursor l)) (lg_arrivals l)"
    using at i by (simp add: Cons_nth_drop_Suc)
  show n: "i < carCount l" using frame(1) at i nth_mem by fastforce
  have waits: "wk_waits (work_of {} l i)" by (simp add: work_of_def waits_def split)
  have "distinct (drop (lg_cursor l) (lg_arrivals l))" using frame(2) by simp
  then show "waits (l\<lparr>lg_cursor := lg_cursor l + 1\<rparr>) j = (j \<noteq> i \<and> waits l j)"
    unfolding waits_def split by (auto simp: split)
  note ph = phase_waits [OF books_phase [OF books n] waits]
  have "tm_departure (lg_times l ! i) \<le> tm_arrival (lg_times l ! i)"
    using books_times [OF books n] by (simp add: times_fit_def)
  then have "\<not> Event (tm_departure (lg_times l ! i)) i ''departure'' \<in># cars l i"
    using due arrival by (auto simp: cars_def car_none_due_def)
  then have "work_of {} l i \<noteq> Work {#Event (tm_departure (lg_times l ! i)) i ''departure''#} {#} {} True False"
    by (auto simp: work_of_def)
  with ph show "ahead_of_hub (lg_records l ! i)" "cr_Stage (lg_records l ! i) = ''car-out''"
    "cars l i = {#}" "rets l i = {#}" "binds l i = {}"
    by (auto simp: work_of_def)
qed

lemma arriveCar_books:
  assumes books: "books T {} l" and due: "car_none_due T l" and at: "lg_cursor l < length (lg_arrivals l)"
    and i: "i = lg_arrivals l ! lg_cursor l" and arrival: "tm_arrival (lg_times l ! i) \<le> T" and T: "0 \<le> T"
    and result: "arriveCar pods T offers i (l, s) = (e, l', s')"
  shows "books T {} l' \<and> (e = None \<and> car_none_due T l' \<or> pod_error e) \<and> lg_cursor l' = Suc (lg_cursor l) \<and>
    frame l' = frame l \<and> lg_returns l' = lg_returns l \<and> lg_lastTick l' = lg_lastTick l"
proof -
  note car = arriving_car [OF books due at i arrival]
  define r where "r = lg_records l ! i"
  define tm where "tm = lg_times l ! i"
  define l0 where "l0 = l\<lparr>lg_cursor := lg_cursor l + 1\<rparr>"
  define l1 where "l1 = onRecord i (cr_CarArrivalTick_update (\<lambda>_. tm_arrival tm)) l0"
  define k where "k = lotIndex l i"
  define lot where "lot = lg_lots l ! k"
  have len: "i < length (lg_records l)" using car(1) by (simp add: carCount_def)
  have same: "cars l0 j = cars l j" "rets l0 j = rets l j" "binds l0 j = binds l j" "waits l0 j = (j \<noteq> i \<and> waits l j)"
    "lg_records l0 = lg_records l" "lg_lots l0 = lg_lots l" "lg_terminal l0 = lg_terminal l" "lg_times l0 = lg_times l"
    "lg_returns l0 = lg_returns l" "lg_carEvents l0 = lg_carEvents l" "frame l0 = frame l" "lg_horizon l0 = lg_horizon l" for j
    using car(7) by (simp_all add: l0_def view_simps)
  have k: "k < length (lg_lots l)" "lot_ID (ls_Lot lot) = it_Lot (cr_Itinerary r)" "lotIndex l1 i = k"
    using books_frame [OF books] car(1) frame_ok_cong(5) [of l1 l i] same
    by (simp_all add: frame_ok_def k_def lot_def r_def l1_def)
  have lots1: "lg_lots l1 ! k = lot" by (simp add: l1_def view_simps same lot_def)
  have run: "arriveCar pods T offers i (l, s) =
    (if isFull lot then (None, finish i ''full-lot'' l1, s)
     else if \<not> offers then (None, takeSlot i l1, s)
     else case offer pods T i False (takeSlot i l1, s) of
       (Some e, ls) \<Rightarrow> (Some e, ls)
     | (None, l3, s3) \<Rightarrow> (case finishCars T l3 of (e, l4) \<Rightarrow> (e, l4, s3)))"
    unfolding arriveCar_def Let_def prod.case l0_def [symmetric] tm_def [symmetric] l1_def [symmetric] k(3) lots1
    by (rule refl)
  note heaps = books_heaps [OF books]
  have kept: "kept l1 = (Suc (lg_cursor l), lg_lastTick l, lg_returns l)" by (simp add: l1_def) (simp add: kept_def l0_def)
  have fr: "frame l1 = frame l" by (simp add: l1_def same)
  have blank: "ahead_of_hub r" "cr_Stage r = ''car-out''" using car(2,3) by (simp_all add: r_def)
  show ?thesis
  proof (cases "isFull lot")
    case True
    define l2 where "l2 = finish i ''full-lot'' l1"
    define r' where "r' = r\<lparr>cr_CarArrivalTick := tm_arrival tm, cr_Stage := ''terminal'', cr_Outcome := ''full-lot''\<rparr>"
    have eq: "e = None" "l' = l2"
      using result True unfolding run by (simp_all add: l2_def)
    have "books T {} l2"
    proof (rule books_same [OF books car(1), where r' = r'])
      show "work_of {} l2 j = work_of {} l j" if "j \<noteq> i" for j
        using that by (simp add: work_of_def view_simps l2_def l1_def same)
      have "work_of {} l2 i = Work {#} {#} {} False False"
        using car(4-6) by (simp add: work_of_def view_simps l2_def l1_def same)
      then show "phase (lg_times l ! i) T i r' (work_of {} l2 i)"
        using blank(1) by (simp add: phase_terminal r'_def settled_outcome_def ahead_of_hub_def flip: tm_def)
    qed (use len heaps blank in \<open>simp_all add: view_simps l2_def l1_def same r'_def flip: r_def\<close>)
    moreover have "car_none_due T l2" using due by (simp add: car_none_due_def l2_def l1_def view_simps same)
    moreover have "kept l2 = kept l1" "frame l2 = frame l1" by (simp_all add: l2_def)
    ultimately show ?thesis using kept fr eq by (simp add: kept_def)
  next
    case space: False
    define l2 where "l2 = takeSlot i l1"
    define r' where "r' = r\<lparr>cr_CarArrivalTick := tm_arrival tm, cr_Held := True, cr_Stage := ''at-hub''\<rparr>"
    have recs: "lg_records l2 = (lg_records l)[i := r']"
      using len by (simp add: l2_def takeSlot_def l1_def view_simps same r'_def flip: r_def)
    have lots2: "lg_lots l2 = (lg_lots l)[k := lot\<lparr>ls_Occupancy := ls_Occupancy lot + 1,
        ls_Peak := max (ls_Peak lot) (ls_Occupancy lot + 1)\<rparr>]"
      by (simp add: l2_def takeSlot_def view_simps k(3) lots1) (simp add: l1_def view_simps same)
    have books2: "books T {} l2"
    proof (rule books_change [OF books car(1) _ recs])
      show "work_of {} l2 j = work_of {} l j" if "j \<noteq> i" for j
        using that by (simp add: work_of_def view_simps l2_def takeSlot_def l1_def same)
      have "work_of {} l2 i = Work {#} {#} {} False False"
        using car(4-6) by (simp add: work_of_def view_simps l2_def takeSlot_def l1_def same)
      then show "phase (lg_times l ! i) T i r' (work_of {} l2 i)"
        using blank(1) by (simp add: phase_def r'_def ahead_of_hub_def flip: tm_def)
      show "slots_ok l2 q" if q: "q < length (lg_lots l)" for q
      proof (cases "q = k")
        case True
        then show ?thesis
          using books_slots [OF books q] k blank(1) len space
          by (simp add: slots_ok_def Let_def recs lots2 tally_update r'_def ahead_of_hub_def isFull_def flip: lot_def r_def)
      next
        case False
        have "distinct (map (lot_ID \<circ> ls_Lot) (lg_lots l))" using books_frame [OF books] by (simp add: frame_ok_def)
        then have "lot_ID (ls_Lot (lg_lots l ! q)) \<noteq> lot_ID (ls_Lot lot)"
          using False q k(1) by (simp add: distinct_conv_nth lot_def)
        then show ?thesis
          using books_slots [OF books q] False k blank(1) len
          by (simp add: slots_ok_def Let_def recs lots2 tally_update r'_def ahead_of_hub_def flip: r_def)
      qed
    qed (use len heaps blank in \<open>simp_all add: view_simps l2_def takeSlot_def l1_def same r'_def flip: r_def\<close>)
    have none2: "car_none_due T l2" using due by (simp add: car_none_due_def l2_def takeSlot_def l1_def view_simps same)
    have kept2: "kept l2 = kept l1" "frame l2 = frame l" by (simp_all add: l2_def fr)
    show ?thesis
    proof (cases offers)
      case False
      have "e = None" "l' = l2"
        using result space False unfolding run by (simp_all add: l2_def)
      then show ?thesis using books2 none2 kept2 kept by (simp add: kept_def)
    next
      case True
      obtain e3 l3 s3 where o3: "offer pods T i False (l2, s) = (e3, l3, s3)" by (metis prod_cases3)
      have i2: "i < carCount l2" using car(1) frame_ok_cong(2) [OF kept2(2)] by simp
      have hub: "cr_Stage (lg_records l2 ! i) = ''at-hub'' \<and> tm_arrival (lg_times l2 ! i) \<le> T"
        using len arrival frame_ok_cong(3) [OF kept2(2)] by (simp add: recs r'_def)
      have books3: "books T {} l3" "e3 = None \<or> pod_error e3"
        using offer_books [OF books2 T i2 _ o3] hub by simp_all
      have kept3: "kept l3 = kept l1" "frame l3 = frame l"
        using kept_offer [of pods T i False "(l2, s)"] frame_offer [of pods T i False "(l2, s)"] o3 kept2 by simp_all
      define l4 where "l4 = snd (finishCars T l3)"
      have out: "(e, l') = (if e3 = None then (fst (finishCars T l3), l4) else (e3, l3))"
        using result space True o3 unfolding run
        by (auto simp: l2_def l4_def split: option.splits prod.splits)
      have "books T {} l4" "fst (finishCars T l3) = None" "car_none_due T l4" "kept l4 = kept l3" "frame l4 = frame l3"
        using finishCars_books [OF books3(1)] finishCars_none_due [OF books3(1)] by (simp_all add: l4_def)
      then show ?thesis
        using out books3 kept3 kept by (auto simp: kept_def split: if_splits)
    qed
  qed
qed

text \<open>The arrival loop stops at the first car that has not arrived; the cars after it come later still.\<close>

definition arrivals_none_due :: "int \<Rightarrow> ledger \<Rightarrow> bool" where
  "arrivals_none_due tick l = (\<forall>i\<in>set (drop (lg_cursor l) (lg_arrivals l)). tick < tm_arrival (lg_times l ! i))"

lemma arrivals_sorted:
  assumes "frame_ok l" and "lg_cursor l < length (lg_arrivals l)"
    and "tick < tm_arrival (lg_times l ! (lg_arrivals l ! lg_cursor l))"
  shows "arrivals_none_due tick l"
proof -
  have "sorted (map (\<lambda>i. tm_arrival (lg_times l ! i)) (drop (lg_cursor l) (lg_arrivals l)))"
    using assms(1) sorted_wrt_drop unfolding frame_ok_def drop_map [symmetric] by blast
  moreover have "drop (lg_cursor l) (lg_arrivals l) = lg_arrivals l ! lg_cursor l # drop (Suc (lg_cursor l)) (lg_arrivals l)"
    using assms(2) by (simp add: Cons_nth_drop_Suc)
  ultimately show ?thesis using assms(3) by (auto simp: arrivals_none_due_def)
qed

lemma arriveCars_books:
  assumes "books T {} l" and "car_none_due T l" and "0 \<le> T" and "carsAfterCursor l \<le> fuel"
    and "arriveCars pods T offers fuel (l, s) = (e, l', s')"
  shows "books T {} l' \<and> (e = None \<and> car_none_due T l' \<and> arrivals_none_due T l' \<or> pod_error e) \<and>
    frame l' = frame l \<and> lg_returns l' = lg_returns l \<and> lg_lastTick l' = lg_lastTick l"
  using assms
proof (induction fuel arbitrary: l s)
  case 0
  then show ?case by (auto simp: carsAfterCursor_def arrivals_none_due_def)
next
  case (Suc fuel)
  show ?case
  proof (cases "lg_cursor l < length (lg_arrivals l)")
    case False
    then show ?thesis using Suc.prems by (auto simp: arrivals_none_due_def)
  next
    case at: True
    show ?thesis
    proof (cases "tm_arrival (lg_times l ! (lg_arrivals l ! lg_cursor l)) \<le> T")
      case False
      then have "arrivals_none_due T l"
        using arrivals_sorted [OF books_frame [OF Suc.prems(1)] at] by simp
      then show ?thesis using Suc.prems False by auto
    next
      case arrival: True
      obtain e1 l1 s1 where r: "arriveCar pods T offers (lg_arrivals l ! lg_cursor l) (l, s) = (e1, l1, s1)"
        by (metis prod_cases3)
      note one = arriveCar_books [OF Suc.prems(1,2) at refl arrival Suc.prems(3) r]
      show ?thesis
      proof (cases e1)
        case (Some x)
        then have "e = e1" "l' = l1" using Suc.prems(5) r at arrival by (simp_all add: Let_def)
        then show ?thesis using one Some by auto
      next
        case None
        have "lg_arrivals l1 = lg_arrivals l" using one by (intro frame_ok_cong(7)) simp
        then have "carsAfterCursor l1 \<le> fuel" using one Suc.prems(4) by (simp add: carsAfterCursor_def)
        moreover have "arriveCars pods T offers fuel (l1, s1) = (e, l', s')"
          using Suc.prems(5) r at arrival None by (simp add: Let_def)
        ultimately have "books T {} l' \<and> (e = None \<and> car_none_due T l' \<and> arrivals_none_due T l' \<or> pod_error e) \<and>
            frame l' = frame l1 \<and> lg_returns l' = lg_returns l1 \<and> lg_lastTick l' = lg_lastTick l1"
          using one None Suc.prems(3) by (intro Suc.IH) (auto simp: pod_error_def)
        then show ?thesis using one by simp
      qed
    qed
  qed
qed

section \<open>A tick\<close>

lemma books_clock:
  assumes "books T D l" and "T \<le> T'" and "T' \<le> MaxHorizonTicks"
  shows "books T' D (l\<lparr>lg_lastTick := t\<rparr>)"
proof -
  have fr: "frame (l\<lparr>lg_lastTick := t\<rparr>) = frame l" by simp
  have "car_ok T' D (l\<lparr>lg_lastTick := t\<rparr>) i" for i
  proof -
    have "car_ok T D l i" using assms(1) by (simp add: books_def)
    then have "car_ok T' D l i" using assms(2) by (auto simp: car_ok_def intro: phase_mono split: if_splits)
    then show ?thesis by (intro car_ok_other [OF fr]) (simp_all add: work_of_def view_simps)
  qed
  then have "\<forall>i. car_ok T' D (l\<lparr>lg_lastTick := t\<rparr>) i" by (rule allI)
  moreover have "frame_ok (l\<lparr>lg_lastTick := t\<rparr>)" using assms(1) frame_ok_cong(1) [OF fr] by (simp add: books_def)
  moreover have "slots_ok (l\<lparr>lg_lastTick := t\<rparr>) k" if "slots_ok l k" for k using that by (simp add: slots_ok_def)
  ultimately show ?thesis using assms(1,3) by (simp add: books_def)
qed

lemma kept_complete: "lg_lastTick (snd (complete tick c l)) = lg_lastTick l"
proof -
  have s: "lg_lastTick (snd (startRetrieval i t l)) = lg_lastTick l" for i t l
    using kept_startRetrieval [of i t l] by (simp add: kept_def)
  have o: "lg_lastTick (onRecord i f l) = lg_lastTick l" "lg_lastTick (pushReturn e l) = lg_lastTick l" for i f e l
    by (simp_all add: onRecord_def pushReturn_def)
  show ?thesis by (simp add: complete_def Let_def s o split: option.split sum.split)
qed

lemma completeAll_lastTick: "lg_lastTick (snd (completeAll tick cs l)) = lg_lastTick l"
  by (induction cs arbitrary: l) (simp_all add: Let_def kept_complete)

lemma completeAll_frame: "frame (snd (completeAll tick cs l)) = frame l"
  by (induction cs arbitrary: l) (simp_all add: Let_def)

definition nothing_due :: "int \<Rightarrow> ledger \<Rightarrow> bool" where
  "nothing_due tick l =
    (car_none_due tick l \<and> arrivals_none_due tick l \<and>
     (tick < lg_horizon l \<longrightarrow> (\<forall>e\<in>set (lg_returns l). tick < ev_tick e)))"

definition outside_error :: "car_error option \<Rightarrow> bool" where
  "outside_error e = (pod_error e \<or> e = Some InvalidUnloadingTick)"

lemma drainReturns_shape: "\<exists>es. fst (drainReturns tick l due) = l\<lparr>lg_returns := es\<rparr>"
proof (induction tick l due rule: drainReturns.induct)
  case (1 tick l due)
  show ?case
  proof (cases "heap_pop (lg_returns l)")
    case None
    then show ?thesis by (subst drainReturns.simps) (auto simp: heap_peek_def intro: exI [of _ "lg_returns l"])
  next
    case (Some p)
    obtain e rest where p: "heap_pop (lg_returns l) = Some (e, rest)" using Some by (cases p) simp
    show ?thesis
    proof (cases "ev_tick e > tick")
      case True
      then show ?thesis using p by (subst drainReturns.simps) (auto simp: heap_peek_pop intro: exI [of _ "lg_returns l"])
    next
      case False
      then show ?thesis
        using "1.IH" [of e "(e, rest)" e rest] p
        by (subst drainReturns.simps) (simp add: heap_peek_pop)
    qed
  qed
qed

lemma offer_returning_cars: "lg_carEvents (fst (snd (offer pods tick i True ls))) = lg_carEvents (fst ls)"
  by (simp add: offer_def Let_def view_simps split: prod.split sum.split)

lemma offerAll_same:
  "offerAll pods tick js ls = (e, ls') \<Longrightarrow>
    frame (fst ls') = frame (fst ls) \<and> kept (fst ls') = kept (fst ls) \<and> lg_carEvents (fst ls') = lg_carEvents (fst ls)"
proof (induction js arbitrary: ls)
  case (Cons i js)
  show ?case
  proof (cases "fst (offer pods tick i True ls)")
    case None
    then have "offerAll pods tick js (snd (offer pods tick i True ls)) = (e, ls')" using Cons.prems by (simp add: Let_def)
    then show ?thesis using Cons.IH by (simp add: offer_returning_cars)
  next
    case (Some x)
    then have "offer pods tick i True ls = (e, ls')" using Cons.prems by (simp add: Let_def)
    then have "snd (offer pods tick i True ls) = ls'" by simp
    then show ?thesis
      using frame_offer [of pods tick i True ls] kept_offer [of pods tick i True ls] offer_returning_cars [of pods tick i ls]
      by simp
  qed
qed simp

lemma offerReturns_books:
  assumes books: "books T {} l" and T: "0 \<le> T" and result: "offerReturns pods T (l, s) = (e, l', s')"
  shows "(\<exists>D. books T D l' \<and> (e = None \<and> D = {} \<or> pod_error e)) \<and> frame l' = frame l \<and>
    lg_lastTick l' = lg_lastTick l \<and> lg_carEvents l' = lg_carEvents l \<and> (\<forall>e\<in>set (lg_returns l'). T < ev_tick e)"
proof -
  obtain l1 due where d: "drainReturns T l [] = (l1, due)" by fastforce
  have o: "offerAll pods T (sort due) (l1, s) = (e, l', s')" using result d by (simp add: offerReturns_def)
  have "books T (set due) l1" "distinct due"
    using drainReturns_books [OF books order_refl, of "[]"] d by simp_all
  then have books1: "\<exists>D. books T D l' \<and> (e = None \<and> D = {} \<or> pod_error e)"
    by (intro offerAll_books [OF _ T _ o]) simp_all
  obtain es where "l1 = l\<lparr>lg_returns := es\<rparr>" using drainReturns_shape [of T l "[]"] d by auto
  then have same1: "frame l1 = frame l" "lg_lastTick l1 = lg_lastTick l" "lg_carEvents l1 = lg_carEvents l" by simp_all
  have "\<forall>e\<in>set (lg_returns l1). T < ev_tick e"
    using drainReturns_none_due [OF books_heaps(2) [OF books], of T "[]"] d by simp
  moreover have "frame l' = frame l1" "kept l' = kept l1" "lg_carEvents l' = lg_carEvents l1"
    using offerAll_same [OF o] by simp_all
  ultimately show ?thesis using books1 same1 by (simp add: kept_def)
qed

text \<open>
  One tick on the books. It is refused outside the consecutive run bound; otherwise the pods or
  their completions fail it, or it succeeds and leaves nothing that was due.
\<close>

lemma advance_cases:
  assumes books: "books (lg_lastTick l) {} l"
    and result: "advance pods tick cs (l, s) = (e, l', s')"
  shows "e = Some TickOutsideRun \<and> l' = l \<and> \<not> (lg_lastTick l \<le> tick \<and> tick \<le> lg_lastTick l + 1 \<and> 0 \<le> tick \<and> tick \<le> lg_horizon l) \<or>
    lg_lastTick l \<le> tick \<and> tick \<le> lg_lastTick l + 1 \<and> 0 \<le> tick \<and> tick \<le> lg_horizon l \<and>
    frame l' = frame l \<and> lg_lastTick l' = tick \<and>
    (e = None \<and> books tick {} l' \<and> nothing_due tick l' \<or> outside_error e \<and> (\<exists>D. books tick D l'))"
proof (cases "tick < lg_lastTick l \<or> tick > lg_lastTick l + 1 \<or> tick < 0 \<or> tick > lg_horizon l")
  case True
  then have "e = Some TickOutsideRun" "l' = l" using result unfolding advance_def prod.case if_P [OF True] by simp_all
  then show ?thesis using True by auto
next
  case False
  define l0 where "l0 = l\<lparr>lg_lastTick := tick\<rparr>"
  define l1 where "l1 = snd (completeAll tick cs l0)"
  define l2 where "l2 = snd (finishCars tick l1)"
  define offers where "offers = (tick < lg_horizon l)"
  have tick: "lg_lastTick l \<le> tick" "tick \<le> lg_lastTick l + 1" "0 \<le> tick" "tick \<le> lg_horizon l" using False by auto
  have "tick \<le> MaxHorizonTicks" using tick books_frame [OF books] by (simp add: frame_ok_def)
  then have books0: "books tick {} l0" unfolding l0_def using books_clock [OF books tick(1)] by simp
  have fr0: "frame l0 = frame l" "lg_lastTick l0 = tick" "lg_horizon l0 = lg_horizon l" by (simp_all add: l0_def)
  have books1: "books tick {} l1" "fst (completeAll tick cs l0) \<in> {None, Some InvalidUnloadingTick}"
    using completeAll_books [OF books0] by (simp_all add: l1_def)
  have fr1: "frame l1 = frame l" "lg_lastTick l1 = tick"
    by (simp_all add: l1_def completeAll_frame completeAll_lastTick fr0)
  have books2: "books tick {} l2" "fst (finishCars tick l1) = None" "car_none_due tick l2"
    using finishCars_books [OF books1(1)] finishCars_none_due [OF books1(1)] by (simp_all add: l2_def)
  have fr2: "frame l2 = frame l" "lg_lastTick l2 = tick"
    using kept_finishCars [of tick l1] fr1 by (simp_all add: l2_def kept_def)
  have run: "advance pods tick cs (l, s) =
    (if fst (completeAll tick cs l0) \<noteq> None then (fst (completeAll tick cs l0), l1, s)
     else if fst (finishCars tick l1) \<noteq> None then (fst (finishCars tick l1), l2, s)
     else let r3 = (if offers then offerReturns pods tick (l2, s) else (None, l2, s)) in
       if fst r3 \<noteq> None then r3 else arriveCars pods tick offers (carsAfterCursor (fst (snd r3))) (snd r3))"
    unfolding advance_def prod.case if_not_P [OF False] Let_def l0_def [symmetric] l1_def [symmetric] l2_def [symmetric]
      offers_def [symmetric] by (rule refl)
  show ?thesis
  proof (cases "fst (completeAll tick cs l0)")
    case (Some x)
    then have "e = Some InvalidUnloadingTick" "l' = l1" using result books1(2) unfolding run by auto
    then show ?thesis using books1(1) fr1 tick by (auto simp: outside_error_def)
  next
    case ok1: None
    obtain e3 l3 s3 where r3: "(if offers then offerReturns pods tick (l2, s) else (None, l2, s)) = (e3, l3, s3)"
      by (metis prod_cases3)
    have step3: "(\<exists>D. books tick D l3 \<and> (e3 = None \<and> D = {} \<or> pod_error e3)) \<and> frame l3 = frame l \<and>
      lg_lastTick l3 = tick \<and> lg_carEvents l3 = lg_carEvents l2 \<and> (offers \<longrightarrow> (\<forall>e\<in>set (lg_returns l3). tick < ev_tick e))"
    proof (cases offers)
      case True
      then show ?thesis using offerReturns_books [OF books2(1) tick(3)] r3 fr2 by simp
    next
      case False
      then show ?thesis using r3 fr2 books2(1) by auto
    qed
    then have none3: "car_none_due tick l3" and rets3: "offers \<Longrightarrow> \<forall>e\<in>set (lg_returns l3). tick < ev_tick e"
      using books2(3) by (simp_all add: car_none_due_def)
    have rest: "(e, l', s') = (if e3 \<noteq> None then (e3, l3, s3) else arriveCars pods tick offers (carsAfterCursor l3) (l3, s3))"
      using result ok1 books2(2) unfolding run r3 Let_def by auto
    show ?thesis
    proof (cases e3)
      case (Some x)
      then have "e = e3" "l' = l3" using rest by simp_all
      then show ?thesis using step3 Some tick by (auto simp: outside_error_def)
    next
      case None
      then have books3: "books tick {} l3" using step3 by (auto simp: pod_error_def)
      have "arriveCars pods tick offers (carsAfterCursor l3) (l3, s3) = (e, l', s')" using rest None by simp
      note arrive = arriveCars_books [OF books3 none3 tick(3) order_refl this]
      then have "frame l' = frame l" "lg_lastTick l' = tick" "lg_horizon l' = lg_horizon l" "lg_returns l' = lg_returns l3"
        using step3 by (simp_all add: frame_def)
      then show ?thesis
        using arrive rets3 None tick by (auto simp: outside_error_def nothing_due_def offers_def)
    qed
  qed
qed

section \<open>The first ledger\<close>

lemma indexLots_other: "i \<notin> lot_ID ` set lots \<Longrightarrow> indexLots k lots m i = m i"
  by (induction lots arbitrary: k m) auto

lemma indexLots_nth:
  "distinct (map lot_ID lots) \<Longrightarrow> j < length lots \<Longrightarrow> indexLots k lots m (lot_ID (lots ! j)) = Some (k + j)"
proof (induction lots arbitrary: k m j)
  case (Cons lot lots)
  then show ?case by (cases j) (auto simp: indexLots_other)
qed simp

lemma filter_index_upt:
  "filter_mset (\<lambda>e. ev_index e = i) (mset (map (\<lambda>i. Event (f i) i k) [0..<n])) = (if i < n then {#Event (f i) i k#} else {#})"
  by (induction n) auto

lemma plan_times_fit:
  assumes "plan_valid n plan" and "i < length (pl_Itineraries plan)"
  shows "times_fit (compiledTimes (pl_Itineraries plan ! i))"
proof -
  have "pl_Itineraries plan ! i \<in> set (pl_Itineraries plan)" using assms(2) by simp
  then have "is_ok (compileTimes (pl_Itineraries plan ! i))"
    using assms(1) unfolding plan_valid_def trip_valid_def by blast
  then obtain tm where tm: "compileTimes (pl_Itineraries plan ! i) = Inr tm" by (auto simp: is_ok_ex)
  then have "times_fit tm" unfolding compileTimes_iff by blast
  then show ?thesis using tm by (simp add: compiledTimes_def)
qed

lemma newLedger_fields:
  "lg_records (newLedger plan q h) = map plannedRecord (pl_Itineraries plan)"
  "lg_times (newLedger plan q h) = map compiledTimes (pl_Itineraries plan)"
  "lg_lots (newLedger plan q h) = map (\<lambda>lot. \<lparr>ls_Lot = lot, ls_Occupancy = 0, ls_Peak = 0\<rparr>) (pl_Lots plan)"
  "lg_arrivals (newLedger plan q h) =
    sort_key (\<lambda>i. tm_arrival (map compiledTimes (pl_Itineraries plan) ! i)) [0..<length (pl_Itineraries plan)]"
  "lg_horizon (newLedger plan q h) = h" "lg_returns (newLedger plan q h) = []" "lg_terminal (newLedger plan q h) = 0"
  "lg_cursor (newLedger plan q h) = 0" "lg_bindings (newLedger plan q h) = Map.empty"
  by (simp_all add: newLedger_def Let_def)

lemma new_frame:
  assumes valid: "plan_valid n plan" and h: "0 \<le> horizon" "horizon \<le> MaxHorizonTicks"
  shows "frame_ok (newLedger plan q horizon)"
proof -
  let ?l = "newLedger plan q horizon"
  let ?its = "pl_Itineraries plan"
  have count: "carCount ?l = length ?its" by (simp add: carCount_def newLedger_def Let_def)
  have ids: "distinct (map lot_ID (pl_Lots plan))" using valid by (simp add: plan_valid_def)
  have "lotIndex ?l i < length (lg_lots ?l) \<and>
    lot_ID (ls_Lot (lg_lots ?l ! lotIndex ?l i)) = it_Lot (cr_Itinerary (lg_records ?l ! i))" if i: "i < length ?its" for i
  proof -
    have "trip_valid n (set (pl_Lots plan)) (?its ! i)" using valid i by (simp add: plan_valid_def)
    then obtain lot where "lot \<in> set (pl_Lots plan)" "lot_ID lot = it_Lot (?its ! i)"
      by (auto simp: trip_valid_def)
    then obtain j where j: "j < length (pl_Lots plan)" "lot_ID (pl_Lots plan ! j) = it_Lot (?its ! i)"
      by (auto simp: in_set_conv_nth)
    have "lotIndex ?l i = j"
      using indexLots_nth [OF ids j(1), of 0 Map.empty] j(2) i
      by (simp add: lotIndex_def newLedger_def Let_def plannedRecord_def)
    then show ?thesis using j i by (simp add: newLedger_def Let_def plannedRecord_def)
  qed
  moreover have "distinct (map (lot_ID \<circ> ls_Lot) (lg_lots ?l))"
    using ids by (simp add: newLedger_def Let_def comp_def)
  moreover have "set (lg_arrivals ?l) \<subseteq> {..<length ?its}" unfolding newLedger_fields by auto
  moreover have "sorted (map (\<lambda>i. tm_arrival (lg_times ?l ! i)) (lg_arrivals ?l))"
    unfolding newLedger_fields by (rule sorted_sort_key)
  moreover have "distinct (lg_arrivals ?l)" "length (lg_times ?l) = length ?its"
    unfolding newLedger_fields by simp_all
  moreover have "times_fit (lg_times ?l ! i)" if "i < length ?its" for i
    using plan_times_fit [OF valid that] that by (simp add: newLedger_fields)
  ultimately show ?thesis
    unfolding frame_ok_def count using h by (simp add: newLedger_fields(5))
qed

lemma new_books:
  assumes valid: "plan_valid n plan" and h: "0 \<le> horizon" "horizon \<le> MaxHorizonTicks"
  shows "books (- 1) {} (newLedger plan q horizon)"
proof -
  let ?l = "newLedger plan q horizon"
  let ?its = "pl_Itineraries plan"
  let ?times = "map compiledTimes ?its"
  let ?events = "map (\<lambda>i. Event (tm_departure (?times ! i)) i ''departure'') [0..<length ?times]"
  have count: "carCount ?l = length ?its" by (simp add: carCount_def newLedger_def Let_def)
  have events: "lg_carEvents ?l = heap_init ?events" by (simp add: newLedger_def Let_def)
  have cars: "cars ?l i = (if i < length ?its then {#Event (tm_departure (?times ! i)) i ''departure''#} else {#})" for i
    unfolding cars_def events using heap_init_inv [of ?events] filter_index_upt [of i _ _ "length ?times"] by simp
  have car: "car_ok (- 1) {} ?l i" for i
  proof (cases "i < length ?its")
    case True
    then show ?thesis
      unfolding car_ok_def count work_of_def cars
      by (simp add: newLedger_def Let_def rets_def binds_def boundTo_def waits_def phase_def plannedRecord_def ahead_of_hub_def)
  next
    case False
    then show ?thesis
      unfolding car_ok_def count work_of_def cars
      by (simp add: newLedger_def Let_def rets_def binds_def boundTo_def waits_def)
  qed
  have slots: "slots_ok ?l k" if "k < length (lg_lots ?l)" for k
  proof -
    have k: "k < length (pl_Lots plan)" using that by (simp add: newLedger_def Let_def)
    then have "0 \<le> lot_Capacity (pl_Lots plan ! k)" using valid by (simp add: plan_valid_def lot_valid_def)
    moreover have "tally (\<lambda>r. cr_Held r \<and> Q r) (map plannedRecord ?its) = 0" for Q
      by (simp add: tally_def plannedRecord_def filter_empty_conv)
    ultimately show ?thesis using k by (simp add: slots_ok_def newLedger_def Let_def)
  qed
  have "tally (\<lambda>r. cr_Stage r = ''terminal'') (map plannedRecord ?its) = 0"
    by (simp add: tally_def plannedRecord_def filter_empty_conv)
  then have "lg_terminal ?l = tally (\<lambda>r. cr_Stage r = ''terminal'') (lg_records ?l)"
    by (simp add: newLedger_def Let_def)
  moreover have "heap_inv (lg_carEvents ?l)" "heap_inv (lg_returns ?l)"
    using heap_init_inv [of ?events] unfolding events by (simp_all add: newLedger_def Let_def heap_ordered_def)
  moreover have "\<forall>i. car_ok (- 1) {} ?l i" using car by (rule allI)
  moreover have "(- 1 :: int) \<le> MaxHorizonTicks" by (simp add: MaxHorizonTicks_def TicksPerSecond_def)
  ultimately show ?thesis
    using new_frame [OF assms] slots unfolding books_def by blast
qed

section \<open>Histories\<close>

text \<open>
  The ledgers that successful ticks reach from a normalized plan. The pods may change between two
  ticks in any way, and report any completions.
\<close>

inductive car_history :: "'s podService \<Rightarrow> Network \<Rightarrow> ledger \<Rightarrow> bool" for pods n where
  start: "normalizePlan given n = Inr plan \<Longrightarrow> 0 \<le> horizon \<Longrightarrow> horizon \<le> MaxHorizonTicks \<Longrightarrow>
    car_history pods n (newLedger plan queueLimit horizon)"
| tick: "car_history pods n l \<Longrightarrow> advance pods tick completions (l, s) = (None, l', s') \<Longrightarrow> car_history pods n l'"

lemma history_books: "car_history pods n l \<Longrightarrow> books (lg_lastTick l) {} l"
proof (induction rule: car_history.induct)
  case (start given plan horizon q)
  have "plan_valid n plan" using start(1) unfolding normalizePlan_cases by auto
  then have "books (- 1) {} (newLedger plan q horizon)" using start(2,3) by (rule new_books)
  then show ?case by (simp add: newLedger_def Let_def)
next
  case (tick l t cs s l' s')
  then show ?case using advance_cases [OF tick.IH tick.hyps(2)] by (auto simp: outside_error_def pod_error_def)
qed

lemma history_frame_horizon: "car_history pods n l \<Longrightarrow> 0 \<le> lg_horizon l \<and> lg_horizon l \<le> MaxHorizonTicks"
  using history_books books_frame by (fastforce simp: frame_ok_def)

lemma advance_books_any:
  assumes "car_history pods n l" and "advance pods tick cs (l, s) = (e, l', s')"
  shows "\<exists>T D. books T D l'"
  using advance_cases [OF history_books [OF assms(1)] assms(2)] history_books [OF assms(1)] by blast


end
