(* ===== verification/ParkRideTheorems.thy ===== *)
theory ParkRideTheorems
  imports ParkRideHistory
begin

text \<open>
  The properties of a park-and-ride run: the accepted plans, the lots, the errors, the order of a
  journey and the end of a run, each with a concrete plan of one car.
\<close>

section \<open>The clock of the native pods\<close>

text \<open>A function of the state of the pods that a submission does not change stays through a tick.\<close>

lemma offer_keeps:
  assumes "\<And>options s. f (snd (SubmitTripOptions pods options s)) = f s"
  shows "f (snd (snd (offer pods tick i returning ls))) = f (snd ls)"
proof -
  have sub: "f s' = f s" if "SubmitTripOptions pods options s = (a, s')" for options s a s'
    using assms [of options s] that by simp
  show ?thesis
    by (simp add: offer_def Let_def split: prod.split sum.split) (auto dest: sub)
qed

lemma offerAll_keeps:
  assumes f: "\<And>options s. f (snd (SubmitTripOptions pods options s)) = f s"
  shows "f (snd (snd (offerAll pods tick js ls))) = f (snd ls)"
proof (induction js arbitrary: ls)
  case (Cons i js)
  then show ?case using offer_keeps [of f, OF f] by (simp add: Let_def)
qed simp

lemma offerReturns_keeps:
  assumes f: "\<And>options s. f (snd (SubmitTripOptions pods options s)) = f s"
  shows "f (snd (snd (offerReturns pods tick ls))) = f (snd ls)"
  using offerAll_keeps [of f, OF f] by (simp add: offerReturns_def split: prod.split)

lemma arriveCar_keeps:
  assumes f: "\<And>options s. f (snd (SubmitTripOptions pods options s)) = f s"
  shows "f (snd (snd (arriveCar pods tick offers i ls))) = f (snd ls)"
proof -
  have o: "f s' = f s" if "offer pods tick i returning (l, s) = (e, l', s')" for returning l s e l' s'
    using offer_keeps [of f, OF f, of tick i returning "(l, s)"] that by simp
  show ?thesis
    by (simp add: arriveCar_def Let_def split: prod.split option.split) (auto dest: o)
qed

lemma arriveCars_keeps:
  assumes f: "\<And>options s. f (snd (SubmitTripOptions pods options s)) = f s"
  shows "f (snd (snd (arriveCars pods tick offers fuel (l, s)))) = f s"
proof (induction fuel arbitrary: l s)
  case (Suc fuel)
  obtain e l1 s1 where r: "arriveCar pods tick offers (lg_arrivals l ! lg_cursor l) (l, s) = (e, l1, s1)"
    by (metis prod_cases3)
  then have "f s1 = f s"
    using arriveCar_keeps [of f, OF f, of tick offers "lg_arrivals l ! lg_cursor l" "(l, s)"] by simp
  then show ?case using Suc [of l1 s1] by (simp add: Let_def r)
qed simp

lemma advance_keeps:
  assumes f: "\<And>options s. f (snd (SubmitTripOptions pods options s)) = f s"
    and result: "advance pods tick cs (l, s) = (e, l', s')"
  shows "f s' = f s"
proof -
  have two: "f (snd (snd (if b then offerReturns pods tick ls else (None, ls)))) = f (snd ls)" for b ls
    using offerReturns_keeps [of f, OF f] by simp
  have three: "f (snd (snd (arriveCars pods tick offers fuel ls))) = f (snd ls)" for offers fuel ls
    using arriveCars_keeps [of f, OF f] by (cases ls) simp
  have "f (snd (snd (advance pods tick cs (l, s)))) = f s"
    unfolding advance_def prod.case Let_def using two three by (simp del: split_paired_All)
  then show ?thesis using result by simp
qed

section \<open>Runs\<close>

definition clock_kept :: "'s nativePods \<Rightarrow> bool" where
  "clock_kept native =
    (\<forall>options s. np_Tick native (snd (SubmitTripOptions (np_service native) options s)) = np_Tick native s)"

definition run_ok :: "'s nativePods \<Rightarrow> Network \<Rightarrow> 's Run \<Rightarrow> bool" where
  "run_ok native n r =
    (case run_fault r of
       Some NoSingleTick \<Rightarrow> True
     | Some (LedgerFault e) \<Rightarrow> outside_error (Some e)
     | None \<Rightarrow> car_history (np_service native) n (run_ledger r) \<and>
         lg_lastTick (run_ledger r) = np_Tick native (run_pods r) \<and> lg_horizon (run_ledger r) = run_horizonTicks r)"

lemma runAdvance_ok:
  assumes clock: "clock_kept native" and ok: "car_history (np_service native) n (run_ledger r)"
    and tick: "np_Tick native (run_pods r) = lg_lastTick (run_ledger r) + 1" "0 \<le> np_Tick native (run_pods r)"
      "np_Tick native (run_pods r) \<le> lg_horizon (run_ledger r)" and h: "lg_horizon (run_ledger r) = run_horizonTicks r"
  shows "run_ok native n (runAdvance native cs r) \<and> run_horizonTicks (runAdvance native cs r) = run_horizonTicks r \<and>
    np_Tick native (run_pods (runAdvance native cs r)) = np_Tick native (run_pods r)"
proof -
  obtain e l s where a: "advance (np_service native) (np_Tick native (run_pods r)) cs (run_ledger r, run_pods r) = (e, l, s)"
    by (metis prod_cases3)
  have "np_Tick native s = np_Tick native (run_pods r)"
    using advance_keeps [OF _ a, of "np_Tick native"] clock by (simp add: clock_kept_def)
  moreover have "lg_horizon l = lg_horizon (run_ledger r)" "lg_lastTick l = np_Tick native (run_pods r)"
      "e = None \<or> outside_error e"
    using advance_cases [OF history_books [OF ok] a] tick by (auto simp: frame_def)
  moreover have "e = None \<Longrightarrow> car_history (np_service native) n l"
    using car_history.tick [OF ok] a by blast
  ultimately show ?thesis
    using h by (auto simp: runAdvance_def a run_ok_def split: option.split)
qed

lemma Step_ok:
  assumes clock: "clock_kept native" and ok: "run_ok native n r" and pos: "0 \<le> np_Tick native (run_pods r)"
  shows "run_ok native n (snd (Step native r)) \<and> run_horizonTicks (snd (Step native r)) = run_horizonTicks r \<and>
    (Done native r \<and> snd (Step native r) = r \<or> run_fault (snd (Step native r)) \<noteq> None \<or>
     np_Tick native (run_pods (snd (Step native r))) = np_Tick native (run_pods r) + 1)"
proof (cases "run_fault r")
  case (Some f)
  then show ?thesis using ok by (simp add: Step_def Done_def)
next
  case fine: None
  show ?thesis
  proof (cases "Done native r")
    case True
    then show ?thesis using ok fine by (simp add: Step_def)
  next
    case False
    define r1 where "r1 = r\<lparr>run_pods := np_Step native (run_pods r)\<rparr>"
    show ?thesis
    proof (cases "np_Tick native (run_pods r1) = np_Tick native (run_pods r) + 1")
      case jump: False
      then have "Step native r = (Some NoSingleTick, r1\<lparr>run_fault := Some NoSingleTick\<rparr>)"
        using fine False by (simp add: Step_def Let_def r1_def)
      then show ?thesis by (simp add: run_ok_def r1_def)
    next
      case one: True
      have old: "car_history (np_service native) n (run_ledger r)" "lg_lastTick (run_ledger r) = np_Tick native (run_pods r)"
        "lg_horizon (run_ledger r) = run_horizonTicks r"
        using ok fine by (simp_all add: run_ok_def)
      have "np_Tick native (run_pods r) < run_horizonTicks r" using False by (simp add: Done_def)
      then have "run_ok native n (runAdvance native (np_StepCompletions native (run_pods r1)) r1) \<and>
        run_horizonTicks (runAdvance native (np_StepCompletions native (run_pods r1)) r1) = run_horizonTicks r1 \<and>
        np_Tick native (run_pods (runAdvance native (np_StepCompletions native (run_pods r1)) r1)) = np_Tick native (run_pods r1)"
        using one old pos by (intro runAdvance_ok [OF clock]) (simp_all add: r1_def)
      moreover have "snd (Step native r) = runAdvance native (np_StepCompletions native (run_pods r1)) r1"
        using fine False one by (simp add: Step_def Let_def r1_def)
      ultimately show ?thesis using one by (simp add: r1_def)
    qed
  qed
qed

lemma NewRun_ok:
  assumes clock: "clock_kept native" and tick: "np_Tick native pods = 0"
    and new: "NewRun native pods given n horizonTicks queueLimit = Inr r"
  shows "run_ok native n r \<and> run_horizonTicks r = horizonTicks \<and> np_Tick native (run_pods r) = 0"
proof -
  obtain plan where plan: "normalizePlan given n = Inr plan" and h: "1 \<le> horizonTicks" "horizonTicks \<le> MaxHorizonTicks"
    and r: "r = runAdvance native [] \<lparr>run_pods = pods, run_ledger = newLedger plan queueLimit horizonTicks,
      run_horizonTicks = horizonTicks, run_fault = None\<rparr>"
    using new tick by (auto simp: NewRun_def Let_def runAdvance_def split: if_splits sum.splits prod.splits)
  have "car_history (np_service native) n (newLedger plan queueLimit horizonTicks)"
    using plan h by (intro car_history.start) auto
  then show ?thesis
    unfolding r using runAdvance_ok [OF clock, of n "\<lparr>run_pods = pods, run_ledger = newLedger plan queueLimit horizonTicks,
      run_horizonTicks = horizonTicks, run_fault = None\<rparr>"] tick h
    by (simp add: newLedger_def Let_def)
qed

lemma steps_ok:
  assumes clock: "clock_kept native" and tick: "np_Tick native pods = 0"
    and new: "NewRun native pods given n horizonTicks queueLimit = Inr r"
  defines "run \<equiv> \<lambda>k. ((\<lambda>r. snd (Step native r)) ^^ k) r"
  shows "run_ok native n (run k) \<and> run_horizonTicks (run k) = horizonTicks \<and>
    (Done native (run k) \<or> np_Tick native (run_pods (run k)) = int k)"
proof (induction k)
  case 0
  then show ?case using NewRun_ok [OF clock tick new] by (simp add: run_def)
next
  case (Suc k)
  have next_run: "run (Suc k) = snd (Step native (run k))" by (simp add: run_def)
  show ?case
  proof (cases "Done native (run k)")
    case True
    then have "snd (Step native (run k)) = run k" by (simp add: Step_def split: option.split)
    then show ?thesis using Suc True by (simp add: next_run)
  next
    case False
    then have "np_Tick native (run_pods (run k)) = int k" using Suc by simp
    then show ?thesis
      using Step_ok [OF clock, of n "run k"] Suc False by (auto simp: next_run Done_def)
  qed
qed

section \<open>A concrete day\<close>

definition carNetwork :: Network where
  "carNetwork =
    (let station = \<lambda>i. \<lparr>st_VehicleClasses = 1, st_ID = i, st_Name = i, st_Entry = ''e'', st_Exit = ''x'',
       st_Berths = [], st_ParkingOnly = False, st_Banks = None\<rparr>
     in \<lparr>net_Nodes = [], net_Lanes = [], net_Stations = [station ''hub'', station ''town''],
         net_ManeuverGroups = [], net_Depots = []\<rparr>)"

definition carPlan :: Plan where
  "carPlan = \<lparr>pl_Lots = [\<lparr>lot_ID = ''lot'', lot_Hub = ''hub'', lot_Capacity = 1\<rparr>],
    pl_Itineraries = [\<lparr>it_ID = ''a'', it_CarID = ''car'', it_Lot = ''lot'', it_Destination = ''town'', it_CarSeats = 4,
      it_PartySize = 2, it_SharingConsent = ''private'', it_DepartureSeconds = 0, it_OutwardSeconds = 0,
      it_ReturnNotBeforeSeconds = 0, it_ActivitySeconds = 0, it_RetrievalSeconds = 0, it_HomeboundSeconds = 0,
      it_OutwardRefusal = ''drive-home'', it_ReturnRefusal = ''retain-car''\<rparr>]\<rparr>"

definition carService :: "(int \<times> int) podService" where
  "carService = \<lparr>PendingCount = (\<lambda>_. 0), SubmitTripOptions = (\<lambda>_ (n, t). (Inr (n + 1), n + 1, t))\<rparr>"

text \<open>The pods of the example accept every order and unload the last one a tick later.\<close>

definition carPods :: "(int \<times> int) nativePods" where
  "carPods = \<lparr>np_Tick = snd, np_Step = (\<lambda>(n, t). (n, t + 1)),
    np_StepCompletions = (\<lambda>(n, t). [\<lparr>cc_RequestID = n, cc_AlightedTick = t\<rparr>]), np_service = carService\<rparr>"

definition carTick0 :: "car_error option \<times> ledger \<times> int \<times> int" where
  "carTick0 = advance carService 0 [] (newLedger carPlan 5 100, 0, 0)"

definition carTick1 :: "car_error option \<times> ledger \<times> int \<times> int" where
  "carTick1 = advance carService 1 [\<lparr>cc_RequestID = 1, cc_AlightedTick = 1\<rparr>] (snd carTick0)"

definition carTick2 :: "car_error option \<times> ledger \<times> int \<times> int" where
  "carTick2 = advance carService 2 [\<lparr>cc_RequestID = 2, cc_AlightedTick = 2\<rparr>] (snd carTick1)"

lemma carPlan_normal: "normalizePlan carPlan carNetwork = Inr carPlan"
  by code_simp

lemma carTicks_fine: "fst carTick0 = None" "fst carTick1 = None" "fst carTick2 = None"
  by code_simp+

lemma advance_fine:
  "fst (advance pods tick cs (l, s)) = None \<Longrightarrow> car_history pods n l \<Longrightarrow>
    car_history pods n (fst (snd (advance pods tick cs (l, s))))"
  by (rule car_history.tick [of pods n l tick cs s _ "snd (snd (advance pods tick cs (l, s)))"]) (auto intro: prod_eqI)

lemma car_day:
  "car_history carService carNetwork (newLedger carPlan 5 100)"
  "car_history carService carNetwork (fst (snd carTick0))"
  "car_history carService carNetwork (fst (snd carTick1))"
  "car_history carService carNetwork (fst (snd carTick2))"
proof -
  show h0: "car_history carService carNetwork (newLedger carPlan 5 100)"
    by (rule car_history.start [OF carPlan_normal]) (simp_all add: MaxHorizonTicks_def TicksPerSecond_def)
  show h1: "car_history carService carNetwork (fst (snd carTick0))"
    using advance_fine [OF carTicks_fine(1) [unfolded carTick0_def] h0] by (simp add: carTick0_def)
  have e1: "carTick1 = advance carService 1 [\<lparr>cc_RequestID = 1, cc_AlightedTick = 1\<rparr>] (fst (snd carTick0), snd (snd carTick0))"
    by (simp add: carTick1_def)
  show h2: "car_history carService carNetwork (fst (snd carTick1))"
    using advance_fine [OF carTicks_fine(2) [unfolded e1] h1] by (simp add: e1)
  have e2: "carTick2 = advance carService 2 [\<lparr>cc_RequestID = 2, cc_AlightedTick = 2\<rparr>] (fst (snd carTick1), snd (snd carTick1))"
    by (simp add: carTick2_def)
  show "car_history carService carNetwork (fst (snd carTick2))"
    using advance_fine [OF carTicks_fine(3) [unfolded e2] h2] by (simp add: e2)
qed

lemma carPods_clock: "clock_kept carPods"
  by (simp add: clock_kept_def carPods_def carService_def)

text \<open>Pods that answer every order with a bad ID.\<close>

definition mutePods :: "(int \<times> int) nativePods" where
  "mutePods = carPods\<lparr>np_service := \<lparr>PendingCount = (\<lambda>_. 0), SubmitTripOptions = (\<lambda>_ s. (Inr 0, s))\<rparr>\<rparr>"

lemma mutePods_clock: "clock_kept mutePods"
  by (simp add: clock_kept_def mutePods_def)

section \<open>Properties\<close>

text \<open>
  C23. A plan is accepted exactly when it meets the declarative rules: distinct bounded IDs, lots at
  passenger stations, parties that fit their car, known policies, and times that convert. The
  result holds the same lots and itineraries, sorted by ID, with the missing consent filled in.
\<close>

theorem normalizePlan_accepts:
  "normalizePlan plan n = Inr p \<longleftrightarrow> plan_valid n plan \<and> p = sorted_plan plan"
  by (rule normalizePlan_cases)

text \<open>The normal form of a plan is accepted again and does not change.\<close>

lemma normalizePlan_idem:
  assumes "normalizePlan plan n = Inr p"
  shows "normalizePlan p n = Inr p"
  using assms unfolding normalizePlan_cases by auto

theorem normalizePlan_idem_witness: "normalizePlan carPlan carNetwork = Inr carPlan \<and>
    normalizePlan carPlan carNetwork = Inr (sorted_plan carPlan)"
  using normalizePlan_idem [OF carPlan_normal] carPlan_normal normalizePlan_cases [of carPlan carNetwork carPlan] by simp

text \<open>
  C9. In every history of the car ledger, and after every further tick, even one that fails, each
  lot counts exactly the cars that hold one of its slots, and it never holds more cars than its
  capacity; the peak bounds the occupancy.
\<close>

theorem car_lots_conserved:
  assumes "car_history pods n l" and "advance pods tick completions (l, s) = (e, l', s')"
    and "k < length (lg_lots l')"
  defines "lot \<equiv> lg_lots l' ! k"
  shows "ls_Occupancy lot = tally (\<lambda>r. cr_Held r \<and> it_Lot (cr_Itinerary r) = lot_ID (ls_Lot lot)) (lg_records l') \<and>
    0 \<le> ls_Occupancy lot \<and> ls_Occupancy lot \<le> ls_Peak lot \<and> ls_Peak lot \<le> lot_Capacity (ls_Lot lot)"
proof -
  obtain T D where "books T D l'" using advance_books_any [OF assms(1,2)] by blast
  then have "slots_ok l' k" using assms(3) by (rule books_slots)
  then show ?thesis by (simp add: slots_ok_def Let_def lot_def)
qed

theorem car_lots_conserved_witness:
  "ls_Occupancy (lg_lots (fst (snd carTick1)) ! 0) = 1 \<and> ls_Occupancy (lg_lots (fst (snd carTick2)) ! 0) = 0 \<and>
   0 \<le> ls_Occupancy (lg_lots (fst (snd carTick2)) ! 0)"
proof -
  have a: "advance carService 2 [\<lparr>cc_RequestID = 2, cc_AlightedTick = 2\<rparr>] (fst (snd carTick1), snd (snd carTick1)) =
      (fst carTick2, fst (snd carTick2), snd (snd carTick2))"
    by (simp add: carTick2_def)
  have one: "ls_Occupancy (lg_lots (fst (snd carTick1)) ! 0) = 1" by code_simp
  have len: "0 < length (lg_lots (fst (snd carTick2)))" by code_simp
  have zero: "ls_Occupancy (lg_lots (fst (snd carTick2)) ! 0) = 0" by code_simp
  show ?thesis using car_lots_conserved [OF car_day(3) a len] one zero by simp
qed

text \<open>
  C15. A tick fails only from outside: it is refused exactly outside the consecutive run bound, and
  otherwise the pods refuse an order, return a bad request ID, or report an unloading at an
  impossible tick. No leg is offered twice, no car leaves a slot that it does not hold, no lot goes
  below zero, no event kind is unknown, and no tick sum overflows.
\<close>

theorem car_errors_outside:
  assumes "car_history pods n l" and "advance pods tick completions (l, s) = (e, l', s')"
  shows "e \<notin> {Some AlreadyOffered, Some NoHeldSlot, Some NegativeOccupancy, Some UnknownCarEvent, Some TickSum} \<and>
    (e = Some TickOutsideRun \<longleftrightarrow>
      \<not> (lg_lastTick l \<le> tick \<and> tick \<le> lg_lastTick l + 1 \<and> 0 \<le> tick \<and> tick \<le> lg_horizon l))"
  using advance_cases [OF history_books [OF assms(1)] assms(2)] by (auto simp: outside_error_def pod_error_def)

theorem car_errors_outside_witness:
  "fst (advance carService 7 [] (fst (snd carTick2), 0, 0)) = Some TickOutsideRun \<and>
   fst (advance carService 3 [] (fst (snd carTick2), 0, 0)) \<noteq> Some NoHeldSlot"
proof -
  have split: "advance carService t [] (l, s) = (fst (advance carService t [] (l, s)),
    fst (snd (advance carService t [] (l, s))), snd (snd (advance carService t [] (l, s))))" for t l s
    by simp
  have last: "lg_lastTick (fst (snd carTick2)) = 2" by code_simp
  show ?thesis
    using car_errors_outside [OF car_day(4) split, of 7] car_errors_outside [OF car_day(4) split, of 3]
    by (simp add: last)
qed

text \<open>
  A tick that succeeds leaves no car event, no arrival and, before the horizon, no return
  that was due at the tick.
\<close>

lemma car_nothing_due:
  assumes "car_history pods n l" and "advance pods tick completions (l, s) = (None, l', s')"
  shows "(\<forall>event\<in>set (lg_carEvents l'). tick < ev_tick event) \<and>
    (\<forall>i\<in>set (drop (lg_cursor l') (lg_arrivals l')). tick < tm_arrival (lg_times l' ! i)) \<and>
    (tick < lg_horizon l' \<longrightarrow> (\<forall>event\<in>set (lg_returns l'). tick < ev_tick event))"
  using advance_cases [OF history_books [OF assms(1)] assms(2)]
  by (auto simp: outside_error_def pod_error_def nothing_due_def car_none_due_def arrivals_none_due_def)

theorem car_nothing_due_witness:
  "filter (\<lambda>event. ev_tick event \<le> 2) (lg_carEvents (fst (snd carTick2)) @ lg_returns (fst (snd carTick2))) = []"
proof -
  have a: "advance carService 2 [\<lparr>cc_RequestID = 2, cc_AlightedTick = 2\<rparr>] (fst (snd carTick1), snd (snd carTick1)) =
      (None, fst (snd carTick2), snd (snd carTick2))"
    using carTicks_fine(3) by (simp add: carTick2_def prod_eq_iff)
  have "2 < lg_horizon (fst (snd carTick2))" by code_simp
  then show ?thesis using car_nothing_due [OF car_day(3) a] by (auto simp: filter_empty_conv)
qed

text \<open>
  C21. A completed journey is in order: the car arrives before its party is offered a pod, the party
  alights, stays for its activity and for the earliest return, rides back, and the car is retrieved
  and driven home for exactly its authored times. The reported door-to-door time is the whole of it,
  and the slot is free again.
\<close>

theorem completed_journey:
  assumes "car_history pods n l" and "i < length (lg_records l)"
  defines "r \<equiv> lg_records l ! i" and "tm \<equiv> lg_times l ! i"
  assumes "cr_Outcome r = ''completed''"
  shows "\<not> cr_Held r \<and> tm_departure tm \<le> tm_arrival tm \<and> cr_CarArrivalTick r = tm_arrival tm \<and>
    tm_arrival tm \<le> leg_OfferedTick (cr_Outward r) \<and>
    leg_OfferedTick (cr_Outward r) \<le> leg_AlightedTick (cr_Outward r) \<and>
    cr_ReturnEligibleTick r = max (leg_AlightedTick (cr_Outward r) + tm_activity tm) (tm_notBefore tm) \<and>
    cr_ReturnEligibleTick r \<le> leg_OfferedTick (cr_Return r) \<and>
    leg_OfferedTick (cr_Return r) \<le> leg_AlightedTick (cr_Return r) \<and>
    cr_CarReleaseTick r = leg_AlightedTick (cr_Return r) + tm_retrieval tm \<and>
    cr_HomeArrivalTick r = cr_CarReleaseTick r + tm_homebound tm \<and>
    cr_DoorToDoorTicks r = Some (cr_HomeArrivalTick r - tm_departure tm)"
proof -
  note books = history_books [OF assms(1)]
  have i: "i < carCount l" using assms(2) by (simp add: carCount_def)
  have "settled_outcome tm (lg_lastTick l) r"
    using books_phase [OF books i] assms(5) unfolding phase_def r_def tm_def
    by (elim disjE conjE) (simp_all add: ahead_of_hub_def)
  moreover have "tm_departure tm \<le> tm_arrival tm"
    using books_times [OF books i] by (simp add: times_fit_def tm_def)
  ultimately show ?thesis
    using assms(5) by (auto simp: settled_outcome_def out_done_def ret_done_def driven_home_def retrieval_start_def)
qed

theorem completed_journey_witness:
  "cr_Outcome (lg_records (fst (snd carTick2)) ! 0) = ''completed'' \<and>
   cr_DoorToDoorTicks (lg_records (fst (snd carTick2)) ! 0) = Some (2 - 0) \<and>
   \<not> cr_Held (lg_records (fst (snd carTick2)) ! 0)"
proof -
  have len: "0 < length (lg_records (fst (snd carTick2)))" by code_simp
  have out: "cr_Outcome (lg_records (fst (snd carTick2)) ! 0) = ''completed''" by code_simp
  have home: "cr_HomeArrivalTick (lg_records (fst (snd carTick2)) ! 0) = 2" by code_simp
  have dep: "tm_departure (lg_times (fst (snd carTick2)) ! 0) = 0" by code_simp
  show ?thesis using completed_journey [OF car_day(4) len out] out home dep by simp
qed

text \<open>
  C26. A run ends: after as many steps as the horizon has ticks it is done, whatever the pods do,
  so long as a submission does not move their clock.
\<close>

theorem run_finishes:
  assumes "clock_kept native" and "np_Tick native pods = 0"
    and "NewRun native pods given n horizonTicks queueLimit = Inr r"
  shows "Done native (((\<lambda>r. snd (Step native r)) ^^ nat horizonTicks) r)"
proof -
  have "0 \<le> horizonTicks" using assms(3) by (auto simp: NewRun_def split: if_splits)
  then show ?thesis
    using steps_ok [OF assms, of "nat horizonTicks"] by (auto simp: Done_def)
qed

theorem run_finishes_witness:
  "Done carPods (((\<lambda>r. snd (Step carPods r)) ^^ 3) (projr (NewRun carPods (0, 0) carPlan carNetwork 3 5))) \<and>
   \<not> Done carPods (projr (NewRun carPods (0, 0) carPlan carNetwork 3 5))"
proof -
  have "is_ok (NewRun carPods (0, 0) carPlan carNetwork 3 5)" by code_simp
  then have new: "NewRun carPods (0, 0) carPlan carNetwork 3 5 = Inr (projr (NewRun carPods (0, 0) carPlan carNetwork 3 5))"
    by simp
  have "np_Tick carPods (0, 0) = 0" by (simp add: carPods_def)
  note run_finishes [OF carPods_clock this new]
  moreover have "nat 3 = 3" by simp
  moreover have "\<not> Done carPods (projr (NewRun carPods (0, 0) carPlan carNetwork 3 5))" by code_simp
  ultimately show ?thesis by simp
qed

text \<open>
  C40. A fault of a run comes from the pods: they did not advance one tick, refused an order,
  returned a bad request ID, or reported an unloading at an impossible tick. The ledger never
  refuses a tick of the run and never meets an internal error.
\<close>

theorem run_faults_outside:
  assumes "clock_kept native" and "np_Tick native pods = 0"
    and "NewRun native pods given n horizonTicks queueLimit = Inr r"
    and "run_fault (((\<lambda>r. snd (Step native r)) ^^ k) r) = Some fault"
  shows "case fault of NoSingleTick \<Rightarrow> True
    | LedgerFault e \<Rightarrow> e = InvalidUnloadingTick \<or> e = InvalidRequestID \<or> (\<exists>i m. e = NativeSubmission i m)"
proof -
  have "run_ok native n (((\<lambda>r. snd (Step native r)) ^^ k) r)" using steps_ok [OF assms(1-3)] by blast
  then show ?thesis
    using assms(4) by (auto simp: run_ok_def outside_error_def pod_error_def split: run_fault.splits car_error.splits)
qed

theorem run_faults_outside_witness:
  "run_fault (projr (NewRun mutePods (0, 0) carPlan carNetwork 3 5)) = Some (LedgerFault InvalidRequestID)"
proof -
  have "is_ok (NewRun mutePods (0, 0) carPlan carNetwork 3 5)" by code_simp
  then have new: "NewRun mutePods (0, 0) carPlan carNetwork 3 5 = Inr (projr (NewRun mutePods (0, 0) carPlan carNetwork 3 5))"
    by simp
  have tick: "np_Tick mutePods (0, 0) = 0" by (simp add: mutePods_def carPods_def)
  have fault: "run_fault (((\<lambda>r. snd (Step mutePods r)) ^^ 0) (projr (NewRun mutePods (0, 0) carPlan carNetwork 3 5))) =
    Some (LedgerFault InvalidRequestID)"
    by code_simp
  show ?thesis using run_faults_outside [OF mutePods_clock tick new fault] fault by simp
qed

end
